(* ===== verification/Prelude.thy ===== *)
theory Prelude
  imports Main "HOL-Library.Word"
begin

text \<open>
  Shared vocabulary of the development: the collections of rewrite rules the component
  theories add to and use, the names of the C types the test programs work on, and the
  generic facts about lists and integers that several components need.
\<close>

named_theorems prog_simps "rules that execute a modelled program step by step"
named_theorems env_simps "what a concrete environment answers"
named_theorems code_defs "definitions of program bodies, unfolded to execute them"

type_synonym cint = int      \<comment> \<open>a C \<open>int\<close> (values of 32 bits, see \<open>to_int32\<close> in CLib)\<close>
type_synonym status = int    \<comment> \<open>the status word that \<open>wait\<close> and \<open>pip_wait\<close> store\<close>
type_synonym tid = nat       \<comment> \<open>index of a task in a system of tasks\<close>

section \<open>First non-zero element\<close>

text \<open>
  The drivers keep the first non-zero exit value of their tasks and forget the later ones.
\<close>

definition keep_first :: "int \<Rightarrow> int \<Rightarrow> int" where
  "keep_first err extval = (if err = 0 \<and> extval \<noteq> 0 then extval else err)"

fun first_nonzero :: "int list \<Rightarrow> int" where
  "first_nonzero [] = 0"
| "first_nonzero (x # xs) = (if x \<noteq> 0 then x else first_nonzero xs)"

lemma first_nonzero_append:
  "first_nonzero (xs @ ys) = (if first_nonzero xs \<noteq> 0 then first_nonzero xs else first_nonzero ys)"
  by (induction xs) auto

lemma first_nonzero_snoc: "first_nonzero (xs @ [x]) = keep_first (first_nonzero xs) x"
  by (simp add: first_nonzero_append keep_first_def)

lemma foldl_keep_first: "foldl keep_first e xs = (if e \<noteq> 0 then e else first_nonzero xs)"
  by (induction xs arbitrary: e) (auto simp: keep_first_def)

lemma first_nonzero_0_iff: "first_nonzero xs = 0 \<longleftrightarrow> (\<forall>x\<in>set xs. x = 0)"
  by (induction xs) auto

lemma first_nonzero_mem: "first_nonzero xs = 0 \<or> first_nonzero xs \<in> set xs"
  by (induction xs) auto

text \<open>The value kept after the elements \<open>0, ..., i - 1\<close> of a sequence.\<close>

definition kept :: "(int \<Rightarrow> int) \<Rightarrow> int \<Rightarrow> int" where
  "kept f i = first_nonzero (map f [0..i - 1])"

lemma kept_0 [simp]: "kept f 0 = 0"
  by (simp add: kept_def)

lemma kept_Suc: "0 \<le> i \<Longrightarrow> kept f (i + 1) = keep_first (kept f i) (f i)"
  by (simp add: kept_def upto_rec2 first_nonzero_snoc del: upto.simps)

lemma kept_0_iff: "kept f n = 0 \<longleftrightarrow> (\<forall>i. 0 \<le> i \<and> i < n \<longrightarrow> f i = 0)"
  by (auto simp: kept_def first_nonzero_0_iff)

section \<open>Integer ranges and remainders\<close>

lemma int_mod_range:
  assumes "0 \<le> (i::int)" "0 < n"
  shows "0 \<le> i mod n" "i mod n < n"
  using assms by simp_all

end
