(* ===== verification/CLib.thy ===== *)
theory CLib
  imports Prelude
begin

text \<open>
  The part of the C library the test programs use as pure functions, as the C standard,
  POSIX and Linux/glibc define it: conversion to \<open>int\<close>, \<open>strtol\<close> in base ten, \<open>%d\<close> and
  \<open>%8d\<close> formatting, case-insensitive comparison, the status-word macros of
  \<open>sys/wait.h\<close>, error and signal numbers.
\<close>

unbundle bit_operations_syntax

section \<open>Integers\<close>

text \<open>Storing a \<open>long\<close> in an \<open>int\<close> keeps its low 32 bits, read as two's complement.\<close>

definition to_int32 :: "int \<Rightarrow> cint" where
  "to_int32 x = (x + 2 ^ 31) mod 2 ^ 32 - 2 ^ 31"

lemma to_int32_range: "- (2 ^ 31) \<le> to_int32 x \<and> to_int32 x < 2 ^ 31"
  by (auto simp: to_int32_def)

lemma to_int32_id: "- (2 ^ 31) \<le> x \<Longrightarrow> x < 2 ^ 31 \<Longrightarrow> to_int32 x = x"
  by (simp add: to_int32_def)

lemma to_int32_word: "to_int32 x = sint (word_of_int x :: 32 word)"
proof -
  have "sint (word_of_int x :: 32 word) = signed_take_bit 31 x"
    by transfer simp
  then show ?thesis
    by (simp add: to_int32_def signed_take_bit_eq_take_bit_shift take_bit_eq_mod)
qed

text \<open>The operators \<open>%\<close> and \<open>/\<close> of C, which round towards zero.\<close>

definition c_rem :: "int \<Rightarrow> int \<Rightarrow> int" where
  "c_rem a b = (if a < 0 then - ((- a) mod \<bar>b\<bar>) else a mod \<bar>b\<bar>)"

definition c_div :: "int \<Rightarrow> int \<Rightarrow> int" where
  "c_div a b = sgn a * sgn b * (\<bar>a\<bar> div \<bar>b\<bar>)"

lemma c_rem_nonneg: "0 \<le> a \<Longrightarrow> 0 < b \<Longrightarrow> c_rem a b = a mod b"
  by (simp add: c_rem_def)

lemma c_div_nonneg: "0 \<le> a \<Longrightarrow> 0 < b \<Longrightarrow> c_div a b = a div b"
  by (cases "a = 0") (simp_all add: c_div_def)

section \<open>Characters and strings\<close>

definition isspace :: "char \<Rightarrow> bool" where
  "isspace c = (c = CHR '' '' \<or> 9 \<le> (of_char c :: nat) \<and> (of_char c :: nat) \<le> 13)"

definition isdigit :: "char \<Rightarrow> bool" where
  "isdigit c = (48 \<le> (of_char c :: nat) \<and> (of_char c :: nat) \<le> 57)"

definition digit_val :: "char \<Rightarrow> int" where
  "digit_val c = of_char c - 48"

definition tolower :: "char \<Rightarrow> char" where
  "tolower c = (if 65 \<le> (of_char c :: nat) \<and> (of_char c :: nat) \<le> 90
     then char_of ((of_char c :: nat) + 32) else c)"

text \<open>\<open>strcasecmp (a, b) == 0\<close>, and \<open>strncasecmp (a, b, n) == 0\<close>.\<close>

definition strcaseeq :: "string \<Rightarrow> string \<Rightarrow> bool" where
  "strcaseeq a b = (map tolower a = map tolower b)"

definition strncaseeq :: "string \<Rightarrow> string \<Rightarrow> nat \<Rightarrow> bool" where
  "strncaseeq a b n = strcaseeq (take n a) (take n b)"

text \<open>Rules that evaluate the character functions on literals.\<close>

lemmas char_eval = tolower_def isspace_def isdigit_def digit_val_def char_of_def bit_0 bit_Suc_0_iff

section \<open>strtol in base ten\<close>

definition LONG_MAX :: int where "LONG_MAX = 2 ^ 63 - 1"
definition LONG_MIN :: int where "LONG_MIN = - (2 ^ 63)"

fun strtol_digits :: "int \<Rightarrow> string \<Rightarrow> int" where
  "strtol_digits acc [] = acc"
| "strtol_digits acc (c # cs) =
     (if isdigit c then strtol_digits (10 * acc + digit_val c) cs else acc)"

fun strtol_signed :: "string \<Rightarrow> int" where
  "strtol_signed [] = 0"
| "strtol_signed (c # cs) =
     (if c = CHR ''-'' then - strtol_digits 0 cs
      else if c = CHR ''+'' then strtol_digits 0 cs
      else strtol_digits 0 (c # cs))"

definition strtol :: "string \<Rightarrow> int" where
  "strtol s = max LONG_MIN (min LONG_MAX (strtol_signed (dropWhile isspace s)))"

text \<open>\<open>int x = strtol (s, NULL, 10)\<close>: what every test program does with its arguments.\<close>

definition atoi32 :: "string \<Rightarrow> cint" where
  "atoi32 s = to_int32 (strtol s)"

lemmas strtol_eval = atoi32_def to_int32_def strtol_def LONG_MAX_def LONG_MIN_def char_eval

section \<open>Decimal output\<close>

fun show_nat :: "nat \<Rightarrow> string" where
  "show_nat n = (if n < 10 then [char_of (48 + n)]
     else show_nat (n div 10) @ [char_of (48 + n mod 10)])"

declare show_nat.simps [simp del]

definition show_int :: "int \<Rightarrow> string" where
  "show_int i = (if i < 0 then CHR ''-'' # show_nat (nat (- i)) else show_nat (nat i))"

definition pad_left :: "nat \<Rightarrow> string \<Rightarrow> string" where
  "pad_left w s = replicate (w - length s) CHR '' '' @ s"

lemma of_char_digit: "(n::nat) < 10 \<Longrightarrow> (of_char (char_of (48 + n) :: char) :: nat) = 48 + n"
  by (simp add: of_char_of)

lemma isdigit_show_digit: "(n::nat) < 10 \<Longrightarrow> isdigit (char_of (48 + n))"
  by (simp add: isdigit_def of_char_digit)

lemma digit_val_show_digit: "(n::nat) < 10 \<Longrightarrow> digit_val (char_of (48 + n)) = int n"
proof -
  assume "n < 10"
  then have "(of_char (char_of (48 + n) :: char) :: nat) = 48 + n" by (rule of_char_digit)
  then have "(of_char (char_of (48 + n) :: char) :: int) = int (48 + n)"
    by (metis of_nat_of_char)
  then show ?thesis by (simp add: digit_val_def)
qed

lemma strtol_digits_append:
  "(\<And>c. c \<in> set xs \<Longrightarrow> isdigit c) \<Longrightarrow>
     strtol_digits acc (xs @ ys) = strtol_digits (strtol_digits acc xs) ys"
  by (induction xs arbitrary: acc) auto

lemma show_nat_isdigit: "c \<in> set (show_nat n) \<Longrightarrow> isdigit c"
proof (induction n rule: show_nat.induct)
  case (1 n)
  then show ?case
    by (subst (asm) show_nat.simps) (auto simp: isdigit_show_digit split: if_splits)
qed

lemma strtol_digits_show_nat: "strtol_digits 0 (show_nat n) = int n"
proof (induction n rule: show_nat.induct)
  case (1 n)
  show ?case
  proof (cases "n < 10")
    case True
    then show ?thesis
      by (simp add: show_nat.simps [of n] isdigit_show_digit digit_val_show_digit)
  next
    case False
    then have "strtol_digits 0 (show_nat n)
        = strtol_digits (int (n div 10)) [char_of (48 + n mod 10)]"
      using 1 by (simp add: show_nat.simps [of n] strtol_digits_append show_nat_isdigit)
    also have "\<dots> = 10 * int (n div 10) + int (n mod 10)"
      by (simp add: isdigit_show_digit digit_val_show_digit)
    also have "\<dots> = int n" by presburger
    finally show ?thesis .
  qed
qed

lemma show_nat_nonempty: "show_nat n \<noteq> []"
  by (subst show_nat.simps) simp

lemma show_nat_Cons: "show_nat n = c # cs \<Longrightarrow> isdigit c"
  using show_nat_isdigit [of c n] by simp

lemma isdigit_not_sign: "isdigit c \<Longrightarrow> c \<noteq> CHR ''-'' \<and> c \<noteq> CHR ''+'' \<and> \<not> isspace c"
  by (auto simp: isdigit_def isspace_def)

lemma strtol_signed_show_nat: "strtol_signed (show_nat n) = int n"
proof (cases "show_nat n")
  case Nil
  then show ?thesis by (simp add: show_nat_nonempty)
next
  case (Cons c cs)
  then show ?thesis
    using isdigit_not_sign [OF show_nat_Cons [OF Cons]] strtol_digits_show_nat [of n] by simp
qed

lemma strtol_show_int:
  assumes "LONG_MIN \<le> i" "i \<le> LONG_MAX"
  shows "strtol (show_int i) = i"
proof (cases "i < 0")
  case True
  have "dropWhile isspace (show_int i) = CHR ''-'' # show_nat (nat (- i))"
    using True by (simp add: show_int_def isspace_def)
  then have "strtol_signed (dropWhile isspace (show_int i)) = i"
    using True by (simp add: strtol_digits_show_nat)
  then show ?thesis using assms by (simp add: strtol_def)
next
  case False
  obtain c cs where c: "show_nat (nat i) = c # cs"
    using show_nat_nonempty by (cases "show_nat (nat i)") auto
  then have "dropWhile isspace (show_int i) = show_nat (nat i)"
    using False isdigit_not_sign [OF show_nat_Cons [OF c]] by (simp add: show_int_def)
  then have "strtol_signed (dropWhile isspace (show_int i)) = i"
    using False by (simp add: strtol_signed_show_nat)
  then show ?thesis using assms by (simp add: strtol_def)
qed

lemma atoi32_show_int:
  assumes "- (2 ^ 31) \<le> i" "i < 2 ^ 31"
  shows "atoi32 (show_int i) = i"
proof -
  have "LONG_MIN \<le> i" "i \<le> LONG_MAX"
    using assms by (simp_all add: LONG_MIN_def LONG_MAX_def)
  then show ?thesis
    using assms by (simp add: atoi32_def strtol_show_int to_int32_id)
qed

section \<open>The status word of wait\<close>

text \<open>The macros of glibc's \<open>bits/waitstatus.h\<close>.\<close>

definition WTERMSIG :: "status \<Rightarrow> int" where
  "WTERMSIG s = s AND 0x7f"

definition WEXITSTATUS :: "status \<Rightarrow> int" where
  "WEXITSTATUS s = drop_bit 8 (s AND 0xff00)"

definition WIFEXITED :: "status \<Rightarrow> bool" where
  "WIFEXITED s = (WTERMSIG s = 0)"

definition WIFSIGNALED :: "status \<Rightarrow> bool" where
  "WIFSIGNALED s = (WTERMSIG s \<noteq> 0 \<and> WTERMSIG s \<noteq> 0x7f)"

text \<open>The status words the kernel stores for a task that called \<open>exit\<close> or was killed.\<close>

definition exited :: "int \<Rightarrow> status" where "exited code = (code mod 256) * 256"
definition signaled :: "int \<Rightarrow> status" where "signaled sig = sig"

lemma WTERMSIG_mod: "WTERMSIG s = s mod 128"
proof -
  have "(0x7f :: int) = mask 7" by (simp add: mask_eq_exp_minus_1)
  then have "WTERMSIG s = take_bit 7 s" by (simp only: WTERMSIG_def take_bit_eq_mask)
  then show ?thesis by (simp add: take_bit_eq_mod)
qed

lemma WEXITSTATUS_div: "WEXITSTATUS s = (s div 256) mod 256"
proof -
  have b: "(0xff00 :: int) = push_bit 8 (mask 8)" by (simp add: mask_eq_exp_minus_1 push_bit_eq_mult)
  have d: "drop_bit 8 (push_bit 8 (mask 8 :: int)) = mask 8" by (subst drop_bit_push_bit) simp
  have "WEXITSTATUS s = drop_bit 8 s AND mask 8"
    by (simp only: WEXITSTATUS_def b drop_bit_and d)
  then show ?thesis
    by (simp add: take_bit_eq_mask [symmetric] take_bit_eq_mod drop_bit_eq_div)
qed

lemma WEXITSTATUS_range: "0 \<le> WEXITSTATUS s \<and> WEXITSTATUS s < 256"
  by (simp add: WEXITSTATUS_div)

lemma exited_status [simp]:
  "WIFEXITED (exited c)" "\<not> WIFSIGNALED (exited c)" "WEXITSTATUS (exited c) = c mod 256"
proof -
  have "(c mod 256) * 256 mod 128 = 0" by presburger
  then show "WIFEXITED (exited c)" "\<not> WIFSIGNALED (exited c)"
    by (simp_all add: WIFEXITED_def WIFSIGNALED_def WTERMSIG_mod exited_def)
  show "WEXITSTATUS (exited c) = c mod 256"
    by (simp add: WEXITSTATUS_div exited_def)
qed

lemma signaled_status [simp]:
  assumes "0 < s" "s < 127"
  shows "WIFSIGNALED (signaled s)" "\<not> WIFEXITED (signaled s)" "WTERMSIG (signaled s) = s"
  using assms by (simp_all add: WIFEXITED_def WIFSIGNALED_def WTERMSIG_mod signaled_def)

lemma not_both: "\<not> (WIFEXITED s \<and> WIFSIGNALED s)"
  by (simp add: WIFEXITED_def WIFSIGNALED_def)

section \<open>Error and signal numbers (Linux)\<close>

definition EPERM :: int where "EPERM = 1"
definition ESRCH :: int where "ESRCH = 3"
definition EINTR :: int where "EINTR = 4"
definition ECHILD :: int where "ECHILD = 10"
definition EBUSY :: int where "EBUSY = 16"
definition EINVAL :: int where "EINVAL = 22"
definition ERANGE :: int where "ERANGE = 34"
definition EDEADLK :: int where "EDEADLK = 35"
definition EOVERFLOW :: int where "EOVERFLOW = 75"

lemmas errno_defs = EPERM_def ESRCH_def EINTR_def ECHILD_def EBUSY_def EINVAL_def ERANGE_def
  EDEADLK_def EOVERFLOW_def

definition SIGINT :: int where "SIGINT = 2"
definition SIGABRT :: int where "SIGABRT = 6"
definition SIGFPE :: int where "SIGFPE = 8"
definition SIGKILL :: int where "SIGKILL = 9"
definition SIGUSR1 :: int where "SIGUSR1 = 10"
definition SIGSEGV :: int where "SIGSEGV = 11"
definition SIGUSR2 :: int where "SIGUSR2 = 12"
definition SIGALRM :: int where "SIGALRM = 14"
definition SIGTERM :: int where "SIGTERM = 15"

lemmas signal_defs = SIGINT_def SIGABRT_def SIGFPE_def SIGKILL_def SIGUSR1_def SIGSEGV_def SIGUSR2_def
  SIGALRM_def SIGTERM_def

end
