(* ===== verification/CProg.thy ===== *)
theory CProg
  imports CLib
begin

text \<open>
  How a C test program is modelled. A program is a tree of the calls it makes into code that
  is not its own (the PiP library, the operating system, the C library's stateful part), each
  node continuing with a function of the answer. What those callees do is not defined here:
  it is a parameter, the environment a program is run in. Pure computation between two calls
  is HOL computation. The CHECK macro of \<open>include/test.h\<close> and the C loops are combinators
  over these trees; the calculus \<open>wlp\<close> proves facts that hold whatever the callees answer.
\<close>

section \<open>Calls and answers\<close>

datatype spawn_program =
    Zeroed                               \<comment> \<open>\<open>memset (&prog, 0, sizeof (prog))\<close>\<close>
  | From_main string                     \<comment> \<open>\<open>pip_spawn_from_main\<close>: program\<close>
  | From_func string string int int      \<comment> \<open>\<open>pip_spawn_from_func\<close>: program, function, *arg, *aux\<close>

text \<open>
  Calls into the PiP library. A pointer argument that may be NULL is an option (by value) or
  a bool (whether an address is passed); what is stored through it is part of the answer.
\<close>

datatype pip_call =
    Pip_init bool "int option" bool int  \<comment> \<open>\<open>&pipid\<close>, \<open>*ntasks\<close>, \<open>&exp\<close>, options\<close>
  | Pip_fin
  | Pip_is_initialized
  | Pip_isa_root
  | Pip_isa_task
  | Pip_get_pipid bool
  | Pip_get_ntasks
  | Pip_get_mode bool
  | Pip_get_mode_str
  | Pip_is_threaded
  | Pip_get_aux
  | Pip_spawn "string option" int "int option" "nat option"
      \<comment> \<open>program, core, \<open>*pipid\<close>, index of the hooks' argument when hooks are given\<close>
  | Pip_task_spawn "spawn_program option" int "int option"
  | Pip_blt_spawn int bool int int       \<comment> \<open>core, active?, \<open>*pipid\<close>, index of the task queue\<close>
  | Pip_queue_init int
  | Pip_queue_lock int
  | Pip_queue_unlock int
  | Pip_queue_isempty int
  | Pip_wait int bool                    \<comment> \<open>pipid, \<open>&status\<close>\<close>
  | Pip_trywait int bool
  | Pip_wait_any bool bool               \<comment> \<open>\<open>&pipid\<close>, \<open>&status\<close>\<close>
  | Pip_trywait_any bool bool
  | Pip_exit int
  | Pip_abort
  | Pip_kill int int
  | Pip_kill_all_child_tasks
  | Pip_barrier_init int
  | Pip_barrier_wait
  | Pip_barrier_fin
  | Pip_named_export string
  | Pip_named_import int string
  | Pip_yield

text \<open>Calls into the operating system and the C library.\<close>

datatype sys_call =
    Print_fle int                        \<comment> \<open>the diagnostic of CHECK: the checked value\<close>
  | Getenv string
  | Putenv string
  | Setenv string string int
  | Malloc int
  | Free
  | Fork
  | Wait
  | Setpgid
  | Execvp string
  | Getaffinity
  | Setaffinity "int list"
  | Sigaction int string                 \<comment> \<open>signal, handler\<close>
  | Setitimer int int                    \<comment> \<open>period: seconds, microseconds\<close>
  | Sysconf_nprocs
  | Popen string
  | Pclose
  | Fopen string
  | Fscanf
  | Fread int
  | Fclose
  | Rewind
  | Stat string
  | System string
  | Usleep int
  | Killpg int int
  | Kill int int
  | Open string
  | Read int int
  | Write int string
  | Lseek int
  | Fsync int
  | Close int
  | Dlmopen string
  | Printf string
  | Random
  | Srand int
  | Lib string "int list"              \<comment> \<open>any other function, by name, with its integer arguments\<close>
  | Sigwait
  | Sleep int

text \<open>Calls on objects that several tasks share: variables, a barrier and a mutex.\<close>

datatype mem_call =
    Load string
  | Store string int
  | Barrier_init int
  | Barrier_wait
  | Mutex_init
  | Mutex_lock
  | Mutex_unlock

datatype call = Pip pip_call | Sys sys_call | Mem mem_call

text \<open>
  An answer: the returned value (for a pointer, 0 is NULL), \<open>errno\<close>, what was stored through
  the first and the second output pointer (None: nothing was stored, the variable keeps its
  value) and a string, for the calls that yield one.
\<close>

record resp =
  rv :: int
  errno :: int
  o1 :: "int option"
  o2 :: "int option"
  strv :: "string option"

definition ok :: resp where
  "ok = \<lparr>rv = 0, errno = 0, o1 = None, o2 = None, strv = None\<rparr>"

definition stored :: "int option \<Rightarrow> int \<Rightarrow> int" where
  "stored out old = (case out of None \<Rightarrow> old | Some v \<Rightarrow> v)"

lemma ok_simps [simp]:
  "rv ok = 0" "errno ok = 0" "o1 ok = None" "o2 ok = None" "strv ok = None"
  by (simp_all add: ok_def)

lemma stored_simps [simp]: "stored None v = v" "stored (Some x) v = x"
  by (simp_all add: stored_def)

section \<open>Programs\<close>

text \<open>Ways a process ends other than by returning from the modelled function.\<close>

datatype ending =
    Exit int         \<comment> \<open>\<open>exit (n)\<close>\<close>
  | Uexit int        \<comment> \<open>\<open>_exit (n)\<close>\<close>
  | Fault int        \<comment> \<open>an access that raises a signal\<close>

datatype 'a prog =
    Ret 'a
  | Halt ending
  | Call call "resp \<Rightarrow> 'a prog"

primrec bind :: "'a prog \<Rightarrow> ('a \<Rightarrow> 'b prog) \<Rightarrow> 'b prog" where
  "bind (Ret a) f = f a"
| "bind (Halt h) f = Halt h"
| "bind (Call c k) f = Call c (\<lambda>r. bind (k r) f)"

lemma bind_Ret: "bind p Ret = p"
  by (induction p) auto

lemma bind_assoc: "bind (bind p f) g = bind p (\<lambda>x. bind (f x) g)"
  by (induction p) auto

text \<open>\<open>Inl\<close> carries the value of an early \<open>return\<close>, \<open>Inr\<close> the state to go on with.\<close>

definition seqE :: "('e + 's) prog \<Rightarrow> ('s \<Rightarrow> ('e + 't) prog) \<Rightarrow> ('e + 't) prog" where
  "seqE p k = bind p (\<lambda>x. case x of Inl e \<Rightarrow> Ret (Inl e) | Inr s \<Rightarrow> k s)"

definition finE :: "('e + 's) prog \<Rightarrow> ('s \<Rightarrow> 'e prog) \<Rightarrow> 'e prog" where
  "finE p k = bind p (\<lambda>x. case x of Inl e \<Rightarrow> Ret e | Inr s \<Rightarrow> k s)"

text \<open>
  \<open>do { errno=0; long int RV=(F); if(C) { PRINT\_FLE; A; } } while(0)\<close> of
  \<open>include/test.h\<close>: \<open>chk\<close> for a checked call, \<open>chkv\<close> for a checked expression.
\<close>

definition chk :: "call \<Rightarrow> (resp \<Rightarrow> bool) \<Rightarrow> 'a prog \<Rightarrow> (resp \<Rightarrow> 'a prog) \<Rightarrow> 'a prog" where
  "chk f c a k = Call f (\<lambda>r. if c r then Call (Sys (Print_fle (rv r))) (\<lambda>_. a) else k r)"

definition chkv :: "int \<Rightarrow> (int \<Rightarrow> bool) \<Rightarrow> 'a prog \<Rightarrow> 'a prog \<Rightarrow> 'a prog" where
  "chkv v c a k = (if c v then Call (Sys (Print_fle v)) (\<lambda>_. a) else k)"

text \<open>\<open>for (i = lo; i < lo + n; i++)\<close> with a state and early returns.\<close>

primrec for_range :: "int \<Rightarrow> nat \<Rightarrow> (int \<Rightarrow> 's \<Rightarrow> ('e + 's) prog) \<Rightarrow> 's \<Rightarrow> ('e + 's) prog" where
  "for_range i 0 body s = Ret (Inr s)"
| "for_range i (Suc n) body s = seqE (body i s) (for_range (i + 1) n body)"

text \<open>
  A loop that may not end, with fuel: the body yields \<open>Inl s\<close> to go on with \<open>s\<close> and
  \<open>Inr a\<close> to leave the loop; None is the loop that has not ended within the fuel.
\<close>

primrec loop :: "nat \<Rightarrow> ('s \<Rightarrow> ('s + 'a) prog) \<Rightarrow> 's \<Rightarrow> 'a option prog" where
  "loop 0 body s = Ret None"
| "loop (Suc f) body s =
     bind (body s) (\<lambda>x. case x of Inl s' \<Rightarrow> loop f body s' | Inr a \<Rightarrow> Ret (Some a))"

text \<open>Truth values as C has them.\<close>

definition c_bool :: "bool \<Rightarrow> int" where "c_bool b = (if b then 1 else 0)"

lemma c_bool_simps [simp]: "c_bool b = 0 \<longleftrightarrow> \<not> b" "c_bool True = 1" "c_bool False = 0"
  by (simp_all add: c_bool_def)

section \<open>Running a program in an environment\<close>

text \<open>
  An environment answers calls from a state of its own; it answers None to a call that does
  not come back (\<open>pip_exit\<close>, \<open>pip_abort\<close>, a wait that never ends).
\<close>

type_synonym 'w env = "'w \<Rightarrow> call \<Rightarrow> resp option \<times> 'w"

datatype 'a outcome = Returned 'a | Halted ending | NoReturn call

type_synonym trace = "(call \<times> resp) list"

primrec run :: "'a prog \<Rightarrow> 'w env \<Rightarrow> 'w \<Rightarrow> 'a outcome \<times> 'w \<times> trace" where
  "run (Ret a) e w = (Returned a, w, [])"
| "run (Halt h) e w = (Halted h, w, [])"
| "run (Call c k) e w =
     (case e w c of
        (None, w') \<Rightarrow> (NoReturn c, w', [])
      | (Some r, w') \<Rightarrow> (case run (k r) e w' of (x, w'', t) \<Rightarrow> (x, w'', (c, r) # t)))"

definition outcome :: "'a prog \<Rightarrow> 'w env \<Rightarrow> 'w \<Rightarrow> 'a outcome" where
  "outcome p e w = fst (run p e w)"

definition final_env :: "'a prog \<Rightarrow> 'w env \<Rightarrow> 'w \<Rightarrow> 'w" where
  "final_env p e w = fst (snd (run p e w))"

definition trace :: "'a prog \<Rightarrow> 'w env \<Rightarrow> 'w \<Rightarrow> trace" where
  "trace p e w = snd (snd (run p e w))"

definition calls :: "'a prog \<Rightarrow> 'w env \<Rightarrow> 'w \<Rightarrow> call list" where
  "calls p e w = map fst (trace p e w)"

lemma run_bind:
  "run (bind p f) e w =
     (case run p e w of
        (Returned a, w', t) \<Rightarrow> (case run (f a) e w' of (x, w'', t') \<Rightarrow> (x, w'', t @ t'))
      | (Halted h, w', t) \<Rightarrow> (Halted h, w', t)
      | (NoReturn c, w', t) \<Rightarrow> (NoReturn c, w', t))"
  by (induction p arbitrary: w) (auto split: prod.splits option.splits outcome.splits)

lemma run_bind_Returned:
  assumes "run p e w = (Returned a, w', t)"
  shows "run (bind p f) e w = (case run (f a) e w' of (x, w'', t') \<Rightarrow> (x, w'', t @ t'))"
  using assms by (simp add: run_bind)

lemma outcome_simps [simp]:
  "outcome (Ret a) e w = Returned a"
  "outcome (Halt h) e w = Halted h"
  "outcome (Call c k) e w =
     (case e w c of (None, w') \<Rightarrow> NoReturn c | (Some r, w') \<Rightarrow> outcome (k r) e w')"
  by (auto simp: outcome_def split: prod.splits option.splits)

lemma final_env_simps [simp]:
  "final_env (Ret a) e w = w"
  "final_env (Halt h) e w = w"
  "final_env (Call c k) e w =
     (case e w c of (None, w') \<Rightarrow> w' | (Some r, w') \<Rightarrow> final_env (k r) e w')"
  by (auto simp: final_env_def split: prod.splits option.splits)

lemma trace_simps [simp]:
  "trace (Ret a) e w = []"
  "trace (Halt h) e w = []"
  "trace (Call c k) e w =
     (case e w c of (None, w') \<Rightarrow> [] | (Some r, w') \<Rightarrow> (c, r) # trace (k r) e w')"
  by (auto simp: trace_def split: prod.splits option.splits)

lemma outcome_bind:
  "outcome (bind p f) e w =
     (case outcome p e w of
        Returned a \<Rightarrow> outcome (f a) e (final_env p e w)
      | Halted h \<Rightarrow> Halted h | NoReturn c \<Rightarrow> NoReturn c)"
  by (auto simp: outcome_def final_env_def run_bind split: prod.splits outcome.splits)

lemma final_env_bind:
  "final_env (bind p f) e w =
     (case outcome p e w of
        Returned a \<Rightarrow> final_env (f a) e (final_env p e w)
      | _ \<Rightarrow> final_env p e w)"
  by (auto simp: outcome_def final_env_def run_bind split: prod.splits outcome.splits)

lemma trace_bind:
  "trace (bind p f) e w =
     (case outcome p e w of
        Returned a \<Rightarrow> trace p e w @ trace (f a) e (final_env p e w)
      | _ \<Rightarrow> trace p e w)"
  by (auto simp: outcome_def final_env_def trace_def run_bind split: prod.splits outcome.splits)

lemmas run_parts = outcome_bind final_env_bind trace_bind

text \<open>Unrolling a loop with a literal bound.\<close>

lemma for_range_numeral [prog_simps]:
  "for_range i (numeral k) body s = seqE (body i s) (for_range (i + 1) (pred_numeral k) body)"
  by (simp add: numeral_eq_Suc)

lemma for_range_one [prog_simps]:
  "for_range i 1 body s = seqE (body i s) (for_range (i + 1) 0 body)"
  by (simp add: One_nat_def)

lemma loop_numeral [prog_simps]:
  "loop (numeral k) body s =
     bind (body s) (\<lambda>x. case x of Inl s' \<Rightarrow> loop (pred_numeral k) body s' | Inr a \<Rightarrow> Ret (Some a))"
  by (simp add: numeral_eq_Suc)

lemma seqE_simps [simp, prog_simps]:
  "seqE (Ret (Inl e)) k = Ret (Inl e)"
  "seqE (Ret (Inr s)) k = k s"
  "seqE (Halt h) k = Halt h"
  "seqE (Call c g) k = Call c (\<lambda>r. seqE (g r) k)"
  by (simp_all add: seqE_def)

lemma finE_simps [simp, prog_simps]:
  "finE (Ret (Inl e)) k = Ret e"
  "finE (Ret (Inr s)) k' = k' s"
  "finE (Halt h) k' = Halt h"
  "finE (Call c g) k' = Call c (\<lambda>r. finE (g r) k')"
  by (simp_all add: finE_def)

declare chk_def [prog_simps] chkv_def [prog_simps] stored_simps [prog_simps]

section \<open>Facts that hold whatever the callees answer\<close>

text \<open>
  \<open>wlp R P Q H p\<close>: in every execution of \<open>p\<close> whose answers satisfy \<open>R\<close>, every call satisfies
  \<open>P\<close>, a returned value satisfies \<open>Q\<close> and an ending satisfies \<open>H\<close>.
\<close>

primrec wlp :: "(call \<Rightarrow> resp \<Rightarrow> bool) \<Rightarrow> (call \<Rightarrow> bool) \<Rightarrow> ('a \<Rightarrow> bool) \<Rightarrow> (ending \<Rightarrow> bool) \<Rightarrow>
    'a prog \<Rightarrow> bool" where
  "wlp R P Q H (Ret a) = Q a"
| "wlp R P Q H (Halt h) = H h"
| "wlp R P Q H (Call c k) = (P c \<and> (\<forall>r. R c r \<longrightarrow> wlp R P Q H (k r)))"

definition answers :: "(call \<Rightarrow> resp \<Rightarrow> bool) \<Rightarrow> 'w env \<Rightarrow> bool" where
  "answers R e \<longleftrightarrow> (\<forall>w c r w'. e w c = (Some r, w') \<longrightarrow> R c r)"

lemma wlp_bind:
  "wlp R P Q H (bind p f) \<longleftrightarrow> wlp R P (\<lambda>a. wlp R P Q H (f a)) H p"
  by (induction p) auto

lemma wlp_mono:
  "wlp R P Q H p \<Longrightarrow> (\<And>a. Q a \<Longrightarrow> Q' a) \<Longrightarrow> wlp R P Q' H p"
  by (induction p) auto

lemma wlp_seqE:
  "wlp R P Q H (seqE p k) \<longleftrightarrow>
     wlp R P (\<lambda>x. case x of Inl e \<Rightarrow> Q (Inl e) | Inr s \<Rightarrow> wlp R P Q H (k s)) H p"
  unfolding seqE_def wlp_bind
  by (rule arg_cong [where f = "\<lambda>Q. wlp R P Q H p"]) (auto split: sum.splits)

lemma wlp_finE:
  "wlp R P Q H (finE p k) \<longleftrightarrow>
     wlp R P (\<lambda>x. case x of Inl e \<Rightarrow> Q e | Inr s \<Rightarrow> wlp R P Q H (k s)) H p"
  unfolding finE_def wlp_bind
  by (rule arg_cong [where f = "\<lambda>Q. wlp R P Q H p"]) (auto split: sum.splits)

lemma wlp_chk:
  "wlp R P Q H (chk f c a k) \<longleftrightarrow>
     P f \<and> (\<forall>r. R f r \<longrightarrow>
       (if c r then P (Sys (Print_fle (rv r))) \<and>
          (\<forall>r'. R (Sys (Print_fle (rv r))) r' \<longrightarrow> wlp R P Q H a)
        else wlp R P Q H (k r)))"
  by (auto simp: chk_def)

lemma wlp_chkv:
  "wlp R P Q H (chkv v c a k) \<longleftrightarrow>
     (if c v then P (Sys (Print_fle v)) \<and> (\<forall>r'. R (Sys (Print_fle v)) r' \<longrightarrow> wlp R P Q H a)
      else wlp R P Q H k)"
  by (auto simp: chkv_def)

lemmas wlp_simps = wlp_bind wlp_seqE wlp_finE wlp_chk wlp_chkv

lemma wlp_for_range:
  assumes "I i s"
    and "\<And>j s. i \<le> j \<Longrightarrow> j < i + int n \<Longrightarrow> I j s \<Longrightarrow>
          wlp R P (\<lambda>x. case x of Inl e \<Rightarrow> Q (Inl e) | Inr s' \<Rightarrow> I (j + 1) s') H (body j s)"
    and "\<And>s. I (i + int n) s \<Longrightarrow> Q (Inr s)"
  shows "wlp R P Q H (for_range i n body s)"
  using assms
proof (induction n arbitrary: i s)
  case 0
  then show ?case by simp
next
  case (Suc n)
  have "wlp R P (\<lambda>x. case x of Inl e \<Rightarrow> Q (Inl e) | Inr s' \<Rightarrow> I (i + 1) s') H (body i s)"
    using Suc.prems by simp
  moreover have "wlp R P Q H (for_range (i + 1) n body s')" if "I (i + 1) s'" for s'
    using that Suc.prems(2,3) by (intro Suc.IH) (auto simp: algebra_simps)
  ultimately show ?case
    by (auto simp: wlp_seqE elim!: wlp_mono split: sum.splits)
qed

lemma wlp_run:
  assumes "wlp R P Q H p" "answers R e" "run p e w = (x, w', t)"
  shows "(\<forall>a. x = Returned a \<longrightarrow> Q a) \<and> (\<forall>h. x = Halted h \<longrightarrow> H h)
    \<and> list_all P (map fst t)"
  using assms
proof (induction p arbitrary: w x w' t)
  case (Call c k)
  show ?case
  proof (cases "e w c")
    case (Pair r w1)
    show ?thesis
    proof (cases r)
      case None
      with Pair Call.prems show ?thesis by auto
    next
      case (Some r')
      obtain x2 w2 t2 where run2: "run (k r') e w1 = (x2, w2, t2)" by (cases "run (k r') e w1")
      have "R c r'" using Pair Some Call.prems(2) unfolding answers_def by blast
      then have "wlp R P Q H (k r')" and "P c" using Call.prems(1) by auto
      from Call.IH [OF rangeI this(1) Call.prems(2) run2] \<open>P c\<close> show ?thesis
        using Pair Some Call.prems(3) run2 by auto
    qed
  qed
qed auto

abbreviation any_answer :: "call \<Rightarrow> resp \<Rightarrow> bool" where
  "any_answer \<equiv> \<lambda>_ _. True"

lemma answers_any: "answers any_answer e"
  by (simp add: answers_def)

lemma wlp_outcome:
  assumes "wlp any_answer P Q H p"
  shows "outcome p e w = Returned a \<Longrightarrow> Q a"
    and "outcome p e w = Halted h \<Longrightarrow> H h"
    and "list_all P (calls p e w)"
proof -
  obtain x w' t where r: "run p e w = (x, w', t)" by (cases "run p e w")
  note * = wlp_run [OF assms answers_any r]
  show "outcome p e w = Returned a \<Longrightarrow> Q a" "outcome p e w = Halted h \<Longrightarrow> H h"
    "list_all P (calls p e w)"
    using * r by (auto simp: outcome_def calls_def trace_def)
qed

lemma wlp_loop:
  assumes "I s"
    and "\<And>s. I s \<Longrightarrow> wlp R P (\<lambda>x. case x of Inl s' \<Rightarrow> I s' | Inr a \<Rightarrow> Q (Some a)) H (body s)"
    and "Q None"
  shows "wlp R P Q H (loop f body s)"
  using assms(1)
proof (induction f arbitrary: s)
  case 0
  then show ?case using assms(3) by simp
next
  case (Suc f)
  have "wlp R P (\<lambda>x. wlp R P Q H (case x of Inl s' \<Rightarrow> loop f body s' | Inr a \<Rightarrow> Ret (Some a))) H (body s)"
    using Suc.IH by (intro wlp_mono [OF assms(2) [OF Suc.prems]]) (auto split: sum.splits)
  then show ?case by (simp add: wlp_bind)
qed

lemma wlp_answers:
  assumes "wlp R P Q H p" "answers R e"
  shows "outcome p e w = Returned a \<Longrightarrow> Q a"
    and "outcome p e w = Halted h \<Longrightarrow> H h"
    and "list_all P (calls p e w)"
proof -
  obtain x w' t where r: "run p e w = (x, w', t)" by (cases "run p e w")
  note * = wlp_run [OF assms r]
  show "outcome p e w = Returned a \<Longrightarrow> Q a" "outcome p e w = Halted h \<Longrightarrow> H h"
    "list_all P (calls p e w)"
    using * r by (auto simp: outcome_def calls_def trace_def)
qed

lemma wlp_any: "wlp R (\<lambda>_. True) (\<lambda>_. True) (\<lambda>_. True) p"
  by (induction p) auto

text \<open>Environments in which every call comes back, and quantities no call makes larger.\<close>

definition total :: "'w env \<Rightarrow> bool" where
  "total e \<longleftrightarrow> (\<forall>w c. fst (e w c) \<noteq> None)"

lemma totalE:
  assumes "total e" obtains r w' where "e w c = (Some r, w')"
  using assms unfolding total_def by (metis option.exhaust prod.collapse)

definition answer :: "'w env \<Rightarrow> 'w \<Rightarrow> call \<Rightarrow> resp" where
  "answer e w c = the (fst (e w c))"

definition after :: "'w env \<Rightarrow> 'w \<Rightarrow> call \<Rightarrow> 'w" where
  "after e w c = snd (e w c)"

lemma total_call: "total e \<Longrightarrow> e w c = (Some (answer e w c), after e w c)"
  by (erule totalE [of e w c]) (simp add: answer_def after_def)

text \<open>Calls that all come back are executed one by one with these.\<close>

lemma total_simps:
  assumes "total e"
  shows "outcome (Call c k) e w = outcome (k (answer e w c)) e (after e w c)"
    "trace (Call c k) e w = (c, answer e w c) # trace (k (answer e w c)) e (after e w c)"
    "calls (Call c k) e w = c # calls (k (answer e w c)) e (after e w c)"
    "final_env (Call c k) e w = final_env (k (answer e w c)) e (after e w c)"
  using total_call [OF assms, of w c] by (simp_all add: calls_def)

lemma calls_simps [simp]: "calls (Ret a) e w = []" "calls (Halt h) e w = []"
  by (simp_all add: calls_def)

lemma calls_bind:
  "calls (bind p f) e w =
     (case outcome p e w of
        Returned a \<Rightarrow> calls p e w @ calls (f a) e (final_env p e w)
      | _ \<Rightarrow> calls p e w)"
  by (simp add: calls_def trace_bind split: outcome.splits)

lemma total_outcome: "total e \<Longrightarrow> outcome p e w \<noteq> NoReturn c"
proof (induction p arbitrary: w)
  case (Call d k)
  obtain r w' where "e w d = (Some r, w')" using Call.prems by (rule totalE)
  then show ?case using Call.IH Call.prems by simp
qed simp_all

lemma wlp_total:
  assumes "wlp R P Q H p" "answers R e" "total e"
  shows "(\<exists>a. outcome p e w = Returned a \<and> Q a) \<or> (\<exists>h. outcome p e w = Halted h \<and> H h)"
proof -
  obtain x w' t where r: "run p e w = (x, w', t)" by (cases "run p e w")
  have "outcome p e w \<noteq> NoReturn c" for c using assms(3) by (rule total_outcome)
  then show ?thesis
    using wlp_run [OF assms(1,2) r] r by (cases x) (auto simp: outcome_def)
qed

definition nonincreasing :: "('w \<Rightarrow> nat) \<Rightarrow> 'w env \<Rightarrow> bool" where
  "nonincreasing m e \<longleftrightarrow> (\<forall>w c. m (snd (e w c)) \<le> m w)"

lemma nonincreasing_final: "nonincreasing m e \<Longrightarrow> m (final_env p e w) \<le> m w"
proof (induction p arbitrary: w)
  case (Call c k)
  obtain x w' where e: "e w c = (x, w')" by (cases "e w c")
  then have "m w' \<le> m w" using Call.prems unfolding nonincreasing_def by (metis snd_conv)
  moreover have "m (final_env (k r) e w') \<le> m w'" for r using Call by blast
  ultimately show ?case using e by (cases x) (auto intro: order_trans)
qed simp_all

lemma final_call_le:
  assumes "nonincreasing m e" "e w c = (Some r, w')"
  shows "m (final_env (Call c k) e w) \<le> m w'"
  using nonincreasing_final [OF assms(1), of "k r" w'] assms(2) by simp

text \<open>A loop ends, with what its body leaves it with, when going round it uses something up.\<close>

lemma loop_ends:
  assumes "total e" "answers R e" "nonincreasing m e"
    and body: "\<And>s. I s \<Longrightarrow>
      wlp R P (\<lambda>x. case x of Inl s' \<Rightarrow> I s' | Inr a \<Rightarrow> Q a) (\<lambda>_. False) (body s)"
    and less: "\<And>s s' w. outcome (body s) e w = Returned (Inl s') \<Longrightarrow>
      m (final_env (body s) e w) < m w"
    and "I s" "m w < fuel"
  shows "\<exists>a. outcome (loop fuel body s) e w = Returned (Some a) \<and> Q a"
  using assms(6,7)
proof (induction fuel arbitrary: s w)
  case 0
  then show ?case by simp
next
  case (Suc fuel)
  obtain x where x: "outcome (body s) e w = Returned x" "case x of Inl s' \<Rightarrow> I s' | Inr a \<Rightarrow> Q a"
    using wlp_total [OF body [OF Suc.prems(1)] assms(2,1), of w] by blast
  show ?case
  proof (cases x)
    case (Inl s')
    then have "m (final_env (body s) e w) < fuel" using less x(1) Suc.prems(2) by fastforce
    then show ?thesis using Suc.IH [of s' "final_env (body s) e w"] x Inl by (simp add: outcome_bind)
  next
    case (Inr a)
    then show ?thesis using x by (simp add: outcome_bind)
  qed
qed

section \<open>Runs in which every call comes back as expected\<close>

text \<open>\<open>coop R e\<close>: every call returns, with an answer that satisfies \<open>R\<close>.\<close>

definition coop :: "(call \<Rightarrow> resp \<Rightarrow> bool) \<Rightarrow> 'w env \<Rightarrow> bool" where
  "coop R e \<longleftrightarrow> total e \<and> answers R e"

lemma coop_answer: "coop R e \<Longrightarrow> R c (answer e w c)"
  using total_call [of e w c] unfolding coop_def answers_def by blast

lemma coop_simps:
  assumes "coop R e"
  shows "outcome (Call c k) e w = outcome (k (answer e w c)) e (after e w c)"
    "calls (Call c k) e w = c # calls (k (answer e w c)) e (after e w c)"
    "final_env (Call c k) e w = final_env (k (answer e w c)) e (after e w c)"
proof -
  have "total e" using assms by (simp add: coop_def)
  then show "outcome (Call c k) e w = outcome (k (answer e w c)) e (after e w c)"
    "calls (Call c k) e w = c # calls (k (answer e w c)) e (after e w c)"
    "final_env (Call c k) e w = final_env (k (answer e w c)) e (after e w c)"
    by (rule total_simps)+
qed

lemma coopI:
  assumes "\<And>w c. \<exists>r w'. e w c = (Some r, w') \<and> R c r"
  shows "coop R e"
proof -
  have "fst (e w c) \<noteq> None" for w c using assms [of w c] by auto
  moreover have "R c r" if "e w c = (Some r, w')" for w c r w' using assms [of w c] that by auto
  ultimately show ?thesis unfolding coop_def total_def answers_def by blast
qed

text \<open>An environment without a state, given by a function from calls to answers.\<close>

definition reply :: "(call \<Rightarrow> resp) \<Rightarrow> unit env" where
  "reply f w c = (Some (f c), w)"

lemma coop_reply: "(\<And>c. R c (f c)) \<Longrightarrow> coop R (reply f)"
  by (rule coopI) (simp add: reply_def)

lemma reply_simps [simp]: "reply f w c = (Some (f c), w)"
  by (simp add: reply_def)

lemma outcome_seqE:
  "outcome (seqE p k) e w =
     (case outcome p e w of
        Returned (Inl a) \<Rightarrow> Returned (Inl a)
      | Returned (Inr s) \<Rightarrow> outcome (k s) e (final_env p e w)
      | Halted h \<Rightarrow> Halted h | NoReturn c \<Rightarrow> NoReturn c)"
  by (simp add: seqE_def outcome_bind split: outcome.splits sum.splits)

lemma calls_seqE:
  "calls (seqE p k) e w =
     (case outcome p e w of
        Returned (Inr s) \<Rightarrow> calls p e w @ calls (k s) e (final_env p e w)
      | _ \<Rightarrow> calls p e w)"
  by (simp add: seqE_def calls_bind split: outcome.splits sum.splits)

lemma outcome_finE:
  "outcome (finE p k) e w =
     (case outcome p e w of
        Returned (Inl a) \<Rightarrow> Returned a
      | Returned (Inr s) \<Rightarrow> outcome (k s) e (final_env p e w)
      | Halted h \<Rightarrow> Halted h | NoReturn c \<Rightarrow> NoReturn c)"
  by (simp add: finE_def outcome_bind split: outcome.splits sum.splits)

lemma calls_finE:
  "calls (finE p k) e w =
     (case outcome p e w of
        Returned (Inr s) \<Rightarrow> calls p e w @ calls (k s) e (final_env p e w)
      | _ \<Rightarrow> calls p e w)"
  by (simp add: finE_def calls_bind split: outcome.splits sum.splits)

lemmas run_seq = outcome_bind calls_bind outcome_seqE calls_seqE outcome_finE calls_finE

text \<open>A loop each of whose rounds succeeds, going through the states \<open>st\<close>: its calls.\<close>

lemma for_range_runs:
  assumes "\<And>j w. i \<le> j \<Longrightarrow> j < i + int n \<Longrightarrow>
      outcome (body j (st j)) e w = Returned (Inr (st (j + 1))) \<and> calls (body j (st j)) e w = cs j"
  shows "outcome (for_range i n body (st i)) e w = Returned (Inr (st (i + int n)))"
    "calls (for_range i n body (st i)) e w = concat (map cs [i..i + int n - 1])"
proof -
  have "outcome (for_range i n body (st i)) e w = Returned (Inr (st (i + int n))) \<and>
     calls (for_range i n body (st i)) e w = concat (map cs [i..i + int n - 1])"
    using assms
  proof (induction n arbitrary: i w)
    case (Suc n)
    have up: "[i..i + int n] = i # [i + 1..i + int n]"
      by (subst upto_rec1) simp_all
    have "outcome (body i (st i)) e w = Returned (Inr (st (i + 1))) \<and> calls (body i (st i)) e w = cs i"
      using Suc.prems by simp
    moreover have "outcome (for_range (i + 1) n body (st (i + 1))) e w' =
          Returned (Inr (st (i + 1 + int n))) \<and>
        calls (for_range (i + 1) n body (st (i + 1))) e w' = concat (map cs [i + 1..i + 1 + int n - 1])"
      for w' by (rule Suc.IH) (use Suc.prems in auto)
    ultimately show ?case by (simp add: run_seq up algebra_simps del: upto.simps)
  qed simp
  then show "outcome (for_range i n body (st i)) e w = Returned (Inr (st (i + int n)))"
    "calls (for_range i n body (st i)) e w = concat (map cs [i..i + int n - 1])" by simp_all
qed

text \<open>The same when the rounds also depend on a condition \<open>W\<close> on the environment's state.\<close>

lemma for_range_runs_inv:
  assumes "\<And>j w. i \<le> j \<Longrightarrow> j < i + int n \<Longrightarrow> W j w \<Longrightarrow>
      outcome (body j (st j)) e w = Returned (Inr (st (j + 1))) \<and>
      W (j + 1) (final_env (body j (st j)) e w)"
    and "W i w"
  shows "outcome (for_range i n body (st i)) e w = Returned (Inr (st (i + int n)))"
    "W (i + int n) (final_env (for_range i n body (st i)) e w)"
proof -
  have "outcome (for_range i n body (st i)) e w = Returned (Inr (st (i + int n))) \<and>
     W (i + int n) (final_env (for_range i n body (st i)) e w)"
    using assms
  proof (induction n arbitrary: i w)
    case (Suc n)
    let ?w = "final_env (body i (st i)) e w"
    have "outcome (body i (st i)) e w = Returned (Inr (st (i + 1)))" "W (i + 1) ?w"
      using Suc.prems by simp_all
    moreover have "outcome (for_range (i + 1) n body (st (i + 1))) e ?w =
          Returned (Inr (st (i + 1 + int n))) \<and>
        W (i + 1 + int n) (final_env (for_range (i + 1) n body (st (i + 1))) e ?w)"
      by (rule Suc.IH) (use Suc.prems in auto)
    ultimately show ?case by (simp add: seqE_def run_parts algebra_simps)
  qed simp
  then show "outcome (for_range i n body (st i)) e w = Returned (Inr (st (i + int n)))"
    "W (i + int n) (final_env (for_range i n body (st i)) e w)" by simp_all
qed

section \<open>What a returned value says about the calls made\<close>

text \<open>
  \<open>wpt R Q t p\<close>: when the calls made so far are \<open>t\<close> and all answers satisfy \<open>R\<close>, every value
  \<open>a\<close> that \<open>p\<close> returns, after the calls \<open>t'\<close> in all, satisfies \<open>Q t' a\<close>.
\<close>

primrec wpt :: "(call \<Rightarrow> resp \<Rightarrow> bool) \<Rightarrow> (trace \<Rightarrow> 'a \<Rightarrow> bool) \<Rightarrow> trace \<Rightarrow> 'a prog \<Rightarrow> bool" where
  "wpt R Q t (Ret a) = Q t a"
| "wpt R Q t (Halt h) = True"
| "wpt R Q t (Call c k) = (\<forall>r. R c r \<longrightarrow> wpt R Q (t @ [(c, r)]) (k r))"

lemma wpt_bind: "wpt R Q t (bind p f) \<longleftrightarrow> wpt R (\<lambda>t a. wpt R Q t (f a)) t p"
  by (induction p arbitrary: t) auto

lemma wpt_mono: "wpt R Q t p \<Longrightarrow> (\<And>t a. Q t a \<Longrightarrow> Q' t a) \<Longrightarrow> wpt R Q' t p"
  by (induction p arbitrary: t) auto

lemma wpt_seqE:
  "wpt R Q t (seqE p k) \<longleftrightarrow>
     wpt R (\<lambda>t x. case x of Inl e \<Rightarrow> Q t (Inl e) | Inr s \<Rightarrow> wpt R Q t (k s)) t p"
  unfolding seqE_def wpt_bind
  by (rule arg_cong [where f = "\<lambda>Q. wpt R Q t p"]) (auto split: sum.splits)

lemma wpt_finE:
  "wpt R Q t (finE p k) \<longleftrightarrow>
     wpt R (\<lambda>t x. case x of Inl e \<Rightarrow> Q t e | Inr s \<Rightarrow> wpt R Q t (k s)) t p"
  unfolding finE_def wpt_bind
  by (rule arg_cong [where f = "\<lambda>Q. wpt R Q t p"]) (auto split: sum.splits)

lemma wpt_chk:
  "wpt R Q t (chk f c a k) \<longleftrightarrow>
     (\<forall>r. R f r \<longrightarrow>
       (if c r then (\<forall>r'. R (Sys (Print_fle (rv r))) r' \<longrightarrow>
            wpt R Q (t @ [(f, r), (Sys (Print_fle (rv r)), r')]) a)
        else wpt R Q (t @ [(f, r)]) (k r)))"
  by (auto simp: chk_def)

lemma wpt_chkv:
  "wpt R Q t (chkv v c a k) \<longleftrightarrow>
     (if c v then (\<forall>r'. R (Sys (Print_fle v)) r' \<longrightarrow> wpt R Q (t @ [(Sys (Print_fle v), r')]) a)
      else wpt R Q t k)"
  by (auto simp: chkv_def)

lemmas wpt_simps = wpt_bind wpt_seqE wpt_finE wpt_chk wpt_chkv

text \<open>Rules to go through a program phase by phase.\<close>

lemma wpt_seqI:
  assumes "wpt R (\<lambda>t x. case x of Inl e \<Rightarrow> Q t (Inl e) | Inr s \<Rightarrow> M t s) t p"
    and "\<And>t s. M t s \<Longrightarrow> wpt R Q t (k s)"
  shows "wpt R Q t (seqE p k)"
  using assms by (auto simp: wpt_seqE elim!: wpt_mono split: sum.splits)

lemma wpt_chkI:
  assumes "\<And>t. wpt R Q t a" "\<And>r. R f r \<Longrightarrow> \<not> c r \<Longrightarrow> wpt R Q (t @ [(f, r)]) (k r)"
  shows "wpt R Q t (chk f c a k)"
  using assms by (simp add: wpt_chk)

lemma wpt_for_range:
  assumes "I i t s"
    and "\<And>j t s. i \<le> j \<Longrightarrow> j < i + int n \<Longrightarrow> I j t s \<Longrightarrow>
          wpt R (\<lambda>t x. case x of Inl e \<Rightarrow> Q t (Inl e) | Inr s' \<Rightarrow> I (j + 1) t s') t (body j s)"
    and "\<And>t s. I (i + int n) t s \<Longrightarrow> Q t (Inr s)"
  shows "wpt R Q t (for_range i n body s)"
  using assms
proof (induction n arbitrary: i t s)
  case 0
  then show ?case by simp
next
  case (Suc n)
  have "wpt R (\<lambda>t x. case x of Inl e \<Rightarrow> Q t (Inl e) | Inr s' \<Rightarrow> I (i + 1) t s') t (body i s)"
    using Suc.prems by simp
  moreover have "wpt R Q t' (for_range (i + 1) n body s')" if "I (i + 1) t' s'" for s' t'
    using that Suc.prems(2,3) by (intro Suc.IH) (auto simp: algebra_simps)
  ultimately show ?case
    by (auto simp: wpt_seqE elim!: wpt_mono split: sum.splits)
qed

lemma wpt_frame:
  assumes "wpt R Q t p" "G t" "\<And>t t'. G t \<Longrightarrow> G (t @ t')"
  shows "wpt R (\<lambda>t a. Q t a \<and> G t) t p"
  using assms(1,2)
proof (induction p arbitrary: t)
  case (Call c k)
  then show ?case using assms(3) by simp
qed simp_all

text \<open>A loop that establishes \<open>A j\<close> in round \<open>j\<close>, a fact that later calls do not destroy.\<close>

lemma wpt_for_all:
  assumes round: "\<And>j t s. i \<le> j \<Longrightarrow> j < i + int n \<Longrightarrow>
      wpt R (\<lambda>t x. case x of Inl e \<Rightarrow> Q t (Inl e) | Inr _ \<Rightarrow> A j t) t (body j s)"
    and "\<And>j t t'. A j t \<Longrightarrow> A j (t @ t')" "\<And>t t'. G t \<Longrightarrow> G (t @ t')" "G t"
    and post: "\<And>t s. G t \<Longrightarrow> (\<forall>j. i \<le> j \<and> j < i + int n \<longrightarrow> A j t) \<Longrightarrow> Q t (Inr s)"
  shows "wpt R Q t (for_range i n body s)"
proof (rule wpt_for_range [where I = "\<lambda>j t s. G t \<and> (\<forall>k. i \<le> k \<and> k < j \<longrightarrow> A k t)"])
  fix j t s assume j: "i \<le> j" "j < i + int n" and I: "G t \<and> (\<forall>k. i \<le> k \<and> k < j \<longrightarrow> A k t)"
  let ?G = "\<lambda>t. G t \<and> (\<forall>k. i \<le> k \<and> k < j \<longrightarrow> A k t)"
  have "wpt R (\<lambda>t x. (case x of Inl e \<Rightarrow> Q t (Inl e) | Inr _ \<Rightarrow> A j t) \<and> ?G t) t (body j s)"
    by (rule wpt_frame [where G = ?G, OF round [OF j] I]) (use assms(2,3) in blast)
  moreover have "A k t" if "A j t" "\<forall>k. i \<le> k \<and> k < j \<longrightarrow> A k t" "i \<le> k" "k < j + 1" for k t
    using that by (cases "k = j") auto
  ultimately show "wpt R (\<lambda>t x. case x of Inl e \<Rightarrow> Q t (Inl e) |
      Inr s' \<Rightarrow> G t \<and> (\<forall>k. i \<le> k \<and> k < j + 1 \<longrightarrow> A k t)) t (body j s)"
    by (auto elim!: wpt_mono split: sum.splits)
qed (use assms(4) post in auto)

lemma wpt_loop:
  assumes "I t s"
    and "\<And>t s. I t s \<Longrightarrow> wpt R (\<lambda>t x. case x of Inl s' \<Rightarrow> I t s' | Inr a \<Rightarrow> Q t (Some a)) t (body s)"
    and "\<And>t s. I t s \<Longrightarrow> Q t None"
  shows "wpt R Q t (loop f body s)"
  using assms(1)
proof (induction f arbitrary: s t)
  case 0
  then show ?case using assms(3) by simp
next
  case (Suc f)
  have "wpt R (\<lambda>t x. wpt R Q t (case x of Inl s' \<Rightarrow> loop f body s' | Inr a \<Rightarrow> Ret (Some a))) t (body s)"
    using Suc.IH by (intro wpt_mono [OF assms(2) [OF Suc.prems]]) (auto split: sum.splits)
  then show ?case by (simp add: wpt_bind)
qed

lemma wpt_run:
  assumes "wpt R Q t0 p" "answers R e" "run p e w = (Returned a, w', t)"
  shows "Q (t0 @ t) a"
  using assms
proof (induction p arbitrary: t0 w w' t)
  case (Call c k)
  obtain r w1 where e: "e w c = (Some r, w1)"
    using Call.prems(3) by (cases "e w c"; cases "fst (e w c)") auto
  obtain x w2 t2 where r: "run (k r) e w1 = (x, w2, t2)" by (cases "run (k r) e w1")
  have "R c r" using e Call.prems(2) unfolding answers_def by blast
  then have "wpt R Q (t0 @ [(c, r)]) (k r)" using Call.prems(1) by simp
  moreover have x: "x = Returned a" "t = (c, r) # t2" using Call.prems(3) e r by simp_all
  ultimately show ?case using Call.IH [OF rangeI _ Call.prems(2) r [unfolded x(1)]] x(2) by fastforce
qed simp_all

lemma wpt_outcome:
  assumes "wpt R Q [] p" "answers R e" "outcome p e w = Returned a"
  shows "Q (trace p e w) a"
proof -
  obtain w' t where "run p e w = (Returned a, w', t)"
    using assms(3) by (cases "run p e w") (simp add: outcome_def)
  with wpt_run [OF assms(1,2) this] show ?thesis by (simp add: trace_def)
qed

text \<open>A loop whose body makes a measure smaller does not use its fuel up.\<close>

lemma wlp_loop_measure:
  assumes "I s" "mu s < f"
    and "\<And>s. I s \<Longrightarrow>
      wlp R P (\<lambda>x. case x of Inl s' \<Rightarrow> I s' \<and> (mu s' :: nat) < mu s | Inr a \<Rightarrow> Q (Some a)) H (body s)"
  shows "wlp R P Q H (loop f body s)"
  using assms(1,2)
proof (induction f arbitrary: s)
  case (Suc f)
  have "wlp R P (\<lambda>x. wlp R P Q H (case x of Inl s' \<Rightarrow> loop f body s' | Inr a \<Rightarrow> Ret (Some a))) H (body s)"
    using Suc.IH Suc.prems(2)
    by (intro wlp_mono [OF assms(3) [OF Suc.prems(1)]]) (auto split: sum.splits)
  then show ?case by (simp add: wlp_bind)
qed simp

lemma wpt_loop_measure:
  assumes "I t s" "mu s < f"
    and "\<And>t s. I t s \<Longrightarrow>
      wpt R (\<lambda>t x. case x of Inl s' \<Rightarrow> I t s' \<and> (mu s' :: nat) < mu s | Inr a \<Rightarrow> Q t (Some a)) t (body s)"
  shows "wpt R Q t (loop f body s)"
  using assms(1,2)
proof (induction f arbitrary: s t)
  case (Suc f)
  have "wpt R (\<lambda>t x. wpt R Q t (case x of Inl s' \<Rightarrow> loop f body s' | Inr a \<Rightarrow> Ret (Some a))) t (body s)"
    using Suc.IH Suc.prems(2)
    by (intro wpt_mono [OF assms(3) [OF Suc.prems(1)]]) (auto split: sum.splits)
  then show ?case by (simp add: wpt_bind)
qed simp

end
