(* ===== verification/Spmd.thy ===== *)
theory Spmd
  imports CProg
begin

text \<open>
  Several tasks running one program each over shared state. A step is either one call of one
  task, or the release of a barrier all the waiting tasks of a set leave together; which task
  moves is not determined. The locale \<open>barrier\<close> is the contract of a barrier, the locale
  \<open>spmd\<close> the discipline the test programs follow with it: between two releases either no task
  changes the shared state or one task works alone. Under that discipline every interleaving
  is proved to end, in the one state the sequential reading of the phases gives.
\<close>

section \<open>Interleaved tasks and barriers\<close>

text \<open>
  What a call of a task does to the shared state, None when the task is blocked in it; and
  the sets of waiting tasks a barrier releases, with the values it returns to them.
\<close>

type_synonym 'w sem = "tid \<Rightarrow> call \<Rightarrow> 'w \<Rightarrow> (resp \<times> 'w) option"
type_synonym release = "tid set \<Rightarrow> (tid \<Rightarrow> int) \<Rightarrow> bool"
type_synonym ('a, 'w) config = "(tid \<Rightarrow> 'a prog) \<times> 'w"

definition is_bar :: "call \<Rightarrow> bool" where
  "is_bar c \<longleftrightarrow> c = Mem Barrier_wait \<or> c = Pip Pip_barrier_wait"

fun at_bar :: "'a prog \<Rightarrow> bool" where
  "at_bar (Call c k) = is_bar c"
| "at_bar _ = False"

fun resume :: "'a prog \<Rightarrow> int \<Rightarrow> 'a prog" where
  "resume (Call c k) v = k (ok\<lparr>rv := v\<rparr>)"
| "resume p v = p"

lemma is_bar_simps [simp]:
  "is_bar (Mem Barrier_wait)" "is_bar (Pip Pip_barrier_wait)"
  "\<not> is_bar (Sys s)" "is_bar (Mem m) \<longleftrightarrow> m = Barrier_wait" "is_bar (Pip q) \<longleftrightarrow> q = Pip_barrier_wait"
  by (auto simp: is_bar_def)

inductive step :: "nat \<Rightarrow> 'w sem \<Rightarrow> release \<Rightarrow> ('a, 'w) config \<Rightarrow> ('a, 'w) config \<Rightarrow> bool"
  for n sem rel where
  local: "i < n \<Longrightarrow> P i = Call c k \<Longrightarrow> \<not> is_bar c \<Longrightarrow> sem i c w = Some (r, w') \<Longrightarrow>
     step n sem rel (P, w) (P(i := k r), w')"
| sync: "A \<subseteq> {i. i < n \<and> at_bar (P i)} \<Longrightarrow> rel A rvs \<Longrightarrow>
     step n sem rel (P, w) (\<lambda>i. if i \<in> A then resume (P i) (rvs i) else P i, w)"

inductive_cases stepE: "step n sem rel (P, w) c'"

abbreviation steps where "steps n sem rel \<equiv> (step n sem rel)\<^sup>*\<^sup>*"

text \<open>All tasks have returned from their main function, with these values.\<close>

definition finished :: "nat \<Rightarrow> (tid \<Rightarrow> 'a) \<Rightarrow> ('a, 'w) config \<Rightarrow> bool" where
  "finished n res c \<longleftrightarrow> (\<forall>i<n. fst c i = Ret (res i))"

section \<open>The contract of a barrier\<close>

text \<open>
  A barrier for \<open>n\<close> tasks releases all of them or none, it does release them once all have
  arrived, and what it returns is accepted (\<open>good\<close>) by the programs' checks.
\<close>

locale barrier =
  fixes n :: nat and rel :: release and good :: "int \<Rightarrow> bool"
  assumes participants: "0 < n"
    and all_arrived: "rel A rvs \<Longrightarrow> A \<subseteq> {..<n} \<Longrightarrow> A = {..<n}"
    and returns: "rel A rvs \<Longrightarrow> i \<in> A \<Longrightarrow> good (rvs i)"
    and releases: "\<exists>rvs. rel {..<n} rvs"
begin

lemma sync_all:
  assumes "A \<subseteq> {i. i < n \<and> at_bar (P i)}" "rel A rvs"
  shows "A = {..<n}" "\<And>i. i < n \<Longrightarrow> at_bar (P i)" "\<And>i. i < n \<Longrightarrow> good (rvs i)"
proof -
  show A: "A = {..<n}" using assms by (intro all_arrived) auto
  show "at_bar (P i)" if "i < n" for i using that A assms(1) by auto
  show "good (rvs i)" if "i < n" for i using that A assms(2) returns by auto
qed

end

text \<open>
  POSIX: \<open>pthread_barrier_wait\<close> lets the threads go when the number given to
  \<open>pthread_barrier_init\<close> have called it, returns \<open>PTHREAD_BARRIER_SERIAL_THREAD\<close> to one
  of them and 0 to the others.
\<close>

definition SERIAL_THREAD :: int where "SERIAL_THREAD = - 1"

definition pthread_release :: "nat \<Rightarrow> release" where
  "pthread_release n A rvs \<longleftrightarrow> finite A \<and> card A = n \<and>
     (\<exists>s\<in>A. \<forall>i\<in>A. rvs i = (if i = s then SERIAL_THREAD else 0))"

definition pthread_good :: "int \<Rightarrow> bool" where
  "pthread_good v \<longleftrightarrow> v = 0 \<or> v = SERIAL_THREAD"

lemma pthread_barrier:
  assumes "0 < n"
  shows "barrier n (pthread_release n) pthread_good"
proof
  show "0 < n" by (rule assms)
  show "A = {..<n}" if "pthread_release n A rvs" "A \<subseteq> {..<n}" for A rvs
    using that by (intro card_subset_eq) (auto simp: pthread_release_def)
  show "pthread_good (rvs i)" if "pthread_release n A rvs" "i \<in> A" for A rvs i
    using that by (auto simp: pthread_release_def pthread_good_def split: if_splits)
  show "\<exists>rvs. pthread_release n {..<n} rvs"
    using assms by (intro exI [of _ "\<lambda>i. if i = 0 then SERIAL_THREAD else 0"])
      (auto simp: pthread_release_def)
qed

interpretation pthread: barrier "Suc m" "pthread_release (Suc m)" pthread_good for m
  by (rule pthread_barrier) simp

section \<open>Running one task up to its next barrier\<close>

primrec to_barrier :: "'w sem \<Rightarrow> 'a prog \<Rightarrow> tid \<Rightarrow> 'w \<Rightarrow> ('a prog \<times> 'w) option" where
  "to_barrier sem (Ret a) i w = Some (Ret a, w)"
| "to_barrier sem (Halt h) i w = Some (Halt h, w)"
| "to_barrier sem (Call c k) i w =
     (if is_bar c then Some (Call c k, w)
      else case sem i c w of None \<Rightarrow> None | Some (r, w') \<Rightarrow> to_barrier sem (k r) i w')"

text \<open>The same for a task that leaves the shared state alone.\<close>

primrec quiet_run :: "'w sem \<Rightarrow> 'a prog \<Rightarrow> tid \<Rightarrow> 'w \<Rightarrow> 'a prog option" where
  "quiet_run sem (Ret a) i w = Some (Ret a)"
| "quiet_run sem (Halt h) i w = Some (Halt h)"
| "quiet_run sem (Call c k) i w =
     (if is_bar c then Some (Call c k)
      else case sem i c w of None \<Rightarrow> None
        | Some (r, w') \<Rightarrow> if w' = w then quiet_run sem (k r) i w else None)"

text \<open>
  The same for a task all of whose calls are idle: \<open>idle i c\<close> is the answer of a call that neither
  looks at the shared state nor changes it.
\<close>

primrec idle_run :: "(tid \<Rightarrow> call \<Rightarrow> resp option) \<Rightarrow> 'a prog \<Rightarrow> tid \<Rightarrow> 'a prog option" where
  "idle_run idle (Ret a) i = Some (Ret a)"
| "idle_run idle (Halt h) i = Some (Halt h)"
| "idle_run idle (Call c k) i =
     (if is_bar c then Some (Call c k)
      else case idle i c of None \<Rightarrow> None | Some r \<Rightarrow> idle_run idle (k r) i)"

primrec dist :: "'w sem \<Rightarrow> 'a prog \<Rightarrow> tid \<Rightarrow> 'w \<Rightarrow> nat" where
  "dist sem (Ret a) i w = 0"
| "dist sem (Halt h) i w = 0"
| "dist sem (Call c k) i w =
     (if is_bar c then 0
      else case sem i c w of None \<Rightarrow> 0 | Some (r, w') \<Rightarrow> Suc (dist sem (k r) i w'))"

definition stopped :: "'a prog \<Rightarrow> bool" where
  "stopped p \<longleftrightarrow> at_bar p \<or> (\<exists>a. p = Ret a)"

lemma stopped_runs:
  assumes "stopped p"
  shows "to_barrier sem p i w = Some (p, w)" "quiet_run sem p i w = Some p" "dist sem p i w = 0"
    "idle_run idle p i = Some p"
  using assms by (cases p; simp add: stopped_def)+

lemma stopped_no_call: "stopped p \<Longrightarrow> p = Call c k \<Longrightarrow> is_bar c"
  by (auto simp: stopped_def)

section \<open>Systems that go through phases\<close>

text \<open>
  \<open>I p k c\<close>: configuration \<open>c\<close> is in phase \<open>p\<close>, at a distance \<open>k\<close> from its end. Each step comes nearer to the
  end of the phase or goes to the next one; and only configurations with the goal reached have no step.
\<close>

locale phased =
  fixes stp :: "'c \<Rightarrow> 'c \<Rightarrow> bool" and I :: "nat \<Rightarrow> nat \<Rightarrow> 'c \<Rightarrow> bool" and K :: nat and goal :: "'c \<Rightarrow> bool"
  assumes advance: "p \<le> K \<Longrightarrow> I p k c \<Longrightarrow> stp c c' \<Longrightarrow>
        (\<exists>k'<k. I p k' c') \<or> (p < K \<and> (\<exists>k'. I (Suc p) k' c'))"
    and live: "p \<le> K \<Longrightarrow> I p k c \<Longrightarrow> goal c \<or> (\<exists>c'. stp c c')"
begin

lemma reaches:
  assumes "p \<le> K" "I p k c" "stp\<^sup>*\<^sup>* c c'"
  obtains q k' where "q \<le> K" "I q k' c'"
proof -
  have "\<exists>q k'. q \<le> K \<and> I q k' c'"
    using assms(3,1,2)
  proof (induction rule: rtranclp_induct)
    case (step y z)
    then obtain q k' where "q \<le> K" "I q k' y" by blast
    then show ?case using advance [OF _ _ step.hyps(2)] by (meson Suc_leI)
  qed blast
  then show thesis using that by blast
qed

lemma ends:
  assumes "p \<le> K" "I p k c" "stp\<^sup>*\<^sup>* c c'" "\<not> (\<exists>c''. stp c' c'')"
  shows "goal c'"
  using reaches [OF assms(1-3)] live assms(4) by metis

lemma terminates_from: "p \<le> K \<Longrightarrow> I p k c \<Longrightarrow> Wellfounded.accp (\<lambda>x y. stp y x) c"
proof (induction "K - p" arbitrary: p k c rule: less_induct)
  case outer: less
  show ?case using outer.prems
  proof (induction k arbitrary: c rule: less_induct)
    case inner: (less k)
    show ?case
    proof (rule accp.accI)
      fix y assume "stp c y"
      from advance [OF inner.prems this] show "Wellfounded.accp (\<lambda>x y. stp y x) y"
      proof
        assume "\<exists>k'<k. I p k' y"
        then show ?thesis using inner.IH inner.prems(1) by blast
      next
        assume y: "p < K \<and> (\<exists>k'. I (Suc p) k' y)"
        then have "K - Suc p < K - p" "Suc p \<le> K" by arith+
        then show ?thesis using outer.hyps y by blast
      qed
    qed
  qed
qed

end

section \<open>A phase up to the next barrier\<close>

text \<open>
  The participants are on their way to the points \<open>F i\<close>, where the shared state is \<open>w1\<close>: either none of
  them changes it on the way, or one does and the others do not look at it.
\<close>

definition phase_inv :: "nat \<Rightarrow> 'w sem \<Rightarrow> (tid \<Rightarrow> call \<Rightarrow> resp option) \<Rightarrow> tid option \<Rightarrow> (tid \<Rightarrow> 'a prog) \<Rightarrow> 'w \<Rightarrow>
    ('a, 'w) config \<Rightarrow> bool" where
  "phase_inv n sem idle writer F w1 c \<longleftrightarrow>
     (case writer of
        None \<Rightarrow> snd c = w1 \<and> (\<forall>i<n. quiet_run sem (fst c i) i (snd c) = Some (F i))
      | Some d \<Rightarrow> (\<forall>i<n. i \<noteq> d \<longrightarrow> idle_run idle (fst c i) i = Some (F i)) \<and>
          to_barrier sem (fst c d) d (snd c) = Some (F d, w1))"

definition remaining :: "nat \<Rightarrow> 'w sem \<Rightarrow> ('a, 'w) config \<Rightarrow> nat" where
  "remaining n sem c = (\<Sum>i<n. dist sem (fst c i) i (snd c))"

definition idle_calls :: "'w sem \<Rightarrow> (tid \<Rightarrow> call \<Rightarrow> resp option) \<Rightarrow> bool" where
  "idle_calls sem idle \<longleftrightarrow> (\<forall>i c r w. idle i c = Some r \<longrightarrow> sem i c w = Some (r, w))"

lemma idle_callsD: "idle_calls sem idle \<Longrightarrow> idle i c = Some r \<Longrightarrow> sem i c w = Some (r, w)"
  by (simp add: idle_calls_def)

lemma idle_dist:
  assumes "idle_calls sem idle"
  shows "idle_run idle p i = Some q \<Longrightarrow> dist sem p i w = dist sem p i w'"
proof (induction p arbitrary: w w')
  case (Call c k)
  show ?case
  proof (cases "is_bar c")
    case False
    then obtain r where r: "idle i c = Some r" "idle_run idle (k r) i = Some q"
      using Call.prems by (auto split: option.splits)
    then have "dist sem (k r) i w = dist sem (k r) i w'" using Call.IH by blast
    then show ?thesis using False idle_callsD [OF assms r(1)] by simp
  qed simp
qed auto

lemma remaining_less:
  assumes "i < n" "dist sem (P' i) i w' < dist sem (P i) i w"
    "\<And>j. j < n \<Longrightarrow> j \<noteq> i \<Longrightarrow> dist sem (P' j) j w' = dist sem (P j) j w"
  shows "remaining n sem (P', w') < remaining n sem (P, w)"
proof -
  have "(\<Sum>j<n. dist sem (P' j) j w') < (\<Sum>j<n. dist sem (P j) j w)"
    using assms by (intro sum_strict_mono_ex1) (auto intro!: bexI [of _ i] simp: le_less)
  then show ?thesis by (simp add: remaining_def)
qed

lemma phase_inv_local:
  assumes id: "idle_calls sem idle" and I: "phase_inv n sem idle writer F w1 (P, w)" and i: "i < n"
    and Pi: "P i = Call c k" and nb: "\<not> is_bar c" and s: "sem i c w = Some (r, w')"
  shows "phase_inv n sem idle writer F w1 (P(i := k r), w') \<and>
    remaining n sem (P(i := k r), w') < remaining n sem (P, w)"
proof (cases writer)
  case None
  have "quiet_run sem (P i) i w = Some (F i)" using I None i by (auto simp: phase_inv_def)
  then have w': "w' = w" "quiet_run sem (k r) i w = Some (F i)"
    using Pi nb s by (auto split: if_splits)
  then have "phase_inv n sem idle writer F w1 (P(i := k r), w')" using I None by (auto simp: phase_inv_def)
  moreover have "remaining n sem (P(i := k r), w') < remaining n sem (P, w)"
    using i Pi nb s w' by (intro remaining_less [of i]) auto
  ultimately show ?thesis by simp
next
  case (Some d)
  have oth: "idle_run idle (P j) j = Some (F j)" if "j < n" "j \<noteq> d" for j
    using that I Some by (simp add: phase_inv_def)
  have wr: "to_barrier sem (P d) d w = Some (F d, w1)" using I Some by (simp add: phase_inv_def)
  show ?thesis
  proof (cases "i = d")
    case True
    then have "phase_inv n sem idle writer F w1 (P(i := k r), w')"
      using I Some Pi nb s wr by (auto simp: phase_inv_def)
    moreover have "dist sem (P j) j w' = dist sem (P j) j w" if "j < n" "j \<noteq> d" for j
      using idle_dist [OF id oth [OF that]] .
    then have "remaining n sem (P(i := k r), w') < remaining n sem (P, w)"
      using i Pi nb s True by (intro remaining_less [of i]) auto
    ultimately show ?thesis by simp
  next
    case False
    obtain r' where r': "idle i c = Some r'" "idle_run idle (k r') i = Some (F i)"
      using oth [OF i False] Pi nb by (auto split: option.splits)
    then have eq: "r = r'" "w' = w" using idle_callsD [OF id, of i c r' w] s by simp_all
    then have "phase_inv n sem idle writer F w1 (P(i := k r), w')"
      using I Some False r' by (auto simp: phase_inv_def)
    moreover have "remaining n sem (P(i := k r), w') < remaining n sem (P, w)"
      using i Pi nb s eq by (intro remaining_less [of i]) auto
    ultimately show ?thesis by simp
  qed
qed

lemma phase_inv_cong:
  assumes "\<And>i. i < n \<Longrightarrow> P' i = P i" "\<And>d. writer = Some d \<Longrightarrow> d < n" "phase_inv n sem idle writer F w1 (P, w)"
  shows "phase_inv n sem idle writer F w1 (P', w)"
  using assms by (auto simp: phase_inv_def split: option.splits)

text \<open>When every participant has stopped, each is at its point and the state is the one predicted.\<close>

lemma phase_inv_stopped:
  assumes "phase_inv n sem idle writer F w1 (P, w)" "\<And>d. writer = Some d \<Longrightarrow> d < n"
    "\<And>i. i < n \<Longrightarrow> stopped (P i)" "i < n"
  shows "P i = F i" "w = w1"
  using assms by (auto simp: phase_inv_def stopped_runs split: option.splits)

lemma phase_inv_not_stuck:
  assumes id: "idle_calls sem idle" and I: "phase_inv n sem idle writer F w1 (P, w)"
    and i: "i < n" and F: "stopped (F i)" and ns: "\<not> stopped (P i)"
  shows "\<exists>c'. step n sem rel (P, w) c'"
proof -
  have run: "(\<exists>x. to_barrier sem (P i) i w = Some x \<and> stopped (fst x)) \<or>
      (\<exists>x. quiet_run sem (P i) i w = Some x \<and> stopped x) \<or>
      (\<exists>x. idle_run idle (P i) i = Some x \<and> stopped x)"
    using I i ns F by (cases writer; cases "writer = Some i"; auto simp: phase_inv_def)
  obtain c k where Pi: "P i = Call c k" and nb: "\<not> is_bar c"
    using ns run by (cases "P i") (auto simp: stopped_def)
  obtain r w' where "sem i c w = Some (r, w')"
    using run Pi nb idle_callsD [OF id, of i c _ w] by (auto split: option.splits)
  then show ?thesis using step.local [of i n P c k sem w r w' rel] i Pi nb by blast
qed

context barrier
begin

lemma all_at_barrier:
  assumes "\<And>i. i < n \<Longrightarrow> at_bar (P i)"
  shows "\<exists>c'. step n sem rel (P, w) c'"
proof -
  obtain rvs where "rel {..<n} rvs" using releases by blast
  then have "step n sem rel (P, w) (\<lambda>i. if i \<in> {..<n} then resume (P i) (rvs i) else P i, w)"
    using assms by (intro step.sync) auto
  then show ?thesis by (rule exI)
qed

text \<open>A phase that ends at a barrier, and a phase that ends with the programs.\<close>

lemma phase_advance:
  assumes id: "idle_calls sem idle" and I: "phase_inv n sem idle writer F w1 c" and wr: "\<forall>d. writer = Some d \<longrightarrow> d < n"
    and st: "step n sem rel c c'"
  shows "(phase_inv n sem idle writer F w1 c' \<and> remaining n sem c' < remaining n sem c) \<or>
    ((\<forall>i<n. at_bar (F i)) \<and> (\<exists>rvs. (\<forall>i<n. good (rvs i) \<and> fst c' i = resume (F i) (rvs i)) \<and> snd c' = w1))"
  using st
proof (cases rule: step.cases)
  case (local i P cc k w r w')
  then show ?thesis using phase_inv_local [OF id, of n writer F w1 P w i cc k r w'] I by simp
next
  case (sync A P rvs w)
  note S = sync_all [OF sync(3,4)]
  have stp: "stopped (P i)" if "i < n" for i using S(2) [OF that] by (simp add: stopped_def)
  have "P i = F i \<and> w = w1" if "i < n" for i
    using phase_inv_stopped [OF I [unfolded sync(1)] _ stp that] wr by simp
  then show ?thesis using S sync(2) participants by (intro disjI2 conjI exI [of _ rvs]) auto
qed

lemma phase_live:
  assumes id: "idle_calls sem idle" and I: "phase_inv n sem idle writer F w1 c" and wr: "\<forall>d. writer = Some d \<longrightarrow> d < n"
    and F: "\<forall>i<n. stopped (F i)"
  shows "(\<forall>i<n. fst c i = F i) \<and> snd c = w1 \<and> \<not> (\<forall>i<n. at_bar (F i)) \<or> (\<exists>c'. step n sem rel c c')"
proof (cases "\<forall>i<n. stopped (fst c i)")
  case False
  then obtain i where "i < n" "\<not> stopped (fst c i)" by blast
  then show ?thesis
    using phase_inv_not_stuck [of sem idle n writer F w1 "fst c" "snd c" i rel] id I F by simp
next
  case True
  have eq: "fst c i = F i \<and> snd c = w1" if "i < n" for i
    using phase_inv_stopped [of n sem idle writer F w1 "fst c" "snd c" i] I wr True that by simp
  show ?thesis
  proof (cases "\<forall>i<n. at_bar (F i)")
    case True
    then show ?thesis using all_at_barrier [of "fst c" sem "snd c"] eq by simp
  next
    case False
    then show ?thesis using eq participants by blast
  qed
qed

text \<open>The same for a phase in which nobody changes the shared state.\<close>

lemma quiet_advance:
  assumes "idle_calls sem idle" "phase_inv n sem idle None F w1 c" "step n sem rel c c'"
  shows "(phase_inv n sem idle None F w1 c' \<and> remaining n sem c' < remaining n sem c) \<or>
    ((\<forall>i<n. at_bar (F i)) \<and> (\<exists>rvs. (\<forall>i<n. good (rvs i) \<and> fst c' i = resume (F i) (rvs i)) \<and> snd c' = w1))"
  by (rule phase_advance [OF assms(1,2) _ assms(3)]) simp

lemma quiet_live:
  assumes "idle_calls sem idle" "phase_inv n sem idle None F w1 c" "\<forall>i<n. stopped (F i)"
  shows "(\<forall>i<n. fst c i = F i) \<and> snd c = w1 \<and> \<not> (\<forall>i<n. at_bar (F i)) \<or> (\<exists>c'. step n sem rel c c')"
  by (rule phase_live [OF assms(1,2) _ assms(3)]) simp

end

section \<open>Phases\<close>

text \<open>
  \<open>start p i\<close> is what task \<open>i\<close> still has to do when phase \<open>p\<close> begins, \<open>fin p i\<close> the point
  where it stops in that phase (a barrier, or its end in the last phase \<open>K\<close>), \<open>wst p\<close> the
  shared state when phase \<open>p\<close> begins, \<open>writer p\<close> the task that works alone in phase \<open>p\<close>.
\<close>

locale spmd = barrier n rel good
  for n :: nat and rel :: release and good :: "int \<Rightarrow> bool" +
  fixes sem :: "'w sem" and idle :: "tid \<Rightarrow> call \<Rightarrow> resp option"
    and start :: "nat \<Rightarrow> tid \<Rightarrow> 'a prog" and fin :: "nat \<Rightarrow> tid \<Rightarrow> 'a prog"
    and wst :: "nat \<Rightarrow> 'w" and writer :: "nat \<Rightarrow> tid option"
    and K :: nat and res :: "tid \<Rightarrow> 'a"
  assumes idle: "idle i c = Some r \<Longrightarrow> sem i c w = Some (r, w)"
    and quiet: "p \<le> K \<Longrightarrow> writer p = None \<Longrightarrow> i < n \<Longrightarrow>
        quiet_run sem (start p i) i (wst p) = Some (fin p i)"
    and quiet_wst: "p \<le> K \<Longrightarrow> writer p = None \<Longrightarrow> wst (Suc p) = wst p"
    and writes: "p \<le> K \<Longrightarrow> writer p = Some d \<Longrightarrow>
        to_barrier sem (start p d) d (wst p) = Some (fin p d, wst (Suc p))"
    and writer_in: "p \<le> K \<Longrightarrow> writer p = Some d \<Longrightarrow> d < n"
    and others: "p \<le> K \<Longrightarrow> writer p = Some d \<Longrightarrow> i < n \<Longrightarrow> i \<noteq> d \<Longrightarrow>
        idle_run idle (start p i) i = Some (fin p i)"
    and fin_bar: "p < K \<Longrightarrow> i < n \<Longrightarrow> at_bar (fin p i)"
    and next_phase: "p < K \<Longrightarrow> i < n \<Longrightarrow> good v \<Longrightarrow> resume (fin p i) v = start (Suc p) i"
    and last_phase: "i < n \<Longrightarrow> fin K i = Ret (res i)"
begin

definition pinv :: "nat \<Rightarrow> ('a, 'w) config \<Rightarrow> bool" where
  "pinv p c \<longleftrightarrow> phase_inv n sem idle (writer p) (fin p) (wst (Suc p)) c"

lemma fin_stopped: "p \<le> K \<Longrightarrow> i < n \<Longrightarrow> stopped (fin p i)"
  using fin_bar last_phase by (cases "p = K") (auto simp: stopped_def)

lemma pinv_start: "p \<le> K \<Longrightarrow> pinv p (start p, wst p)"
  by (auto simp: pinv_def phase_inv_def quiet quiet_wst writes others split: option.splits)

end

sublocale spmd \<subseteq> phased "step n sem rel" "\<lambda>p k c. pinv p c \<and> k = remaining n sem c" K
    "\<lambda>c. finished n res c \<and> snd c = wst (Suc K)"
proof
  have id: "idle_calls sem idle" using idle by (simp add: idle_calls_def)
  fix p k c assume p: "p \<le> K" and "pinv p c \<and> k = remaining n sem c"
  then have I: "phase_inv n sem idle (writer p) (fin p) (wst (Suc p)) c" and k: "k = remaining n sem c"
    by (simp_all add: pinv_def)
  have wr: "d < n" if "writer p = Some d" for d using writer_in [OF p that] .
  show "(finished n res c \<and> snd c = wst (Suc K)) \<or> (\<exists>c'. step n sem rel c c')"
  proof -
    have "(\<forall>i<n. fst c i = fin p i) \<and> snd c = wst (Suc p) \<and> \<not> (\<forall>i<n. at_bar (fin p i)) \<or>
        (\<exists>c'. step n sem rel c c')"
      by (rule phase_live [OF id I]) (use wr fin_stopped [OF p] in auto)
    then show ?thesis using fin_bar [of p] last_phase p by (cases "p = K") (auto simp: finished_def)
  qed
  fix c' assume "step n sem rel c c'"
  then have "(phase_inv n sem idle (writer p) (fin p) (wst (Suc p)) c' \<and> remaining n sem c' < remaining n sem c) \<or>
      ((\<forall>i<n. at_bar (fin p i)) \<and>
       (\<exists>rvs. (\<forall>i<n. good (rvs i) \<and> fst c' i = resume (fin p i) (rvs i)) \<and> snd c' = wst (Suc p)))"
    by (rule phase_advance [OF id I, rotated]) (simp add: wr)
  then show "(\<exists>k'<k. pinv p c' \<and> k' = remaining n sem c') \<or> (p < K \<and> (\<exists>k'. pinv (Suc p) c' \<and> k' = remaining n sem c'))"
  proof (elim disjE)
    assume S: "(\<forall>i<n. at_bar (fin p i)) \<and>
      (\<exists>rvs. (\<forall>i<n. good (rvs i) \<and> fst c' i = resume (fin p i) (rvs i)) \<and> snd c' = wst (Suc p))"
    then have "p \<noteq> K" using last_phase [OF participants] participants by fastforce
    with p have "p < K" by simp
    moreover have "fst c' i = start (Suc p) i" if "i < n" for i
      using S next_phase [OF \<open>p < K\<close> that] that by metis
    moreover have "pinv (Suc p) (start (Suc p), wst (Suc p))" using \<open>p < K\<close> by (intro pinv_start) simp
    ultimately show ?thesis
      using S writer_in [of "Suc p"] phase_inv_cong [of n "fst c'" "start (Suc p)" "writer (Suc p)"]
      unfolding pinv_def by (metis Suc_leI prod.collapse)
  qed (simp add: pinv_def k)
qed

context spmd
begin

text \<open>A configuration in which all tasks have ended is the one the phases predict.\<close>

lemma result:
  assumes "steps n sem rel (start 0, wst 0) c" "\<not> (\<exists>c'. step n sem rel c c')"
  shows "finished n res c \<and> snd c = wst (Suc K)"
  by (rule ends [OF le0 conjI [OF pinv_start [OF le0] refl] assms])

text \<open>Every run ends: the phase grows, and within a phase the tasks come nearer to its end.\<close>

lemma terminates: "Wellfounded.accp (\<lambda>x y. step n sem rel y x) (start 0, wst 0)"
  by (rule terminates_from [OF le0 conjI [OF pinv_start [OF le0] refl]])

end

end
