(* ===== verification/TestH.thy ===== *)
theory TestH
  imports Spmd
begin

text \<open>
  \<open>include/test.h\<close>, the header every test program includes: the exit codes, the table of
  signal names with the conversions from and to it, the handlers, the helpers that copy a
  \<open>/proc\<close> file or the environment to the output; and the argument checks that the test
  programs share word for word. What \<open>pip.h\<close> defines is not part of the repository: its
  constants are the record \<open>pip_h\<close>, an argument of the models.
\<close>

section \<open>Constants\<close>

record pip_h =
  VERSION_MAJOR :: int
  VERSION_MINOR :: int
  NTASKS_MAX :: int
  PIPID_ROOT :: int
  PIPID_ANY :: int
  PIPID_MYSELF :: int
  PIPID_SELF :: int
  CPUCORE_ASIS :: int
  CPUCORE_CORENO_MAX :: int

text \<open>An instance of the constants, for running the models on concrete inputs.\<close>

definition h_sample :: pip_h where
  "h_sample = \<lparr>VERSION_MAJOR = 2, VERSION_MINOR = 1, NTASKS_MAX = 300, PIPID_ROOT = - 1,
     PIPID_ANY = - 2, PIPID_MYSELF = - 3, PIPID_SELF = - 4, CPUCORE_ASIS = 0,
     CPUCORE_CORENO_MAX = 255\<rparr>"

definition EXIT_PASS :: int where "EXIT_PASS = 0"
definition EXIT_FAIL :: int where "EXIT_FAIL = 1"
definition EXIT_XPASS :: int where "EXIT_XPASS = 2"
definition EXIT_XFAIL :: int where "EXIT_XFAIL = 3"
definition EXIT_UNRESOLVED :: int where "EXIT_UNRESOLVED = 4"
definition EXIT_UNTESTED :: int where "EXIT_UNTESTED = 5"
definition EXIT_UNSUPPORTED :: int where "EXIT_UNSUPPORTED = 6"
definition EXIT_KILLED :: int where "EXIT_KILLED = 7"

lemmas exit_defs = EXIT_PASS_def EXIT_FAIL_def EXIT_XPASS_def EXIT_XFAIL_def
  EXIT_UNRESOLVED_def EXIT_UNTESTED_def EXIT_UNSUPPORTED_def EXIT_KILLED_def

definition NTASKS :: "pip_h \<Rightarrow> int" where
  "NTASKS h = NTASKS_MAX h"

definition PIP_TEST_NTASKS_ENV :: string where "PIP_TEST_NTASKS_ENV = ''PIP_TEST_NTASKS''"
definition PIP_TEST_PIPID_ENV :: string where "PIP_TEST_PIPID_ENV = ''PIP_TEST_PIPID''"
definition IMPOSSIBLE_PIPID :: int where "IMPOSSIBLE_PIPID = - 123"

section \<open>Signal names\<close>

definition signam_tab :: "string list" where
  "signam_tab =
     [''(signal0)'', ''SIGHUP'', ''SIGINT'', ''SIGQUIT'', ''SIGILL'', ''SIGTRAP'', ''SIGABRT'',
      ''SIGBUS'', ''SIGFPE'', ''SIGKILL'', ''SIGUSR1'', ''SIGSEGV'', ''SIGUSR2'', ''SIGPIPE'',
      ''SIGALRM'', ''SIGTERM'', ''SIGSTKFLT'', ''SIGCHLD'', ''SIGCONT'', ''SIGSTOP'', ''SIGTSTP'',
      ''SIGTTIN'', ''SIGTTOU'', ''SIGURG'', ''SIGXCPU'', ''SIGXFSZ'', ''SIGVTALRM'', ''SIGPROF'',
      ''SIGWINCH'', ''SIGIO'', ''SIGPWR'', ''SIGSYS'']"

definition signal_name :: "int \<Rightarrow> string" where
  "signal_name sig = (if sig < 0 \<or> sig > 31 then ''(not a signal)'' else signam_tab ! nat sig)"

definition SIGNAM_LEN :: nat where "SIGNAM_LEN = 16"

definition NUL :: char where "NUL = CHR 0x00"

text \<open>The \<open>n\<close> bytes \<open>strncpy (dst, src, n)\<close> writes: it pads with NUL and may leave none.\<close>

definition strncpy :: "string \<Rightarrow> nat \<Rightarrow> string" where
  "strncpy src n = take n src @ replicate (n - length src) NUL"

text \<open>The bytes of the array \<open>name\<close> in \<open>signal_number\<close>.\<close>

definition signame_buf :: "string \<Rightarrow> string" where
  "signame_buf signame =
     (if strncaseeq signame ''SIG'' 3 then strncpy signame SIGNAM_LEN
      else ''SIG'' @ strncpy signame (SIGNAM_LEN - 3))"

text \<open>
  \<open>strcasecmp\<close> of a byte array with a string: byte by byte up to the first difference or the
  end of the string; None is a read past the end of the array.
\<close>

fun strcasecmp_buf :: "string \<Rightarrow> string \<Rightarrow> bool option" where
  "strcasecmp_buf [] t = None"
| "strcasecmp_buf (b # bs) [] = Some (b = NUL)"
| "strcasecmp_buf (b # bs) (c # cs) =
     (if tolower b \<noteq> tolower c then Some False else strcasecmp_buf bs cs)"

fun signal_search :: "string \<Rightarrow> int \<Rightarrow> string list \<Rightarrow> int option" where
  "signal_search name i [] = Some (- 1)"
| "signal_search name i (t # ts) =
     (case strcasecmp_buf name t of
        None \<Rightarrow> None
      | Some True \<Rightarrow> Some i
      | Some False \<Rightarrow> signal_search name (i + 1) ts)"

definition signal_number :: "string \<Rightarrow> int option" where
  "signal_number signame = signal_search (signame_buf signame) 0 signam_tab"

subsection \<open>The conversion without the array\<close>

definition full_name :: "string \<Rightarrow> string" where
  "full_name s = (if strncaseeq s ''SIG'' 3 then s else ''SIG'' @ s)"

fun find_name :: "string \<Rightarrow> int \<Rightarrow> string list \<Rightarrow> int" where
  "find_name s i [] = - 1"
| "find_name s i (t # ts) = (if strcaseeq s t then i else find_name s (i + 1) ts)"

lemma signame_buf_eq:
  "signame_buf s = take 16 (full_name s) @ replicate (16 - length (full_name s)) NUL"
  by (simp add: signame_buf_def full_name_def strncpy_def SIGNAM_LEN_def take_Cons')

lemma tolower_NUL: "tolower c = tolower NUL \<Longrightarrow> c = NUL"
  by (auto simp: tolower_def NUL_def split: if_splits dest: arg_cong [where f = "of_char :: char \<Rightarrow> nat"])

lemma strcasecmp_buf_eq:
  assumes "length t < length a + m" "\<forall>c\<in>set t. c \<noteq> NUL" "\<forall>c\<in>set a. c \<noteq> NUL"
  shows "strcasecmp_buf (a @ replicate m NUL) t = Some (strcaseeq a t)"
  using assms
proof (induction a t rule: list_induct2')
  case 1
  then show ?case by (cases m) (auto simp: strcaseeq_def)
next
  case (2 x xs)
  then show ?case by (auto simp: strcaseeq_def)
next
  case (3 y ys)
  then have "tolower NUL \<noteq> tolower y" using tolower_NUL by fastforce
  then show ?case using 3 by (cases m) (auto simp: strcaseeq_def)
next
  case (4 x xs y ys)
  then show ?case by (auto simp: strcaseeq_def)
qed

lemma strcaseeq_take:
  assumes "length t < k" shows "strcaseeq (take k a) t \<longleftrightarrow> strcaseeq a t"
proof (cases "length a \<le> k")
  case True
  then show ?thesis by simp
next
  case False
  then have "length (take k a) \<noteq> length t" "length a \<noteq> length t" using assms by simp_all
  then show ?thesis by (metis strcaseeq_def length_map)
qed

lemma signal_search_eq:
  assumes "\<forall>t\<in>set ts. length t < 16 \<and> NUL \<notin> set t" "NUL \<notin> set s"
  shows "signal_search (take 16 s @ replicate (16 - length s) NUL) i ts = Some (find_name s i ts)"
  using assms(1)
proof (induction ts arbitrary: i)
  case Nil
  then show ?case by simp
next
  case (Cons t ts)
  have "strcasecmp_buf (take 16 s @ replicate (16 - length s) NUL) t = Some (strcaseeq s t)"
    using Cons.prems assms(2)
    by (subst strcasecmp_buf_eq) (auto simp: strcaseeq_take dest: in_set_takeD)
  then show ?case using Cons by simp
qed

lemma signam_tab_short: "\<forall>t\<in>set signam_tab. length t < 16 \<and> NUL \<notin> set t"
  by (simp add: signam_tab_def NUL_def)

lemma find_name_range: "find_name s i ts = - 1 \<or> i \<le> find_name s i ts \<and> find_name s i ts < i + int (length ts)"
proof (induction ts arbitrary: i)
  case (Cons t ts)
  show ?case using Cons.IH [of "i + 1"] by auto
qed simp

lemma find_name_match:
  "find_name s i ts = j \<Longrightarrow> 0 \<le> i \<Longrightarrow> j \<noteq> - 1 \<Longrightarrow> strcaseeq s (ts ! nat (j - i))"
proof (induction ts arbitrary: i)
  case (Cons t ts)
  show ?case
  proof (cases "strcaseeq s t")
    case True
    then show ?thesis using Cons.prems by auto
  next
    case False
    then have j: "find_name s (i + 1) ts = j" using Cons.prems by simp
    then have "i + 1 \<le> j" using find_name_range [of s "i + 1" ts] Cons.prems by auto
    then have "nat (j - i) = Suc (nat (j - (i + 1)))" by simp
    then show ?thesis using Cons.IH [OF j] Cons.prems by simp
  qed
qed simp

lemma full_name_prefix: "\<exists>u. map tolower (full_name s) = ''sig'' @ u"
proof (cases "strncaseeq s ''SIG'' 3")
  case True
  moreover have "map tolower ''SIG'' = ''sig''" by code_simp
  ultimately have "map tolower (take 3 s) = ''sig''"
    by (simp add: strncaseeq_def strcaseeq_def)
  then have "map tolower s = ''sig'' @ map tolower (drop 3 s)"
    by (metis append_take_drop_id map_append)
  then show ?thesis using True by (auto simp: full_name_def)
next
  case False
  moreover have "map tolower ''SIG'' = ''sig''" by code_simp
  ultimately show ?thesis by (simp add: full_name_def)
qed

lemma signal_number_eq:
  assumes "NUL \<notin> set s"
  shows "signal_number s = Some (find_name (full_name s) 0 signam_tab)"
proof -
  have "NUL \<notin> set (full_name s)" using assms by (auto simp: full_name_def NUL_def)
  then show ?thesis
    by (simp add: signal_number_def signame_buf_eq signal_search_eq signam_tab_short)
qed

section \<open>Handlers and helpers\<close>

definition abend :: "pip_h \<Rightarrow> int \<Rightarrow> 'a prog" where
  "abend h extval =
     (if VERSION_MAJOR h > 1 then Call (Pip Pip_kill_all_child_tasks) (\<lambda>_. Halt (Exit extval))
      else Halt (Exit extval))"

definition sigint_watcher :: "'a prog" where
  "sigint_watcher = Halt (Exit EXIT_UNRESOLVED)"

definition set_sigint_watcher :: "pip_h \<Rightarrow> 'a prog \<Rightarrow> 'a prog" where
  "set_sigint_watcher h k =
     chk (Sys (Sigaction SIGINT ''sigint_watcher'')) (\<lambda>r. rv r \<noteq> 0) (abend h EXIT_UNTESTED) (\<lambda>_. k)"

definition set_signal_watcher :: "pip_h \<Rightarrow> int \<Rightarrow> 'a prog \<Rightarrow> 'a prog" where
  "set_signal_watcher h sig k =
     chk (Sys (Sigaction sig ''signal_watcher'')) (\<lambda>r. rv r \<noteq> 0) (abend h EXIT_UNTESTED) (\<lambda>_. k)"

definition set_signal_handler :: "int \<Rightarrow> string \<Rightarrow> int prog" where
  "set_signal_handler sig handler = Call (Sys (Sigaction sig handler)) (\<lambda>r. Ret (errno r))"

text \<open>\<open>print_maps\<close> and \<open>print_numa\<close>: copy a file to descriptor 1 in pieces of 1024 bytes.\<close>

definition data :: "resp \<Rightarrow> string" where
  "data r = (case strv r of None \<Rightarrow> [] | Some s \<Rightarrow> s)"

definition print_file :: "pip_h \<Rightarrow> string \<Rightarrow> nat \<Rightarrow> unit option prog" where
  "print_file h path fuel =
     Call (Sys (Open path)) (\<lambda>r. let fd = rv r in
       bind (loop fuel (\<lambda>_.
           Call (Sys (Read fd 1024)) (\<lambda>r.
             if rv r \<le> 0 then Ret (Inr ())
             else chk (Sys (Write 1 (take (nat (rv r)) (data r))))
                    (\<lambda>r. rv r < 0) (abend h EXIT_UNTESTED) (\<lambda>_. Ret (Inl ())))) ())
         (\<lambda>x. case x of None \<Rightarrow> Ret None
            | Some _ \<Rightarrow> Call (Sys (Close fd)) (\<lambda>_. Ret (Some ()))))"

definition print_maps :: "pip_h \<Rightarrow> nat \<Rightarrow> unit option prog" where
  "print_maps h = print_file h ''/proc/self/maps''"

definition print_numa :: "pip_h \<Rightarrow> nat \<Rightarrow> unit option prog" where
  "print_numa h = print_file h ''/proc/self/numa_maps''"

text \<open>\<open>dump_env\<close>: the lines it prints for the environment \<open>envv\<close>.\<close>

fun dump_env_from :: "string \<Rightarrow> nat \<Rightarrow> string list \<Rightarrow> int \<Rightarrow> string list" where
  "dump_env_from tag i [] nomore = []"
| "dump_env_from tag i (x # envv) nomore =
     (if int i \<ge> nomore then [tag @ ''[..] more env-vars may follow...'']
      else (tag @ ''['' @ show_nat i @ ''] '' @ x) # dump_env_from tag (Suc i) envv nomore)"

definition dump_env :: "string \<Rightarrow> string list \<Rightarrow> int \<Rightarrow> string list" where
  "dump_env tag envv nomore = dump_env_from tag 0 envv nomore"

section \<open>What the header's conversions guarantee\<close>

text \<open>C25: \<open>signal_number\<close>, for every C string it is given, returns without reading outside its
16-byte array, and what it returns is -1 or the number of a signal 1 to 31 whose name, up to
case and up to the prefix SIG, is the given string: truncating to 16 bytes changes nothing and
the entry "(signal0)" is never found.\<close>

theorem signal_number_spec:
  assumes "NUL \<notin> set s"
  shows "\<exists>j. signal_number s = Some j \<and>
     (j = - 1 \<or> 1 \<le> j \<and> j \<le> 31 \<and> strcaseeq (full_name s) (signal_name j))"
proof -
  let ?j = "find_name (full_name s) 0 signam_tab"
  have j: "signal_number s = Some ?j" using assms by (rule signal_number_eq)
  have range: "?j = - 1 \<or> 0 \<le> ?j \<and> ?j \<le> 31"
    using find_name_range [of "full_name s" 0 signam_tab] by (auto simp: signam_tab_def)
  have match: "?j \<noteq> - 1 \<Longrightarrow> strcaseeq (full_name s) (signam_tab ! nat ?j)"
    using find_name_match [of "full_name s" 0 signam_tab ?j] by simp
  have "?j \<noteq> 0"
  proof
    assume "?j = 0"
    then have "strcaseeq (full_name s) ''(signal0)''" using match by (simp add: signam_tab_def)
    moreover have "hd (map tolower ''(signal0)'') \<noteq> hd ''sig''" by code_simp
    ultimately show False using full_name_prefix [of s] by (auto simp: strcaseeq_def)
  qed
  then show ?thesis using j range match by (auto simp: signal_name_def)
qed

lemma signal_number_spec_witness:
  "\<exists>j. signal_number ''usr1'' = Some j \<and>
     (j = - 1 \<or> 1 \<le> j \<and> j \<le> 31 \<and> strcaseeq (full_name ''usr1'') (signal_name j))"
  by (rule signal_number_spec) (simp add: NUL_def)

lemma tolower_idem: "tolower (tolower c) = tolower c"
  by (auto simp: tolower_def of_char_of)

lemma tolower_not_NUL: "c \<noteq> NUL \<Longrightarrow> tolower c \<noteq> NUL"
  by (metis tolower_NUL tolower_idem)

lemma find_name_nth:
  assumes "distinct (map (map tolower) ts)" "k < length ts" "map tolower s = map tolower (ts ! k)"
  shows "find_name s i ts = i + int k"
  using assms
proof (induction ts arbitrary: i k)
  case (Cons t ts)
  show ?case
  proof (cases k)
    case 0
    then show ?thesis using Cons.prems by (simp add: strcaseeq_def)
  next
    case (Suc m)
    then have "map tolower s \<in> map tolower ` set ts" using Cons.prems by auto
    then have "map tolower s \<noteq> map tolower t" using Cons.prems(1) by auto
    then show ?thesis using Cons.IH [of m "i + 1"] Cons.prems Suc by (simp add: strcaseeq_def)
  qed
qed simp

lemma lower_signam_tab:
  "map (map tolower) signam_tab =
     [''(signal0)'', ''sighup'', ''sigint'', ''sigquit'', ''sigill'', ''sigtrap'', ''sigabrt'',
      ''sigbus'', ''sigfpe'', ''sigkill'', ''sigusr1'', ''sigsegv'', ''sigusr2'', ''sigpipe'',
      ''sigalrm'', ''sigterm'', ''sigstkflt'', ''sigchld'', ''sigcont'', ''sigstop'', ''sigtstp'',
      ''sigttin'', ''sigttou'', ''sigurg'', ''sigxcpu'', ''sigxfsz'', ''sigvtalrm'', ''sigprof'',
      ''sigwinch'', ''sigio'', ''sigpwr'', ''sigsys'']"
  by (simp add: signam_tab_def char_eval)

lemma lower_distinct: "distinct (map (map tolower) signam_tab)"
  unfolding lower_signam_tab by simp

text \<open>Every name after the first starts with SIG, and not with SIG twice.\<close>

lemma signam_prefixes:
  "list_all (\<lambda>t. map tolower (take 3 t) = ''sig'' \<and> map tolower (take 3 (drop 3 t)) \<noteq> ''sig'')
     (tl signam_tab)"
proof -
  have "list_all (\<lambda>v. take 3 v = ''sig'' \<and> take 3 (drop 3 v) \<noteq> ''sig'')
      (tl (map (map tolower) signam_tab))"
    unfolding lower_signam_tab by simp
  then show ?thesis by (simp add: list.pred_map map_tl [symmetric] comp_def take_map drop_map)
qed

lemma full_name_lower:
  assumes "map tolower (take 3 t) = ''sig'' \<and> map tolower (take 3 (drop 3 t)) \<noteq> ''sig''"
    and "u = t \<or> u = drop 3 t \<or> u = map tolower (drop 3 t)"
  shows "map tolower (full_name u) = map tolower t"
proof -
  have sig: "map tolower ''SIG'' = ''sig''" by (simp add: char_eval)
  have t: "map tolower t = ''sig'' @ map tolower (drop 3 t)"
    using assms(1) by (metis append_take_drop_id map_append)
  have low: "map tolower (map tolower v) = map tolower v" for v
    by (simp add: tolower_idem)
  have pre: "strncaseeq v ''SIG'' 3 \<longleftrightarrow> map tolower (take 3 v) = ''sig''" for v
    by (simp add: strncaseeq_def strcaseeq_def sig del: list.map(2))
  have no: "map tolower (full_name v) = ''sig'' @ map tolower v"
    if "map tolower (take 3 v) \<noteq> ''sig''" for v
    using that by (simp only: full_name_def pre map_append sig if_False simp_thms)
  show ?thesis
    using assms(2)
  proof (elim disjE)
    assume "u = t"
    then show ?thesis using assms(1) by (simp add: full_name_def pre)
  next
    assume "u = drop 3 t"
    then show ?thesis using no [of u] assms(1) t by simp
  next
    assume u: "u = map tolower (drop 3 t)"
    have "map tolower (take 3 u) = map tolower (take 3 (drop 3 t))"
      by (simp only: u take_map low)
    then show ?thesis using no [of u] assms(1) t by (simp add: u tolower_idem)
  qed
qed

text \<open>C26: for each of the 31 signals, \<open>signal_number\<close> inverts \<open>signal_name\<close>, also when the
name is given without its prefix SIG and in lower case.\<close>

theorem signal_name_roundtrip:
  assumes "1 \<le> sig" "sig \<le> 31"
  shows "signal_number (signal_name sig) = Some sig \<and>
     signal_number (drop 3 (signal_name sig)) = Some sig \<and>
     signal_number (map tolower (drop 3 (signal_name sig))) = Some sig"
proof -
  let ?t = "signam_tab ! nat sig"
  have len: "length signam_tab = 32" by (simp add: signam_tab_def)
  obtain k where k: "nat sig = Suc k" "k < 31" using assms by (cases "nat sig") auto
  then have t: "?t \<in> set (tl signam_tab)" "nat sig < length signam_tab"
    using nth_mem [of k "tl signam_tab"] by (simp_all add: len nth_tl)
  have "NUL \<notin> set ?t" using signam_tab_short t(2) nth_mem by blast
  have n: "signal_number u = Some sig" if "NUL \<notin> set u" "map tolower (full_name u) = map tolower ?t" for u
    using that assms find_name_nth [OF lower_distinct t(2), of "full_name u" 0]
    by (simp add: signal_number_eq)
  have "map tolower (full_name u) = map tolower ?t"
    if "u = ?t \<or> u = drop 3 ?t \<or> u = map tolower (drop 3 ?t)" for u
    using that signam_prefixes t(1) unfolding list_all_iff by (blast intro: full_name_lower)
  moreover have d: "NUL \<notin> set (drop 3 ?t)"
    using \<open>NUL \<notin> set ?t\<close> by (auto dest: in_set_dropD)
  moreover have "NUL \<notin> set (map tolower (drop 3 ?t))"
    using d tolower_not_NUL by (metis (no_types, lifting) imageE set_map)
  ultimately show ?thesis
    using assms \<open>NUL \<notin> set ?t\<close> n by (simp add: signal_name_def)
qed

lemma signal_name_roundtrip_witness:
  "signal_number (signal_name 11) = Some 11 \<and>
     signal_number (drop 3 (signal_name 11)) = Some 11 \<and>
     signal_number (map tolower (drop 3 (signal_name 11))) = Some 11"
  by (rule signal_name_roundtrip) simp_all

text \<open>The bytes a run handed to \<open>write\<close> on descriptor 1, and those its reads returned.\<close>

fun written :: "trace \<Rightarrow> string" where
  "written [] = []"
| "written ((Sys (Write fd s), r) # t) = s @ written t"
| "written (_ # t) = written t"

fun gotten :: "trace \<Rightarrow> string" where
  "gotten [] = []"
| "gotten ((Sys (Read fd n), r) # t) = take (nat (rv r)) (data r) @ gotten t"
| "gotten (_ # t) = gotten t"

lemma written_append: "written (s @ t) = written s @ written t"
  by (induction s rule: written.induct) auto

lemma gotten_append: "gotten (s @ t) = gotten s @ gotten t"
  by (induction s rule: gotten.induct) auto

end
