(* ===== verification/Timer.thy ===== *)
theory Timer
  imports TestH
begin

text \<open>
  \<open>utils/timer.c\<close>, the command every test runs under: it forks the test, waits for it with a
  one-second alarm that counts the allowed time down, kills the test's process group when the
  time is over, and exits with the exit code of the test. The static variables are the record
  \<open>timer\<close>; the alarm handler \<open>timer_watcher\<close> is a function on it. The paths PIPS and PIPLIB that the
  Makefile compiles in are arguments. A load average is kept in hundredths, the precision in
  which \<open>/proc/loadavg\<close> prints it.
\<close>

record timer =
  pid :: int
  timer_count :: int
  timedout :: bool
  timer_period :: int
  timer_actual :: int
  ncores :: int

definition init_timer :: timer where
  "init_timer = \<lparr>pid = 0, timer_count = 0, timedout = False, timer_period = 0,
     timer_actual = 0, ncores = 0\<rparr>"

definition DEBUG_SCALE :: int where "DEBUG_SCALE = 3"
definition VM_SCALE :: int where "VM_SCALE = 5"

definition cleanup :: "string \<Rightarrow> timer \<Rightarrow> 'a prog \<Rightarrow> 'a prog" where
  "cleanup pips st k =
     (if pid st > 0 then
        Call (Sys (System (pips @ '' x -k -d '' @ show_int (pid st) @ '' > /dev/null 2>&1''))) (\<lambda>_.
        Call (Sys (Usleep (10 * 10000))) (\<lambda>_.
        Call (Sys (System (pips @ '' x -s KILL -d '' @ show_int (pid st) @ '' > /dev/null 2>&1''))) (\<lambda>_.
        Call (Sys (Killpg (pid st) SIGTERM)) (\<lambda>r.
          if rv r = 0 \<or> errno r \<noteq> ESRCH then
            Call (Sys (Usleep (10 * 1000))) (\<lambda>_.
            Call (Sys (Kill (pid st) SIGKILL)) (\<lambda>_. k))
          else k))))
      else k)"

text \<open>The first part of \<open>get_load\<close>: the number of cores, asked for once.\<close>

definition get_ncores :: "timer \<Rightarrow> timer prog" where
  "get_ncores st =
     (if ncores st \<le> 0 then
        Call (Sys Sysconf_nprocs) (\<lambda>r.
          bind (if to_int32 (rv r) < 0 then
                  Call (Sys (Popen ''getconf _NPROCESSORS_ONLN'')) (\<lambda>p.
                    if rv p \<noteq> 0 then
                      Call (Sys Fscanf) (\<lambda>s. Call (Sys Fclose) (\<lambda>_.
                        Ret (stored (o1 s) (to_int32 (rv r)))))
                    else Ret (to_int32 (rv r)))
                else Ret (to_int32 (rv r)))
            (\<lambda>nc. Ret (st\<lparr>ncores := if nc \<le> 0 then 2 else nc\<rparr>)))
      else Ret st)"

text \<open>A C float converted to \<open>int\<close>, from hundredths: the fraction is cut off.\<close>

definition trunc_hundredths :: "int \<Rightarrow> int" where
  "trunc_hundredths x = (if x < 0 then - ((- x) div 100) else x div 100)"

text \<open>\<open>int inv_nc = 1.0 / (float) ncores\<close>: an \<open>int\<close> variable, so the quotient is cut to 1 or 0.\<close>

definition inv_ncores :: "int \<Rightarrow> int" where
  "inv_ncores nc = 1 div nc"

definition get_load :: "timer \<Rightarrow> (int \<times> timer) prog" where
  "get_load st =
     bind (get_ncores st) (\<lambda>st.
       let inv_nc = inv_ncores (ncores st) in
       Call (Sys (Fopen ''/proc/loadavg'')) (\<lambda>f.
         if rv f \<noteq> 0 then
           Call (Sys Fscanf) (\<lambda>s. Call (Sys Fclose) (\<lambda>_.
             Ret (trunc_hundredths (stored (o1 s) 0 * inv_nc), st)))
         else Ret (0, st)))"

definition unset_timer :: "'a prog \<Rightarrow> 'a prog" where
  "unset_timer k = Call (Sys (Sigaction SIGALRM ''SIG_IGN'')) (\<lambda>_. k)"

definition timer_watcher :: "string \<Rightarrow> timer \<Rightarrow> timer prog" where
  "timer_watcher pips st =
     (if timedout st then Ret st
      else bind (get_load st) (\<lambda>(ld, st).
        let st = st\<lparr>timer_actual := timer_actual st + 1\<rparr> in
        if ld = 0 then
          let st = st\<lparr>timer_count := timer_count st - 1\<rparr> in
          if timer_count st \<le> 0 then
            unset_timer (let st = st\<lparr>timedout := True\<rparr> in cleanup pips st (Ret st))
          else Ret st
        else Ret st))"

definition set_timer :: "string \<Rightarrow> int \<Rightarrow> timer \<Rightarrow> timer prog" where
  "set_timer pips time st =
     bind (get_load st) (\<lambda>(load, st).
       let st = st\<lparr>timer_period := time, timer_count := time\<rparr> in
       Call (Sys (Sigaction SIGALRM ''timer_watcher'')) (\<lambda>r.
         if rv r \<noteq> 0 then cleanup pips st (Halt (Exit EXIT_UNTESTED))
         else
           Call (Sys (if time > 0 then Setitimer 1 0 else Setitimer 0 (10 * 1000))) (\<lambda>r.
             if rv r \<noteq> 0 then cleanup pips st (Halt (Exit EXIT_UNTESTED))
             else Ret st)))"

definition exit_status :: "status \<Rightarrow> string" where
  "exit_status extval =
     (let c = WEXITSTATUS extval in
      if c = EXIT_PASS then ''EXIT_PASS''
      else if c = EXIT_FAIL then ''EXIT_FAIL''
      else if c = EXIT_XPASS then ''EXIT_XPASS''
      else if c = EXIT_XFAIL then ''EXIT_XFAIL''
      else if c = EXIT_UNRESOLVED then ''EXIT_UNRESOLVED''
      else if c = EXIT_UNTESTED then ''EXIT_UNTESTED''
      else if c = EXIT_UNSUPPORTED then ''EXIT_UNSUPPORTED''
      else if c = EXIT_KILLED then ''EXIT_KILLED''
      else ''(unknown:'' @ show_int extval @ '')'')"

definition usage :: "'a prog" where
  "usage = Halt (Exit EXIT_UNTESTED)"

text \<open>
  The time of the command line, scaled as \<open>main\<close> does before it forks: by the variable
  PIP_TEST_TIMER_SCALE, for a debug build of the library and for a container.
\<close>

definition timer_scale :: "string \<Rightarrow> string option \<Rightarrow> string \<Rightarrow> int prog" where
  "timer_scale piplib scale arg =
     (let time = atoi32 arg;
          time = (if time < 0 then to_int32 (- time) else time);
          time = (case scale of
                    Some (c # cs) \<Rightarrow> if isdigit c then to_int32 (time * strtol (c # cs)) else time
                  | _ \<Rightarrow> time)
      in Call (Sys (Popen (piplib @ '' --debug  2>/dev/null''))) (\<lambda>fp.
           bind (if rv fp \<noteq> 0 then
                   Call (Sys (Fread 16)) (\<lambda>r.
                     Call (Sys Pclose) (\<lambda>_.
                       Ret (if rv r > 0 \<and> take 3 (data r) = ''yes''
                            then to_int32 (time * DEBUG_SCALE) else time)))
                 else Ret time) (\<lambda>time.
           Call (Sys (Stat ''/.dockerenv'')) (\<lambda>r.
             Ret (if rv r = 0 then to_int32 (time * VM_SCALE) else time)))))"

text \<open>
  Waiting for the test. An answer -1 with EINTR is an interruption of the wait: the handler
  of the signal named in the first output ran, and the wait is entered again (by SA_RESTART
  or by the loop in \<open>main\<close>).
\<close>

definition wait_body :: "string \<Rightarrow> timer \<Rightarrow> (timer + timer \<times> resp) prog" where
  "wait_body pips st =
     Call (Sys Wait) (\<lambda>r.
       if rv r = - 1 \<and> errno r = EINTR then
         (if o1 r = Some SIGALRM then bind (timer_watcher pips st) (\<lambda>st. Ret (Inl st))
          else if o1 r = Some SIGINT then sigint_watcher
          else Ret (Inl st))
       else Ret (Inr (st, r)))"

definition timer_parent :: "string \<Rightarrow> nat \<Rightarrow> int \<Rightarrow> timer \<Rightarrow> unit prog" where
  "timer_parent pips fuel time st =
     bind (set_timer pips time st) (\<lambda>st.
     bind (loop fuel (wait_body pips) st) (\<lambda>x.
       case x of
         None \<Rightarrow> Ret ()
       | Some (st, r) \<Rightarrow>
           unset_timer
             (if rv r = - 1 then Halt (Exit EXIT_UNRESOLVED)
              else let status = stored (o1 r) 0 in
                if WIFEXITED status then Halt (Exit (WEXITSTATUS status))
                else Halt (Exit EXIT_UNRESOLVED))))"

text \<open>\<open>main\<close>; it returns only when the fuel of the wait loop is used up.\<close>

definition timer_main :: "pip_h \<Rightarrow> string \<Rightarrow> string \<Rightarrow> nat \<Rightarrow> string list \<Rightarrow> unit prog" where
  "timer_main h pips piplib fuel argv =
     Call (Sys (Getenv ''PIP_TEST_TIMER_SCALE'')) (\<lambda>scale.
     set_sigint_watcher h
      (if length argv < 3 then usage
       else bind (timer_scale piplib (strv scale) (argv ! 1)) (\<lambda>time.
         Call (Sys Fork) (\<lambda>f.
           if rv f = 0 then
             Call (Sys Setpgid) (\<lambda>_.
             Call (Sys (Execvp (argv ! 2))) (\<lambda>_. Halt (Exit EXIT_UNTESTED)))
           else if rv f > 0 then timer_parent pips fuel time (init_timer\<lparr>pid := rv f\<rparr>)
           else Halt (Exit EXIT_UNTESTED)))))"

section \<open>The properties of the timer\<close>

lemma inv_ncores_zero: "2 \<le> nc \<Longrightarrow> inv_ncores nc = 0"
  by (simp add: inv_ncores_def)

text \<open>What a tick does to the static variables when the load it sees is zero.\<close>

definition tick :: "timer \<Rightarrow> timer" where
  "tick st = (if timedout st then st
     else st\<lparr>timer_actual := timer_actual st + 1, timer_count := timer_count st - 1,
             timedout := timer_count st \<le> 1\<rparr>)"

lemma get_ncores_known: "2 \<le> ncores st \<Longrightarrow> get_ncores st = Ret st"
  by (simp add: get_ncores_def)

lemma wlp_get_ncores:
  assumes "\<And>c. c \<in> {Sys Sysconf_nprocs, Sys (Popen ''getconf _NPROCESSORS_ONLN''), Sys Fscanf, Sys Fclose} \<Longrightarrow> P c"
  shows "wlp R P (\<lambda>st'. 1 \<le> ncores st' \<and> (\<exists>n. st' = st\<lparr>ncores := n\<rparr>)) H (get_ncores st)"
proof -
  have "\<exists>n. st = st\<lparr>ncores := n\<rparr>" by (rule exI [of _ "ncores st"]) simp
  then show ?thesis using assms by (auto simp: get_ncores_def wlp_simps)
qed

definition load_call :: "call \<Rightarrow> bool" where
  "load_call c \<longleftrightarrow> c \<in> {Sys Sysconf_nprocs, Sys (Popen ''getconf _NPROCESSORS_ONLN''),
     Sys (Fopen ''/proc/loadavg''), Sys Fscanf, Sys Fclose}"

lemma wlp_get_load:
  assumes "\<And>c. load_call c \<Longrightarrow> P c"
  shows "wlp R P (\<lambda>(ld, st'). 1 \<le> ncores st' \<and> (\<exists>n. st' = st\<lparr>ncores := n\<rparr>) \<and>
     (2 \<le> ncores st' \<longrightarrow> ld = 0)) H (get_load st)"
  unfolding get_load_def wlp_bind
  by (rule wlp_mono [OF wlp_get_ncores])
    (use assms in \<open>auto simp: load_call_def Let_def inv_ncores_zero trunc_hundredths_def\<close>)

lemma wlp_cleanup:
  assumes "\<And>s. 0 < pid st \<Longrightarrow> P (Sys (System s))" "\<And>n. P (Sys (Usleep n))"
    and "0 < pid st \<Longrightarrow> P (Sys (Killpg (pid st) SIGTERM))" "0 < pid st \<Longrightarrow> P (Sys (Kill (pid st) SIGKILL))"
    and "wlp R P Q H k"
  shows "wlp R P Q H (cleanup pips st k)"
  using assms by (auto simp: cleanup_def)

text \<open>The load average never slows the timer down on a machine with two cores or more:
whatever \<open>sysconf\<close>, \<open>getconf\<close> and \<open>/proc/loadavg\<close> say, the load that \<open>get_load\<close> returns is 0, the
reciprocal of the number of cores being kept in an int; the number of cores is positive from
then on.\<close>

theorem get_load_ignored:
  "case outcome (get_load st) e w of
     Returned (ld, st') \<Rightarrow> 1 \<le> ncores st' \<and> (if 2 \<le> ncores st' then ld = 0 else True)
   | Halted _ \<Rightarrow> False | NoReturn c \<Rightarrow> load_call c"
proof -
  have w: "wlp any_answer load_call (\<lambda>(ld, st'). 1 \<le> ncores st' \<and> (\<exists>n. st' = st\<lparr>ncores := n\<rparr>) \<and>
     (2 \<le> ncores st' \<longrightarrow> ld = 0)) (\<lambda>_. False) (get_load st)"
    by (rule wlp_get_load)
  have "outcome (get_load st) e w = NoReturn c \<Longrightarrow> load_call c" for c
    by (auto simp: get_load_def get_ncores_def outcome_bind load_call_def Let_def
        split: if_splits option.splits prod.splits outcome.splits)
  then show ?thesis using wlp_outcome(1,2) [OF w, of e w] by (fastforce split: outcome.splits)
qed

text \<open>The interruptions of a wait, one after the other.\<close>

fun ticks :: "string \<Rightarrow> nat \<Rightarrow> timer \<Rightarrow> timer prog" where
  "ticks pips 0 st = Ret st"
| "ticks pips (Suc k) st = bind (timer_watcher pips st) (ticks pips k)"

definition killpgs :: "call list \<Rightarrow> nat" where
  "killpgs cs = length (filter (\<lambda>c. \<exists>p s. c = Sys (Killpg p s)) cs)"

lemma killpgs_simps [simp]:
  "killpgs [] = 0" "killpgs (Sys (Killpg p s) # cs) = Suc (killpgs cs)"
  "killpgs (cs @ ds) = killpgs cs + killpgs ds"
  "(\<And>p s. c \<noteq> Sys (Killpg p s)) \<Longrightarrow> killpgs (c # cs) = killpgs cs"
  by (auto simp: killpgs_def)

lemma load_quiet:
  assumes "2 \<le> ncores st" "total e"
  shows "outcome (get_load st) e w = Returned (0, st)" "killpgs (calls (get_load st) e w) = 0"
  using assms
  by (simp_all add: get_load_def get_ncores_known inv_ncores_zero Let_def trunc_hundredths_def
      total_simps del: outcome_simps(3))

lemma cleanup_runs:
  assumes "total e" "0 < pid st"
  shows "outcome (cleanup pips st (Ret a)) e w = Returned a"
    "killpgs (calls (cleanup pips st (Ret a)) e w) = 1"
  using assms by (simp_all add: cleanup_def total_simps del: outcome_simps(3))

lemma tick_runs:
  assumes "2 \<le> ncores st" "total e" "0 < pid st"
  shows "outcome (timer_watcher pips st) e w = Returned (tick st)"
    "killpgs (calls (timer_watcher pips st) e w) =
       (if timedout (tick st) \<and> \<not> timedout st then 1 else 0)"
  using assms
  by (simp_all add: timer_watcher_def outcome_bind calls_bind load_quiet tick_def Let_def
      unset_timer_def total_simps cleanup_runs del: outcome_simps(3))

lemma tick_keeps [simp]: "ncores (tick st) = ncores st" "pid (tick st) = pid st"
  by (simp_all add: tick_def)

lemma ticks_run:
  assumes "2 \<le> ncores st" "total e" "0 < pid st"
  shows "outcome (ticks pips k st) e w = Returned ((tick ^^ k) st) \<and>
    killpgs (calls (ticks pips k st) e w) =
       (if timedout ((tick ^^ k) st) \<and> \<not> timedout st then 1 else 0)"
  using assms(1,3)
proof (induction k arbitrary: st w)
  case (Suc k)
  let ?w = "final_env (timer_watcher pips st) e w"
  note T = tick_runs [OF Suc.prems(1) assms(2) Suc.prems(2), of pips w]
  have IH: "outcome (ticks pips k (tick st)) e ?w = Returned ((tick ^^ k) (tick st))"
    "killpgs (calls (ticks pips k (tick st)) e ?w) =
       (if timedout ((tick ^^ k) (tick st)) \<and> \<not> timedout (tick st) then 1 else 0)"
    using Suc.IH [of "tick st" ?w] Suc.prems by simp_all
  have eq: "(tick ^^ Suc k) st = (tick ^^ k) (tick st)" by (simp only: funpow_Suc_right comp_apply)
  have "outcome (ticks pips (Suc k) st) e w = Returned ((tick ^^ Suc k) st)"
    using T(1) IH(1) unfolding eq by (simp add: outcome_bind)
  moreover have "killpgs (calls (ticks pips (Suc k) st) e w) =
       (if timedout (tick st) \<and> \<not> timedout st then 1 else 0) +
       (if timedout ((tick ^^ k) (tick st)) \<and> \<not> timedout (tick st) then 1 else 0)"
    using T IH(2) by (simp add: calls_bind)
  moreover have "timedout st \<Longrightarrow> timedout (tick st)" by (simp add: tick_def)
  moreover have "timedout ((tick ^^ k) (tick st))" if "timedout (tick st)"
  proof -
    have "tick (tick st) = tick st" using that by (simp add: tick_def)
    then have "(tick ^^ k) (tick st) = tick st" by (induction k) simp_all
    then show ?thesis using that by simp
  qed
  ultimately show ?case unfolding eq by (cases "timedout (tick st)"; cases "timedout st"; simp)
qed simp

lemma ticks_pure:
  assumes "\<not> timedout st"
  shows "timedout ((tick ^^ k) st) = (k \<noteq> 0 \<and> timer_count st \<le> int k) \<and>
    timer_actual ((tick ^^ k) st) = timer_actual st + min (int k) (max 1 (timer_count st)) \<and>
    (\<not> timedout ((tick ^^ k) st) \<longrightarrow> timer_count ((tick ^^ k) st) = timer_count st - int k)"
  using assms by (induction k) (auto simp: tick_def)

text \<open>C39: on a machine with two cores or more, a timer set to \<open>time\<close> seconds expires at its
\<open>time\<close>-th tick and not before (at the first tick when \<open>time\<close> is not positive); it kills the
test's process group exactly once, however many ticks follow, and \<open>timer_actual\<close> is the
number of ticks up to the expiry, whatever is answered to the handler's calls.\<close>

theorem timer_expires:
  assumes "2 \<le> ncores st" "0 < pid st" "\<not> timedout st" "timer_count st = time"
    "timer_actual st = 0" "total e"
  shows "\<exists>st'. outcome (ticks pips k st) e w = Returned st' \<and>
     timedout st' = (max 1 time \<le> int k) \<and>
     timer_actual st' = min (int k) (max 1 time) \<and>
     killpgs (calls (ticks pips k st) e w) = (if max 1 time \<le> int k then 1 else 0)"
  using ticks_run [OF assms(1,6,2), of pips k w] ticks_pure [OF assms(3), of k] assms(3-5)
  by auto

lemma timer_expires_witness:
  "\<exists>st'. outcome (ticks ''pips'' 5 (init_timer\<lparr>pid := 7, ncores := 4, timer_count := 3\<rparr>))
        (\<lambda>w c. (Some ok, w)) () = Returned st' \<and>
     timedout st' = (max 1 3 \<le> int 5) \<and> timer_actual st' = min (int 5) (max 1 3) \<and>
     killpgs (calls (ticks ''pips'' 5 (init_timer\<lparr>pid := 7, ncores := 4, timer_count := 3\<rparr>))
        (\<lambda>w c. (Some ok, w)) ()) = (if max 1 3 \<le> int 5 then 1 else 0)"
  by (rule timer_expires) (simp_all add: init_timer_def total_def)

text \<open>A process is killed only by a positive pid.\<close>

fun kill_target :: "(int \<Rightarrow> bool) \<Rightarrow> call \<Rightarrow> bool" where
  "kill_target T (Sys (Kill p s)) = T p"
| "kill_target T (Sys (Killpg p s)) = T p"
| "kill_target T _ = True"

lemma wlp_load_kill:
  "wlp R (kill_target T) (\<lambda>(ld, st'). 1 \<le> ncores st' \<and> (\<exists>n. st' = st\<lparr>ncores := n\<rparr>) \<and>
     (2 \<le> ncores st' \<longrightarrow> ld = 0)) H (get_load st)"
  by (rule wlp_get_load) (auto simp: load_call_def)

lemma wlp_timer_watcher:
  assumes "0 < pid st \<Longrightarrow> T (pid st)"
  shows "wlp R (kill_target T) (\<lambda>st'. pid st' = pid st) H (timer_watcher pips st)"
  unfolding timer_watcher_def using assms
  by (auto simp: wlp_bind unset_timer_def Let_def split_def
      intro!: wlp_mono [OF wlp_load_kill] wlp_cleanup)

lemma wlp_set_timer:
  assumes "0 < pid st \<Longrightarrow> T (pid st)"
    and "\<And>c r. R (Sys (Sigaction SIGALRM ''timer_watcher'')) r \<Longrightarrow> rv r \<noteq> 0 \<Longrightarrow> H (Exit EXIT_UNTESTED)"
    and "\<And>c r a b. R (Sys (Setitimer a b)) r \<Longrightarrow> rv r \<noteq> 0 \<Longrightarrow> H (Exit EXIT_UNTESTED)"
  shows "wlp R (kill_target T) (\<lambda>st'. pid st' = pid st) H (set_timer pips time st)"
  unfolding set_timer_def wlp_bind using assms
  by (auto simp: Let_def split_def intro!: wlp_mono [OF wlp_load_kill] wlp_cleanup)

lemma wlp_timer_parent:
  assumes "0 < pid st \<Longrightarrow> T (pid st)"
  shows "wlp R (kill_target T) (\<lambda>_. True) (\<lambda>_. True) (timer_parent pips fuel time st)"
proof -
  have body: "wlp R (kill_target T) (\<lambda>x. case x of Inl s' \<Rightarrow> pid s' = pid st | Inr a \<Rightarrow> True) (\<lambda>_. True)
      (wait_body pips s)" if "pid s = pid st" for s
    unfolding wait_body_def using assms that
    by (auto simp: wlp_bind sigint_watcher_def intro!: wlp_mono [OF wlp_timer_watcher])
  have "wlp R (kill_target T) (\<lambda>_. True) (\<lambda>_. True) (loop fuel (wait_body pips) s)"
    if "pid s = pid st" for s
    by (rule wlp_loop [where I = "\<lambda>s. pid s = pid st"]) (use that body in auto)
  note wl = this
  have "wlp R (kill_target T) (\<lambda>st'. pid st' = pid st) (\<lambda>_. True) (set_timer pips time st)"
    by (rule wlp_set_timer) (use assms in auto)
  then show ?thesis
    unfolding timer_parent_def wlp_bind
    by (auto simp: unset_timer_def Let_def split: option.splits elim!: wlp_mono intro!: wlp_mono [OF wl])
qed

text \<open>Whatever the system answers, the timer never signals process 0, -1 or any other that
is not positive: it kills nothing unless its fork succeeded, so never its own group or every
process of the user.\<close>

theorem timer_kills_child_only:
  "list_all (kill_target (\<lambda>p. 0 < p)) (calls (timer_main h pips piplib fuel argv) e w)"
proof -
  have "wlp any_answer (kill_target (\<lambda>p. 0 < p)) (\<lambda>_. True) (\<lambda>_. True)
      (timer_main h pips piplib fuel argv)"
    by (auto simp: timer_main_def wlp_simps set_sigint_watcher_def abend_def usage_def timer_scale_def
        Let_def split_def intro!: wlp_timer_parent)
  then show ?thesis by (rule wlp_outcome(3))
qed

text \<open>
  What the theorem below expects of the system: the signal and timer calls work, the fork
  gives a child, and a wait is interrupted by a signal other than SIGINT or returns the
  child's status \<open>s\<close>.
\<close>

fun timer_answers :: "status \<Rightarrow> call \<Rightarrow> resp \<Rightarrow> bool" where
  "timer_answers s (Sys (Sigaction _ _)) r \<longleftrightarrow> rv r = 0"
| "timer_answers s (Sys (Setitimer _ _)) r \<longleftrightarrow> rv r = 0"
| "timer_answers s (Sys Fork) r \<longleftrightarrow> rv r > 0"
| "timer_answers s (Sys Wait) r \<longleftrightarrow>
     (rv r = - 1 \<and> errno r = EINTR \<and> o1 r \<noteq> Some SIGINT) \<or> (rv r > 0 \<and> o1 r = Some s)"
| "timer_answers s _ r \<longleftrightarrow> True"

definition uses_up :: "('w \<Rightarrow> nat) \<Rightarrow> 'w env \<Rightarrow> bool" where
  "uses_up m e \<longleftrightarrow> nonincreasing m e \<and>
     (\<forall>w r w'. e w (Sys Wait) = (Some r, w') \<longrightarrow> rv r = - 1 \<longrightarrow> m w' < m w)"

lemma wait_body_less:
  assumes "uses_up m e" "outcome (wait_body pips st) e w = Returned (Inl st')"
  shows "m (final_env (wait_body pips st) e w) < m w"
proof -
  obtain x w' where e: "e w (Sys Wait) = (x, w')" by (cases "e w (Sys Wait)")
  then obtain r where r: "x = Some r" using assms(2) by (cases x) (auto simp: wait_body_def)
  have "nonincreasing m e" using assms(1) by (simp add: uses_up_def)
  from final_call_le [OF this e [unfolded r]]
  have "m (final_env (wait_body pips st) e w) \<le> m w'" unfolding wait_body_def .
  moreover have "rv r = - 1"
  proof (rule ccontr)
    assume "rv r \<noteq> - 1"
    then show False using assms(2) e r by (simp add: wait_body_def)
  qed
  then have "m w' < m w" using assms(1) e r unfolding uses_up_def by blast
  ultimately show ?thesis by simp
qed

lemma timer_parent_exit:
  assumes "total e" "answers (timer_answers s) e" "uses_up m e" "m w < fuel"
  shows "outcome (timer_parent pips fuel time st) e w =
     Halted (Exit (if WIFEXITED s then WEXITSTATUS s else EXIT_UNRESOLVED))"
proof -
  have "wlp (timer_answers s) (kill_target (\<lambda>_. True)) (\<lambda>st'. pid st' = pid st) (\<lambda>_. False)
      (set_timer pips time st)"
    by (rule wlp_set_timer) auto
  from wlp_total [OF this assms(2,1), of w] obtain st1
    where st1: "outcome (set_timer pips time st) e w = Returned st1" by auto
  let ?w = "final_env (set_timer pips time st) e w"
  have ni: "nonincreasing m e" using assms(3) by (simp add: uses_up_def)
  have body: "wlp (timer_answers s) (kill_target (\<lambda>_. True))
      (\<lambda>x. case x of Inl s' \<Rightarrow> True | Inr (st', r) \<Rightarrow> rv r \<noteq> - 1 \<and> o1 r = Some s) (\<lambda>_. False)
      (wait_body pips st')" for st'
    by (auto simp: wait_body_def wlp_bind intro!: wlp_mono [OF wlp_timer_watcher])
  have "m ?w < fuel" using nonincreasing_final [OF ni, of "set_timer pips time st" w] assms(4) by simp
  then have "\<exists>a. outcome (loop fuel (wait_body pips) st1) e ?w = Returned (Some a) \<and>
      (case a of (st', r) \<Rightarrow> rv r \<noteq> - 1 \<and> o1 r = Some s)"
    by (intro loop_ends [where I = "\<lambda>_. True" and m = m, OF assms(1,2) ni body])
      (auto intro: wait_body_less [OF assms(3)])
  then obtain st2 r where l: "outcome (loop fuel (wait_body pips) st1) e ?w = Returned (Some (st2, r))"
    and r: "rv r \<noteq> - 1" "o1 r = Some s"
    by auto
  show ?thesis
    unfolding timer_parent_def
    by (simp add: outcome_bind st1 l r unset_timer_def Let_def total_simps [OF assms(1)]
        del: outcome_simps(3))
qed

lemma timer_exit_code:
  assumes "total e" "answers (timer_answers s) e" "uses_up m e" "m w < fuel" "3 \<le> length argv"
  shows "outcome (timer_main h pips piplib fuel argv) e w =
     Halted (Exit (if WIFEXITED s then WEXITSTATUS s else EXIT_UNRESOLVED))"
proof -
  have ni: "nonincreasing m e" using assms(3) by (simp add: uses_up_def)
  have R: "timer_answers s c (answer e w c)" for w c
    using assms(2) total_call [OF assms(1), of w c] unfolding answers_def by blast
  let ?w1 = "after e w (Sys (Getenv ''PIP_TEST_TIMER_SCALE''))"
  let ?w2 = "after e ?w1 (Sys (Sigaction SIGINT ''sigint_watcher''))"
  let ?sc = "timer_scale piplib (strv (answer e w (Sys (Getenv ''PIP_TEST_TIMER_SCALE'')))) (argv ! 1)"
  have "wlp any_answer (\<lambda>_. True) (\<lambda>_. True) (\<lambda>_. False) ?sc"
    by (simp add: timer_scale_def Let_def wlp_bind)
  from wlp_total [OF this answers_any assms(1), of ?w2]
  obtain time where t: "outcome ?sc e ?w2 = Returned time" by auto
  let ?w3 = "final_env ?sc e ?w2"
  let ?w4 = "after e ?w3 (Sys Fork)"
  have le: "m (after e w c) \<le> m w" for w c using ni by (simp add: after_def nonincreasing_def)
  have "m ?w4 < fuel"
    using le [of ?w3 "Sys Fork"] nonincreasing_final [OF ni, of ?sc ?w2] le [of w] le [of ?w1]
      assms(4) by (meson le_less_trans)
  then have "outcome (timer_parent pips fuel time (init_timer\<lparr>pid := p\<rparr>)) e ?w4 =
      Halted (Exit (if WIFEXITED s then WEXITSTATUS s else EXIT_UNRESOLVED))" for p
    by (rule timer_parent_exit [where m = m, OF assms(1-3)])
  then show ?thesis
    using R [of "Sys (Sigaction SIGINT ''sigint_watcher'')" ?w1] R [of "Sys Fork" ?w3] assms(1,5) t
    by (simp add: timer_main_def set_sigint_watcher_def chk_def total_simps outcome_bind
        del: outcome_simps(3))
qed

text \<open>C18: the exit code of the timer is the exit code of the test it ran, and EXIT\_UNRESOLVED
for a test killed by a signal, however often the wait is interrupted and whether or not the
time runs out meanwhile; the wait loop ends once the interruptions do.\<close>

theorem timer_reports_child:
  assumes "total e" "answers (timer_answers s) e" "uses_up m e" "m w < fuel" "3 \<le> length argv"
  shows "outcome (timer_main h pips piplib fuel argv) e w =
     Halted (Exit (if WIFEXITED s then WEXITSTATUS s else EXIT_UNRESOLVED))"
  by (rule timer_exit_code [OF assms])

text \<open>A child that exits with code 3 after two interruptions of the wait by the alarm.\<close>

definition timer_env :: "nat env" where
  "timer_env w c = (case c of
       Sys Fork \<Rightarrow> (Some (ok\<lparr>rv := 4711\<rparr>), w)
     | Sys Wait \<Rightarrow>
         if w = 0 then (Some (ok\<lparr>rv := 4711, o1 := Some (exited 3)\<rparr>), 0)
         else (Some (ok\<lparr>rv := - 1, errno := EINTR, o1 := Some SIGALRM\<rparr>), w - 1)
     | _ \<Rightarrow> (Some ok, w))"

lemma timer_env_ok: "total timer_env" "answers (timer_answers (exited 3)) timer_env"
    "uses_up id timer_env"
proof -
  show "total timer_env"
    unfolding total_def by (auto simp: timer_env_def split: call.splits sys_call.splits)
  have "timer_answers (exited 3) c r" if "timer_env w c = (Some r, w')" for w c r w'
    using that by (cases "(exited 3, c, r)" rule: timer_answers.cases)
      (auto simp: timer_env_def signal_defs split: if_splits)
  then show "answers (timer_answers (exited 3)) timer_env" by (auto simp: answers_def)
  show "uses_up id timer_env"
    unfolding uses_up_def nonincreasing_def
    by (auto simp: timer_env_def split: call.splits sys_call.splits if_splits)
qed

lemma timer_reports_child_witness:
  "outcome (timer_main h_sample ''pips'' ''piplib'' 5 [''timer'', ''10'', ''prog'']) timer_env 2 =
     Halted (Exit 3)"
proof -
  have "outcome (timer_main h_sample ''pips'' ''piplib'' 5 [''timer'', ''10'', ''prog'']) timer_env 2 =
     Halted (Exit (if WIFEXITED (exited 3) then WEXITSTATUS (exited 3) else EXIT_UNRESOLVED))"
    by (rule timer_reports_child [OF timer_env_ok]) simp_all
  then show ?thesis by simp
qed

text \<open>The message about an exit code that has no name does not print that code: for every
code from 8 to 255 it prints the code times 256, the raw status word.\<close>

theorem exit_status_unknown:
  assumes "8 \<le> code" "code < 256"
  shows "exit_status (exited code) = ''(unknown:'' @ show_int (256 * code) @ '')''"
proof -
  have "WEXITSTATUS (exited code) = code" "exited code = 256 * code"
    using assms by (simp, simp add: exited_def)
  then show ?thesis using assms by (simp add: exit_status_def exit_defs)
qed

lemma exit_status_unknown_witness:
  "exit_status (exited 9) = ''(unknown:'' @ show_int (256 * 9) @ '')''"
  by (rule exit_status_unknown) simp_all

end
