(* ===== verification/TaskDriver.thy ===== *)
theory TaskDriver
  imports TestH
begin

text \<open>
  The two drivers that run a program as PiP tasks: \<open>utils/pip_task.c\<close> (\<open>pip-task\<close>) and
  \<open>utils/pip_blt.c\<close> (\<open>pip-blt\<close>), both compiled with DO_COREBIND. Both spawn the tasks, wait for
  all of them and report the first exit value that is not zero.
\<close>

section \<open>pip-task\<close>

definition get_ncpus :: "(int + int) prog" where
  "get_ncpus = chk (Sys Getaffinity) (\<lambda>r. rv r \<noteq> 0) (Halt (Exit EXIT_UNTESTED))
     (\<lambda>r. Ret (Inr (stored (o1 r) 0)))"

definition task_core :: "pip_h \<Rightarrow> int \<Rightarrow> int \<Rightarrow> int" where
  "task_core h nc i = (if nc = 0 then CPUCORE_ASIS h else c_rem i nc)"

definition set_env_int :: "string \<Rightarrow> int \<Rightarrow> 'a prog \<Rightarrow> 'a prog" where
  "set_env_int name v k = Call (Sys (Putenv (name @ ''='' @ show_int v))) (\<lambda>_. k)"

definition task_spawn_body :: "pip_h \<Rightarrow> string \<Rightarrow> int \<Rightarrow> int \<Rightarrow> unit \<Rightarrow> (int + unit) prog" where
  "task_spawn_body h prog nc i u =
     (let pipid = i; c = task_core h nc i in
      set_env_int PIP_TEST_PIPID_ENV pipid
       (chk (Pip (Pip_spawn (Some prog) c (Some pipid) None)) (\<lambda>r. rv r \<noteq> 0) (Ret (Inl EXIT_FAIL))
         (\<lambda>r. chkv (stored (o1 r) pipid) (\<lambda>v. v \<noteq> i) (Ret (Inl EXIT_FAIL)) (Ret (Inr ())))))"

definition task_extval :: "status \<Rightarrow> int" where
  "task_extval status = (if WIFEXITED status then WEXITSTATUS status else EXIT_UNRESOLVED)"

definition task_wait_body :: "int \<Rightarrow> int \<Rightarrow> (int + int) prog" where
  "task_wait_body i err =
     chk (Pip (Pip_wait i True)) (\<lambda>r. rv r \<noteq> 0) (Ret (Inl EXIT_FAIL))
       (\<lambda>r. let extval = task_extval (stored (o1 r) 0) in
            Ret (Inr (if err = 0 \<and> extval \<noteq> 0 then extval else err)))"

definition spawn_tasks :: "pip_h \<Rightarrow> int \<Rightarrow> string \<Rightarrow> int prog" where
  "spawn_tasks h ntasks prog =
     chk (Pip (Pip_init True (Some ntasks) False 0)) (\<lambda>r. rv r \<noteq> 0) (Ret EXIT_UNTESTED) (\<lambda>r.
       let ntasks = stored (o2 r) ntasks in
       set_env_int PIP_TEST_NTASKS_ENV ntasks
        (finE get_ncpus (\<lambda>n.
           let nc = n - 1 in
           finE (for_range 0 (nat ntasks) (task_spawn_body h prog nc) ()) (\<lambda>_.
             finE (for_range 0 (nat ntasks) task_wait_body 0) (\<lambda>err.
               chk (Pip Pip_fin) (\<lambda>r. rv r \<noteq> 0) (Ret EXIT_FAIL) (\<lambda>_. Ret err))))))"

definition valid_code :: "int \<Rightarrow> int" where
  "valid_code extval =
     (if extval \<in> {EXIT_PASS, EXIT_FAIL, EXIT_XPASS, EXIT_XFAIL, EXIT_UNRESOLVED, EXIT_UNTESTED,
        EXIT_UNSUPPORTED, EXIT_KILLED} then extval else EXIT_FAIL)"

text \<open>\<open>while( wait( &status ) != pid );\<close> the state is the value of \<open>status\<close>.\<close>

definition wait_pid_body :: "int \<Rightarrow> status \<Rightarrow> (status + status) prog" where
  "wait_pid_body pid status =
     Call (Sys Wait) (\<lambda>r. let status = stored (o1 r) status in
       Ret (if rv r \<noteq> pid then Inl status else Inr status))"

definition task_main_status :: "status \<Rightarrow> int" where
  "task_main_status status =
     (if WIFEXITED status then WEXITSTATUS status
      else if WIFSIGNALED status then EXIT_FAIL else EXIT_UNTESTED)"

text \<open>\<open>main\<close>: the value is that of its return; None when the fuel of the wait is used up.\<close>

definition pip_task_main :: "pip_h \<Rightarrow> nat \<Rightarrow> string list \<Rightarrow> int option prog" where
  "pip_task_main h fuel argv =
     Call (Sys Setpgid) (\<lambda>_.
     set_sigint_watcher h
      (if length argv < 3 then Ret (Some EXIT_UNTESTED)
       else let ntasks = atoi32 (argv ! 1) in
         chkv ntasks (\<lambda>v. v \<le> 0 \<or> v > NTASKS h) (Ret (Some EXIT_UNTESTED))
          (Call (Sys (Getenv ''NTASKS'')) (\<lambda>r.
             if (case strv r of Some env \<Rightarrow> ntasks > atoi32 env | None \<Rightarrow> False)
             then Ret (Some EXIT_UNTESTED)
             else Call (Sys Fork) (\<lambda>f.
               if rv f = 0 then
                 bind (spawn_tasks h ntasks (argv ! 2)) (\<lambda>extval. Ret (Some (valid_code extval)))
               else if rv f < 0 then Ret (Some EXIT_UNTESTED)
               else bind (loop fuel (wait_pid_body (rv f)) 0) (\<lambda>x.
                 Ret (map_option task_main_status x)))))))"

section \<open>pip-blt\<close>

definition is_taskq_empty :: "int \<Rightarrow> (int \<Rightarrow> 'a prog) \<Rightarrow> 'a prog" where
  "is_taskq_empty queue k =
     Call (Pip (Pip_queue_lock queue)) (\<lambda>_.
     Call (Pip (Pip_queue_isempty queue)) (\<lambda>r.
     Call (Pip (Pip_queue_unlock queue)) (\<lambda>_. k (rv r))))"

definition blt_pass_body :: "pip_h \<Rightarrow> int \<Rightarrow> int \<Rightarrow> int \<Rightarrow> int \<Rightarrow> (int + int) prog" where
  "blt_pass_body h nacts nc i j =
     (let pipid = i; c = (if nc = 0 then CPUCORE_ASIS h else c_rem i nc) in
      set_env_int PIP_TEST_PIPID_ENV pipid
       (let j = (if j \<ge> nacts then 0 else j) in
        chk (Pip (Pip_blt_spawn c False pipid j)) (\<lambda>r. rv r \<noteq> 0) (Ret (Inl EXIT_FAIL)) (\<lambda>_.
          is_taskq_empty j (\<lambda>v. chkv v (\<lambda>v. v \<noteq> 0) (Ret (Inl EXIT_FAIL)) (Ret (Inr (j + 1)))))))"

definition blt_act_body :: "pip_h \<Rightarrow> int \<Rightarrow> int \<Rightarrow> int \<Rightarrow> (int + int) prog" where
  "blt_act_body h nc i j =
     (let pipid = i; c = (if nc = 0 then CPUCORE_ASIS h else c_rem i nc + 1) in
      set_env_int PIP_TEST_PIPID_ENV pipid
       (chk (Pip (Pip_blt_spawn c True pipid j)) (\<lambda>r. rv r \<noteq> 0) (Ret (Inl EXIT_FAIL)) (\<lambda>_.
          is_taskq_empty j (\<lambda>v. chkv v (\<lambda>v. v = 0) (Ret (Inl EXIT_FAIL)) (Ret (Inr (j + 1)))))))"

definition blt_extval :: "status \<Rightarrow> int" where
  "blt_extval status =
     (if WIFEXITED status then WEXITSTATUS status
      else if WIFSIGNALED status then EXIT_UNRESOLVED else EXIT_UNRESOLVED)"

definition blt_wait_body :: "int \<Rightarrow> int \<Rightarrow> (int + int) prog" where
  "blt_wait_body i err =
     (let pipid = i in
      chk (Pip (Pip_wait pipid True)) (\<lambda>r. rv r \<noteq> 0) (Ret (Inl EXIT_FAIL))
       (\<lambda>r. let extval = blt_extval (stored (o1 r) 0) in
            Ret (Inr (if err = 0 \<and> extval \<noteq> 0 then extval else err))))"

definition queue_init_body :: "int \<Rightarrow> unit \<Rightarrow> (int + unit) prog" where
  "queue_init_body i u = Call (Pip (Pip_queue_init i)) (\<lambda>_. Ret (Inr ()))"

text \<open>\<open>main\<close> from \<open>pip_init\<close> on, and the whole of it.\<close>

definition pip_blt_run :: "pip_h \<Rightarrow> int \<Rightarrow> int \<Rightarrow> int \<Rightarrow> string \<Rightarrow> int prog" where
  "pip_blt_run h nacts npass ntasks prog =
     finE (for_range 0 (nat (nacts + 1)) queue_init_body ()) (\<lambda>_.
     chk (Pip (Pip_init True (Some ntasks) False 0)) (\<lambda>r. rv r \<noteq> 0) (Ret EXIT_FAIL) (\<lambda>r.
       let ntasks = stored (o2 r) ntasks in
       set_env_int PIP_TEST_NTASKS_ENV ntasks
        (finE get_ncpus (\<lambda>n.
           let nc = n - 1 in
           finE (for_range 0 (nat npass) (blt_pass_body h nacts nc) 0) (\<lambda>_.
           finE (for_range npass (nat (ntasks - npass)) (blt_act_body h nc) 0) (\<lambda>_.
           finE (for_range 0 (nat ntasks) blt_wait_body 0) (\<lambda>err.
             chk (Pip Pip_fin) (\<lambda>r. rv r \<noteq> 0) (Ret EXIT_FAIL) (\<lambda>_. Ret err))))))))"

definition pip_blt_main :: "pip_h \<Rightarrow> string list \<Rightarrow> int prog" where
  "pip_blt_main h argv =
     set_sigint_watcher h
      (if length argv < 4 then Ret EXIT_UNTESTED
       else let nacts = atoi32 (argv ! 1) in
         chkv nacts (\<lambda>v. v < 0 \<or> v > NTASKS h) (Ret EXIT_UNTESTED)
          (let npass = atoi32 (argv ! 2) in
           chkv npass (\<lambda>v. v < 0 \<or> v > NTASKS h) (Ret EXIT_UNTESTED)
            (let ntasks = nacts + npass in
             chkv ntasks (\<lambda>v. v \<le> 0 \<or> v > NTASKS h) (Ret EXIT_UNTESTED)
              (Call (Sys (Getenv ''NTASKS'')) (\<lambda>r.
                 if (case strv r of Some env \<Rightarrow> ntasks > atoi32 env | None \<Rightarrow> False)
                 then Ret EXIT_UNTESTED
                 else pip_blt_run h nacts npass ntasks (argv ! 3))))))"

section \<open>Collecting the exit values\<close>

text \<open>
  The contract both drivers' wait loops meet: a task that exits counts with its exit code,
  any other with EXIT\_UNRESOLVED, and a round keeps the first value that is not zero.
\<close>

locale collector =
  fixes body :: "int \<Rightarrow> int \<Rightarrow> (int + int) prog" and ext :: "status \<Rightarrow> int"
  assumes body: "body i err = chk (Pip (Pip_wait i True)) (\<lambda>r. rv r \<noteq> 0) (Ret (Inl EXIT_FAIL))
      (\<lambda>r. Ret (Inr (keep_first err (ext (stored (o1 r) 0)))))"
    and ext_exited: "WIFEXITED s \<Longrightarrow> ext s = WEXITSTATUS s"
    and ext_other: "\<not> WIFEXITED s \<Longrightarrow> ext s = EXIT_UNRESOLVED"
begin

lemma ext_range: "0 \<le> ext s \<and> ext s < 256"
  using ext_exited [of s] ext_other [of s] WEXITSTATUS_range [of s]
  by (cases "WIFEXITED s") (auto simp: exit_defs)

lemma ext_0: "ext s = 0 \<longleftrightarrow> WIFEXITED s \<and> WEXITSTATUS s = 0"
  using ext_exited [of s] ext_other [of s] by (cases "WIFEXITED s") (auto simp: exit_defs)

lemma collects:
  assumes "coop R e" "0 \<le> n"
    and wait: "\<And>i r. R (Pip (Pip_wait i True)) r \<Longrightarrow> rv r = 0 \<and> o1 r = Some (sts i)"
  shows "outcome (for_range 0 (nat n) body 0) e w = Returned (Inr (kept (ext \<circ> sts) n))"
    "calls (for_range 0 (nat n) body 0) e w = map (\<lambda>i. Pip (Pip_wait i True)) [0..n - 1]"
proof -
  have "rv (answer e w (Pip (Pip_wait i True))) = 0 \<and>
      o1 (answer e w (Pip (Pip_wait i True))) = Some (sts i)" for w i
    using coop_answer [OF assms(1)] by (rule wait)
  then have "outcome (body j (kept (ext \<circ> sts) j)) e w = Returned (Inr (kept (ext \<circ> sts) (j + 1))) \<and>
      calls (body j (kept (ext \<circ> sts) j)) e w = [Pip (Pip_wait j True)]" if "0 \<le> j" for j w
    using that by (simp add: body chk_def coop_simps [OF assms(1)] kept_Suc del: outcome_simps(3))
  from for_range_runs [where i = 0 and n = "nat n" and st = "kept (ext \<circ> sts)" and body = body
      and e = e and cs = "\<lambda>j. [Pip (Pip_wait j True)]" and w = w, OF this] assms(2)
  show "outcome (for_range 0 (nat n) body 0) e w = Returned (Inr (kept (ext \<circ> sts) n))"
    "calls (for_range 0 (nat n) body 0) e w = map (\<lambda>i. Pip (Pip_wait i True)) [0..n - 1]"
    by (simp_all add: concat_map_singleton del: upto.simps)
qed

lemma collected_range:
  "wlp R (\<lambda>c. case c of Pip (Pip_wait i _) \<Rightarrow> 0 \<le> i \<and> i < int n | _ \<Rightarrow> True)
     (\<lambda>x. case x of Inl v \<Rightarrow> v = EXIT_FAIL | Inr v \<Rightarrow> 0 \<le> v \<and> v < 256) H (for_range 0 n body 0)"
  by (rule wlp_for_range [where I = "\<lambda>_ v. 0 \<le> v \<and> v < 256"])
    (auto simp: body wlp_simps keep_first_def ext_range)

end

lemma extval_other: "\<not> WIFEXITED s \<Longrightarrow> task_extval s = EXIT_UNRESOLVED"
    "\<not> WIFEXITED s \<Longrightarrow> blt_extval s = EXIT_UNRESOLVED"
  by (simp_all add: task_extval_def blt_extval_def)

interpretation task: collector task_wait_body task_extval
  by unfold_locales (simp_all add: task_wait_body_def keep_first_def Let_def task_extval_def)

interpretation blt: collector blt_wait_body blt_extval
  by unfold_locales (simp_all add: blt_wait_body_def keep_first_def Let_def blt_extval_def)

section \<open>What pip-task does when its calls succeed\<close>

text \<open>
  The calls succeed: \<open>pip_init\<close> keeps the number of tasks, the process may run on \<open>ncpus\<close>
  CPUs, a task gets the PiP ID asked for, and task \<open>i\<close> ends with the status \<open>sts i\<close>.
\<close>

fun driver_answers :: "int \<Rightarrow> (int \<Rightarrow> status) \<Rightarrow> call \<Rightarrow> resp \<Rightarrow> bool" where
  "driver_answers ncpus sts (Pip (Pip_init _ n _ _)) r \<longleftrightarrow> rv r = 0 \<and> (o2 r = None \<or> o2 r = n)"
| "driver_answers ncpus sts (Sys Getaffinity) r \<longleftrightarrow> rv r = 0 \<and> o1 r = Some ncpus"
| "driver_answers ncpus sts (Pip (Pip_spawn _ _ pipid _)) r \<longleftrightarrow> rv r = 0 \<and> (o1 r = None \<or> o1 r = pipid)"
| "driver_answers ncpus sts (Pip (Pip_blt_spawn _ _ _ _)) r \<longleftrightarrow> rv r = 0"
| "driver_answers ncpus sts (Pip (Pip_wait i _)) r \<longleftrightarrow> rv r = 0 \<and> o1 r = Some (sts i)"
| "driver_answers ncpus sts (Pip Pip_fin) r \<longleftrightarrow> rv r = 0"
| "driver_answers ncpus sts _ r \<longleftrightarrow> True"

lemma driver_coop:
  assumes "coop (driver_answers ncpus sts) e"
  shows "rv (answer e w (Pip (Pip_init a (Some n) b c))) = 0"
    "stored (o2 (answer e w (Pip (Pip_init a (Some n) b c)))) n = n"
    "rv (answer e w (Sys Getaffinity)) = 0" "o1 (answer e w (Sys Getaffinity)) = Some ncpus"
    "rv (answer e w (Pip (Pip_spawn p k (Some i) d))) = 0"
    "stored (o1 (answer e w (Pip (Pip_spawn p k (Some i) d)))) i = i"
    "rv (answer e w (Pip (Pip_blt_spawn k act i q))) = 0"
    "rv (answer e w (Pip Pip_fin)) = 0"
  using coop_answer [OF assms, of "Pip (Pip_init a (Some n) b c)" w]
    coop_answer [OF assms, of "Sys Getaffinity" w] coop_answer [OF assms, of "Pip Pip_fin" w]
    coop_answer [OF assms, of "Pip (Pip_spawn p k (Some i) d)" w]
    coop_answer [OF assms, of "Pip (Pip_blt_spawn k act i q)" w]
  by auto

definition env_int :: "string \<Rightarrow> int \<Rightarrow> call" where
  "env_int name v = Sys (Putenv (name @ ''='' @ show_int v))"

lemma task_spawns:
  assumes "coop (driver_answers ncpus sts) e" "0 \<le> n"
  shows "outcome (for_range 0 (nat n) (task_spawn_body h prog nc) ()) e w = Returned (Inr ())"
    "calls (for_range 0 (nat n) (task_spawn_body h prog nc) ()) e w =
       concat (map (\<lambda>i. [env_int PIP_TEST_PIPID_ENV i,
         Pip (Pip_spawn (Some prog) (task_core h nc i) (Some i) None)]) [0..n - 1])"
proof -
  have "outcome (task_spawn_body h prog nc j ()) e w = Returned (Inr ()) \<and>
      calls (task_spawn_body h prog nc j ()) e w =
        [env_int PIP_TEST_PIPID_ENV j, Pip (Pip_spawn (Some prog) (task_core h nc j) (Some j) None)]"
    for j w
    by (simp add: task_spawn_body_def set_env_int_def env_int_def chk_def chkv_def Let_def
        coop_simps [OF assms(1)] driver_coop [OF assms(1)] del: outcome_simps(3))
  from for_range_runs [where i = 0 and n = "nat n" and st = "\<lambda>_. ()" and e = e and w = w
      and body = "task_spawn_body h prog nc", OF this] assms(2)
  show "outcome (for_range 0 (nat n) (task_spawn_body h prog nc) ()) e w = Returned (Inr ())"
    "calls (for_range 0 (nat n) (task_spawn_body h prog nc) ()) e w =
       concat (map (\<lambda>i. [env_int PIP_TEST_PIPID_ENV i,
         Pip (Pip_spawn (Some prog) (task_core h nc i) (Some i) None)]) [0..n - 1])"
    by (simp_all del: upto.simps)
qed

lemma spawn_tasks_result:
  assumes "coop (driver_answers ncpus sts) e" "0 \<le> n"
  shows "outcome (spawn_tasks h n prog) e w = Returned (kept (task_extval \<circ> sts) n)"
  using task_spawns [OF assms, of h prog "ncpus - 1"] task.collects [OF assms, of sts]
  by (simp add: spawn_tasks_def get_ncpus_def set_env_int_def chk_def run_seq
      coop_simps [OF assms(1)] driver_coop [OF assms(1)] del: outcome_simps(3) upto.simps)

text \<open>C38: When its calls succeed, \<open>spawn_tasks\<close> spawns the tasks 0, ..., ntasks - 1 in this
order, each with its PiP ID in the environment and bound round robin to the cores but one,
then waits for every one of them in this order and only then ends the library; it returns the
first exit value that is not zero, counting a task killed by a signal as EXIT\_UNRESOLVED.\<close>

theorem spawn_tasks_spec:
  assumes "coop (driver_answers ncpus sts) e" "0 \<le> n"
  shows "outcome (spawn_tasks h n prog) e w = Returned (kept (task_extval \<circ> sts) n) \<and>
    calls (spawn_tasks h n prog) e w =
      [Pip (Pip_init True (Some n) False 0), env_int PIP_TEST_NTASKS_ENV n, Sys Getaffinity] @
      concat (map (\<lambda>i. [env_int PIP_TEST_PIPID_ENV i,
        Pip (Pip_spawn (Some prog) (task_core h (ncpus - 1) i) (Some i) None)]) [0..n - 1]) @
      map (\<lambda>i. Pip (Pip_wait i True)) [0..n - 1] @ [Pip Pip_fin]"
  using task_spawns [OF assms, of h prog "ncpus - 1"] task.collects [OF assms, of sts]
  by (simp add: spawn_tasks_def get_ncpus_def set_env_int_def env_int_def chk_def run_seq
      coop_simps [OF assms(1)] driver_coop [OF assms(1)] del: outcome_simps(3) upto.simps)

definition driver_reply :: "int \<Rightarrow> (int \<Rightarrow> status) \<Rightarrow> call \<Rightarrow> resp" where
  "driver_reply ncpus sts c = (case c of
       Sys Getaffinity \<Rightarrow> ok\<lparr>o1 := Some ncpus\<rparr>
     | Pip (Pip_wait i b) \<Rightarrow> ok\<lparr>o1 := Some (sts i)\<rparr>
     | _ \<Rightarrow> ok)"

lemma driver_reply_ok: "coop (driver_answers ncpus sts) (reply (driver_reply ncpus sts))"
proof (rule coop_reply)
  fix c show "driver_answers ncpus sts c (driver_reply ncpus sts c)"
    by (cases "(ncpus, sts, c, ok)" rule: driver_answers.cases) (simp_all add: driver_reply_def)
qed

definition sts_sample :: "int \<Rightarrow> status" where
  "sts_sample i = (if i = 1 then exited 3 else if i = 2 then signaled 9 else exited 0)"

lemma spawn_tasks_spec_witness:
  "outcome (spawn_tasks h_sample 4 ''prog'') (reply (driver_reply 3 sts_sample)) () = Returned 3"
proof -
  have "kept (task_extval \<circ> sts_sample) 4 = 3"
    by (simp add: kept_def upto.simps sts_sample_def task_extval_def)
  then show ?thesis
    using spawn_tasks_spec [OF driver_reply_ok [of 3 sts_sample], of 4 h_sample "''prog''" "()"]
    by simp
qed

text \<open>When its calls succeed, \<open>spawn_tasks\<close> reports EXIT\_PASS exactly when every task has
exited, and with code 0.\<close>

theorem spawn_tasks_pass:
  assumes "coop (driver_answers ncpus sts) e" "0 \<le> n"
  shows "outcome (spawn_tasks h n prog) e w = Returned EXIT_PASS \<longleftrightarrow>
    (\<forall>i. 0 \<le> i \<and> i < n \<longrightarrow> WIFEXITED (sts i) \<and> WEXITSTATUS (sts i) = 0)"
  by (simp add: spawn_tasks_result [OF assms] EXIT_PASS_def kept_0_iff task.ext_0)

lemma spawn_tasks_pass_witness:
  "outcome (spawn_tasks h_sample 2 ''prog'') (reply (driver_reply 3 (\<lambda>_. exited 0))) () =
     Returned EXIT_PASS"
  using spawn_tasks_pass [OF driver_reply_ok [of 3 "\<lambda>_. exited 0"], of 2 h_sample "''prog''" "()"]
  by simp

section \<open>Facts that hold whatever the calls answer\<close>

text \<open>The core, the PiP ID and the queue in a call that spawns a task.\<close>

fun good_spawn :: "pip_h \<Rightarrow> int \<Rightarrow> int \<Rightarrow> call \<Rightarrow> bool" where
  "good_spawn h ncpus q (Pip (Pip_spawn _ c (Some i) _)) \<longleftrightarrow>
     0 \<le> i \<and> (c = CPUCORE_ASIS h \<or> 0 \<le> c \<and> c < ncpus - 1)"
| "good_spawn h ncpus q (Pip (Pip_blt_spawn c act i j)) \<longleftrightarrow>
     0 \<le> i \<and> (c = CPUCORE_ASIS h \<or> 0 \<le> c \<and> c \<le> ncpus - 1) \<and> 0 \<le> j \<and> j \<le> q"
| "good_spawn h ncpus q (Pip (Pip_queue_init j)) \<longleftrightarrow> 0 \<le> j \<and> j \<le> q"
| "good_spawn h ncpus q (Pip (Pip_queue_isempty j)) \<longleftrightarrow> 0 \<le> j \<and> j \<le> q"
| "good_spawn h ncpus q _ \<longleftrightarrow> True"

definition affinity :: "int \<Rightarrow> call \<Rightarrow> resp \<Rightarrow> bool" where
  "affinity ncpus c r \<longleftrightarrow> (c = Sys Getaffinity \<longrightarrow> o1 r = Some ncpus) \<and>
     (\<forall>a n b d. c = Pip (Pip_init a (Some n) b d) \<longrightarrow> stored (o2 r) n = n)"

lemma core_range:
  assumes "1 \<le> ncpus" "0 \<le> i"
  shows "task_core h (ncpus - 1) i = CPUCORE_ASIS h \<or>
     0 \<le> task_core h (ncpus - 1) i \<and> task_core h (ncpus - 1) i < ncpus - 1"
  using assms by (auto simp: task_core_def c_rem_nonneg)

lemma wlp_get_ncpus:
  assumes "P (Sys Getaffinity)" "\<And>v. P (Sys (Print_fle v))"
    and "H (Exit EXIT_UNTESTED)"
  shows "wlp (affinity n) P (\<lambda>x. x = Inr n) H get_ncpus"
  using assms by (auto simp: get_ncpus_def wlp_simps affinity_def)

lemma wlp_spawn_tasks:
  assumes "1 \<le> ncpus"
  shows "wlp (affinity ncpus) (good_spawn h ncpus q) (\<lambda>v. 0 \<le> v \<and> v < 256) (\<lambda>_. True)
     (spawn_tasks h n prog)"
proof -
  have spawns: "wlp (affinity ncpus) (good_spawn h ncpus q) (\<lambda>x. case x of Inl v \<Rightarrow> v = EXIT_FAIL | Inr _ \<Rightarrow> True) H
      (for_range 0 m (task_spawn_body h prog (ncpus - 1)) ())" for m H
    by (rule wlp_for_range [where I = "\<lambda>_ _. True"])
      (use core_range [OF assms] in \<open>auto simp: task_spawn_body_def set_env_int_def Let_def wlp_simps\<close>)
  have waits: "wlp (affinity ncpus) (good_spawn h ncpus q)
      (\<lambda>x. case x of Inl v \<Rightarrow> v = EXIT_FAIL | Inr v \<Rightarrow> 0 \<le> v \<and> v < 256) H (for_range 0 m task_wait_body 0)" for m H
    by (rule wlp_for_range [where I = "\<lambda>_ v. 0 \<le> v \<and> v < 256"])
      (auto simp: task_wait_body_def wlp_simps Let_def task.ext_range)
  show ?thesis
    unfolding spawn_tasks_def set_env_int_def
    by (auto simp: wlp_simps Let_def exit_defs
        intro!: wlp_mono [OF wlp_get_ncpus] wlp_mono [OF spawns] wlp_mono [OF waits]
        split: sum.splits)
qed

lemma valid_code_range: "0 \<le> valid_code v \<and> valid_code v \<le> 7"
  by (auto simp: valid_code_def exit_defs)

lemma valid_code_id: "0 \<le> v \<Longrightarrow> v \<le> 7 \<Longrightarrow> valid_code v = v"
  unfolding valid_code_def exit_defs by (simp, presburger)

text \<open>Whatever its calls answer, the forked half of \<open>pip-task\<close> ends with one of the eight exit
codes of the test suite, 0 to 7: no other value of a task gets through to the parent.\<close>

theorem pip_task_child_code:
  assumes "answers (\<lambda>c r. c = Sys Fork \<longrightarrow> rv r = 0) e"
    and "outcome (pip_task_main h fuel argv) e w = Returned x"
  shows "\<exists>v. x = Some v \<and> 0 \<le> v \<and> v \<le> 7"
proof -
  have "wlp (\<lambda>c r. c = Sys Fork \<longrightarrow> rv r = 0) (\<lambda>_. True) (\<lambda>x. \<exists>v. x = Some v \<and> 0 \<le> v \<and> v \<le> 7) (\<lambda>_. True)
      (pip_task_main h fuel argv)"
    by (auto simp: pip_task_main_def set_sigint_watcher_def abend_def wlp_simps Let_def exit_defs
        valid_code_range intro!: wlp_mono [OF wlp_any])
  from wlp_answers(1) [OF this assms] show ?thesis .
qed

lemma pip_task_child_code_witness:
  "\<exists>v. Some 3 = Some v \<and> 0 \<le> v \<and> v \<le> (7::int)"
proof (rule pip_task_child_code [where e = "reply (driver_reply 3 sts_sample)" and w = "()"
      and h = h_sample and fuel = 0 and argv = "[''pip-task'', ''4'', ''prog'']"])
  show "answers (\<lambda>c r. c = Sys Fork \<longrightarrow> rv r = 0) (reply (driver_reply 3 sts_sample))"
    by (auto simp: answers_def driver_reply_def)
  have "kept (task_extval \<circ> sts_sample) 4 = 3"
    by (simp add: kept_def upto.simps sts_sample_def task_extval_def)
  moreover have "atoi32 ''4'' = 4" by (simp add: strtol_eval)
  ultimately show "outcome (pip_task_main h_sample 0 [''pip-task'', ''4'', ''prog''])
      (reply (driver_reply 3 sts_sample)) () = Returned (Some 3)"
    using spawn_tasks_result [OF driver_reply_ok [of 3 sts_sample], of 4 h_sample "''prog''" "()"]
    by (simp add: pip_task_main_def set_sigint_watcher_def chk_def chkv_def driver_reply_def
        NTASKS_def h_sample_def outcome_bind valid_code_id)
qed

section \<open>The waiting half of pip-task\<close>

text \<open>The fork gave child \<open>p\<close>, which ends with status \<open>s\<close>; other answers of \<open>wait\<close> are finitely many.\<close>

fun parent_answers :: "int \<Rightarrow> status \<Rightarrow> call \<Rightarrow> resp \<Rightarrow> bool" where
  "parent_answers p s (Sys (Sigaction _ _)) r \<longleftrightarrow> rv r = 0"
| "parent_answers p s (Sys (Getenv _)) r \<longleftrightarrow> strv r = None"
| "parent_answers p s (Sys Fork) r \<longleftrightarrow> rv r = p"
| "parent_answers p s (Sys Wait) r \<longleftrightarrow> rv r = p \<longrightarrow> o1 r = Some s"
| "parent_answers p s _ r \<longleftrightarrow> True"

definition other_children :: "int \<Rightarrow> ('w \<Rightarrow> nat) \<Rightarrow> 'w env \<Rightarrow> bool" where
  "other_children p m e \<longleftrightarrow> nonincreasing m e \<and>
     (\<forall>w r w'. e w (Sys Wait) = (Some r, w') \<longrightarrow> rv r \<noteq> p \<longrightarrow> m w' < m w)"

lemma wait_pid_ends:
  assumes "coop (parent_answers p s) e" "other_children p m e" "m w < fuel"
  shows "outcome (loop fuel (wait_pid_body p) st) e w = Returned (Some s)"
proof -
  have ni: "nonincreasing m e" using assms(2) by (simp add: other_children_def)
  have tot: "total e" "answers (parent_answers p s) e" using assms(1) by (simp_all add: coop_def)
  have "\<exists>a. outcome (loop fuel (wait_pid_body p) st) e w = Returned (Some a) \<and> a = s"
  proof (rule loop_ends [where I = "\<lambda>_. True" and m = m and P = "\<lambda>_. True", OF tot ni])
    show "wlp (parent_answers p s) (\<lambda>_. True) (\<lambda>x. case x of Inl s' \<Rightarrow> True | Inr a \<Rightarrow> a = s)
        (\<lambda>_. False) (wait_pid_body p st)" for st
      by (auto simp: wait_pid_body_def Let_def)
    show "m (final_env (wait_pid_body p st) e w) < m w"
      if "outcome (wait_pid_body p st) e w = Returned (Inl st')" for st st' w
    proof -
      obtain r w' where e: "e w (Sys Wait) = (Some r, w')" using tot(1) by (rule totalE)
      then have "rv r \<noteq> p" using that by (auto simp: wait_pid_body_def Let_def)
      then show ?thesis using e assms(2) by (simp add: wait_pid_body_def Let_def other_children_def)
    qed
  qed (use assms(3) in auto)
  then show ?thesis by simp
qed

lemma pip_task_code:
  assumes "coop (parent_answers p s) e" "other_children p m e" "m w < fuel" "0 < p"
    and "3 \<le> length argv" "0 < atoi32 (argv ! 1)" "atoi32 (argv ! 1) \<le> NTASKS h"
  shows "outcome (pip_task_main h fuel argv) e w =
     Returned (Some (if WIFEXITED s then WEXITSTATUS s
       else if WIFSIGNALED s then EXIT_FAIL else EXIT_UNTESTED))"
proof -
  let ?w1 = "after e w (Sys Setpgid)"
  let ?w2 = "after e ?w1 (Sys (Sigaction SIGINT ''sigint_watcher''))"
  let ?w3 = "after e ?w2 (Sys (Getenv ''NTASKS''))"
  have ni: "m (after e w c) \<le> m w" for w c
    using assms(2) by (simp add: other_children_def nonincreasing_def after_def)
  have "m (after e ?w3 (Sys Fork)) < fuel"
    using ni [of w] ni [of ?w1] ni [of ?w2] ni [of ?w3] assms(3) by (meson le_less_trans)
  then have L: "outcome (loop fuel (wait_pid_body p) 0) e (after e ?w3 (Sys Fork)) = Returned (Some s)"
    by (rule wait_pid_ends [where m = m, OF assms(1,2)])
  have A: "rv (answer e ?w1 (Sys (Sigaction SIGINT ''sigint_watcher''))) = 0"
    "strv (answer e ?w2 (Sys (Getenv ''NTASKS''))) = None" "rv (answer e ?w3 (Sys Fork)) = p"
    using coop_answer [OF assms(1), of "Sys (Sigaction SIGINT ''sigint_watcher'')" ?w1]
      coop_answer [OF assms(1), of "Sys (Getenv ''NTASKS'')" ?w2]
      coop_answer [OF assms(1), of "Sys Fork" ?w3] by simp_all
  show ?thesis
    using A L assms(4-7)
    by (simp add: pip_task_main_def set_sigint_watcher_def chk_def chkv_def Let_def
        coop_simps [OF assms(1)] outcome_bind task_main_status_def del: outcome_simps(3))
qed

text \<open>C19: the waiting half of \<open>pip-task\<close> waits until its own child is reported, whatever other
processes are reported before, and returns the child's exit code, or EXIT\_FAIL for a child
that was killed.\<close>

theorem pip_task_reports_child:
  assumes "coop (parent_answers p s) e" "other_children p m e" "m w < fuel" "0 < p"
    and "3 \<le> length argv" "0 < atoi32 (argv ! 1)" "atoi32 (argv ! 1) \<le> NTASKS h"
  shows "outcome (pip_task_main h fuel argv) e w =
     Returned (Some (if WIFEXITED s then WEXITSTATUS s
       else if WIFSIGNALED s then EXIT_FAIL else EXIT_UNTESTED))"
  by (rule pip_task_code [OF assms])

lemma pip_task_reports_child_witness:
  "outcome (pip_task_main h_sample 1 [''pip-task'', ''4'', ''prog''])
     (reply (\<lambda>c. if c = Sys Fork then ok\<lparr>rv := 7\<rparr> else if c = Sys Wait then ok\<lparr>rv := 7, o1 := Some (exited 2)\<rparr>
        else ok)) () =
   Returned (Some (if WIFEXITED (exited 2) then WEXITSTATUS (exited 2)
       else if WIFSIGNALED (exited 2) then EXIT_FAIL else EXIT_UNTESTED))"
proof (rule pip_task_reports_child [where p = 7 and m = "\<lambda>_. 0"])
  show "coop (parent_answers 7 (exited 2))
     (reply (\<lambda>c. if c = Sys Fork then ok\<lparr>rv := 7\<rparr> else if c = Sys Wait then ok\<lparr>rv := 7, o1 := Some (exited 2)\<rparr>
        else ok))"
  proof (rule coop_reply)
    fix c show "parent_answers 7 (exited 2) c (if c = Sys Fork then ok\<lparr>rv := 7\<rparr> else if c = Sys Wait
        then ok\<lparr>rv := 7, o1 := Some (exited 2)\<rparr> else ok)"
      by (cases "(7 :: int, exited 2, c, ok)" rule: parent_answers.cases) simp_all
  qed
  show "0 < atoi32 ([''pip-task'', ''4'', ''prog''] ! 1)"
    "atoi32 ([''pip-task'', ''4'', ''prog''] ! 1) \<le> NTASKS h_sample"
    by (simp_all add: strtol_eval NTASKS_def h_sample_def)
qed (auto simp: other_children_def nonincreasing_def)

section \<open>What pip-blt does when its calls succeed\<close>

text \<open>
  The task queues: spawning an inactive task leaves the queue of the call not empty, an active
  one takes over the tasks of its queue, taking the lock changes nothing, and
  \<open>pip_task_queue_isempty\<close> tells whether the queue is empty.
\<close>

definition queue_laws :: "'w env \<Rightarrow> ('w \<Rightarrow> int \<Rightarrow> nat) \<Rightarrow> bool" where
  "queue_laws e qlen \<longleftrightarrow>
     (\<forall>w c i j. qlen (after e w (Pip (Pip_blt_spawn c False i j))) j > 0) \<and>
     (\<forall>w c i j. qlen (after e w (Pip (Pip_blt_spawn c True i j))) j = 0) \<and>
     (\<forall>w j. qlen (after e w (Pip (Pip_queue_lock j))) = qlen w) \<and>
     (\<forall>w j. rv (answer e w (Pip (Pip_queue_isempty j))) = c_bool (qlen w j = 0))"

text \<open>The queue that inactive task \<open>i\<close> is put into.\<close>

definition pass_queue :: "int \<Rightarrow> int \<Rightarrow> int" where
  "pass_queue nacts i = (if nacts = 0 then 0 else i mod nacts)"

definition pass_state :: "int \<Rightarrow> int \<Rightarrow> int" where
  "pass_state nacts i = (if i = 0 then 0 else pass_queue nacts (i - 1) + 1)"

lemma pass_state_queue:
  assumes "0 \<le> nacts" "0 \<le> i"
  shows "(if pass_state nacts i \<ge> nacts then 0 else pass_state nacts i) = pass_queue nacts i"
proof (cases "nacts = 0")
  case True
  then show ?thesis by (simp add: pass_state_def pass_queue_def)
next
  case False
  let ?k = "(i - 1) mod nacts"
  have "0 \<le> ?k" "?k < nacts" using assms False by simp_all
  moreover have "i mod nacts = (?k + 1) mod nacts" by (simp add: mod_simps)
  then have "i mod nacts = (if ?k + 1 = nacts then 0 else ?k + 1)"
    using \<open>0 \<le> ?k\<close> \<open>?k < nacts\<close> by auto
  ultimately show ?thesis using False by (auto simp: pass_state_def pass_queue_def)
qed

definition blt_pass_calls :: "pip_h \<Rightarrow> int \<Rightarrow> int \<Rightarrow> int \<Rightarrow> call list" where
  "blt_pass_calls h nacts nc i = (let j = pass_queue nacts i in
     [env_int PIP_TEST_PIPID_ENV i, Pip (Pip_blt_spawn (task_core h nc i) False i j),
      Pip (Pip_queue_lock j), Pip (Pip_queue_isempty j), Pip (Pip_queue_unlock j)])"

definition blt_act_calls :: "pip_h \<Rightarrow> int \<Rightarrow> int \<Rightarrow> int \<Rightarrow> call list" where
  "blt_act_calls h npass nc i = (let j = i - npass in
     [env_int PIP_TEST_PIPID_ENV i,
      Pip (Pip_blt_spawn (if nc = 0 then CPUCORE_ASIS h else c_rem i nc + 1) True i j),
      Pip (Pip_queue_lock j), Pip (Pip_queue_isempty j), Pip (Pip_queue_unlock j)])"

lemma blt_pass_runs:
  assumes "coop (driver_answers ncpus sts) e" "queue_laws e qlen" "0 \<le> nacts" "0 \<le> npass"
  shows "outcome (for_range 0 (nat npass) (blt_pass_body h nacts nc) 0) e w = Returned (Inr (pass_state nacts npass))"
    "calls (for_range 0 (nat npass) (blt_pass_body h nacts nc) 0) e w =
       concat (map (blt_pass_calls h nacts nc) [0..npass - 1])"
proof -
  have "outcome (blt_pass_body h nacts nc i (pass_state nacts i)) e w = Returned (Inr (pass_state nacts (i + 1))) \<and>
      calls (blt_pass_body h nacts nc i (pass_state nacts i)) e w = blt_pass_calls h nacts nc i"
    if "0 \<le> i" for i w
    using that assms(2)
    by (simp add: blt_pass_body_def set_env_int_def env_int_def chk_def chkv_def
        pass_state_queue [OF assms(3)] is_taskq_empty_def blt_pass_calls_def task_core_def
        coop_simps [OF assms(1)] driver_coop [OF assms(1)] queue_laws_def
        pass_state_def [of _ "i + 1"] Let_def del: outcome_simps(3))
  from for_range_runs [where i = 0 and n = "nat npass" and st = "pass_state nacts" and e = e and w = w
      and body = "blt_pass_body h nacts nc" and cs = "blt_pass_calls h nacts nc", OF this] assms(4)
  show "outcome (for_range 0 (nat npass) (blt_pass_body h nacts nc) 0) e w = Returned (Inr (pass_state nacts npass))"
    "calls (for_range 0 (nat npass) (blt_pass_body h nacts nc) 0) e w =
       concat (map (blt_pass_calls h nacts nc) [0..npass - 1])"
    by (simp_all add: pass_state_def [of nacts 0] del: upto.simps)
qed

lemma blt_act_runs:
  assumes "coop (driver_answers ncpus sts) e" "queue_laws e qlen" "0 \<le> nacts"
  shows "outcome (for_range npass (nat nacts) (blt_act_body h nc) 0) e w = Returned (Inr nacts)"
    "calls (for_range npass (nat nacts) (blt_act_body h nc) 0) e w =
       concat (map (blt_act_calls h npass nc) [npass..npass + nacts - 1])"
proof -
  have "outcome (blt_act_body h nc i (i - npass)) e w = Returned (Inr (i + 1 - npass)) \<and>
      calls (blt_act_body h nc i (i - npass)) e w = blt_act_calls h npass nc i" for i w
    using assms(2)
    by (simp add: blt_act_body_def set_env_int_def env_int_def chk_def chkv_def
        is_taskq_empty_def blt_act_calls_def
        coop_simps [OF assms(1)] driver_coop [OF assms(1)] queue_laws_def
        Let_def del: outcome_simps(3))
  from for_range_runs [where i = npass and n = "nat nacts" and st = "\<lambda>i. i - npass" and e = e and w = w
      and body = "blt_act_body h nc" and cs = "blt_act_calls h npass nc", OF this] assms(3)
  show "outcome (for_range npass (nat nacts) (blt_act_body h nc) 0) e w = Returned (Inr nacts)"
    "calls (for_range npass (nat nacts) (blt_act_body h nc) 0) e w =
       concat (map (blt_act_calls h npass nc) [npass..npass + nacts - 1])"
    by (simp_all del: upto.simps)
qed

lemma queue_init_runs:
  assumes "coop R e" "0 \<le> n"
  shows "outcome (for_range 0 (nat n) queue_init_body ()) e w = Returned (Inr ())"
    "calls (for_range 0 (nat n) queue_init_body ()) e w = map (\<lambda>i. Pip (Pip_queue_init i)) [0..n - 1]"
proof -
  have "outcome (queue_init_body j ()) e w = Returned (Inr ()) \<and>
      calls (queue_init_body j ()) e w = [Pip (Pip_queue_init j)]" for j w
    by (simp add: queue_init_body_def coop_simps [OF assms(1)] del: outcome_simps(3))
  from for_range_runs [where i = 0 and n = "nat n" and st = "\<lambda>_. ()" and e = e and w = w
      and body = queue_init_body, OF this] assms(2)
  show "outcome (for_range 0 (nat n) queue_init_body ()) e w = Returned (Inr ())"
    "calls (for_range 0 (nat n) queue_init_body ()) e w = map (\<lambda>i. Pip (Pip_queue_init i)) [0..n - 1]"
    by (simp_all add: concat_map_singleton del: upto.simps)
qed

text \<open>C40: when its calls succeed and the task queues behave as queues, \<open>pip-blt\<close> spawns the
inactive tasks 0, ..., npass - 1 first, dealt round robin to the queues of the active ones, and
finds each queue not empty; then the active tasks npass, ..., ntasks - 1, each on its own queue,
which it finds empty; then it waits for all of them and returns the first exit value that is
not zero. Every queue it uses was initialised.\<close>

theorem pip_blt_spec:
  assumes "coop (driver_answers ncpus sts) e" "queue_laws e qlen" "0 \<le> nacts" "0 \<le> npass"
  shows "outcome (pip_blt_run h nacts npass (nacts + npass) prog) e w =
      Returned (kept (blt_extval \<circ> sts) (nacts + npass)) \<and>
    calls (pip_blt_run h nacts npass (nacts + npass) prog) e w =
      map (\<lambda>i. Pip (Pip_queue_init i)) [0..nacts] @
      [Pip (Pip_init True (Some (nacts + npass)) False 0),
       env_int PIP_TEST_NTASKS_ENV (nacts + npass), Sys Getaffinity] @
      concat (map (blt_pass_calls h nacts (ncpus - 1)) [0..npass - 1]) @
      concat (map (blt_act_calls h npass (ncpus - 1)) [npass..npass + nacts - 1]) @
      map (\<lambda>i. Pip (Pip_wait i True)) [0..nacts + npass - 1] @ [Pip Pip_fin]"
proof -
  have n: "0 \<le> nacts + npass" "0 \<le> nacts + 1" using assms(3,4) by simp_all
  show ?thesis
    using queue_init_runs [OF assms(1) n(2)] blt_pass_runs [OF assms, of h "ncpus - 1"]
      blt_act_runs [OF assms(1-3), of npass h "ncpus - 1"] blt.collects [OF assms(1) n(1), of sts]
    by (simp add: pip_blt_run_def get_ncpus_def set_env_int_def env_int_def chk_def run_seq
        coop_simps [OF assms(1)] driver_coop [OF assms(1)] Let_def del: outcome_simps(3) upto.simps)
qed

definition blt_env :: "int \<Rightarrow> (int \<Rightarrow> status) \<Rightarrow> (int \<Rightarrow> nat) env" where
  "blt_env ncpus sts q c = (case c of
       Pip (Pip_blt_spawn _ act i j) \<Rightarrow> (Some ok, q(j := if act then 0 else q j + 1))
     | Pip (Pip_queue_isempty j) \<Rightarrow> (Some (ok\<lparr>rv := c_bool (q j = 0)\<rparr>), q)
     | _ \<Rightarrow> (Some (driver_reply ncpus sts c), q))"

lemma blt_env_ok: "coop (driver_answers ncpus sts) (blt_env ncpus sts)"
    "queue_laws (blt_env ncpus sts) (\<lambda>q. q)"
proof (rule coopI)
  fix q c show "\<exists>r w'. blt_env ncpus sts q c = (Some r, w') \<and> driver_answers ncpus sts c r"
    by (cases "(ncpus, sts, c, ok)" rule: driver_answers.cases)
      (simp_all add: blt_env_def driver_reply_def split: pip_call.splits)
  show "queue_laws (blt_env ncpus sts) (\<lambda>q. q)"
    by (simp add: queue_laws_def blt_env_def answer_def after_def)
qed

lemma pip_blt_spec_witness:
  "outcome (pip_blt_run h_sample 2 3 (2 + 3) ''prog'') (blt_env 4 sts_sample) (\<lambda>_. 0) =
     Returned (kept (blt_extval \<circ> sts_sample) (2 + 3))"
proof -
  note * = pip_blt_spec [OF blt_env_ok [of 4 sts_sample], of 2 3 h_sample "''prog''" "\<lambda>_. 0"]
  have "0 \<le> (2::int)" "0 \<le> (3::int)" by simp_all
  from * [OF this] show ?thesis by (rule conjunct1)
qed

lemma wlp_blt_spawns:
  assumes "1 \<le> ncpus" "0 \<le> nacts" "0 \<le> npass" "nacts \<le> q"
  shows "wlp R (good_spawn h ncpus q) (\<lambda>x. case x of Inl v \<Rightarrow> v = EXIT_FAIL | Inr _ \<Rightarrow> True) H
      (for_range 0 (nat npass) (blt_pass_body h nacts (ncpus - 1)) 0)"
    "wlp R (good_spawn h ncpus q) (\<lambda>x. case x of Inl v \<Rightarrow> v = EXIT_FAIL | Inr _ \<Rightarrow> True) H
      (for_range npass (nat nacts) (blt_act_body h (ncpus - 1)) 0)"
proof -
  have core: "c_rem i (ncpus - 1) + 1 \<le> ncpus - 1" "0 \<le> c_rem i (ncpus - 1)"
      "c_rem i (ncpus - 1) \<le> ncpus - 1"
    if "ncpus \<noteq> 1" "0 \<le> i" for i
  proof -
    have "c_rem i (ncpus - 1) = i mod (ncpus - 1)" "0 < ncpus - 1"
      using that assms(1) by (simp_all add: c_rem_nonneg)
    then show "c_rem i (ncpus - 1) + 1 \<le> ncpus - 1" "0 \<le> c_rem i (ncpus - 1)"
        "c_rem i (ncpus - 1) \<le> ncpus - 1"
      using pos_mod_bound [of "ncpus - 1" i] pos_mod_sign [of "ncpus - 1" i] by linarith+
  qed
  show "wlp R (good_spawn h ncpus q) (\<lambda>x. case x of Inl v \<Rightarrow> v = EXIT_FAIL | Inr _ \<Rightarrow> True) H
      (for_range 0 (nat npass) (blt_pass_body h nacts (ncpus - 1)) 0)"
    by (rule wlp_for_range [where I = "\<lambda>_ j. 0 \<le> j"])
      (use core assms in \<open>simp_all add: blt_pass_body_def set_env_int_def is_taskq_empty_def Let_def
         wlp_chk wlp_chkv\<close>)
  show "wlp R (good_spawn h ncpus q) (\<lambda>x. case x of Inl v \<Rightarrow> v = EXIT_FAIL | Inr _ \<Rightarrow> True) H
      (for_range npass (nat nacts) (blt_act_body h (ncpus - 1)) 0)"
    by (rule wlp_for_range [where I = "\<lambda>i j. j = i - npass"])
      (use core assms in \<open>simp_all add: blt_act_body_def set_env_int_def is_taskq_empty_def Let_def
         wlp_chk wlp_chkv\<close>)
qed

lemma wlp_pip_blt_run:
  assumes "1 \<le> ncpus" "0 \<le> nacts" "0 \<le> npass" "nacts \<le> q"
  shows "wlp (affinity ncpus) (good_spawn h ncpus q) (\<lambda>v. 0 \<le> v \<and> v < 256) (\<lambda>_. True)
    (pip_blt_run h nacts npass (nacts + npass) prog)"
proof -
  have init: "wlp R (good_spawn h ncpus q) (\<lambda>x. case x of Inl v \<Rightarrow> v = EXIT_FAIL | Inr _ \<Rightarrow> True) H
      (for_range 0 (nat (nacts + 1)) queue_init_body ())" for R H
    by (rule wlp_for_range [where I = "\<lambda>_ _. True"])
      (use assms in \<open>auto simp: queue_init_body_def split: if_splits\<close>)
  have waits: "wlp (affinity ncpus) (good_spawn h ncpus q)
      (\<lambda>x. case x of Inl v \<Rightarrow> v = EXIT_FAIL | Inr v \<Rightarrow> 0 \<le> v \<and> v < 256) (\<lambda>_. True)
      (for_range 0 m blt_wait_body 0)" for m
    by (rule wlp_for_range [where I = "\<lambda>_ v. 0 \<le> v \<and> v < 256"])
      (auto simp: blt_wait_body_def wlp_simps Let_def blt.ext_range)
  have n: "stored (o2 r) (nacts + npass) = nacts + npass"
    if "affinity ncpus (Pip (Pip_init True (Some (nacts + npass)) False 0)) r" for r
    using that by (auto simp: affinity_def)
  show ?thesis
    unfolding pip_blt_run_def set_env_int_def
    by (auto simp: wlp_simps Let_def exit_defs n
        intro!: wlp_mono [OF init] wlp_mono [OF wlp_get_ncpus] wlp_mono [OF waits]
          wlp_mono [OF wlp_blt_spawns(1) [OF assms]] wlp_mono [OF wlp_blt_spawns(2) [OF assms]]
        split: sum.splits)
qed

lemma wlp_main_ranges:
  assumes "1 \<le> ncpus"
  shows "wlp (affinity ncpus) (good_spawn h ncpus 0) (\<lambda>_. True) (\<lambda>_. True) (pip_task_main h fuel argv)"
    "wlp (affinity ncpus) (good_spawn h ncpus (NTASKS h)) (\<lambda>_. True) (\<lambda>_. True) (pip_blt_main h argv)"
proof -
  have "wlp R (good_spawn h ncpus 0) (\<lambda>_. True) (\<lambda>_. True) (loop fuel (wait_pid_body p) st)" for R p st
    by (rule wlp_loop [where I = "\<lambda>_. True"]) (auto simp: wait_pid_body_def Let_def)
  then show "wlp (affinity ncpus) (good_spawn h ncpus 0) (\<lambda>_. True) (\<lambda>_. True) (pip_task_main h fuel argv)"
    by (auto simp: pip_task_main_def set_sigint_watcher_def abend_def wlp_simps Let_def
        intro!: wlp_mono [OF wlp_spawn_tasks [OF assms]] split: option.splits)
  show "wlp (affinity ncpus) (good_spawn h ncpus (NTASKS h)) (\<lambda>_. True) (\<lambda>_. True) (pip_blt_main h argv)"
    by (auto simp: pip_blt_main_def set_sigint_watcher_def abend_def wlp_simps Let_def
        intro!: wlp_mono [OF wlp_pip_blt_run] assms)
qed

text \<open>Whatever their calls answer and whatever their arguments, the drivers never ask for a
core outside the \<open>ncpus\<close> CPUs they may run on: \<open>pip-task\<close> binds a task to no core or to one of
0, ..., ncpus - 2, \<open>pip-blt\<close> to no core or to one of 0, ..., ncpus - 1; and every queue \<open>pip-blt\<close>
touches lies within its array of NTASKS + 1 queues.\<close>

theorem drivers_stay_in_range:
  assumes "answers (affinity ncpus) e" "1 \<le> ncpus"
  shows "list_all (good_spawn h ncpus 0) (calls (pip_task_main h fuel argv) e w) \<and>
    list_all (good_spawn h ncpus (NTASKS h)) (calls (pip_blt_main h argv) e w)"
  using wlp_answers(3) [OF wlp_main_ranges(1) [OF assms(2)] assms(1)]
    wlp_answers(3) [OF wlp_main_ranges(2) [OF assms(2)] assms(1)] by blast

lemma drivers_stay_in_range_witness:
  "list_all (good_spawn h_sample 3 0)
      (calls (pip_task_main h_sample 1 [''pip-task'', ''4'', ''prog'']) (reply (driver_reply 3 sts_sample)) ()) \<and>
   list_all (good_spawn h_sample 3 (NTASKS h_sample))
      (calls (pip_blt_main h_sample [''pip-task'', ''4'', ''prog'']) (reply (driver_reply 3 sts_sample)) ())"
  by (rule drivers_stay_in_range) (auto simp: answers_def affinity_def driver_reply_def)

end
