(* ===== verification/Args.thy ===== *)
theory Args
  imports TestH
begin

text \<open>
  The argument checks that most test programs open with, word for word: the number of tasks
  (\<open>argv[1]\<close>, limited by the variable NTASKS of the environment or, when it is not set, by
  the constant NTASKS) and the number of iterations. An \<open>argv\<close> is the list of its strings,
  \<open>argc\<close> its length.
\<close>

definition arg_int :: "string list \<Rightarrow> nat \<Rightarrow> cint \<Rightarrow> cint" where
  "arg_int argv k dflt = (if length argv > k then atoi32 (argv ! k) else dflt)"

definition ntasks_guard :: "int \<Rightarrow> string list \<Rightarrow> (int + int) prog" where
  "ntasks_guard lim argv =
     (let ntasks = arg_int argv 1 0;
          ntasks = (if ntasks \<le> 0 then lim else ntasks)
      in Call (Sys (Getenv ''NTASKS'')) (\<lambda>r.
           case strv r of
             Some env \<Rightarrow> if ntasks > atoi32 env then Ret (Inl EXIT_UNTESTED) else Ret (Inr ntasks)
           | None \<Rightarrow> if ntasks > lim then Ret (Inl EXIT_UNTESTED) else Ret (Inr ntasks)))"

definition niters_arg :: "string list \<Rightarrow> nat \<Rightarrow> cint \<Rightarrow> cint" where
  "niters_arg argv k NITERS = (let niters = arg_int argv k 0 in if niters \<le> 0 then NITERS else niters)"

lemma niters_arg_pos: "0 < NITERS \<Longrightarrow> 0 < niters_arg argv k NITERS"
  by (simp add: niters_arg_def Let_def)

text \<open>The limit a run of the check works with: the variable's value, or the constant.\<close>

definition ntasks_limit :: "int \<Rightarrow> resp \<Rightarrow> int" where
  "ntasks_limit lim r = (case strv r of Some env \<Rightarrow> atoi32 env | None \<Rightarrow> lim)"

lemma wlp_ntasks_guard:
  assumes "P (Sys (Getenv ''NTASKS''))"
    and "\<And>r. R (Sys (Getenv ''NTASKS'')) r \<Longrightarrow> Q (Inl EXIT_UNTESTED)"
    and "\<And>r n. R (Sys (Getenv ''NTASKS'')) r \<Longrightarrow> n \<le> ntasks_limit lim r \<Longrightarrow> (0 < lim \<Longrightarrow> 0 < n) \<Longrightarrow> Q (Inr n)"
  shows "wlp R P Q H (ntasks_guard lim argv)"
  using assms by (auto simp: ntasks_guard_def Let_def ntasks_limit_def split: option.splits)

text \<open>The signal named by the third argument, 0 without one; a read past the array is a fault.\<close>

definition sig_arg :: "string list \<Rightarrow> (int + int) prog" where
  "sig_arg argv =
     (if length argv > 2 then
        (case signal_number (argv ! 2) of
           None \<Rightarrow> Halt (Fault SIGSEGV)
         | Some sig \<Rightarrow> if sig < 0 then Ret (Inl EXIT_UNTESTED) else Ret (Inr sig))
      else Ret (Inr 0))"

text \<open>The root's loop that spawns its own program as task \<open>i\<close>; \<open>fail\<close> is its early return.\<close>

definition spawn_self :: "pip_h \<Rightarrow> string \<Rightarrow> 'e \<Rightarrow> int \<Rightarrow> unit \<Rightarrow> ('e + unit) prog" where
  "spawn_self h prog fail i u =
     chk (Pip (Pip_spawn (Some prog) (CPUCORE_ASIS h) (Some i) None)) (\<lambda>r. rv r \<noteq> 0)
       (Ret (Inl fail)) (\<lambda>_. Ret (Inr ()))"

text \<open>The check lets a positive number of tasks through, at most the value of the
variable NTASKS when the environment has it and at most the constant otherwise; a request
above the limit ends in EXIT_UNTESTED.\<close>

theorem ntasks_guard_spec:
  assumes "0 < lim" "e w (Sys (Getenv ''NTASKS'')) = (Some r, w')"
  shows "outcome (ntasks_guard lim argv) e w =
     Returned (let n = arg_int argv 1 0; n = (if n \<le> 0 then lim else n) in
       if n \<le> ntasks_limit lim r then Inr n else Inl EXIT_UNTESTED)
   \<and> (case outcome (ntasks_guard lim argv) e w of Returned (Inr n) \<Rightarrow> 0 < n | _ \<Rightarrow> True)"
  using assms by (auto simp: ntasks_guard_def ntasks_limit_def Let_def split: option.splits if_splits)

lemma ntasks_guard_spec_witness:
  "outcome (ntasks_guard 300 [''x'', ''8'']) (\<lambda>w c. (Some ok, w)) () =
     Returned (let n = arg_int [''x'', ''8''] 1 0; n = (if n \<le> 0 then 300 else n) in
       if n \<le> ntasks_limit 300 ok then Inr n else Inl EXIT_UNTESTED)
   \<and> (case outcome (ntasks_guard 300 [''x'', ''8'']) (\<lambda>w c. (Some ok, w)) () of
        Returned (Inr n) \<Rightarrow> 0 < n | _ \<Rightarrow> True)"
  by (rule ntasks_guard_spec [where w' = "()"]) simp_all

text \<open>The variable NTASKS is not compared with the constant NTASKS: with NTASKS=400 in the
environment and 350 on the command line, 350 tasks pass the check of a build whose limit is 300,
although the programs dimension their arrays by the constant.\<close>

theorem ntasks_guard_exceeds_limit:
  "\<exists>(e :: unit env) argv n. outcome (ntasks_guard 300 argv) e () = Returned (Inr n) \<and> n > 300"
proof -
  define e :: "unit env" where "e = (\<lambda>w c. (Some (ok\<lparr>strv := Some ''400''\<rparr>), w))"
  have "outcome (ntasks_guard 300 [''prog'', ''350'']) e () = Returned (Inr 350)"
    by (simp add: ntasks_guard_def arg_int_def e_def strtol_eval)
  then show ?thesis by (intro exI [of _ e] exI [of _ "[''prog'', ''350'']"] exI [of _ 350]) simp
qed

end
