(* ===== verification/Plans.thy ===== *)
theory Plans
  imports Args
begin

text \<open>
  Plans: what a test is to call and what each call has to answer, the calls of a step depending on the
  answers before it. A test decides its plan when it passes if and only if its calls and their answers are
  exactly those of the plan; \<open>runs\<close> is the calculus that shows it, from the program's end to its beginning.
\<close>

section \<open>Plans and the traces that follow them\<close>

text \<open>\<open>Done\<close>: nothing more is called; \<open>Reject\<close>: the test cannot pass any more.\<close>

datatype plan =
    Done
  | Reject
  | Expect call "resp \<Rightarrow> bool" "resp \<Rightarrow> plan"

primrec follows :: "plan \<Rightarrow> trace \<Rightarrow> bool" where
  "follows Done t \<longleftrightarrow> t = []"
| "follows Reject t \<longleftrightarrow> False"
| "follows (Expect c P f) t \<longleftrightarrow> (case t of [] \<Rightarrow> False | (d, r) # u \<Rightarrow> d = c \<and> P r \<and> follows (f r) u)"

text \<open>Calls whose answers are checked and not used.\<close>

type_synonym duties = "(call \<times> (resp \<Rightarrow> bool)) list"

primrec each :: "duties \<Rightarrow> plan \<Rightarrow> plan" where
  "each [] s = s"
| "each (x # xs) s = Expect (fst x) (snd x) (\<lambda>_. each xs s)"

text \<open>What a duty may ask for.\<close>

definition returns :: "int \<Rightarrow> resp \<Rightarrow> bool" where
  "returns v r \<longleftrightarrow> rv r = v"

abbreviation any_return :: "resp \<Rightarrow> bool" where "any_return \<equiv> \<lambda>_. True"

lemma each_append: "each (xs @ ys) s = each xs (each ys s)"
  by (induction xs) simp_all

text \<open>A list of duties is followed by exactly the traces that have these calls, in this order, as duly answered.\<close>

definition duly :: "duties \<Rightarrow> trace \<Rightarrow> bool" where
  "duly = list_all2 (\<lambda>(c, P) (d, r). d = c \<and> P r)"

lemma duly_simps [simp]:
  "duly [] t \<longleftrightarrow> t = []" "duly (x # xs) [] \<longleftrightarrow> False"
  "duly (x # xs) (y # ys) \<longleftrightarrow> fst y = fst x \<and> snd x (snd y) \<and> duly xs ys"
  by (auto simp: duly_def split: prod.splits)

lemma follows_duties: "follows (each xs Done) t \<longleftrightarrow> duly xs t"
proof (induction xs arbitrary: t)
  case (Cons x xs)
  then show ?case by (cases t) auto
qed simp

section \<open>The calculus\<close>

text \<open>
  \<open>runs R Q p s\<close>: when the answers satisfy \<open>R\<close>, as long as they are those of the plan \<open>s\<close> the calls of \<open>p\<close> are
  those of the plan, and a value \<open>p\<close> returns is related by \<open>Q\<close> to what is left of it; an answer that is not as
  planned leaves the plan Reject.
\<close>

primrec runs :: "(call \<Rightarrow> resp \<Rightarrow> bool) \<Rightarrow> ('a \<Rightarrow> plan \<Rightarrow> bool) \<Rightarrow> 'a prog \<Rightarrow> plan \<Rightarrow> bool" where
  "runs R Q (Ret a) s \<longleftrightarrow> Q a s"
| "runs R Q (Halt h) s \<longleftrightarrow> s = Reject"
| "runs R Q (Call c k) s \<longleftrightarrow> (case s of
     Done \<Rightarrow> False
   | Reject \<Rightarrow> \<forall>r. R c r \<longrightarrow> runs R Q (k r) Reject
   | Expect d P f \<Rightarrow> d = c \<and> (\<forall>r. R c r \<longrightarrow> runs R Q (k r) (if P r then f r else Reject)))"

text \<open>The program decides the plan: it returns \<open>g\<close> at its end and nowhere else.\<close>

definition verdict :: "'a \<Rightarrow> 'a \<Rightarrow> plan \<Rightarrow> bool" where
  "verdict g a s \<longleftrightarrow> (if s = Reject then a \<noteq> g else a = g \<and> s = Done)"

lemma verdict_simps [simp]:
  "verdict g a Done \<longleftrightarrow> a = g" "verdict g a Reject \<longleftrightarrow> a \<noteq> g" "\<not> verdict g a (Expect c P f)"
  by (simp_all add: verdict_def)

abbreviation decides :: "(call \<Rightarrow> resp \<Rightarrow> bool) \<Rightarrow> 'a \<Rightarrow> 'a prog \<Rightarrow> plan \<Rightarrow> bool" where
  "decides R g \<equiv> runs R (verdict g)"

lemma rejects: "decides R g p Reject \<Longrightarrow> answers R e \<Longrightarrow> outcome p e w \<noteq> Returned g"
proof (induction p arbitrary: w)
  case (Call c k)
  obtain x w' where e: "e w c = (x, w')" by (cases "e w c")
  have "outcome (k r) e w' \<noteq> Returned g" if "x = Some r" for r
  proof -
    have "R c r" using e that Call.prems(2) unfolding answers_def by blast
    then show ?thesis using Call.IH [OF rangeI _ Call.prems(2)] Call.prems(1) by simp
  qed
  then show ?case using e by (cases x) auto
qed simp_all

lemma decides_iff:
  assumes "decides R g p s" "answers R e"
  shows "outcome p e w = Returned g \<longleftrightarrow> follows s (trace p e w)"
  using assms(1)
proof (induction p arbitrary: s w)
  case (Ret a)
  then show ?case by (cases s) auto
next
  case (Call c k)
  show ?case
  proof (cases s)
    case Reject
    then show ?thesis using rejects [OF Call.prems [unfolded Reject] assms(2)] Reject by simp
  next
    case (Expect d P f)
    obtain x w' where e: "e w c = (x, w')" by (cases "e w c")
    show ?thesis
    proof (cases x)
      case (Some r)
      have "R c r" using e Some assms(2) unfolding answers_def by blast
      then have "decides R g (k r) (if P r then f r else Reject)" using Call.prems Expect by simp
      from Call.IH [OF rangeI this, of w'] show ?thesis using e Some Expect Call.prems by (cases "P r") simp_all
    qed (use e Expect in simp)
  qed (use Call.prems in simp)
qed simp

lemma runs_mono: "runs R Q p s \<Longrightarrow> (\<And>a s. Q a s \<Longrightarrow> Q' a s) \<Longrightarrow> runs R Q' p s"
proof (induction p arbitrary: s)
  case (Call c k)
  then show ?case by (cases s) auto
qed auto

lemma runs_bind: "runs R Q (bind p f) s \<longleftrightarrow> runs R (\<lambda>a s. runs R Q (f a) s) p s"
proof (induction p arbitrary: s)
  case (Call c k)
  then show ?case by (cases s) auto
qed simp_all

lemma runs_Reject: "(\<And>a. Q a Reject) \<Longrightarrow> runs R Q p Reject"
  by (induction p) auto

text \<open>Sequences with early returns: one off the plan returns a value in \<open>B\<close>, on the plan there is none.\<close>

definition goes_on :: "('e \<Rightarrow> bool) \<Rightarrow> ('s \<Rightarrow> plan \<Rightarrow> bool) \<Rightarrow> 'e + 's \<Rightarrow> plan \<Rightarrow> bool" where
  "goes_on B Q x s \<longleftrightarrow> (case x of Inl e \<Rightarrow> s = Reject \<and> B e | Inr v \<Rightarrow> Q v s)"

lemma goes_on_simps [simp]:
  "goes_on B Q (Inl e) s \<longleftrightarrow> s = Reject \<and> B e" "goes_on B Q (Inr v) s = Q v s"
  by (simp_all add: goes_on_def)

lemma runs_seqE:
  assumes "runs R (goes_on B (\<lambda>v s. runs R (goes_on B Q) (k v) s)) p s"
  shows "runs R (goes_on B Q) (seqE p k) s"
  unfolding seqE_def runs_bind
  by (rule runs_mono [OF assms]) (auto simp: goes_on_def split: sum.splits)

lemma runs_finE:
  assumes "runs R (goes_on (\<lambda>v. v \<noteq> g) (\<lambda>v s. decides R g (k v) s)) p s"
  shows "decides R g (finE p k) s"
  unfolding finE_def runs_bind
  by (rule runs_mono [OF assms]) (auto simp: goes_on_def split: sum.splits)

lemma runs_chk:
  assumes "runs R Q a Reject" "\<And>r. R c r \<Longrightarrow> P r \<longleftrightarrow> \<not> b r" "\<And>r. R c r \<Longrightarrow> P r \<Longrightarrow> runs R Q (k r) (f r)"
  shows "runs R Q (chk c b a k) (Expect c P f)"
  using assms by (auto simp: chk_def)

lemma runs_any:
  assumes "\<And>r. R c r \<Longrightarrow> runs R Q (k r) (f r)"
  shows "runs R Q (Call c k) (Expect c any_return f)"
  using assms by simp

text \<open>A loop, round by round.\<close>

lemma runs_for_range:
  assumes "\<And>j x s. i \<le> j \<Longrightarrow> j < i + int n \<Longrightarrow> runs R (goes_on B (\<lambda>_ s'. s' = s)) (body j x) (each (ds j) s)"
    and "\<And>x. Q x s"
  shows "runs R (goes_on B Q) (for_range i n body x) (each (concat (map ds [i..i + int n - 1])) s)"
  using assms(1)
proof (induction n arbitrary: i x)
  case 0
  then show ?case using assms(2) by simp
next
  case (Suc n)
  have up: "[i..i + int (Suc n) - 1] = i # [i + 1..i + 1 + int n - 1]"
    using upto_rec1 [of i "i + int n"] by (simp add: algebra_simps del: upto.simps)
  define u where "u = each (concat (map ds [i + 1..i + 1 + int n - 1])) s"
  have rest: "runs R (goes_on B Q) (for_range (i + 1) n body y) u" for y
    unfolding u_def by (rule Suc.IH) (rule Suc.prems; simp)
  have "runs R (goes_on B (\<lambda>_ s'. s' = u)) (body i x) (each (ds i) u)" by (rule Suc.prems) simp_all
  then have "runs R (goes_on B (\<lambda>v s. runs R (goes_on B Q) (for_range (i + 1) n body v) s)) (body i x) (each (ds i) u)"
    by (rule runs_mono) (use rest in \<open>auto simp: goes_on_def split: sum.splits\<close>)
  then have "runs R (goes_on B Q) (seqE (body i x) (for_range (i + 1) n body)) (each (ds i) u)" by (rule runs_seqE)
  then show ?case unfolding up by (simp only: for_range.simps list.map concat.simps each_append u_def)
qed

text \<open>The loops of the tests run from 0 to a count that may be negative; most rounds make one call.\<close>

lemma runs_count:
  assumes "\<And>j x s. 0 \<le> j \<Longrightarrow> j < n \<Longrightarrow> runs R (goes_on B (\<lambda>_ s'. s' = s)) (body j x) (each (ds j) s)" "\<And>x. Q x s"
  shows "runs R (goes_on B Q) (for_range 0 (nat n) body x) (each (concat (map ds [0..n - 1])) s)"
proof -
  have up: "[0..0 + int (nat n) - 1] = [0..n - 1]" by (cases "0 \<le> n") simp_all
  show ?thesis
    by (rule runs_for_range [of 0 "nat n", unfolded up]) (rule assms; simp split: if_splits)+
qed

lemma runs_count_one:
  assumes "\<And>j x s. 0 \<le> j \<Longrightarrow> j < n \<Longrightarrow> runs R (goes_on B (\<lambda>_ s'. s' = s)) (body j x) (each [d j] s)" "\<And>x. Q x s"
  shows "runs R (goes_on B Q) (for_range 0 (nat n) body x) (each (map d [0..n - 1]) s)"
  using runs_count [of n R B body "\<lambda>j. [d j]" Q s x] assms by simp

lemma runs_repeat:
  assumes "\<And>j x s. runs R (goes_on B (\<lambda>_ s'. s' = s)) (body j x) (each ds s)" "\<And>x. Q x s"
  shows "runs R (goes_on B Q) (for_range i n body x) (each (concat (replicate n ds)) s)"
proof -
  have "map (\<lambda>_. ds) [i..i + int n - 1] = replicate n ds" by (simp add: map_replicate_const)
  then show ?thesis using runs_for_range [of i n R B body "\<lambda>_. ds" Q s x] assms by simp
qed

lemma concat_replicate_one: "concat (replicate n [d]) = replicate n d"
  by (induction n) simp_all

lemmas runs_repeat_one = runs_repeat [where ds = "[d]" for d, unfolded concat_replicate_one]

text \<open>The opening of many tests: the number of tasks asked for, which has to be within the limit.\<close>

definition asked_ntasks :: "int \<Rightarrow> string list \<Rightarrow> int" where
  "asked_ntasks lim argv = (let n = arg_int argv 1 0 in if n \<le> 0 then lim else n)"

definition within :: "int \<Rightarrow> string list \<Rightarrow> resp \<Rightarrow> bool" where
  "within lim argv r \<longleftrightarrow> asked_ntasks lim argv \<le> ntasks_limit lim r"

lemma runs_guard:
  assumes "Q (Inl EXIT_UNTESTED) Reject" "Q (Inr (asked_ntasks lim argv)) s"
  shows "runs R Q (ntasks_guard lim argv) (Expect (Sys (Getenv ''NTASKS'')) (within lim argv) (\<lambda>_. s))"
  using assms by (auto simp: ntasks_guard_def within_def asked_ntasks_def ntasks_limit_def Let_def not_le split: option.splits)

lemma spawn_self_duty:
  "B ex \<Longrightarrow> runs R (goes_on B (\<lambda>_ s'. s' = s)) (spawn_self h prog ex i u)
     (each [(Pip (Pip_spawn (Some prog) (CPUCORE_ASIS h) (Some i) None), returns 0)] s)"
  by (simp add: spawn_self_def chk_def returns_def)

end
