(* ===== verification/WaitTests.thy ===== *)
theory WaitTests
  imports Plans
begin

text \<open>
  The four tests of waiting for tasks: \<open>basics/pip_wait.c\<close>, \<open>pip_trywait.c\<close>, \<open>pip_wait_any.c\<close>
  and \<open>pip_trywait_any.c\<close>. Each is one program run by the root, which spawns it as \<open>ntasks\<close>
  tasks and collects them, and by the tasks, which end by \<open>pip_fin\<close> and a return or by the
  signal named on the command line. The programs share their opening (\<open>wait_main\<close>) and the
  check of a task's status. A main returns None when the fuel of a polling loop is used up.
\<close>

section \<open>What the four programs share\<close>

definition wait_main :: "pip_h \<Rightarrow> (string \<Rightarrow> int \<Rightarrow> int \<Rightarrow> (int option + unit) prog) \<Rightarrow>
    (int \<Rightarrow> (int option + unit) prog) \<Rightarrow> string list \<Rightarrow> int option prog" where
  "wait_main h root task argv =
     bind (ntasks_guard (NTASKS h) argv) (\<lambda>x. case x of
       Inl ex \<Rightarrow> Ret (Some ex)
     | Inr ntasks \<Rightarrow> bind (sig_arg argv) (\<lambda>y. case y of
         Inl ex \<Rightarrow> Ret (Some ex)
       | Inr sig \<Rightarrow>
           chk (Pip (Pip_init True (Some ntasks) True 0)) (\<lambda>r. rv r \<noteq> 0) (Ret (Some EXIT_FAIL)) (\<lambda>r.
             let pipid = stored (o1 r) 0; ntasks = stored (o2 r) ntasks in
             finE (if pipid = PIPID_ROOT h then root (argv ! 0) sig ntasks else task sig) (\<lambda>_.
               chk (Pip Pip_fin) (\<lambda>r. rv r \<noteq> 0) (Ret (Some EXIT_FAIL)) (\<lambda>_. Ret (Some 0))))))"

abbreviation fail :: "(int option + 'a) prog" where
  "fail \<equiv> Ret (Inl (Some EXIT_FAIL))"

definition check_status :: "int \<Rightarrow> status \<Rightarrow> (int option + 'a) prog \<Rightarrow> (int option + 'a) prog" where
  "check_status sig status k =
     (if sig = 0 then
        chkv (c_bool (WIFSIGNALED status)) (\<lambda>v. v \<noteq> 0) fail
         (chkv (c_bool (WIFEXITED status)) (\<lambda>v. v = 0) fail
           (chkv (c_bool (WEXITSTATUS status = 0)) (\<lambda>v. v = 0) fail k))
      else
        chkv (c_bool (WIFEXITED status)) (\<lambda>v. v \<noteq> 0) fail
         (chkv (c_bool (WIFSIGNALED status)) (\<lambda>v. v = 0) fail
           (chkv (c_bool (WTERMSIG status = sig)) (\<lambda>v. v = 0) fail k)))"

text \<open>The end of a task: the signal is sent to itself, SIGSEGV by reading address 0.\<close>

definition self_signal :: "pip_h \<Rightarrow> int \<Rightarrow> (int option + unit) prog \<Rightarrow> (int option + unit) prog" where
  "self_signal h sig k =
     (if sig \<noteq> SIGSEGV then Call (Pip (Pip_kill (PIPID_MYSELF h) sig)) (\<lambda>_. k)
      else Halt (Fault SIGSEGV))"

section \<open>pip\_wait\<close>

definition pip_wait_body :: "pip_h \<Rightarrow> int \<Rightarrow> int \<Rightarrow> unit \<Rightarrow> (int option + unit) prog" where
  "pip_wait_body h sig i u =
     (let status = - 1 in
      chk (Pip (Pip_wait i True)) (\<lambda>r. rv r \<noteq> 0) fail (\<lambda>r.
        check_status sig (stored (o1 r) status)
         (chk (Pip (Pip_wait i True))
            (\<lambda>r. if VERSION_MAJOR h > 1 then rv r \<noteq> ECHILD else rv r \<noteq> ESRCH \<and> rv r \<noteq> ECHILD)
            fail (\<lambda>_. Ret (Inr ())))))"

definition pip_wait_root :: "pip_h \<Rightarrow> string \<Rightarrow> int \<Rightarrow> int \<Rightarrow> (int option + unit) prog" where
  "pip_wait_root h prog sig ntasks =
     chk (Pip (Pip_wait (PIPID_ROOT h) True))
       (\<lambda>r. if VERSION_MAJOR h > 1 then rv r \<noteq> EDEADLK else rv r \<noteq> EINVAL) fail (\<lambda>_.
     chk (Pip (Pip_wait 0 True)) (\<lambda>r. rv r \<noteq> ECHILD) fail (\<lambda>_.
     chk (Pip (Pip_barrier_init ntasks)) (\<lambda>r. rv r \<noteq> 0) fail (\<lambda>_.
     seqE (for_range 0 (nat ntasks) (spawn_self h prog (Some EXIT_FAIL)) ()) (\<lambda>_.
     seqE (for_range 0 (nat ntasks) (pip_wait_body h sig) ()) (\<lambda>_.
     chk (Pip Pip_barrier_fin) (\<lambda>r. rv r \<noteq> 0) fail (\<lambda>_. Ret (Inr ())))))))"

definition pip_wait_task :: "pip_h \<Rightarrow> int \<Rightarrow> (int option + unit) prog" where
  "pip_wait_task h sig =
     chk (Pip Pip_barrier_wait) (\<lambda>r. rv r \<noteq> 0) fail (\<lambda>_.
     chk (Pip (Pip_wait 0 True)) (\<lambda>r. rv r \<noteq> EPERM) fail (\<lambda>_.
     self_signal h sig
      (chk (Pip (Pip_wait 0 True)) (\<lambda>r. rv r \<noteq> EPERM) fail (\<lambda>_. Ret (Inr ())))))"

definition pip_wait_main :: "pip_h \<Rightarrow> string list \<Rightarrow> int option prog" where
  "pip_wait_main h = wait_main h (pip_wait_root h) (pip_wait_task h)"

section \<open>pip\_trywait\<close>

definition pip_trywait_poll :: "int \<Rightarrow> status \<Rightarrow> (status + int \<times> status) prog" where
  "pip_trywait_poll i status =
     Call (Pip (Pip_trywait i True)) (\<lambda>r. let status = stored (o1 r) status in
       Ret (if rv r = ECHILD then Inl status else Inr (rv r, status)))"

definition pip_trywait_body :: "nat \<Rightarrow> int \<Rightarrow> int \<Rightarrow> status \<Rightarrow> (int option + status) prog" where
  "pip_trywait_body fuel sig i status =
     bind (loop fuel (pip_trywait_poll i) status) (\<lambda>x. case x of
       None \<Rightarrow> Ret (Inl None)
     | Some (err, status) \<Rightarrow>
         chkv err (\<lambda>v. v \<noteq> 0) fail (check_status sig status (Ret (Inr 0))))"

definition pip_trywait_root :: "pip_h \<Rightarrow> nat \<Rightarrow> string \<Rightarrow> int \<Rightarrow> int \<Rightarrow> (int option + unit) prog" where
  "pip_trywait_root h fuel prog sig ntasks =
     (let status = - 1 in
     chk (Pip (Pip_trywait (PIPID_ROOT h) True)) (\<lambda>r. rv r \<noteq> EDEADLK) fail (\<lambda>r.
     let status = stored (o1 r) status in
     chk (Pip (Pip_trywait 0 False)) (\<lambda>r. rv r \<noteq> ECHILD) fail (\<lambda>_.
     chk (Pip (Pip_barrier_init ntasks)) (\<lambda>r. rv r \<noteq> 0) fail (\<lambda>_.
     seqE (for_range 0 (nat ntasks) (spawn_self h prog (Some EXIT_FAIL)) ()) (\<lambda>_.
     seqE (for_range 0 (nat ntasks) (pip_trywait_body fuel sig) status) (\<lambda>_. Ret (Inr ())))))))"

definition pip_trywait_task :: "pip_h \<Rightarrow> int \<Rightarrow> (int option + unit) prog" where
  "pip_trywait_task h sig =
     chk (Pip Pip_barrier_wait) (\<lambda>r. rv r \<noteq> 0) fail (\<lambda>_.
     chk (Pip (Pip_trywait 0 True)) (\<lambda>r. rv r \<noteq> EPERM) fail (\<lambda>_.
     self_signal h sig (Ret (Inr ()))))"

definition pip_trywait_main :: "pip_h \<Rightarrow> nat \<Rightarrow> string list \<Rightarrow> int option prog" where
  "pip_trywait_main h fuel = wait_main h (pip_trywait_root h fuel) (pip_trywait_task h)"

section \<open>pip\_wait\_any\<close>

definition pip_wait_any_body :: "int \<Rightarrow> int \<Rightarrow> unit \<Rightarrow> (int option + unit) prog" where
  "pip_wait_any_body sig i u =
     (let status = - 1; pipid = IMPOSSIBLE_PIPID in
      chk (Pip (Pip_wait_any True True)) (\<lambda>r. rv r \<noteq> 0) fail (\<lambda>r.
        chkv (c_bool (stored (o1 r) pipid = IMPOSSIBLE_PIPID)) (\<lambda>v. v \<noteq> 0) fail
         (check_status sig (stored (o2 r) status) (Ret (Inr ())))))"

definition pip_wait_any_root :: "pip_h \<Rightarrow> string \<Rightarrow> int \<Rightarrow> int \<Rightarrow> (int option + unit) prog" where
  "pip_wait_any_root h prog sig ntasks =
     chk (Pip (Pip_wait (PIPID_ROOT h) True)) (\<lambda>r. rv r \<noteq> EDEADLK) fail (\<lambda>_.
     chk (Pip (Pip_wait_any False False)) (\<lambda>r. rv r \<noteq> ECHILD) fail (\<lambda>_.
     chk (Pip (Pip_barrier_init ntasks)) (\<lambda>r. rv r \<noteq> 0) fail (\<lambda>_.
     seqE (for_range 0 (nat ntasks) (spawn_self h prog (Some EXIT_FAIL)) ()) (\<lambda>_.
     seqE (for_range 0 (nat ntasks) (pip_wait_any_body sig) ()) (\<lambda>_.
     chk (Pip (Pip_wait_any False False)) (\<lambda>r. rv r \<noteq> ECHILD) fail (\<lambda>_.
     chk (Pip Pip_barrier_fin) (\<lambda>r. rv r \<noteq> 0) fail (\<lambda>_. Ret (Inr ()))))))))"

definition pip_wait_any_task :: "pip_h \<Rightarrow> int \<Rightarrow> (int option + unit) prog" where
  "pip_wait_any_task h sig =
     chk (Pip Pip_barrier_wait) (\<lambda>r. rv r \<noteq> 0) fail (\<lambda>_.
     chk (Pip (Pip_wait_any True True)) (\<lambda>r. rv r \<noteq> EPERM) fail (\<lambda>_.
     self_signal h sig
      (chk (Pip (Pip_wait_any True True)) (\<lambda>r. rv r \<noteq> EPERM) fail (\<lambda>_. Ret (Inr ())))))"

definition pip_wait_any_main :: "pip_h \<Rightarrow> string list \<Rightarrow> int option prog" where
  "pip_wait_any_main h = wait_main h (pip_wait_any_root h) (pip_wait_any_task h)"

section \<open>pip\_trywait\_any\<close>

definition pip_trywait_any_poll :: "int \<times> status \<Rightarrow> (int \<times> status + int \<times> int \<times> status) prog" where
  "pip_trywait_any_poll = (\<lambda>(pipid, status).
     Call (Pip (Pip_trywait_any True True)) (\<lambda>r.
       let pipid = stored (o1 r) pipid; status = stored (o2 r) status in
       Ret (if rv r = ECHILD then Inl (pipid, status) else Inr (rv r, pipid, status))))"

definition pip_trywait_any_body :: "nat \<Rightarrow> int \<Rightarrow> int \<Rightarrow> unit \<Rightarrow> (int option + unit) prog" where
  "pip_trywait_any_body fuel sig i u =
     (let status = 0; pipid = IMPOSSIBLE_PIPID in
      bind (loop fuel pip_trywait_any_poll (pipid, status)) (\<lambda>x. case x of
        None \<Rightarrow> Ret (Inl None)
      | Some (err, pipid, status) \<Rightarrow>
          chkv err (\<lambda>v. v \<noteq> 0) fail
           (chkv (c_bool (pipid = IMPOSSIBLE_PIPID)) (\<lambda>v. v \<noteq> 0) fail
             (check_status sig status (Ret (Inr ()))))))"

definition pip_trywait_any_root :: "pip_h \<Rightarrow> nat \<Rightarrow> string \<Rightarrow> int \<Rightarrow> int \<Rightarrow> (int option + unit) prog" where
  "pip_trywait_any_root h fuel prog sig ntasks =
     chk (Pip (Pip_trywait_any False False)) (\<lambda>r. rv r \<noteq> ECHILD) fail (\<lambda>_.
     chk (Pip (Pip_barrier_init ntasks)) (\<lambda>r. rv r \<noteq> 0) fail (\<lambda>_.
     seqE (for_range 0 (nat ntasks) (spawn_self h prog (Some EXIT_FAIL)) ()) (\<lambda>_.
     seqE (for_range 0 (nat ntasks) (pip_trywait_any_body fuel sig) ()) (\<lambda>_.
     chk (Pip (Pip_trywait_any True True)) (\<lambda>r. rv r \<noteq> ECHILD) fail (\<lambda>_.
     chk (Pip Pip_barrier_fin) (\<lambda>r. rv r \<noteq> 0) fail (\<lambda>_. Ret (Inr ())))))))"

definition pip_trywait_any_task :: "pip_h \<Rightarrow> int \<Rightarrow> (int option + unit) prog" where
  "pip_trywait_any_task h sig =
     chk (Pip Pip_barrier_wait) (\<lambda>r. rv r \<noteq> 0) fail (\<lambda>_.
     chk (Pip (Pip_trywait_any True True)) (\<lambda>r. rv r \<noteq> EPERM) fail (\<lambda>_.
     if sig \<noteq> SIGSEGV then
       chk (Pip (Pip_kill (PIPID_SELF h) sig)) (\<lambda>r. rv r \<noteq> 0) fail (\<lambda>_. Ret (Inr ()))
     else Halt (Fault SIGSEGV)))"

definition pip_trywait_any_main :: "pip_h \<Rightarrow> nat \<Rightarrow> string list \<Rightarrow> int option prog" where
  "pip_trywait_any_main h fuel = wait_main h (pip_trywait_any_root h fuel) (pip_trywait_any_task h)"

section \<open>What a passed test guarantees\<close>

text \<open>The end a task is expected to come to.\<close>

definition expected :: "int \<Rightarrow> status \<Rightarrow> bool" where
  "expected sig status \<longleftrightarrow>
     (if sig = 0 then WIFEXITED status \<and> WEXITSTATUS status = 0
      else WIFSIGNALED status \<and> WTERMSIG status = sig)"

lemma wpt_check_status:
  assumes "\<And>t. Q t (Inl (Some EXIT_FAIL))"
  shows "wpt R Q t (check_status sig status k) \<longleftrightarrow> (expected sig status \<longrightarrow> wpt R Q t k)"
  using not_both [of status] by (auto simp: check_status_def expected_def wpt_chkv assms)

text \<open>The root's part of a run of \<open>wait_main\<close>.\<close>

fun root_answers :: "pip_h \<Rightarrow> int \<Rightarrow> call \<Rightarrow> resp \<Rightarrow> bool" where
  "root_answers h n (Pip (Pip_init _ _ _ _)) r \<longleftrightarrow> o1 r = Some (PIPID_ROOT h) \<and> o2 r = Some n"
| "root_answers h n _ r \<longleftrightarrow> True"

lemma wpt_ntasks_guard:
  "(\<And>t x. Q t x) \<Longrightarrow> wpt R Q t (ntasks_guard lim argv)"
  by (auto simp: ntasks_guard_def Let_def split: option.splits)

lemma wait_main_root:
  assumes sig: "sig_arg argv = Ret (Inr sig)"
    and root: "\<And>t prog. wpt (root_answers h n) (\<lambda>t x. case x of Inl v \<Rightarrow> v \<noteq> Some 0 | Inr _ \<Rightarrow> G t) t
        (root prog sig n)"
    and mono: "\<And>t t'. G t \<Longrightarrow> G (t @ t')"
  shows "wpt (root_answers h n) (\<lambda>t v. v = Some 0 \<longrightarrow> G t) t (wait_main h root task argv)"
proof -
  have main: "wpt (root_answers h n) (\<lambda>t v. v = Some 0 \<longrightarrow> G t) t
      (chk (Pip (Pip_init True (Some m) True 0)) (\<lambda>r. rv r \<noteq> 0) (Ret (Some EXIT_FAIL)) (\<lambda>r.
         let pipid = stored (o1 r) 0; ntasks = stored (o2 r) m in
         finE (if pipid = PIPID_ROOT h then root (argv ! 0) sig ntasks else task sig) (\<lambda>_.
           chk (Pip Pip_fin) (\<lambda>r. rv r \<noteq> 0) (Ret (Some EXIT_FAIL)) (\<lambda>_. Ret (Some 0)))))" for m t
    by (auto simp: wpt_chk wpt_finE Let_def EXIT_FAIL_def split: sum.splits
        intro!: wpt_mono [OF root] mono)
  then show ?thesis
    by (auto simp: wait_main_def wpt_bind ntasks_guard_def Let_def sig exit_defs split: option.splits)
qed

text \<open>What a trace shows of task \<open>i\<close>: it was spawned.\<close>

definition spawned :: "trace \<Rightarrow> int \<Rightarrow> bool" where
  "spawned t i \<longleftrightarrow> (\<exists>p c a r. (Pip (Pip_spawn p c (Some i) a), r) \<in> set t \<and> rv r = 0)"

lemma seen_append: "spawned t i \<Longrightarrow> spawned (t @ t') i"
  by (auto simp: spawned_def)

lemma wpt_spawn_self:
  assumes "\<And>t. Q t (Inl x)"
  shows "wpt R (\<lambda>t y. case y of Inl e \<Rightarrow> Q t (Inl e) | Inr _ \<Rightarrow> spawned t j) t (spawn_self h prog x j u)"
  using assms by (auto simp: spawn_self_def wpt_chk spawned_def)

lemma wpt_spawn_loop:
  assumes "\<And>t. Q t (Inl x)"
    and "\<And>t. (\<forall>i. 0 \<le> i \<and> i < n \<longrightarrow> spawned t i) \<Longrightarrow> Q t (Inr ())"
  shows "wpt R Q t (for_range 0 (nat n) (spawn_self h prog x) ())"
  by (rule wpt_for_all [where A = "\<lambda>j t. spawned t j" and G = "\<lambda>_. True"])
    (use assms seen_append in \<open>auto intro!: wpt_spawn_self split: if_splits\<close>)

text \<open>What it shows for the polling test and for the tests that wait for any task.\<close>

definition polled :: "int \<Rightarrow> trace \<Rightarrow> int \<Rightarrow> bool" where
  "polled sig t i \<longleftrightarrow>
     (\<exists>r s. (Pip (Pip_trywait i True), r) \<in> set t \<and> rv r = 0 \<and> expected sig (stored (o1 r) s))"

definition any_ok :: "pip_call \<Rightarrow> int \<Rightarrow> call \<times> resp \<Rightarrow> bool" where
  "any_ok c sig = (\<lambda>(d, r). d = Pip c \<and> rv r = 0 \<and> (\<exists>s. expected sig (stored (o2 r) s)))"

definition any_count :: "pip_call \<Rightarrow> int \<Rightarrow> trace \<Rightarrow> int" where
  "any_count c sig t = int (length (filter (any_ok c sig) t))"

text \<open>\<open>n\<close> tasks were collected, and then a call \<open>d\<close> found none left.\<close>

definition all_collected :: "pip_call \<Rightarrow> pip_call \<Rightarrow> int \<Rightarrow> int \<Rightarrow> trace \<Rightarrow> bool" where
  "all_collected c d sig n t \<longleftrightarrow>
     (\<exists>t1 r t2. t = t1 @ (Pip d, r) # t2 \<and> rv r = ECHILD \<and> n \<le> any_count c sig t1)"

lemma any_count_append: "any_count c sig (t @ t') = any_count c sig t + any_count c sig t'"
  by (simp add: any_count_def)

lemma any_count_ge: "0 \<le> any_count c sig t"
  by (simp add: any_count_def)

lemma any_count_neg: "\<not> 0 \<le> n \<Longrightarrow> n \<le> any_count c sig t"
  using any_count_ge [of c sig t] by simp

lemma polled_append: "polled sig t i \<Longrightarrow> polled sig (t @ t') i"
  by (auto simp: polled_def)

lemma all_collected_append: "all_collected c d sig n t \<Longrightarrow> all_collected c d sig n (t @ t')"
  by (fastforce simp: all_collected_def)

lemma wpt_trywait_poll:
  "wpt R (\<lambda>t x. case x of Inl e \<Rightarrow> e \<noteq> Some 0 | Inr _ \<Rightarrow> polled sig t j) t
     (pip_trywait_body fuel sig j st)"
proof -
  let ?K = "\<lambda>t x. case x of None \<Rightarrow> True
      | Some (err, status) \<Rightarrow> \<exists>r s. (Pip (Pip_trywait j True), r) \<in> set t \<and> err = rv r \<and> status = stored (o1 r) s"
  have "wpt R ?K t (loop fuel (pip_trywait_poll j) st)"
    by (rule wpt_loop [where I = "\<lambda>_ _. True"])
      (auto simp: pip_trywait_poll_def Let_def intro: exI)
  then show ?thesis
    unfolding pip_trywait_body_def wpt_bind
    by (rule wpt_mono)
      (auto simp: wpt_chkv wpt_check_status exit_defs polled_def split: option.splits prod.splits)
qed

lemma pip_trywait_root_sound:
  "wpt R (\<lambda>t x. case x of Inl v \<Rightarrow> v \<noteq> Some 0 |
      Inr _ \<Rightarrow> \<forall>i. 0 \<le> i \<and> i < n \<longrightarrow> spawned t i \<and> polled sig t i) t
    (pip_trywait_root h fuel prog sig n)" (is "wpt R ?Q t _")
proof -
  let ?S = "\<lambda>t. \<forall>i. 0 \<le> i \<and> i < n \<longrightarrow> spawned t i"
  have "wpt R (\<lambda>t x. case x of Inl e \<Rightarrow> ?Q t (Inl e) | Inr _ \<Rightarrow> ?Q t (Inr ())) t
      (for_range 0 (nat n) (pip_trywait_body fuel sig) st)" if "?S t" for t st
    by (rule wpt_for_all [where A = "\<lambda>i t. polled sig t i" and G = ?S])
      (use that seen_append polled_append in \<open>auto intro!: wpt_trywait_poll simp: exit_defs split: if_splits\<close>)
  then show ?thesis
    unfolding pip_trywait_root_def Let_def
    by (intro wpt_chkI wpt_seqI [where M = "\<lambda>t _. ?S t"] wpt_seqI [where M = "\<lambda>t _. ?Q t (Inr ())"]
        wpt_spawn_loop) (auto simp: exit_defs)
qed

lemma pip_wait_any_root_sound:
  "wpt R (\<lambda>t x. case x of Inl v \<Rightarrow> v \<noteq> Some 0 |
      Inr _ \<Rightarrow> all_collected (Pip_wait_any True True) (Pip_wait_any False False) sig n t) t
    (pip_wait_any_root h prog sig n)" (is "wpt R ?Q t _")
proof -
  let ?c = "any_count (Pip_wait_any True True) sig"
  have "wpt R (\<lambda>t x. case x of Inl e \<Rightarrow> e \<noteq> Some 0 | Inr s' \<Rightarrow> j + 1 \<le> ?c t) t
      (pip_wait_any_body sig j s)" if "j \<le> ?c t" for j t s
    using that
    by (auto simp: pip_wait_any_body_def wpt_chk wpt_chkv wpt_check_status exit_defs Let_def
        any_count_def any_ok_def)
  then have "wpt R (\<lambda>t x. case x of Inl e \<Rightarrow> ?Q t (Inl e) | Inr (_ :: unit) \<Rightarrow> n \<le> ?c t) t
      (for_range 0 (nat n) (pip_wait_any_body sig) s)" for t s
    by (intro wpt_for_range [where I = "\<lambda>j t _. j \<le> ?c t"]) (auto simp: any_count_ge any_count_neg split: if_splits)
  then show ?thesis
    unfolding pip_wait_any_root_def
    by (intro wpt_chkI wpt_seqI [where M = "\<lambda>t _. True"] wpt_seqI [where M = "\<lambda>t _. n \<le> ?c t"]
        wpt_spawn_loop) (auto simp: exit_defs all_collected_def)
qed

lemma wpt_trywait_any_poll:
  assumes "j \<le> any_count (Pip_trywait_any True True) sig t"
  shows "wpt R (\<lambda>t x. case x of Inl e \<Rightarrow> e \<noteq> Some 0
      | Inr _ \<Rightarrow> j + 1 \<le> any_count (Pip_trywait_any True True) sig t) t
     (pip_trywait_any_body fuel sig j st)"
proof -
  let ?c = "any_count (Pip_trywait_any True True) sig"
  let ?K = "\<lambda>t x. case x of None \<Rightarrow> True
      | Some (err, pipid, status) \<Rightarrow> err = 0 \<longrightarrow> expected sig status \<longrightarrow> j + 1 \<le> ?c t"
  have "wpt R ?K t (loop fuel pip_trywait_any_poll (pipid, st))" for pipid st
    by (rule wpt_loop [where I = "\<lambda>t _. j \<le> ?c t"])
      (use assms in \<open>auto simp: pip_trywait_any_poll_def Let_def any_count_def any_ok_def\<close>)
  then show ?thesis
    unfolding pip_trywait_any_body_def wpt_bind Let_def
    by (rule wpt_mono)
      (auto simp: wpt_chkv wpt_check_status exit_defs split: option.splits prod.splits)
qed

lemma pip_trywait_any_root_sound:
  "wpt R (\<lambda>t x. case x of Inl v \<Rightarrow> v \<noteq> Some 0 |
      Inr _ \<Rightarrow> all_collected (Pip_trywait_any True True) (Pip_trywait_any True True) sig n t) t
    (pip_trywait_any_root h fuel prog sig n)" (is "wpt R ?Q t _")
proof -
  let ?c = "any_count (Pip_trywait_any True True) sig"
  have "wpt R (\<lambda>t x. case x of Inl e \<Rightarrow> ?Q t (Inl e) | Inr (_ :: unit) \<Rightarrow> n \<le> ?c t) t
      (for_range 0 (nat n) (pip_trywait_any_body fuel sig) s)" for t s
    by (intro wpt_for_range [where I = "\<lambda>j t _. j \<le> ?c t"])
      (auto simp: any_count_ge any_count_neg intro!: wpt_trywait_any_poll split: if_splits)
  then show ?thesis
    unfolding pip_trywait_any_root_def
    by (intro wpt_chkI wpt_seqI [where M = "\<lambda>t _. True"] wpt_seqI [where M = "\<lambda>t _. n \<le> ?c t"]
        wpt_spawn_loop) (auto simp: exit_defs all_collected_def)
qed

section \<open>Soundness of the verdicts\<close>

text \<open>When the root's \<open>pip\_trywait\<close> test returns 0, every task was spawned and polled until
a poll succeeded, with the status the command line asks for.\<close>

theorem pip_trywait_sound:
  assumes "answers (root_answers h n) e" "sig_arg argv = Ret (Inr sig)"
    and "outcome (pip_trywait_main h fuel argv) e w = Returned (Some 0)" "0 \<le> i" "i < n"
  shows "spawned (trace (pip_trywait_main h fuel argv) e w) i \<and>
    polled sig (trace (pip_trywait_main h fuel argv) e w) i"
proof -
  have "wpt (root_answers h n) (\<lambda>t v. v = Some 0 \<longrightarrow>
      (\<forall>i. 0 \<le> i \<and> i < n \<longrightarrow> spawned t i \<and> polled sig t i)) [] (pip_trywait_main h fuel argv)"
    unfolding pip_trywait_main_def
    by (rule wait_main_root [OF assms(2) pip_trywait_root_sound]) (auto simp: seen_append polled_append)
  from wpt_outcome [OF this assms(1,3)] assms(4,5) show ?thesis by blast
qed

text \<open>When the root's \<open>pip\_wait\_any\<close> or \<open>pip\_trywait\_any\<close> test returns 0, at least ntasks
calls each collected a task with the expected status, and a later call found none left.\<close>

theorem pip_wait_any_sound:
  assumes "answers (root_answers h n) e" "sig_arg argv = Ret (Inr sig)"
    and "outcome (pip_wait_any_main h argv) e w = Returned (Some 0)"
    and "outcome (pip_trywait_any_main h fuel argv) e w = Returned (Some 0)"
  shows "all_collected (Pip_wait_any True True) (Pip_wait_any False False) sig n
        (trace (pip_wait_any_main h argv) e w) \<and>
     all_collected (Pip_trywait_any True True) (Pip_trywait_any True True) sig n
        (trace (pip_trywait_any_main h fuel argv) e w)"
proof -
  have "wpt (root_answers h n) (\<lambda>t v. v = Some 0 \<longrightarrow>
      all_collected (Pip_wait_any True True) (Pip_wait_any False False) sig n t) [] (pip_wait_any_main h argv)"
    unfolding pip_wait_any_main_def
    by (rule wait_main_root [OF assms(2) pip_wait_any_root_sound]) (rule all_collected_append)
  moreover have "wpt (root_answers h n) (\<lambda>t v. v = Some 0 \<longrightarrow>
      all_collected (Pip_trywait_any True True) (Pip_trywait_any True True) sig n t) [] (pip_trywait_any_main h fuel argv)"
    unfolding pip_trywait_any_main_def
    by (rule wait_main_root [OF assms(2) pip_trywait_any_root_sound]) (rule all_collected_append)
  ultimately show ?thesis
    using wpt_outcome [OF _ assms(1,3)] wpt_outcome [OF _ assms(1,4)] by blast
qed

section \<open>The verdict of pip\_wait\<close>

text \<open>
  What the root is to call: waits that are refused before any task is there, the spawns, and for each task in
  turn the wait that collects it and one more, which finds it gone; then the end of the barrier.
\<close>

definition collects :: "int \<Rightarrow> resp \<Rightarrow> bool" where
  "collects sig r \<longleftrightarrow> rv r = 0 \<and> expected sig (stored (o1 r) (- 1))"

definition gone_codes :: "pip_h \<Rightarrow> int set" where
  "gone_codes h = (if VERSION_MAJOR h > 1 then {ECHILD} else {ESRCH, ECHILD})"

definition wait_root_duties :: "pip_h \<Rightarrow> string \<Rightarrow> int \<Rightarrow> int \<Rightarrow> duties" where
  "wait_root_duties h prog sig n =
     [(Pip (Pip_wait (PIPID_ROOT h) True), returns (if VERSION_MAJOR h > 1 then EDEADLK else EINVAL)),
      (Pip (Pip_wait 0 True), returns ECHILD), (Pip (Pip_barrier_init n), returns 0)] @
     map (\<lambda>i. (Pip (Pip_spawn (Some prog) (CPUCORE_ASIS h) (Some i) None), returns 0)) [0..n - 1] @
     concat (map (\<lambda>i. [(Pip (Pip_wait i True), collects sig), (Pip (Pip_wait i True), \<lambda>r. rv r \<in> gone_codes h)]) [0..n - 1]) @
     [(Pip Pip_barrier_fin, returns 0)]"

text \<open>A task may not wait and ends by a signal or, when no signal is sent, in the end of the program.\<close>

definition wait_task_duties :: "pip_h \<Rightarrow> int \<Rightarrow> duties" where
  "wait_task_duties h sig =
     [(Pip Pip_barrier_wait, returns 0), (Pip (Pip_wait 0 True), returns EPERM),
      (Pip (Pip_kill (PIPID_MYSELF h) sig), any_return), (Pip (Pip_wait 0 True), returns EPERM)]"

definition wait_plan :: "pip_h \<Rightarrow> string list \<Rightarrow> int \<Rightarrow> plan" where
  "wait_plan h argv sig =
     (let m = asked_ntasks (NTASKS h) argv; fin = each [(Pip Pip_fin, returns 0)] Done in
      Expect (Sys (Getenv ''NTASKS'')) (within (NTASKS h) argv) (\<lambda>_.
      Expect (Pip (Pip_init True (Some m) True 0)) (returns 0) (\<lambda>r.
        if stored (o1 r) 0 = PIPID_ROOT h then each (wait_root_duties h (argv ! 0) sig (stored (o2 r) m)) fin
        else if sig = SIGSEGV then Reject
        else each (wait_task_duties h sig) fin)))"

lemma check_status_ok: "expected sig status \<Longrightarrow> check_status sig status k = k"
  using not_both [of status] by (auto simp: check_status_def expected_def chkv_def)

lemma check_status_bad:
  "\<not> expected sig status \<Longrightarrow> B (Some EXIT_FAIL) \<Longrightarrow> runs R (goes_on B Q) (check_status sig status k) Reject"
  by (auto simp: check_status_def expected_def chkv_def)

lemma pip_wait_round:
  "B (Some EXIT_FAIL) \<Longrightarrow> runs R (goes_on B (\<lambda>_ s'. s' = s)) (pip_wait_body h sig i u)
     (each [(Pip (Pip_wait i True), collects sig), (Pip (Pip_wait i True), \<lambda>r. rv r \<in> gone_codes h)] s)"
  by (auto simp: pip_wait_body_def chk_def collects_def gone_codes_def check_status_ok check_status_bad Let_def)

lemma pip_wait_root_runs:
  assumes "B (Some EXIT_FAIL)" "Q () s"
  shows "runs R (goes_on B Q) (pip_wait_root h prog sig n) (each (wait_root_duties h prog sig n) s)"
  unfolding wait_root_duties_def pip_wait_root_def each_append
  using assms
  by (auto simp: returns_def
      intro!: runs_chk runs_seqE runs_count_one runs_count spawn_self_duty pip_wait_round)

lemma pip_wait_task_runs:
  assumes "B (Some EXIT_FAIL)" "Q () s"
  shows "runs R (goes_on B Q) (pip_wait_task h sig) (if sig = SIGSEGV then Reject else each (wait_task_duties h sig) s)"
  using assms by (simp add: pip_wait_task_def self_signal_def wait_task_duties_def chk_def returns_def)

lemma pip_wait_decides:
  assumes "sig_arg argv = Ret (Inr sig)"
  shows "decides R (Some 0) (pip_wait_main h argv) (wait_plan h argv sig)"
proof -
  have root: "decides R (Some 0) (finE (pip_wait_root h prog sig n)
      (\<lambda>_. chk (Pip Pip_fin) (\<lambda>r. rv r \<noteq> 0) (Ret (Some EXIT_FAIL)) (\<lambda>_. Ret (Some 0))))
      (each (wait_root_duties h prog sig n) (each [(Pip Pip_fin, returns 0)] Done))" for prog n
    by (intro runs_finE pip_wait_root_runs) (simp_all add: chk_def returns_def exit_defs)
  have task: "decides R (Some 0) (finE (pip_wait_task h sig)
      (\<lambda>_. chk (Pip Pip_fin) (\<lambda>r. rv r \<noteq> 0) (Ret (Some EXIT_FAIL)) (\<lambda>_. Ret (Some 0))))
      (if sig = SIGSEGV then Reject else each (wait_task_duties h sig) (each [(Pip Pip_fin, returns 0)] Done))"
    by (intro runs_finE pip_wait_task_runs) (simp_all add: chk_def returns_def exit_defs)
  let ?m = "asked_ntasks (NTASKS h) argv"
  have "decides R (Some 0) (chk (Pip (Pip_init True (Some ?m) True 0)) (\<lambda>r. rv r \<noteq> 0) (Ret (Some EXIT_FAIL)) (\<lambda>r.
      let pipid = stored (o1 r) 0; ntasks = stored (o2 r) ?m in
      finE (if pipid = PIPID_ROOT h then pip_wait_root h (argv ! 0) sig ntasks else pip_wait_task h sig) (\<lambda>_.
        chk (Pip Pip_fin) (\<lambda>r. rv r \<noteq> 0) (Ret (Some EXIT_FAIL)) (\<lambda>_. Ret (Some 0)))))
    (Expect (Pip (Pip_init True (Some ?m) True 0)) (returns 0) (\<lambda>r.
        if stored (o1 r) 0 = PIPID_ROOT h
        then each (wait_root_duties h (argv ! 0) sig (stored (o2 r) ?m)) (each [(Pip Pip_fin, returns 0)] Done)
        else if sig = SIGSEGV then Reject
        else each (wait_task_duties h sig) (each [(Pip Pip_fin, returns 0)] Done)))"
    using root task by (intro runs_chk) (auto simp: exit_defs returns_def Let_def)
  then show ?thesis
    unfolding pip_wait_main_def wait_main_def wait_plan_def runs_bind Let_def
    by (intro runs_guard) (simp_all add: assms exit_defs)
qed

text \<open>C23: the \<open>pip\_wait\<close> test returns 0 if and only if its calls and their answers are those of the plan: in the root,
whose number of tasks \<open>pip\_init\<close> tells, one refused wait for the root and one refused wait for task 0, which is not there
yet; the spawns of the tasks 0, 1, ... in their order; and then for each task in the same order exactly two waits, the
first successful with the status the command line asks for (exit code 0, or killed by the given signal), the second
refused; a task has its two waits refused with EPERM and does not come back when the signal is SIGSEGV.\<close>

theorem pip_wait_exact:
  assumes "sig_arg argv = Ret (Inr sig)"
  shows "outcome (pip_wait_main h argv) e w = Returned (Some 0) \<longleftrightarrow>
    follows (wait_plan h argv sig) (trace (pip_wait_main h argv) e w)"
  by (rule decides_iff [OF pip_wait_decides [OF assms] answers_any])

section \<open>Completeness of the verdict of pip\_wait\<close>

text \<open>
  The behaviour of the library the test is written against: a table of the tasks that can be
  waited for, which spawning adds to and a successful wait takes out of; waiting for a task
  that is not in it is an error, and so is waiting for the root.
\<close>

definition wait_laws :: "pip_h \<Rightarrow> int \<Rightarrow> (int \<Rightarrow> status) \<Rightarrow> 'w env \<Rightarrow> ('w \<Rightarrow> int set) \<Rightarrow> bool" where
  "wait_laws h n sts e live \<longleftrightarrow> total e \<and>
     (\<forall>w. strv (answer e w (Sys (Getenv ''NTASKS''))) = None \<and>
        live (after e w (Sys (Getenv ''NTASKS''))) = live w) \<and>
     (\<forall>w m. let c = Pip (Pip_init True m True 0) in
        rv (answer e w c) = 0 \<and> o1 (answer e w c) = Some (PIPID_ROOT h) \<and>
        o2 (answer e w c) = Some n \<and> live (after e w c) = live w) \<and>
     (\<forall>w. let c = Pip (Pip_wait (PIPID_ROOT h) True) in
        rv (answer e w c) = (if VERSION_MAJOR h > 1 then EDEADLK else EINVAL) \<and>
        live (after e w c) = live w) \<and>
     (\<forall>w i. i \<noteq> PIPID_ROOT h \<longrightarrow> (let c = Pip (Pip_wait i True) in
        (if i \<in> live w then rv (answer e w c) = 0 \<and> o1 (answer e w c) = Some (sts i)
         else rv (answer e w c) = ECHILD) \<and> live (after e w c) = live w - {i})) \<and>
     (\<forall>w p c i a. let c = Pip (Pip_spawn p c (Some i) a) in
        rv (answer e w c) = 0 \<and> live (after e w c) = insert i (live w)) \<and>
     (\<forall>w m. let c = Pip (Pip_barrier_init m) in
        rv (answer e w c) = 0 \<and> live (after e w c) = live w) \<and>
     (\<forall>w. rv (answer e w (Pip Pip_barrier_fin)) = 0 \<and> rv (answer e w (Pip Pip_fin)) = 0)"

lemma pip_wait_root_complete:
  assumes "wait_laws h n sts e live" "PIPID_ROOT h < 0" "live w = {}"
    and "\<And>i. 0 \<le> i \<Longrightarrow> i < n \<Longrightarrow> expected sig (sts i)"
  shows "outcome (pip_wait_root h prog sig n) e w = Returned (Inr ())"
proof -
  have tot: "total e" using assms(1) by (simp add: wait_laws_def)
  let ?P = "\<lambda>j w. live w = {i. 0 \<le> i \<and> i < j}"
  have spawn: "outcome (spawn_self h prog (Some EXIT_FAIL) j ()) e w = Returned (Inr ()) \<and>
      ?P (j + 1) (final_env (spawn_self h prog (Some EXIT_FAIL) j ()) e w)" if "0 \<le> j" "?P j w" for j w
    using that assms(1)
    by (auto simp: spawn_self_def chk_def total_simps [OF tot] wait_laws_def Let_def
        simp del: outcome_simps(3) final_env_simps(3))
  let ?W = "\<lambda>j w. live w = {i. j \<le> i \<and> i < n}"
  have wait: "outcome (pip_wait_body h sig j ()) e w = Returned (Inr ()) \<and>
      ?W (j + 1) (final_env (pip_wait_body h sig j ()) e w)" if "0 \<le> j" "j < n" "?W j w" for j w
    using that assms(1,2,4)
    by (auto simp: pip_wait_body_def chk_def check_status_ok total_simps [OF tot] wait_laws_def Let_def
        simp del: outcome_simps(3) final_env_simps(3))
  let ?w1 = "after e w (Pip (Pip_wait (PIPID_ROOT h) True))"
  let ?w2 = "after e ?w1 (Pip (Pip_wait 0 True))"
  let ?w3 = "after e ?w2 (Pip (Pip_barrier_init n))"
  let ?spawns = "for_range 0 (nat n) (spawn_self h prog (Some EXIT_FAIL)) ()"
  let ?waits = "for_range 0 (nat n) (pip_wait_body h sig) ()"
  let ?w4 = "final_env ?spawns e ?w3"
  have live: "live ?w1 = {}" "live ?w2 = {}" "live ?w3 = {}"
    using assms(1-3) by (auto simp: wait_laws_def Let_def)
  have rvs: "rv (answer e w (Pip (Pip_wait (PIPID_ROOT h) True))) = (if VERSION_MAJOR h > 1 then EDEADLK else EINVAL)"
    "rv (answer e ?w1 (Pip (Pip_wait 0 True))) = ECHILD"
    "rv (answer e ?w2 (Pip (Pip_barrier_init n))) = 0"
    "rv (answer e v (Pip Pip_barrier_fin)) = 0" for v
    using assms(1,2) live(1) by (auto simp: wait_laws_def Let_def)
  have P0: "?P 0 ?w3" using live(3) by auto
  have s: "outcome ?spawns e ?w3 = Returned (Inr ())"
    by (rule for_range_runs_inv(1) [where W = ?P and st = "\<lambda>_. ()", OF _ P0]) (rule spawn)
  have "?P (0 + int (nat n)) ?w4"
    by (rule for_range_runs_inv(2) [where W = ?P and st = "\<lambda>_. ()", OF _ P0]) (rule spawn)
  moreover have "{i. 0 \<le> i \<and> i < 0 + int (nat n)} = {i. 0 \<le> i \<and> i < n}" by auto
  ultimately have W0: "?W 0 ?w4" by (rule trans)
  have t: "outcome ?waits e ?w4 = Returned (Inr ())"
    by (rule for_range_runs_inv(1) [where W = ?W and st = "\<lambda>_. ()", OF _ W0])
      (rule wait, simp_all split: if_splits)
  show ?thesis
    using s t rvs
    by (simp add: pip_wait_root_def chk_def total_simps [OF tot] outcome_seqE del: outcome_simps(3))
qed

text \<open>C24: when the library keeps its table of tasks as documented and every task comes to the end
the command line asks for, the root's \<open>pip\_wait\<close> test returns 0: it does not reject a library
that is right.\<close>

theorem pip_wait_complete:
  assumes "wait_laws h n sts e live" "PIPID_ROOT h < 0" "live w = {}"
    and "\<And>i. 0 \<le> i \<Longrightarrow> i < n \<Longrightarrow> expected sig (sts i)"
    and "sig_arg argv = Ret (Inr sig)" "arg_int argv 1 0 \<le> NTASKS h"
  shows "outcome (pip_wait_main h argv) e w = Returned (Some 0)"
proof -
  have tot: "total e" using assms(1) by (simp add: wait_laws_def)
  let ?m = "let m = arg_int argv 1 0 in if m \<le> 0 then NTASKS h else m"
  let ?w1 = "after e w (Sys (Getenv ''NTASKS''))"
  let ?w2 = "after e ?w1 (Pip (Pip_init True (Some ?m) True 0))"
  have "live ?w1 = {}" "live ?w2 = {}" "strv (answer e w (Sys (Getenv ''NTASKS''))) = None"
    "rv (answer e v (Pip Pip_fin)) = 0" for v
    using assms(1,3) by (auto simp: wait_laws_def Let_def)
  moreover have "rv (answer e ?w1 (Pip (Pip_init True (Some ?m) True 0))) = 0"
    "o1 (answer e ?w1 (Pip (Pip_init True (Some ?m) True 0))) = Some (PIPID_ROOT h)"
    "o2 (answer e ?w1 (Pip (Pip_init True (Some ?m) True 0))) = Some n"
    using assms(1) unfolding wait_laws_def by (meson)+
  moreover have "\<not> ?m > NTASKS h" using assms(6) by (simp add: Let_def)
  ultimately show ?thesis
    using pip_wait_root_complete [OF assms(1,2) _ assms(4), of ?w2 "argv ! 0"]
    by (simp add: pip_wait_main_def wait_main_def ntasks_guard_def chk_def total_simps [OF tot]
        outcome_bind outcome_finE assms(5) Let_def del: outcome_simps(3))
qed

section \<open>A library with two tasks\<close>

text \<open>A library as the laws describe it; its state is the list of the tasks that can be waited for.\<close>

definition table_env :: "pip_h \<Rightarrow> int \<Rightarrow> (int \<Rightarrow> status) \<Rightarrow> int list env" where
  "table_env h n sts w c = (case c of
       Pip (Pip_init _ _ _ _) \<Rightarrow> (Some (ok\<lparr>o1 := Some (PIPID_ROOT h), o2 := Some n\<rparr>), w)
     | Pip (Pip_spawn _ _ (Some i) _) \<Rightarrow> (Some ok, i # w)
     | Pip (Pip_wait i _) \<Rightarrow>
         if i = PIPID_ROOT h then (Some (ok\<lparr>rv := if VERSION_MAJOR h > 1 then EDEADLK else EINVAL\<rparr>), w)
         else if i \<in> set w then (Some (ok\<lparr>o1 := Some (sts i)\<rparr>), removeAll i w)
         else (Some (ok\<lparr>rv := ECHILD\<rparr>), w)
     | Pip (Pip_trywait i _) \<Rightarrow>
         if i = PIPID_ROOT h then (Some (ok\<lparr>rv := EDEADLK\<rparr>), w)
         else if i \<in> set w then (Some (ok\<lparr>o1 := Some (sts i)\<rparr>), removeAll i w)
         else (Some (ok\<lparr>rv := ECHILD\<rparr>), w)
     | Pip (Pip_wait_any _ _) \<Rightarrow>
         (case w of [] \<Rightarrow> (Some (ok\<lparr>rv := ECHILD\<rparr>), w)
          | i # w' \<Rightarrow> (Some (ok\<lparr>o1 := Some i, o2 := Some (sts i)\<rparr>), w'))
     | Pip (Pip_trywait_any _ _) \<Rightarrow>
         (case w of [] \<Rightarrow> (Some (ok\<lparr>rv := ECHILD\<rparr>), w)
          | i # w' \<Rightarrow> (Some (ok\<lparr>o1 := Some i, o2 := Some (sts i)\<rparr>), w'))
     | _ \<Rightarrow> (Some ok, w))"

lemma table_env_laws: "wait_laws h n sts (table_env h n sts) set"
  unfolding wait_laws_def Let_def
  by (intro conjI allI impI)
    (auto simp: total_def table_env_def answer_def after_def
      split: call.splits pip_call.splits option.splits list.splits)

lemma table_env_root: "answers (root_answers h n) (table_env h n sts)"
proof -
  have "root_answers h n c r" if "table_env h n sts w c = (Some r, w')" for w c r w'
    using that by (cases "(h, n, c, r)" rule: root_answers.cases) (auto simp: table_env_def)
  then show ?thesis by (auto simp: answers_def)
qed

definition end_sample :: "int \<Rightarrow> status" where "end_sample i = exited 0"

abbreviation env_sample :: "int list env" where
  "env_sample \<equiv> table_env h_sample 2 end_sample"

lemma args_sample: "sig_arg [p, ''2''] = Ret (Inr 0)" "arg_int [p, ''2''] (Suc 0) 0 = 2" "atoi32 ''2'' = 2"
  by (simp_all add: sig_arg_def arg_int_def strtol_eval)

lemma expected_sample: "expected 0 (end_sample i)" "end_sample i = exited 0" "expected 0 (exited 0)"
  by (simp_all add: expected_def end_sample_def)

lemma pip_wait_complete_witness:
  "outcome (pip_wait_main h_sample [''pip_wait'', ''2'']) env_sample [] = Returned (Some 0)"
  by (rule pip_wait_complete [OF table_env_laws, where sig = 0])
    (simp_all add: args_sample expected_sample h_sample_def NTASKS_def)

lemmas sample_run = wait_main_def ntasks_guard_def args_sample chk_def chkv_def table_env_def
  h_sample_def NTASKS_def spawn_self_def check_status_ok [OF expected_sample(3)] expected_sample(2)
  errno_defs IMPOSSIBLE_PIPID_def Let_def prog_simps

lemma pip_wait_passes:
  "outcome (pip_wait_main h_sample [''pip_wait'', ''2'']) env_sample [] = Returned (Some 0)"
  by (simp add: pip_wait_main_def pip_wait_root_def pip_wait_body_def sample_run)

lemma pip_trywait_passes:
  "outcome (pip_trywait_main h_sample 1 [''pip_wait'', ''2'']) env_sample [] = Returned (Some 0)"
  by (simp add: pip_trywait_main_def pip_trywait_root_def pip_trywait_body_def pip_trywait_poll_def sample_run)

lemma pip_wait_exact_witness:
  "follows (wait_plan h_sample [''pip_wait'', ''2''] 0) (trace (pip_wait_main h_sample [''pip_wait'', ''2'']) env_sample [])"
  by (rule iffD1 [OF pip_wait_exact [OF args_sample(1)] pip_wait_passes])

lemma pip_trywait_sound_witness:
  "spawned (trace (pip_trywait_main h_sample 1 [''pip_wait'', ''2'']) env_sample []) 1 \<and>
   polled 0 (trace (pip_trywait_main h_sample 1 [''pip_wait'', ''2'']) env_sample []) 1"
  by (rule pip_trywait_sound [OF table_env_root args_sample(1) pip_trywait_passes]) simp_all

lemma pip_wait_any_passes:
  "outcome (pip_wait_any_main h_sample [''pip_wait'', ''2'']) env_sample [] = Returned (Some 0)"
  by (simp add: pip_wait_any_main_def pip_wait_any_root_def pip_wait_any_body_def sample_run)

lemma pip_trywait_any_passes:
  "outcome (pip_trywait_any_main h_sample 1 [''pip_wait'', ''2'']) env_sample [] = Returned (Some 0)"
  by (simp add: pip_trywait_any_main_def pip_trywait_any_root_def pip_trywait_any_body_def
      pip_trywait_any_poll_def sample_run)

lemma pip_wait_any_sound_witness:
  "all_collected (Pip_wait_any True True) (Pip_wait_any False False) 0 2
      (trace (pip_wait_any_main h_sample [''pip_wait'', ''2'']) env_sample []) \<and>
   all_collected (Pip_trywait_any True True) (Pip_trywait_any True True) 0 2
      (trace (pip_trywait_any_main h_sample 1 [''pip_wait'', ''2'']) env_sample [])"
  by (rule pip_wait_any_sound [OF table_env_root args_sample(1)
      pip_wait_any_passes pip_trywait_any_passes])

end
