(* ===== verification/Segments.thy ===== *)
theory Segments
  imports Spmd
begin

text \<open>
  Programs cut into segments by barriers. Participant \<open>i\<close> runs its segment \<open>sg i 0\<close>, waits at the
  barrier, runs \<open>sg i 1\<close>, and so on; the loops the test programs take turns in are brought into
  this form by the lemmas of the first section. The locale \<open>segmented\<close> asks of each phase that
  one participant at most touches the shared state.
\<close>

lemma seqE_assoc: "seqE (seqE p k) f = seqE p (\<lambda>s. seqE (k s) f)"
  unfolding seqE_def bind_assoc
  by (rule arg_cong [where f = "bind p"], rule ext) (simp split: sum.splits)

lemma finE_seqE: "finE (seqE p k) f = finE p (\<lambda>s. finE (k s) f)"
  unfolding finE_def seqE_def bind_assoc
  by (rule arg_cong [where f = "bind p"], rule ext) (simp split: sum.splits)

lemma finE_chk: "finE (chk f c a k) g = chk f c (finE a g) (\<lambda>r. finE (k r) g)"
  by (simp add: chk_def if_distrib [of "\<lambda>p. finE p g"] cong: if_cong)

lemma for_range_const: "for_range j k (\<lambda>_. body) x = for_range j' k (\<lambda>_. body) x"
proof (induction k arbitrary: j j' x)
  case (Suc k)
  have "for_range (j + 1) k (\<lambda>_. body) = for_range (j' + 1) k (\<lambda>_. body)"
    by (rule ext) (rule Suc.IH)
  then show ?case by simp
qed simp

section \<open>Chains of segments\<close>

text \<open>A segment works on the participant's own variables, of type \<open>'s\<close>.\<close>

type_synonym ('b, 's) segment = "'s \<Rightarrow> ('b + 's) prog"

primrec chain :: "('b prog \<Rightarrow> 'b prog) \<Rightarrow> (nat \<Rightarrow> ('b, 's) segment) \<Rightarrow> nat \<Rightarrow> nat \<Rightarrow>
    ('s \<Rightarrow> 'b prog) \<Rightarrow> 's \<Rightarrow> 'b prog" where
  "chain bw s p 0 e = e"
| "chain bw s p (Suc k) e = (\<lambda>x. finE (s p x) (\<lambda>y. bw (chain bw s (Suc p) k e y)))"

lemma chain_append: "chain bw s p (k + l) e = chain bw s p k (chain bw s (p + k) l e)"
  by (induction k arbitrary: p) simp_all

lemma chain_cong:
  "(\<And>q. p \<le> q \<Longrightarrow> q < p + k \<Longrightarrow> s q = s' q) \<Longrightarrow> chain bw s p k e = chain bw s' p k e"
proof (induction k arbitrary: p)
  case (Suc k)
  have "chain bw s (Suc p) k e = chain bw s' (Suc p) k e" by (rule Suc.IH) (use Suc.prems in auto)
  then show ?case using Suc.prems [of p] by simp
qed simp

text \<open>A piece of program before the chain belongs to its first segment.\<close>

lemma chain_pre:
  assumes "0 < k"
  shows "finE (pre x) (chain bw s p k e) = chain bw (s(p := \<lambda>x. seqE (pre x) (s p))) p k e x"
proof -
  obtain l where k: "k = Suc l" using assms by (cases k) auto
  have "chain bw s (Suc p) l e = chain bw (s(p := \<lambda>x. seqE (pre x) (s p))) (Suc p) l e"
    by (rule chain_cong) simp
  then show ?thesis by (simp add: k finE_seqE)
qed

definition skip :: "('b, 's) segment" where "skip x = Ret (Inr x)"

lemma skip_simps [simp]: "finE (skip x) f = f x" "seqE (skip x) g = g x"
  by (simp_all add: skip_def)

text \<open>\<open>for( ii=lo; ii<hi; ii++ ) barrier\_wait;\<close> as a chain of empty segments.\<close>

primrec bars :: "(('b + 's) prog \<Rightarrow> ('b + 's) prog) \<Rightarrow> nat \<Rightarrow> ('b, 's) segment" where
  "bars bw 0 x = skip x"
| "bars bw (Suc k) x = bw (bars bw k x)"

text \<open>A round: some barriers, the participant's turn, the barriers left of the \<open>B\<close> of a round.\<close>

definition round_body :: "(('b + 's) prog \<Rightarrow> ('b + 's) prog) \<Rightarrow> nat \<Rightarrow> nat \<Rightarrow>
    ('b, 's) segment \<Rightarrow> ('b, 's) segment" where
  "round_body bw B pos act x = seqE (bars bw pos x) (\<lambda>x. seqE (act x) (bars bw (B - pos)))"

definition round_seg :: "nat \<Rightarrow> nat \<Rightarrow> (nat \<Rightarrow> ('b, 's) segment) \<Rightarrow> nat \<Rightarrow> ('b, 's) segment" where
  "round_seg B pos act p = (if p mod B = pos then act (p div B) else skip)"

text \<open>The barrier call commutes with what follows the loop.\<close>

definition bw_ok :: "(('b + 's) prog \<Rightarrow> ('b + 's) prog) \<Rightarrow> ('b prog \<Rightarrow> 'b prog) \<Rightarrow> bool" where
  "bw_ok bw bw' \<longleftrightarrow> (\<forall>p (f :: 's \<Rightarrow> 'b prog). finE (bw p) f = bw' (finE p f))"

lemma finE_bars:
  assumes "bw_ok bw bw'" "\<And>q. p \<le> q \<Longrightarrow> q < p + k \<Longrightarrow> s q = skip"
  shows "finE (bars bw k x) e = chain bw' s p k e x"
  using assms(2)
proof (induction k arbitrary: p)
  case (Suc k)
  have "finE (bars bw k x) e = chain bw' s (Suc p) k e x" by (rule Suc.IH) (use Suc.prems in auto)
  then show ?case using assms(1) Suc.prems [of p] by (simp add: bw_ok_def)
qed simp

lemma finE_round:
  assumes bw: "bw_ok bw bw'" and pos: "pos < B"
  shows "finE (round_body bw B pos (act r) x) e = chain bw' (round_seg B pos act) (r * B) B e x"
proof -
  let ?s = "round_seg B pos act"
  obtain l where l: "B - pos = Suc l" using pos by (cases "B - pos") auto
  have mod: "(r * B + j) mod B = j" "(r * B + j) div B = r" if "j < B" for j
    using that by simp_all
  have seg: "?s (r * B + j) = (if j = pos then act r else skip)" if "j < B" for j
    unfolding round_seg_def mod [OF that] by (rule refl)
  have bars_bw: "finE (bars bw (Suc l) y) e = bw' (finE (bars bw l y) e)" for y
    using bw by (simp add: bw_ok_def)
  have "finE (bars bw l y) e = chain bw' ?s (Suc (r * B + pos)) l e y" for y
  proof (rule finE_bars [OF bw])
    fix q assume "Suc (r * B + pos) \<le> q" "q < Suc (r * B + pos) + l"
    then have "q = r * B + (q - r * B)" "q - r * B < B" "q - r * B \<noteq> pos" using l by auto
    then show "?s q = skip" using seg by metis
  qed
  then have after: "finE (act r y) (\<lambda>y. finE (bars bw (B - pos) y) e) = chain bw' ?s (r * B + pos) (B - pos) e y"
    for y unfolding l bars_bw using seg [OF pos] by simp
  have "finE (bars bw pos x) (chain bw' ?s (r * B + pos) (B - pos) e) =
      chain bw' ?s (r * B) pos (chain bw' ?s (r * B + pos) (B - pos) e) x"
  proof (rule finE_bars [OF bw])
    fix q assume "r * B \<le> q" "q < r * B + pos"
    then have "q = r * B + (q - r * B)" "q - r * B < B" "q - r * B \<noteq> pos" using pos by auto
    then show "?s q = skip" using seg by metis
  qed
  also have "\<dots> = chain bw' ?s (r * B) B e x"
    using chain_append [of bw' ?s "r * B" pos "B - pos" e] pos by simp
  finally show ?thesis by (simp add: round_body_def finE_seqE after)
qed

lemma finE_rounds:
  assumes "bw_ok bw bw'" "pos < B"
    and "\<And>r x. body (int r) x = round_body bw B pos (act r) x"
  shows "finE (for_range (int r) k body x) e = chain bw' (round_seg B pos act) (r * B) (k * B) e x"
proof (induction k arbitrary: r x)
  case (Suc k)
  have "finE (for_range (int r + 1) k body y) e = chain bw' (round_seg B pos act) (Suc r * B) (k * B) e y" for y
    using Suc.IH [of "Suc r"] by (simp add: algebra_simps)
  then show ?case
    using chain_append [of bw' "round_seg B pos act" "r * B" B "k * B" e]
      finE_round [OF assms(1,2), of act r x "chain bw' (round_seg B pos act) (Suc r * B) (k * B) e"] assms(3)
    by (simp add: finE_seqE add.commute)
qed simp

section \<open>Systems of segmented programs\<close>

locale segmented = barrier n rel good
  for n :: nat and rel :: release and good :: "int \<Rightarrow> bool" +
  fixes sem :: "'w sem" and idle :: "tid \<Rightarrow> call \<Rightarrow> resp option"
    and bw :: "'b prog \<Rightarrow> 'b prog" and sg :: "tid \<Rightarrow> nat \<Rightarrow> ('b, 's) segment" and K :: nat
    and st :: "nat \<Rightarrow> tid \<Rightarrow> 's"
    and writer :: "nat \<Rightarrow> tid option" and wst :: "nat \<Rightarrow> 'w"
    and ending :: "tid \<Rightarrow> 's \<Rightarrow> 'b prog" and res :: "tid \<Rightarrow> 'b" and prog :: "tid \<Rightarrow> 'b prog"
  assumes segments: "0 < K"
    and prog_quiet: "writer 0 = None \<Longrightarrow> i < n \<Longrightarrow> quiet_run sem (prog i) i (wst 0) =
        quiet_run sem (chain bw (sg i) 0 K (ending i) (st 0 i)) i (wst 0)"
    and prog_write: "writer 0 = Some d \<Longrightarrow> to_barrier sem (prog d) d (wst 0) =
        to_barrier sem (chain bw (sg d) 0 K (ending d) (st 0 d)) d (wst 0)"
    and prog_idle: "writer 0 = Some d \<Longrightarrow> i < n \<Longrightarrow> i \<noteq> d \<Longrightarrow> idle_run idle (prog i) i =
        idle_run idle (chain bw (sg i) 0 K (ending i) (st 0 i)) i"
    and sem_idle: "idle i c = Some r \<Longrightarrow> sem i c w = Some (r, w)"
    and bw: "at_bar (bw x)" "good v \<Longrightarrow> resume (bw x) v = x"
    and quiet_seg: "\<And>p i f. p < K \<Longrightarrow> writer p = None \<Longrightarrow> i < n \<Longrightarrow>
        quiet_run sem (finE (sg i p (st p i)) f) i (wst p) = quiet_run sem (f (st (Suc p) i)) i (wst p)"
    and seg_wst: "p < K \<Longrightarrow> writer p = None \<Longrightarrow> wst (Suc p) = wst p"
    and writer: "p < K \<Longrightarrow> writer p = Some d \<Longrightarrow> d < n"
    and write_seg: "\<And>p d f. p < K \<Longrightarrow> writer p = Some d \<Longrightarrow>
        to_barrier sem (finE (sg d p (st p d)) f) d (wst p) = to_barrier sem (f (st (Suc p) d)) d (wst (Suc p))"
    and idle_seg: "\<And>p d i f. p < K \<Longrightarrow> writer p = Some d \<Longrightarrow> i < n \<Longrightarrow> i \<noteq> d \<Longrightarrow>
        idle_run idle (finE (sg i p (st p i)) f) i = idle_run idle (f (st (Suc p) i)) i"
    and ending: "i < n \<Longrightarrow> quiet_run sem (ending i (st K i)) i (wst K) = Some (Ret (res i))"
begin

definition start :: "nat \<Rightarrow> tid \<Rightarrow> 'b prog" where
  "start p i = chain bw (sg i) p (K - p) (ending i) (st p i)"

text \<open>The first phase begins with the programs as they are, of which \<open>start 0\<close> is the segmented reading.\<close>

definition begin_at :: "nat \<Rightarrow> tid \<Rightarrow> 'b prog" where
  "begin_at p = (if p = 0 then prog else start p)"

definition fin :: "nat \<Rightarrow> tid \<Rightarrow> 'b prog" where
  "fin p i = (if p < K then bw (start (Suc p) i) else Ret (res i))"

definition phase_writer :: "nat \<Rightarrow> tid option" where
  "phase_writer p = (if p < K then writer p else None)"

definition phase_wst :: "nat \<Rightarrow> 'w" where "phase_wst p = wst (min p K)"

definition follow :: "nat \<Rightarrow> tid \<Rightarrow> 's \<Rightarrow> 'b prog" where
  "follow p i x = bw (chain bw (sg i) (Suc p) (K - Suc p) (ending i) x)"

lemma start_seg: "p < K \<Longrightarrow> start p i = finE (sg i p (st p i)) (follow p i)"
proof -
  assume "p < K"
  then have "K - p = Suc (K - Suc p)" by simp
  then show ?thesis by (simp add: start_def follow_def [abs_def])
qed

lemma follow_st: "follow p i (st (Suc p) i) = bw (start (Suc p) i)"
  by (simp add: follow_def start_def)

lemma start_end: "start K i = ending i (st K i)"
  by (simp add: start_def)

lemma bw_runs:
  "quiet_run sem (bw p) i w = Some (bw p)" "to_barrier sem (bw p) i w = Some (bw p, w)"
  "idle_run idle (bw p) i = Some (bw p)"
  using bw(1) [of p] by (cases "bw p"; simp)+

lemma start0: "start 0 i = chain bw (sg i) 0 K (ending i) (st 0 i)"
  by (simp add: start_def)

lemma begin_quiet: "phase_writer p = None \<Longrightarrow> i < n \<Longrightarrow>
    quiet_run sem (begin_at p i) i (phase_wst p) = quiet_run sem (start p i) i (phase_wst p)"
  using prog_quiet segments by (auto simp: begin_at_def start0 phase_writer_def phase_wst_def)

lemma begin_write: "phase_writer p = Some d \<Longrightarrow>
    to_barrier sem (begin_at p d) d (phase_wst p) = to_barrier sem (start p d) d (phase_wst p)"
  using prog_write by (auto simp: begin_at_def start0 phase_writer_def phase_wst_def split: if_splits)

lemma begin_idle: "phase_writer p = Some d \<Longrightarrow> i < n \<Longrightarrow> i \<noteq> d \<Longrightarrow>
    idle_run idle (begin_at p i) i = idle_run idle (start p i) i"
  using prog_idle by (auto simp: begin_at_def start0 phase_writer_def split: if_splits)

end

sublocale segmented \<subseteq> spmd n rel good sem idle begin_at fin phase_wst phase_writer K res
proof
  fix i c r w assume "idle i c = Some r"
  then show "sem i c w = Some (r, w)" by (rule sem_idle)
next
  fix p i assume p: "p \<le> K" "phase_writer p = None" "i < n"
  show "quiet_run sem (begin_at p i) i (phase_wst p) = Some (fin p i)"
  proof (cases "p = K")
    case True
    then show ?thesis using ending p(3) segments by (simp add: start_end fin_def phase_wst_def begin_at_def)
  next
    case False
    then show ?thesis using p quiet_seg [of p i] begin_quiet [OF p(2,3)]
      by (simp add: start_seg fin_def phase_wst_def phase_writer_def min_absorb1 follow_st bw_runs)
  qed
next
  fix p assume "p \<le> K" "phase_writer p = None"
  then show "phase_wst (Suc p) = phase_wst p"
    using seg_wst [of p] by (cases "p = K") (simp_all add: phase_wst_def phase_writer_def min_absorb1)
next
  fix p d assume p: "p \<le> K" "phase_writer p = Some d"
  then have *: "p < K" "writer p = Some d" by (simp_all add: phase_writer_def split: if_splits)
  then show "to_barrier sem (begin_at p d) d (phase_wst p) = Some (fin p d, phase_wst (Suc p))"
    using write_seg [OF *] begin_write [OF p(2)]
    by (simp add: start_seg fin_def phase_wst_def min_absorb1 follow_st bw_runs)
  show "d < n" using writer * by blast
  show "idle_run idle (begin_at p i) i = Some (fin p i)" if "i < n" "i \<noteq> d" for i
    using idle_seg [OF * that] * by (simp add: begin_idle [OF p(2) that] start_seg fin_def follow_st bw_runs)
next
  fix p i assume "p < K" "i < n"
  then show "at_bar (fin p i)" using bw(1) by (simp add: fin_def)
next
  fix p i v assume "p < K" "i < n" "good v"
  then show "resume (fin p i) v = begin_at (Suc p) i" using bw(2) by (simp add: fin_def begin_at_def)
next
  fix i assume "i < n"
  show "fin K i = Ret (res i)" by (simp add: fin_def)
qed

context segmented
begin

lemma begin_prog: "begin_at 0 = prog"
  by (simp add: begin_at_def)

lemma segments_end:
  assumes "steps n sem rel (prog, wst 0) c" "\<not> (\<exists>c'. step n sem rel c c')"
  shows "finished n res c" "snd c = wst K"
  using result [unfolded begin_prog] assms by (simp_all add: phase_wst_def)

lemma segments_terminate: "Wellfounded.accp (\<lambda>x y. step n sem rel y x) (prog, wst 0)"
  using terminates [unfolded begin_prog] by (simp add: phase_wst_def)

end

end
