(* ===== verification/Counting.thy ===== *)
theory Counting
  imports Args Segments
begin

text \<open>
  The counting loop of the barrier tests: every task reads the shared count, expects the number
  of the round, meets the others at a barrier, then one of them (the owner of the round) adds
  one, and all meet again. The locale \<open>counting\<close> states what the part between the two barriers
  has to do and derives that every interleaving of the tasks ends with all of them returning.
\<close>

definition bar_wait :: "'a prog \<Rightarrow> 'a prog \<Rightarrow> 'a prog" where
  "bar_wait fail k = chk (Pip Pip_barrier_wait) (\<lambda>r. rv r \<noteq> 0) fail (\<lambda>_. k)"

text \<open>One round, with \<open>mid\<close> for what is between the barriers.\<close>

definition count_iter :: "(int \<Rightarrow> (int + unit) prog) \<Rightarrow> int \<Rightarrow> unit \<Rightarrow> (int + unit) prog" where
  "count_iter mid i u =
     Call (Mem (Load ''count'')) (\<lambda>r.
       chkv (c_bool (rv r \<noteq> i)) (\<lambda>v. v \<noteq> 0) (Ret (Inl EXIT_FAIL))
        (bar_wait (Ret (Inl EXIT_FAIL))
          (seqE (mid i) (\<lambda>_. bar_wait (Ret (Inl EXIT_FAIL)) (Ret (Inr ()))))))"

text \<open>\<open>count++\<close> of the shared variable.\<close>

definition incr :: "('e + unit) prog \<Rightarrow> ('e + unit) prog" where
  "incr k = Call (Mem (Load ''count'')) (\<lambda>r. Call (Mem (Store ''count'' (to_int32 (rv r + 1)))) (\<lambda>_. k))"

text \<open>
  How the calls of the barrier tests act on the shared count, the only state they share besides
  the barrier: \<open>ids i\<close> is the PiP ID that \<open>pip_init\<close> gives to participant \<open>i\<close>, \<open>m\<close> the number of
  tasks, \<open>rnd i\<close> what \<open>rand\<close> answers to it; no variable NTASKS is set, and \<open>pip_wait_any\<close> reports
  tasks that exit with code 0.
\<close>

definition count_sem :: "(tid \<Rightarrow> int) \<Rightarrow> int \<Rightarrow> (tid \<Rightarrow> int) \<Rightarrow> int sem" where
  "count_sem ids m rnd i c w = (case c of
       Mem (Load _) \<Rightarrow> Some (ok\<lparr>rv := w\<rparr>, w)
     | Mem (Store _ v) \<Rightarrow> Some (ok, v)
     | Mem _ \<Rightarrow> None
     | Sys Random \<Rightarrow> Some (ok\<lparr>rv := rnd i\<rparr>, w)
     | Sys _ \<Rightarrow> Some (ok, w)
     | Pip (Pip_init _ _ _ _) \<Rightarrow> Some (ok\<lparr>o1 := Some (ids i), o2 := Some m\<rparr>, w)
     | Pip (Pip_named_import _ _) \<Rightarrow> Some (ok\<lparr>o1 := Some 1\<rparr>, w)
     | Pip (Pip_wait_any _ _) \<Rightarrow> Some (ok\<lparr>o2 := Some (exited 0)\<rparr>, w)
     | Pip _ \<Rightarrow> Some (ok, w))"

definition count_idle :: "(tid \<Rightarrow> int) \<Rightarrow> tid \<Rightarrow> call \<Rightarrow> resp option" where
  "count_idle rnd i c = (case c of
       Sys Random \<Rightarrow> Some (ok\<lparr>rv := rnd i\<rparr>)
     | Sys _ \<Rightarrow> Some ok
     | _ \<Rightarrow> None)"

lemma count_idle: "count_idle rnd i c = Some r \<Longrightarrow> count_sem ids m rnd i c w = Some (r, w)"
  by (auto simp: count_idle_def count_sem_def split: call.splits sys_call.splits)

lemma seqE_bar_wait: "seqE (bar_wait (Ret (Inl e)) k) f = bar_wait (Ret (Inl e)) (seqE k f)"
  by (simp add: bar_wait_def chk_def if_distrib [of "\<lambda>p. seqE p f"] cong: if_cong)

lemma finE_bar_wait: "finE (bar_wait (Ret (Inl e)) k) f = bar_wait (Ret e) (finE k f)"
  by (simp add: bar_wait_def chk_def if_distrib [of "\<lambda>p. finE p f"] cong: if_cong)

lemma seqE_chkv: "seqE (chkv v c (Ret (Inl e)) k) f = chkv v c (Ret (Inl e)) (seqE k f)"
  by (simp add: chkv_def)

lemma finE_chkv: "finE (chkv v c (Ret (Inl e)) k) f = chkv v c (Ret e) (finE k f)"
  by (simp add: chkv_def)

lemmas seq_simps = seqE_assoc finE_seqE seqE_bar_wait finE_bar_wait seqE_chkv finE_chkv

locale counting = barrier n rel good
  for n :: nat and rel :: release and good :: "int \<Rightarrow> bool" +
  fixes sem :: "int sem" and prog :: "tid \<Rightarrow> int prog" and idle :: "tid \<Rightarrow> call \<Rightarrow> resp option"
    and N :: nat and mid :: "tid \<Rightarrow> int \<Rightarrow> (int + unit) prog" and owner :: "nat \<Rightarrow> tid"
    and after_loop :: "tid \<Rightarrow> int prog" and tail :: "tid \<Rightarrow> int prog" and closing :: bool
    and res :: "tid \<Rightarrow> int"
  assumes rounds: "0 < N" and zero: "good v \<Longrightarrow> v = 0"
    and sem_load: "sem i (Mem (Load ''count'')) w = Some (ok\<lparr>rv := w\<rparr>, w)"
    and sem_idle: "idle i c = Some r \<Longrightarrow> sem i c w = Some (r, w)"
    and owner: "k < N \<Longrightarrow> owner k < n"
    and mid_idle: "\<And>k i (f :: int + unit \<Rightarrow> int prog). k < N \<Longrightarrow> i < n \<Longrightarrow> i \<noteq> owner k \<Longrightarrow>
        idle_run idle (bind (mid i (int k)) f) i = idle_run idle (f (Inr ())) i"
    and mid_write: "\<And>k (f :: int + unit \<Rightarrow> int prog). k < N \<Longrightarrow>
        to_barrier sem (bind (mid (owner k) (int k)) f) (owner k) (int k) =
        to_barrier sem (f (Inr ())) (owner k) (int k + 1)"
    and after_loop: "i < n \<Longrightarrow>
        after_loop i = (if closing then bar_wait (Ret EXIT_FAIL) (tail i) else tail i)"
    and prog: "i < n \<Longrightarrow> quiet_run sem (prog i) i 0 =
        quiet_run sem (finE (for_range 0 N (count_iter (mid i)) ()) (\<lambda>_. after_loop i)) i 0"
    and tail: "i < n \<Longrightarrow> quiet_run sem (tail i) i (int N) = Some (Ret (res i))"
begin

definition rest :: "tid \<Rightarrow> nat \<Rightarrow> int prog" where
  "rest i k = finE (for_range (int k) (N - k) (count_iter (mid i)) ()) (\<lambda>_. after_loop i)"

definition second :: "tid \<Rightarrow> nat \<Rightarrow> int prog" where
  "second i k = bar_wait (Ret EXIT_FAIL) (rest i (Suc k))"

definition middle :: "tid \<Rightarrow> nat \<Rightarrow> int prog" where
  "middle i k = finE (mid i (int k)) (\<lambda>_. second i k)"

definition first :: "tid \<Rightarrow> nat \<Rightarrow> int prog" where
  "first i k = bar_wait (Ret EXIT_FAIL) (middle i k)"

lemma rest_end: "rest i N = after_loop i"
  by (simp add: rest_def)

lemma rest_round:
  assumes "k < N"
  shows "rest i k = Call (Mem (Load ''count'')) (\<lambda>r.
       chkv (c_bool (rv r \<noteq> int k)) (\<lambda>v. v \<noteq> 0) (Ret EXIT_FAIL) (first i k))"
proof -
  obtain m where m: "N - k = Suc m" "N - Suc k = m" using assms by (cases "N - k") auto
  have k: "int k + 1 = int (Suc k)" by simp
  show ?thesis
    unfolding rest_def m for_range.simps count_iter_def first_def middle_def second_def k
    by (simp add: seq_simps)
qed

lemma bar_wait_bar: "at_bar (bar_wait a k)" "to_barrier sem (bar_wait a k) i w = Some (bar_wait a k, w)"
    "quiet_run sem (bar_wait a k) i w = Some (bar_wait a k)" "idle_run idle (bar_wait a k) i = Some (bar_wait a k)"
    "good v \<Longrightarrow> resume (bar_wait a k) v = k"
  using zero by (auto simp: bar_wait_def chk_def)

text \<open>The phases: an even one is a round up to its first barrier, an odd one up to its second.\<close>

definition K :: nat where "K = 2 * N + (if closing then 1 else 0)"

definition start :: "nat \<Rightarrow> tid \<Rightarrow> int prog" where
  "start p i = (if p = 0 then prog i else if p \<le> 2 * N then (if even p then rest i (p div 2) else middle i (p div 2)) else tail i)"

definition fin :: "nat \<Rightarrow> tid \<Rightarrow> int prog" where
  "fin p i = (if p < 2 * N then (if even p then first i (p div 2) else second i (p div 2))
     else if p = K then Ret (res i) else after_loop i)"

definition wst :: "nat \<Rightarrow> int" where "wst p = int (min (p div 2) N)"

definition writer :: "nat \<Rightarrow> tid option" where
  "writer p = (if p < 2 * N \<and> odd p then Some (owner (p div 2)) else None)"

lemma phase_cases:
  assumes "p \<le> K"
  obtains (first) k where "p = 2 * k" "k < N" | (second) k where "p = 2 * k + 1" "k < N"
    | (closing) "p = 2 * N" "closing" | (last) "p = K" "start p = (if closing then tail else after_loop)"
proof (cases "p < 2 * N")
  case True
  then show ?thesis using that(1,2) by (cases "even p") (auto elim!: evenE oddE)
next
  case False
  then have "p = 2 * N \<or> p = 2 * N + 1" "p = K \<or> closing"
    using assms by (auto simp: K_def split: if_splits)
  then show ?thesis
    using that(3,4) rounds by (auto simp: K_def start_def rest_end fun_eq_iff split: if_splits)
qed

lemma quiet_first:
  assumes "k < N" "i < n"
  shows "quiet_run sem (start (2 * k) i) i (int k) = Some (first i k)"
proof -
  have "quiet_run sem (rest i k) i (int k) = Some (first i k)"
    using assms(1) by (simp add: rest_round sem_load chkv_def first_def bar_wait_bar)
  moreover have "quiet_run sem (prog i) i 0 = quiet_run sem (rest i 0) i 0"
    using prog [OF assms(2)] by (simp add: rest_def)
  ultimately show ?thesis using assms(1) by (cases "k = 0") (simp_all add: start_def)
qed

lemma quiet_tail: "i < n \<Longrightarrow> \<not> closing \<Longrightarrow> quiet_run sem (after_loop i) i (int N) = Some (Ret (res i))"
  using after_loop tail by simp

lemma idle_middle: "k < N \<Longrightarrow> i < n \<Longrightarrow> i \<noteq> owner k \<Longrightarrow> idle_run idle (middle i k) i = Some (second i k)"
  unfolding middle_def finE_def by (subst mid_idle) (simp_all add: second_def bar_wait_bar)

lemma write_middle: "k < N \<Longrightarrow>
    to_barrier sem (middle (owner k) k) (owner k) (int k) = Some (second (owner k) k, int k + 1)"
  unfolding middle_def finE_def by (subst mid_write) (simp_all add: second_def bar_wait_bar)

end

sublocale counting \<subseteq> spmd n rel good sem idle start fin wst writer K res
proof
  fix i c r w assume "idle i c = Some r"
  then show "sem i c w = Some (r, w)" by (rule sem_idle)
next
  fix p i assume p: "p \<le> K" "writer p = None" and i: "i < n"
  show "quiet_run sem (start p i) i (wst p) = Some (fin p i)"
    using p(1)
  proof (cases rule: phase_cases)
    case (first k)
    then show ?thesis using i by (simp add: fin_def wst_def quiet_first min_def)
  next
    case (second k)
    then show ?thesis using p(2) by (simp add: writer_def)
  next
    case closing
    then show ?thesis
      using i rounds unfolding start_def fin_def wst_def K_def by (simp add: rest_end after_loop bar_wait_bar)
  next
    case last
    then show ?thesis
      using i quiet_tail by (auto simp: fin_def wst_def K_def tail split: if_splits)
  qed
next
  fix p assume p: "p \<le> K" "writer p = None"
  show "wst (Suc p) = wst p"
    using p(1)
  proof (cases rule: phase_cases)
    case (second k)
    then show ?thesis using p(2) by (simp add: writer_def)
  qed (auto simp: wst_def K_def)
next
  fix p d assume p: "p \<le> K" "writer p = Some d"
  then obtain k where k: "p = 2 * k + 1" "k < N" "d = owner k"
    by (auto simp: writer_def elim!: oddE split: if_splits)
  then show "to_barrier sem (start p d) d (wst p) = Some (fin p d, wst (Suc p))"
    by (simp add: start_def fin_def wst_def write_middle min_def)
  show "d < n" using k owner by simp
  show "idle_run idle (start p i) i = Some (fin p i)" if "i < n" "i \<noteq> d" for i
    using k that by (simp add: start_def fin_def idle_middle)
next
  fix p i assume p: "p < K" and i: "i < n"
  then have "p \<le> K" by simp
  then show "at_bar (fin p i)"
    by (cases rule: phase_cases)
      (use p i in \<open>unfold fin_def first_def second_def K_def, simp_all add: after_loop bar_wait_bar\<close>)
next
  fix p i v assume p: "p < K" and i: "i < n" and v: "good v"
  from p have "p \<le> K" by simp
  then show "resume (fin p i) v = start (Suc p) i"
    by (cases rule: phase_cases)
      (use p i v in \<open>unfold fin_def start_def first_def second_def K_def,
        simp_all add: after_loop bar_wait_bar\<close>)
next
  fix i assume "i < n"
  show "fin K i = Ret (res i)" by (simp add: fin_def K_def)
qed

context counting
begin

lemma start_prog: "start 0 = prog"
  by (auto simp: start_def)

text \<open>Whatever the interleaving, the tasks all return their result and the count is \<open>N\<close>.\<close>

lemma threads_end:
  assumes "steps n sem rel (prog, 0) c" "\<not> (\<exists>c'. step n sem rel c c')"
  shows "finished n res c" "snd c = int N"
  using result [unfolded start_prog] assms by (simp_all add: wst_def K_def)

lemma threads_terminate: "Wellfounded.accp (\<lambda>x y. step n sem rel y x) (prog, 0)"
  using terminates [unfolded start_prog] by (simp add: wst_def)

end

end
