(* ===== verification/BarrierTests.thy ===== *)
theory BarrierTests
  imports Counting
begin

text \<open>
  The tests of the PiP barrier, \<open>basics/pip_barrier.c\<close>, \<open>basics/pip_barrier2.c\<close> and
  \<open>blt/pip_barrier.c\<close>: the same program run by the root and by every task, counting a shared
  variable up between two barriers; and \<open>pthread/pthread_barrier.c\<close>. The barrier itself is not
  in the repository: it is the release relation of a system of tasks, of which the locale
  \<open>barrier\<close> is assumed.
\<close>

section \<open>pip\_barrier\<close>

definition BARRIER_NITERS :: int where "BARRIER_NITERS = 1000"

text \<open>The root's collection of its tasks; \<open>extval\<close> is the variable of that name.\<close>

definition barrier_wait_body :: "int \<Rightarrow> int \<Rightarrow> (int + int) prog" where
  "barrier_wait_body i extval =
     chk (Pip (Pip_wait_any False True)) (\<lambda>r. rv r \<noteq> 0) (Ret (Inl EXIT_FAIL)) (\<lambda>r.
       let status = stored (o2 r) 0 in
       if WIFEXITED status then
         let extval = WEXITSTATUS status in
         chkv extval (\<lambda>v. v \<noteq> 0) (Ret (Inl EXIT_FAIL)) (Ret (Inr extval))
       else chkv 1 (\<lambda>v. v \<noteq> 0) (Ret (Inl EXIT_UNRESOLVED)) (Ret (Inr extval)))"

definition check_count :: "int \<Rightarrow> (int + 'a) prog \<Rightarrow> (int + 'a) prog" where
  "check_count niters k =
     Call (Mem (Load ''count'')) (\<lambda>r.
       chkv (c_bool (rv r = niters)) (\<lambda>v. v = 0) (Ret (Inl EXIT_FAIL)) k)"

definition pip_barrier_root :: "pip_h \<Rightarrow> string \<Rightarrow> int \<Rightarrow> int \<Rightarrow> (int + int) prog" where
  "pip_barrier_root h prog ntasks niters =
     chk (Pip (Pip_barrier_init ntasks)) (\<lambda>r. rv r \<noteq> 0) (Ret (Inl EXIT_FAIL)) (\<lambda>_.
     Call (Mem (Store ''count'' 0)) (\<lambda>_.
     seqE (for_range 0 (nat ntasks) (spawn_self h prog EXIT_FAIL) ()) (\<lambda>_.
     seqE (for_range 0 (nat ntasks) barrier_wait_body 0) (\<lambda>extval.
       check_count niters (Ret (Inr extval))))))"

text \<open>A round of a task: it pauses, and then the owner of the round counts.\<close>

definition pip_barrier_mid :: "int \<Rightarrow> int \<Rightarrow> int \<Rightarrow> (int + unit) prog" where
  "pip_barrier_mid ntasks pipid i =
     Call (Sys Random) (\<lambda>r. Call (Sys (Usleep (c_rem (rv r) 10000))) (\<lambda>_.
       if c_rem i ntasks = pipid then incr (Ret (Inr ())) else Ret (Inr ())))"

definition pip_barrier_loop :: "int \<Rightarrow> int \<Rightarrow> int \<Rightarrow> (int + unit) prog" where
  "pip_barrier_loop ntasks pipid niters =
     for_range 0 (nat niters) (count_iter (pip_barrier_mid ntasks pipid)) ()"

definition pip_barrier_task :: "int \<Rightarrow> int \<Rightarrow> int \<Rightarrow> (int + int) prog" where
  "pip_barrier_task ntasks pipid niters =
     Call (Sys (Srand (to_int32 ((pipid + 1) * (pipid + 1))))) (\<lambda>_.
       seqE (pip_barrier_loop ntasks pipid niters) (\<lambda>_.
         bar_wait (Ret (Inl EXIT_FAIL)) (Ret (Inr 0))))"

definition pip_barrier_main :: "pip_h \<Rightarrow> string list \<Rightarrow> int prog" where
  "pip_barrier_main h argv =
     finE (ntasks_guard (NTASKS h) argv) (\<lambda>ntasks.
       let niters = niters_arg argv 2 BARRIER_NITERS in
       chk (Pip (Pip_init True (Some ntasks) True 0)) (\<lambda>r. rv r \<noteq> 0) (Ret EXIT_FAIL) (\<lambda>r.
         let pipid = stored (o1 r) 0; ntasks = stored (o2 r) ntasks in
         finE (if pipid = PIPID_ROOT h then pip_barrier_root h (argv ! 0) ntasks niters
               else pip_barrier_task ntasks pipid niters) (\<lambda>extval.
           chk (Pip Pip_fin) (\<lambda>r. rv r \<noteq> 0) (Ret EXIT_FAIL) (\<lambda>_. Ret extval))))"

section \<open>pip\_barrier2: the root takes part\<close>

definition root_mid :: "int \<Rightarrow> (int + unit) prog" where
  "root_mid i = Call (Sys Random) (\<lambda>r. Call (Sys (Usleep (c_rem (rv r) 10000))) (\<lambda>_. Ret (Inr ())))"

definition pip_barrier2_root :: "pip_h \<Rightarrow> string \<Rightarrow> int \<Rightarrow> int \<Rightarrow> (int + int) prog" where
  "pip_barrier2_root h prog ntasks niters =
     chk (Pip (Pip_barrier_init (ntasks + 1))) (\<lambda>r. rv r \<noteq> 0) (Ret (Inl EXIT_FAIL)) (\<lambda>_.
     Call (Mem (Store ''count'' 0)) (\<lambda>_.
     seqE (for_range 0 (nat ntasks) (spawn_self h prog EXIT_FAIL) ()) (\<lambda>_.
     seqE (for_range 0 (nat niters) (count_iter root_mid) ()) (\<lambda>_.
     seqE (for_range 0 (nat ntasks) barrier_wait_body 0) (\<lambda>extval.
       check_count niters (Ret (Inr extval)))))))"

definition pip_barrier2_mid :: "int \<Rightarrow> int \<Rightarrow> int \<Rightarrow> (int + unit) prog" where
  "pip_barrier2_mid ntasks pipid i =
     (let pause = Call (Sys Random) (\<lambda>r. Call (Sys (Usleep (c_rem (rv r) 10000))) (\<lambda>_. Ret (Inr ()))) in
      if c_rem i ntasks = pipid then incr pause else pause)"

definition pip_barrier2_task :: "int \<Rightarrow> int \<Rightarrow> int \<Rightarrow> (int + int) prog" where
  "pip_barrier2_task ntasks pipid niters =
     seqE (for_range 0 (nat niters) (count_iter (pip_barrier2_mid ntasks pipid)) ()) (\<lambda>_. Ret (Inr 0))"

text \<open>\<open>pipid0\<close> is what the variable \<open>pipid\<close> holds before \<open>pip_init\<close> sets it: \<open>srand\<close> reads it.\<close>

definition pip_barrier2_main :: "pip_h \<Rightarrow> int \<Rightarrow> string list \<Rightarrow> int prog" where
  "pip_barrier2_main h pipid0 argv =
     finE (ntasks_guard (NTASKS h) argv) (\<lambda>ntasks.
       let niters = niters_arg argv 2 BARRIER_NITERS in
       Call (Sys (Srand (to_int32 ((pipid0 + 1) * (pipid0 + 1))))) (\<lambda>_.
       chk (Pip (Pip_init True (Some ntasks) True 0)) (\<lambda>r. rv r \<noteq> 0) (Ret EXIT_FAIL) (\<lambda>r.
         let pipid = stored (o1 r) 0; ntasks = stored (o2 r) ntasks in
         finE (if pipid = PIPID_ROOT h then pip_barrier2_root h (argv ! 0) ntasks niters
               else pip_barrier2_task ntasks pipid niters) (\<lambda>extval.
           chk (Pip Pip_fin) (\<lambda>r. rv r \<noteq> 0) (Ret EXIT_FAIL) (\<lambda>_. Ret extval)))))"

section \<open>blt/pip\_barrier: task 0 exports the barrier and the count\<close>

text \<open>Publishing the two objects, and finding them; a pointer that stays NULL is 0.\<close>

definition blt_barrier_export :: "int \<Rightarrow> (int + unit) prog" where
  "blt_barrier_export ntasks =
     chk (Pip (Pip_barrier_init ntasks)) (\<lambda>r. rv r \<noteq> 0) (Ret (Inl EXIT_FAIL)) (\<lambda>_.
     chk (Pip (Pip_named_export ''BARRIER'')) (\<lambda>r. rv r \<noteq> 0) (Ret (Inl EXIT_FAIL)) (\<lambda>_.
     Call (Mem (Store ''count'' 0)) (\<lambda>_.
     chk (Pip (Pip_named_export ''COUNT'')) (\<lambda>r. rv r \<noteq> 0) (Ret (Inl EXIT_FAIL)) (\<lambda>_.
       Ret (Inr ())))))"

definition blt_barrier_import :: "(int + unit) prog" where
  "blt_barrier_import =
     chk (Pip (Pip_named_import 0 ''BARRIER'')) (\<lambda>r. rv r \<noteq> 0) (Ret (Inl EXIT_FAIL)) (\<lambda>r.
     chkv (c_bool (stored (o1 r) 0 = 0)) (\<lambda>v. v \<noteq> 0) (Ret (Inl EXIT_FAIL))
     (chk (Pip (Pip_named_import 0 ''COUNT'')) (\<lambda>r. rv r \<noteq> 0) (Ret (Inl EXIT_FAIL)) (\<lambda>r.
      chkv (c_bool (stored (o1 r) 0 = 0)) (\<lambda>v. v \<noteq> 0) (Ret (Inl EXIT_FAIL))
       (Ret (Inr ())))))"

definition blt_barrier_mid :: "int \<Rightarrow> int \<Rightarrow> int \<Rightarrow> (int + unit) prog" where
  "blt_barrier_mid ntasks pipid i =
     (if c_rem i ntasks = pipid then incr (Ret (Inr ())) else Ret (Inr ()))"

definition blt_barrier_loop :: "int \<Rightarrow> int \<Rightarrow> int \<Rightarrow> (int + unit) prog" where
  "blt_barrier_loop ntasks pipid niters =
     for_range 0 (nat niters) (count_iter (blt_barrier_mid ntasks pipid)) ()"

text \<open>\<open>ntasks0\<close> is what the uninitialised \<open>ntasks\<close> holds before \<open>pip_init\<close> sets it.\<close>

definition blt_barrier_main :: "int \<Rightarrow> string list \<Rightarrow> int prog" where
  "blt_barrier_main ntasks0 argv =
     (let niters = niters_arg argv 1 BARRIER_NITERS in
      chk (Pip (Pip_init True (Some ntasks0) False 0)) (\<lambda>r. rv r \<noteq> 0) (Ret EXIT_FAIL) (\<lambda>r.
        let pipid = stored (o1 r) 0; ntasks = stored (o2 r) ntasks0 in
        finE (if pipid = 0 then blt_barrier_export ntasks else blt_barrier_import) (\<lambda>_.
        finE (blt_barrier_loop ntasks pipid niters) (\<lambda>_.
        finE (if pipid = 0 then check_count niters (Ret (Inr ())) else Ret (Inr ())) (\<lambda>_.
          chk (Pip Pip_fin) (\<lambda>r. rv r \<noteq> 0) (Ret EXIT_FAIL) (\<lambda>_. Ret EXIT_PASS))))))"

section \<open>Every interleaving of the tasks\<close>

lemma c_rem_owner: "0 < m \<Longrightarrow> i < m \<Longrightarrow> c_rem (int k) (int m) = int i \<longleftrightarrow> i = k mod m"
  by (auto simp: c_rem_nonneg simp flip: of_nat_mod)

lemma to_int32_count: "k < N \<Longrightarrow> int N < 2 ^ 31 \<Longrightarrow> to_int32 (int k + 1) = int k + 1"
  by (rule to_int32_id) simp_all

lemma sem_simps [env_simps]:
  "count_sem ids m rnd i (Mem (Load v)) w = Some (ok\<lparr>rv := w\<rparr>, w)"
  "count_sem ids m rnd i (Mem (Store v x)) w = Some (ok, x)"
  "count_sem ids m rnd i (Sys Random) w = Some (ok\<lparr>rv := rnd i\<rparr>, w)"
  "count_sem ids m rnd i (Sys (Usleep x)) w = Some (ok, w)"
  "count_sem ids m rnd i (Sys (Srand x)) w = Some (ok, w)"
  "count_sem ids m rnd i (Sys (Getenv s)) w = Some (ok, w)"
  "count_sem ids m rnd i (Pip (Pip_init a b c d)) w = Some (ok\<lparr>o1 := Some (ids i), o2 := Some m\<rparr>, w)"
  "count_sem ids m rnd i (Pip (Pip_named_import p s)) w = Some (ok\<lparr>o1 := Some 1\<rparr>, w)"
  "count_sem ids m rnd i (Pip (Pip_named_export s)) w = Some (ok, w)"
  "count_sem ids m rnd i (Pip (Pip_barrier_init x)) w = Some (ok, w)"
  "count_sem ids m rnd i (Pip (Pip_spawn a1 a2 a3 a4)) w = Some (ok, w)"
  "count_sem ids m rnd i (Pip (Pip_wait_any b1 b2)) w = Some (ok\<lparr>o2 := Some (exited 0)\<rparr>, w)"
  "count_sem ids m rnd i (Pip Pip_fin) w = Some (ok, w)"
  "count_idle rnd i (Sys Random) = Some (ok\<lparr>rv := rnd i\<rparr>)"
  "count_idle rnd i (Sys (Usleep x)) = Some ok"
  by (simp_all add: count_sem_def count_idle_def)

definition leave :: "int \<Rightarrow> int prog" where
  "leave v = chk (Pip Pip_fin) (\<lambda>r. rv r \<noteq> 0) (Ret EXIT_FAIL) (\<lambda>_. Ret v)"

lemma leave_quiet: "quiet_run (count_sem ids m rnd) (leave v) i w = Some (Ret v)"
  by (simp add: leave_def chk_def env_simps)

text \<open>What the opening of the programs makes of their arguments.\<close>

definition rounds_of :: "string list \<Rightarrow> nat \<Rightarrow> nat" where
  "rounds_of argv k = nat (niters_arg argv k BARRIER_NITERS)"

lemma rounds_of: "0 < rounds_of argv k" "int (rounds_of argv k) = niters_arg argv k BARRIER_NITERS"
    "int (rounds_of argv k) < 2 ^ 31"
proof -
  have "0 < niters_arg argv k BARRIER_NITERS" by (rule niters_arg_pos) (simp add: BARRIER_NITERS_def)
  moreover have "niters_arg argv k BARRIER_NITERS < 2 ^ 31"
    using to_int32_range by (auto simp: niters_arg_def arg_int_def atoi32_def BARRIER_NITERS_def Let_def)
  ultimately show "0 < rounds_of argv k" "int (rounds_of argv k) = niters_arg argv k BARRIER_NITERS"
    "int (rounds_of argv k) < 2 ^ 31" by (simp_all add: rounds_of_def)
qed

text \<open>The arguments ask for no more tasks than the constant, and the root's PiP ID is no task's.\<close>

definition fits :: "pip_h \<Rightarrow> string list \<Rightarrow> bool" where
  "fits h argv \<longleftrightarrow> arg_int argv 1 0 \<le> NTASKS h \<and> PIPID_ROOT h < 0"

definition ntasks_of :: "pip_h \<Rightarrow> string list \<Rightarrow> int" where
  "ntasks_of h argv = (if arg_int argv 1 0 \<le> 0 then NTASKS h else arg_int argv 1 0)"

lemma guard_quiet:
  assumes "fits h argv"
  shows "quiet_run (count_sem ids m rnd) (finE (ntasks_guard (NTASKS h) argv) f) i w =
    quiet_run (count_sem ids m rnd) (f (ntasks_of h argv)) i w"
  using assms by (auto simp: ntasks_guard_def Let_def env_simps fits_def ntasks_of_def)

lemma pip_barrier_counting:
  assumes bar: "barrier m rel (\<lambda>v. v = 0)" and args: "fits h argv"
  shows "counting m rel (\<lambda>v. v = 0) (count_sem int (int m) rnd) (\<lambda>_. pip_barrier_main h argv)
    (count_idle rnd) (rounds_of argv 2) (\<lambda>i. pip_barrier_mid (int m) (int i)) (\<lambda>k. k mod m)
    (\<lambda>_. bar_wait (Ret EXIT_FAIL) (leave 0)) (\<lambda>_. leave 0) True (\<lambda>_. 0)"
proof (rule counting.intro [OF bar], unfold_locales)
  have m: "0 < m" using bar by (rule barrier.participants)
  note N = rounds_of [of argv 2]
  show "0 < rounds_of argv 2" by (rule N(1))
  show "count_sem int (int m) rnd i c w = Some (r, w)" if "count_idle rnd i c = Some r" for i c r w
    using that by (rule count_idle)
  show "k mod m < m" for k using m by simp
  show "idle_run (count_idle rnd) (bind (pip_barrier_mid (int m) (int i) (int k)) f) i =
      idle_run (count_idle rnd) (f (Inr ())) i" if "k < rounds_of argv 2" "i < m" "i \<noteq> k mod m"
    for k i and f :: "int + unit \<Rightarrow> int prog"
    using that m by (simp add: pip_barrier_mid_def env_simps c_rem_owner)
  show "to_barrier (count_sem int (int m) rnd) (bind (pip_barrier_mid (int m) (int (k mod m)) (int k)) f)
        (k mod m) (int k) =
      to_barrier (count_sem int (int m) rnd) (f (Inr ())) (k mod m) (int k + 1)"
    if "k < rounds_of argv 2" for k and f :: "int + unit \<Rightarrow> int prog"
    using that m N(3) c_rem_owner [of m "k mod m" k]
    by (simp add: pip_barrier_mid_def env_simps incr_def to_int32_count)
  show "quiet_run (count_sem int (int m) rnd) (pip_barrier_main h argv) i 0 =
      quiet_run (count_sem int (int m) rnd) (finE (for_range 0 (rounds_of argv 2)
        (count_iter (pip_barrier_mid (int m) (int i))) ()) (\<lambda>_. bar_wait (Ret EXIT_FAIL) (leave 0))) i 0"
    if "i < m" for i
  proof -
    have "int i \<noteq> PIPID_ROOT h" using args by (simp add: fits_def)
    then show ?thesis
      by (simp add: pip_barrier_main_def guard_quiet [OF args] chk_def env_simps pip_barrier_task_def
          pip_barrier_loop_def seq_simps rounds_of_def leave_def Let_def)
  qed
qed (simp_all add: env_simps leave_quiet)

lemma quiet_for:
  assumes "\<And>j (f :: 's \<Rightarrow> int prog). quiet_run sem (finE (body j s) f) i w = quiet_run sem (f s) i w"
  shows "quiet_run sem (finE (for_range j k body s) (f :: 's \<Rightarrow> int prog)) i w = quiet_run sem (f s) i w"
  by (induction k arbitrary: j) (simp_all add: finE_seqE assms)

lemma quiet_spawns: "quiet_run (count_sem ids m rnd)
    (finE (for_range j k (spawn_self h prog x) ()) (f :: unit \<Rightarrow> int prog)) i w =
    quiet_run (count_sem ids m rnd) (f ()) i w"
  by (rule quiet_for) (simp add: spawn_self_def chk_def env_simps)

lemma quiet_waits: "quiet_run (count_sem ids m rnd)
    (finE (for_range j k barrier_wait_body 0) (f :: int \<Rightarrow> int prog)) i w =
    quiet_run (count_sem ids m rnd) (f 0) i w"
  by (rule quiet_for) (simp add: barrier_wait_body_def chk_def chkv_def env_simps Let_def)

definition root_end :: "int \<Rightarrow> int \<Rightarrow> int prog" where
  "root_end ntasks niters =
     finE (for_range 0 (nat ntasks) barrier_wait_body 0) (\<lambda>extval.
       finE (check_count niters (Ret (Inr extval))) leave)"

lemma root_end_quiet:
  "quiet_run (count_sem ids m rnd) (root_end ntasks niters) i niters = Some (Ret 0)"
  by (simp add: root_end_def quiet_waits check_count_def env_simps chkv_def leave_quiet)

lemma pip_barrier2_counting:
  assumes bar: "barrier (Suc m) rel (\<lambda>v. v = 0)" and args: "fits h argv" and m: "0 < m"
  shows "counting (Suc m) rel (\<lambda>v. v = 0)
    (count_sem (\<lambda>i. if i = m then PIPID_ROOT h else int i) (int m) rnd) (\<lambda>_. pip_barrier2_main h pipid0 argv)
    (count_idle rnd) (rounds_of argv 2) (\<lambda>i. if i = m then root_mid else pip_barrier2_mid (int m) (int i))
    (\<lambda>k. k mod m) (\<lambda>i. if i = m then root_end (int m) (int (rounds_of argv 2)) else leave 0)
    (\<lambda>i. if i = m then root_end (int m) (int (rounds_of argv 2)) else leave 0) False (\<lambda>_. 0)"
    (is "counting _ _ _ ?sem _ ?idle ?N ?mid _ ?after _ _ _")
proof (rule counting.intro [OF bar], unfold_locales)
  note N = rounds_of [of argv 2]
  show "0 < ?N" by (rule N(1))
  show "?sem i c w = Some (r, w)" if "?idle i c = Some r" for i c r w
    using that by (rule count_idle)
  show "k mod m < Suc m" for k using m by (simp add: less_SucI)
  show "idle_run ?idle (bind (?mid i (int k)) f) i = idle_run ?idle (f (Inr ())) i"
    if "k < ?N" "i < Suc m" "i \<noteq> k mod m" for k i and f :: "int + unit \<Rightarrow> int prog"
    using that m by (auto simp: pip_barrier2_mid_def root_mid_def env_simps c_rem_owner Let_def)
  show "to_barrier ?sem (bind (?mid (k mod m) (int k)) f) (k mod m) (int k) =
      to_barrier ?sem (f (Inr ())) (k mod m) (int k + 1)"
    if "k < ?N" for k and f :: "int + unit \<Rightarrow> int prog"
  proof -
    have "k mod m \<noteq> m" using mod_less_divisor [OF m, of k] by linarith
    then show ?thesis
      using that m N(3) c_rem_owner [of m "k mod m" k]
      by (simp add: pip_barrier2_mid_def env_simps incr_def to_int32_count Let_def)
  qed
  show "quiet_run ?sem (pip_barrier2_main h pipid0 argv) i 0 =
      quiet_run ?sem (finE (for_range 0 ?N (count_iter (?mid i)) ()) (\<lambda>_. ?after i)) i 0"
    if "i < Suc m" for i
  proof (cases "i = m")
    case True
    then show ?thesis
      using N(1) by (simp add: pip_barrier2_main_def guard_quiet [OF args] chk_def env_simps pip_barrier2_root_def
          seq_simps quiet_spawns root_end_def leave_def [abs_def] rounds_of_def Let_def)
  next
    case False
    have "int i \<noteq> PIPID_ROOT h" using args by (simp add: fits_def)
    then show ?thesis using False
      by (simp add: pip_barrier2_main_def guard_quiet [OF args] chk_def env_simps pip_barrier2_task_def
          seq_simps rounds_of_def leave_def Let_def)
  qed
qed (simp_all add: env_simps leave_quiet root_end_quiet)

lemma blt_barrier_counting:
  assumes bar: "barrier m rel (\<lambda>v. v = 0)"
  shows "counting m rel (\<lambda>v. v = 0) (count_sem int (int m) rnd) (\<lambda>_. blt_barrier_main ntasks0 argv)
    (count_idle rnd) (rounds_of argv 1) (\<lambda>i. blt_barrier_mid (int m) (int i)) (\<lambda>k. k mod m)
    (\<lambda>i. finE (if i = 0 then check_count (int (rounds_of argv 1)) (Ret (Inr ())) else Ret (Inr ())) (\<lambda>_. leave 0))
    (\<lambda>i. finE (if i = 0 then check_count (int (rounds_of argv 1)) (Ret (Inr ())) else Ret (Inr ())) (\<lambda>_. leave 0))
    False (\<lambda>_. 0)"
    (is "counting _ _ _ ?sem _ ?idle ?N ?mid _ ?after _ _ _")
proof (rule counting.intro [OF bar], unfold_locales)
  have m: "0 < m" using bar by (rule barrier.participants)
  note N = rounds_of [of argv 1]
  show "0 < ?N" by (rule N(1))
  show "?sem i c w = Some (r, w)" if "?idle i c = Some r" for i c r w
    using that by (rule count_idle)
  show "k mod m < m" for k using m by simp
  show "idle_run ?idle (bind (?mid i (int k)) f) i = idle_run ?idle (f (Inr ())) i"
    if "k < ?N" "i < m" "i \<noteq> k mod m" for k i and f :: "int + unit \<Rightarrow> int prog"
    using that m by (simp add: blt_barrier_mid_def env_simps c_rem_owner)
  show "to_barrier ?sem (bind (?mid (k mod m) (int k)) f) (k mod m) (int k) =
      to_barrier ?sem (f (Inr ())) (k mod m) (int k + 1)"
    if "k < ?N" for k and f :: "int + unit \<Rightarrow> int prog"
    using that m N(3) c_rem_owner [of m "k mod m" k]
    by (simp add: blt_barrier_mid_def env_simps incr_def to_int32_count)
  show "quiet_run ?sem (blt_barrier_main ntasks0 argv) i 0 =
      quiet_run ?sem (finE (for_range 0 ?N (count_iter (?mid i)) ()) (\<lambda>_. ?after i)) i 0"
    if "i < m" for i
    using N(1) by (simp add: blt_barrier_main_def blt_barrier_export_def blt_barrier_import_def blt_barrier_loop_def
        chk_def chkv_def env_simps seq_simps rounds_of_def leave_def EXIT_PASS_def Let_def)
qed (simp_all add: env_simps leave_quiet check_count_def chkv_def)

section \<open>The tests pass, and end\<close>

text \<open>An instance of the barrier: it releases the tasks when all wait, and returns 0.\<close>

definition all_release :: "nat \<Rightarrow> release" where
  "all_release n A rvs \<longleftrightarrow> A = {..<n} \<and> (\<forall>i<n. rvs i = 0)"

lemma all_release_barrier: "0 < n \<Longrightarrow> barrier n (all_release n) (\<lambda>v. v = 0)"
  by unfold_locales (auto simp: all_release_def)

lemma fits_sample: "fits h_sample [p, q, r] \<longleftrightarrow> atoi32 q \<le> 300" "fits h_sample []"
  by (simp_all add: fits_def arg_int_def h_sample_def NTASKS_def)

interpretation blt_count: counting "Suc m" "all_release (Suc m)" "\<lambda>v. v = 0" "count_sem int (int (Suc m)) rnd"
    "\<lambda>_. blt_barrier_main ntasks0 argv" "count_idle rnd" "rounds_of argv 1"
    "\<lambda>i. blt_barrier_mid (int (Suc m)) (int i)" "\<lambda>k. k mod Suc m"
    "\<lambda>i. finE (if i = 0 then check_count (int (rounds_of argv 1)) (Ret (Inr ())) else Ret (Inr ())) (\<lambda>_. leave 0)"
    "\<lambda>i. finE (if i = 0 then check_count (int (rounds_of argv 1)) (Ret (Inr ())) else Ret (Inr ())) (\<lambda>_. leave 0)"
    False "\<lambda>_. 0" for m rnd ntasks0 argv
  by (rule blt_barrier_counting [OF all_release_barrier]) simp

text \<open>C10: with any barrier that releases all of its participants together and returns 0 to them,
every interleaving of the \<open>ntasks\<close> tasks of \<open>pip\_barrier\<close> that cannot go on has all tasks
returned 0 and the shared count at \<open>niters\<close>: no task ever sees a count that is not the number
of its round, and no interleaving gets stuck half-way.\<close>

theorem pip_barrier_correct:
  assumes "barrier m rel (\<lambda>v. v = 0)" "fits h argv"
    and "steps m (count_sem int (int m) rnd) rel (\<lambda>_. pip_barrier_main h argv, 0) c"
    and "\<not> (\<exists>c'. step m (count_sem int (int m) rnd) rel c c')"
  shows "finished m (\<lambda>_. 0) c \<and> snd c = niters_arg argv 2 BARRIER_NITERS"
  using counting.threads_end [OF pip_barrier_counting [OF assms(1,2)] assms(3,4)] rounds_of(2) by simp

text \<open>The same for \<open>pip\_barrier2\<close>, where the root takes part in the barrier as one participant
more and checks the count at the end: the root returns 0 as well.\<close>

theorem pip_barrier2_correct:
  assumes "barrier (Suc m) rel (\<lambda>v. v = 0)" "fits h argv" "0 < m"
    and "steps (Suc m) (count_sem (\<lambda>i. if i = m then PIPID_ROOT h else int i) (int m) rnd) rel
      (\<lambda>_. pip_barrier2_main h pipid0 argv, 0) c"
    and "\<not> (\<exists>c'. step (Suc m) (count_sem (\<lambda>i. if i = m then PIPID_ROOT h else int i) (int m) rnd) rel c c')"
  shows "finished (Suc m) (\<lambda>_. 0) c \<and> snd c = niters_arg argv 2 BARRIER_NITERS"
  using counting.threads_end [OF pip_barrier2_counting [OF assms(1-3)] assms(4,5)] rounds_of(2) by simp

text \<open>The same for \<open>blt/pip\_barrier\<close>, where task 0 sets the barrier and the count up and
exports them: every task returns EXIT\_PASS.\<close>

theorem blt_barrier_correct:
  assumes "barrier m rel (\<lambda>v. v = 0)"
    and "steps m (count_sem int (int m) rnd) rel (\<lambda>_. blt_barrier_main ntasks0 argv, 0) c"
    and "\<not> (\<exists>c'. step m (count_sem int (int m) rnd) rel c c')"
  shows "finished m (\<lambda>_. EXIT_PASS) c \<and> snd c = niters_arg argv 1 BARRIER_NITERS"
  using counting.threads_end [OF blt_barrier_counting [OF assms(1)] assms(2,3)] rounds_of(2)
  by (simp add: EXIT_PASS_def)

lemma ends_somewhere:
  "Wellfounded.accp (\<lambda>x y. step n sem rel y x) c \<Longrightarrow> \<exists>c'. steps n sem rel c c' \<and> \<not> (\<exists>c''. step n sem rel c' c'')"
proof (induction rule: accp_induct_rule)
  case (1 c)
  show ?case
  proof (cases "\<exists>c'. step n sem rel c c'")
    case True
    then obtain c' where s: "step n sem rel c c'" by blast
    then obtain c'' where "steps n sem rel c' c''" "\<not> (\<exists>d. step n sem rel c'' d)" using 1(2) by blast
    then show ?thesis using s by (meson converse_rtranclp_into_rtranclp)
  qed blast
qed

definition argv_sample :: "string list" where "argv_sample = [''prog'', ''3'', ''7'']"

lemma argv_sample: "fits h_sample argv_sample" "niters_arg argv_sample 2 BARRIER_NITERS = 7"
    "niters_arg argv_sample (Suc 0) BARRIER_NITERS = 3"
proof -
  have "atoi32 ''3'' = 3" "atoi32 ''7'' = 7" by (simp_all add: strtol_eval)
  then show "fits h_sample argv_sample" "niters_arg argv_sample 2 BARRIER_NITERS = 7"
    "niters_arg argv_sample (Suc 0) BARRIER_NITERS = 3"
    by (simp_all add: argv_sample_def fits_sample niters_arg_def arg_int_def Let_def)
qed

lemma bar3: "barrier 3 (all_release 3) (\<lambda>v. v = 0)"
  by (rule all_release_barrier) simp

lemma bar4: "barrier (Suc 3) (all_release (Suc 3)) (\<lambda>v. v = 0)"
  by (rule all_release_barrier) simp

lemma pip_barrier_correct_witness:
  "\<exists>c. steps 3 (count_sem int (int 3) (\<lambda>_. 5)) (all_release 3) (\<lambda>_. pip_barrier_main h_sample argv_sample, 0) c \<and>
     finished 3 (\<lambda>_. 0) c \<and> snd c = 7"
proof -
  from ends_somewhere [OF counting.threads_terminate [OF pip_barrier_counting [OF bar3 argv_sample(1), of "\<lambda>_. 5"]]]
  obtain c where c: "steps 3 (count_sem int (int 3) (\<lambda>_. 5)) (all_release 3) (\<lambda>_. pip_barrier_main h_sample argv_sample, 0) c"
    "\<not> (\<exists>c'. step 3 (count_sem int (int 3) (\<lambda>_. 5)) (all_release 3) c c')" by blast
  from pip_barrier_correct [OF bar3 argv_sample(1) c] c(1) show ?thesis by (intro exI [of _ c]) (simp add: argv_sample)
qed

lemma pip_barrier2_correct_witness:
  "\<exists>c. steps (Suc 3) (count_sem (\<lambda>i. if i = 3 then PIPID_ROOT h_sample else int i) (int 3) (\<lambda>_. 5)) (all_release (Suc 3))
       (\<lambda>_. pip_barrier2_main h_sample 0 argv_sample, 0) c \<and>
     finished (Suc 3) (\<lambda>_. 0) c \<and> snd c = 7"
proof -
  have p: "0 < (3::nat)" by simp
  from ends_somewhere [OF counting.threads_terminate [OF pip_barrier2_counting [OF bar4 argv_sample(1) p, of "\<lambda>_. 5" 0]]]
  obtain c where c: "steps (Suc 3) (count_sem (\<lambda>i. if i = 3 then PIPID_ROOT h_sample else int i) (int 3) (\<lambda>_. 5)) (all_release (Suc 3))
       (\<lambda>_. pip_barrier2_main h_sample 0 argv_sample, 0) c"
    "\<not> (\<exists>c'. step (Suc 3) (count_sem (\<lambda>i. if i = 3 then PIPID_ROOT h_sample else int i) (int 3) (\<lambda>_. 5)) (all_release (Suc 3)) c c')"
    by blast
  from pip_barrier2_correct [OF bar4 argv_sample(1) p c] c(1) show ?thesis by (intro exI [of _ c]) (simp add: argv_sample)
qed

lemma blt_barrier_correct_witness:
  "\<exists>c. steps 3 (count_sem int (int 3) (\<lambda>_. 5)) (all_release 3) (\<lambda>_. blt_barrier_main 0 argv_sample, 0) c \<and>
     finished 3 (\<lambda>_. EXIT_PASS) c \<and> snd c = 3"
proof -
  from ends_somewhere [OF counting.threads_terminate [OF blt_barrier_counting [OF bar3, of "\<lambda>_. 5" 0 argv_sample]]]
  obtain c where c: "steps 3 (count_sem int (int 3) (\<lambda>_. 5)) (all_release 3) (\<lambda>_. blt_barrier_main 0 argv_sample, 0) c"
    "\<not> (\<exists>c'. step 3 (count_sem int (int 3) (\<lambda>_. 5)) (all_release 3) c c')" by blast
  from blt_barrier_correct [OF bar3 c] c(1) show ?thesis by (intro exI [of _ c]) (simp add: argv_sample)
qed

end
