(* ===== verification/Seek.thy ===== *)
theory Seek
  imports BarrierTests
begin

text \<open>
  \<open>basics/seek.c\<close> (compiled with USE\_BARRIER): the root opens a file, the standard input or the
  standard output, and its tasks take turns, ordered by barriers alone, to write and to read
  lines of eight characters through the one descriptor they share.
\<close>

section \<open>my\_read and my\_write\<close>

text \<open>The state: the bytes got so far and \<open>l\<close>; the result: the returned value and the bytes.\<close>

definition my_read_body :: "int \<Rightarrow> int \<Rightarrow> string \<times> int \<Rightarrow> (string \<times> int + int \<times> string) prog" where
  "my_read_body fd len = (\<lambda>(p, l).
     if l > 0 then Call (Sys (Read fd l)) (\<lambda>r. let cc = to_int32 (rv r) in
       if cc \<le> 0 then Ret (Inr (if l = len then (cc, p) else (len - l, p)))
       else Ret (Inl (p @ take (nat cc) (data r), l - cc)))
     else Ret (Inr (len - l, p)))"

definition my_read :: "int \<Rightarrow> int \<Rightarrow> (int \<times> string) prog" where
  "my_read fd len = bind (loop (Suc (nat len)) (my_read_body fd len) ([], len))
     (\<lambda>x. case x of None \<Rightarrow> Halt (Fault 0) | Some y \<Rightarrow> Ret y)"

text \<open>The state: \<open>p - buff\<close> and \<open>l\<close>.\<close>

definition my_write_body :: "int \<Rightarrow> string \<Rightarrow> int \<Rightarrow> int \<times> int \<Rightarrow> (int \<times> int + int) prog" where
  "my_write_body fd buff len = (\<lambda>(p, l).
     if l > 0 then Call (Sys (Write fd (take (nat l) (drop (nat p) buff)))) (\<lambda>r. let cc = to_int32 (rv r) in
       if cc \<le> 0 then Ret (Inr (if l = len then cc else p))
       else Ret (Inl (p + cc, l - cc)))
     else Ret (Inr p))"

definition my_write :: "int \<Rightarrow> string \<Rightarrow> int \<Rightarrow> int prog" where
  "my_write fd buff len = bind (loop (Suc (nat len)) (my_write_body fd buff len) (0, len))
     (\<lambda>x. case x of None \<Rightarrow> Halt (Fault 0) | Some y \<Rightarrow> Ret y)"

section \<open>Turns\<close>

definition ROOT_name :: string where "ROOT_name = ''ROOT''"
definition SEEK_NITERS :: int where "SEEK_NITERS = 10"

text \<open>The line of a task and of the root, and the 128 bytes of \<open>check\<close>, zero at first.\<close>

definition task_line :: "int \<Rightarrow> string" where "task_line pipid = pad_left 8 (show_int pipid)"
definition root_line :: string where "root_line = pad_left 8 ROOT_name"

definition check0 :: string where "check0 = replicate 128 NUL"

definition overwrite :: "string \<Rightarrow> string \<Rightarrow> string" where
  "overwrite check bytes = bytes @ drop (length bytes) check"

definition c_str :: "string \<Rightarrow> string" where "c_str = takeWhile (\<lambda>c. c \<noteq> NUL)"

definition read_turn :: "(int \<Rightarrow> bool) \<Rightarrow> int \<Rightarrow> string \<Rightarrow> (int, string) segment" where
  "read_turn bad fd buff check =
     bind (my_read fd (int (length buff))) (\<lambda>(v, bytes).
       chkv v bad (Ret (Inl EXIT_FAIL))
        (let check = overwrite check bytes in
         chkv (c_bool (buff \<noteq> c_str check)) (\<lambda>v. v \<noteq> 0) (Ret (Inl EXIT_FAIL)) (Ret (Inr check))))"

definition write_turn :: "(int \<Rightarrow> bool) \<Rightarrow> int \<Rightarrow> string \<Rightarrow> (int, string) segment" where
  "write_turn bad fd buff check =
     bind (my_write fd buff (int (length buff))) (\<lambda>v.
       chkv v bad (Ret (Inl EXIT_FAIL)) (Ret (Inr check)))"

definition sync_turn :: "(int \<Rightarrow> bool) \<Rightarrow> int \<Rightarrow> int \<Rightarrow> string \<Rightarrow> (int, string) segment" where
  "sync_turn bad fail fd buff check =
     seqE (write_turn bad fd buff check) (\<lambda>check.
       chk (Sys (Fsync fd)) (\<lambda>r. rv r \<noteq> 0) (Ret (Inl fail)) (\<lambda>_. Ret (Inr check)))"

definition bwait :: "'a prog \<Rightarrow> 'a prog" where
  "bwait k = Call (Mem Barrier_wait) (\<lambda>_. k)"

definition turns :: "int \<Rightarrow> int \<Rightarrow> int \<Rightarrow> (int, string) segment \<Rightarrow> (int, string) segment" where
  "turns ntasks niters before act check =
     for_range 0 (nat niters) (\<lambda>_. round_body bwait (nat (ntasks + 1)) (nat before) act) check"

section \<open>The program\<close>

datatype seek_mode = Stdin | Stdout | File string

definition seek_mode :: "string \<Rightarrow> seek_mode" where
  "seek_mode s = (if s = ''stdin'' then Stdin else if s = ''stdout'' then Stdout else File s)"

text \<open>The root; its result is the descriptor and \<open>extval\<close>.\<close>

definition seek_root_stdin :: "pip_h \<Rightarrow> string \<Rightarrow> int \<Rightarrow> int \<Rightarrow> (int + int) prog" where
  "seek_root_stdin h prog ntasks niters =
     chk (Sys (Open ''/dev/stdin'')) (\<lambda>r. rv r < 0) (Ret (Inl EXIT_FAIL)) (\<lambda>r. let fd = rv r in
     Call (Mem (Store ''fd'' fd)) (\<lambda>_.
     seqE (read_turn (\<lambda>v. v < 0) fd root_line check0) (\<lambda>check.
     seqE (for_range 0 (nat ntasks) (spawn_self h prog EXIT_FAIL) ()) (\<lambda>_.
     seqE (turns ntasks niters 0 skip check) (\<lambda>_. Ret (Inr fd))))))"

definition seek_root_stdout :: "pip_h \<Rightarrow> string \<Rightarrow> int \<Rightarrow> int \<Rightarrow> (int + int) prog" where
  "seek_root_stdout h prog ntasks niters =
     chk (Sys (Open ''/dev/stdout'')) (\<lambda>r. rv r < 0) (Ret (Inl EXIT_FAIL)) (\<lambda>r. let fd = rv r in
     Call (Mem (Store ''fd'' fd)) (\<lambda>_.
     seqE (write_turn (\<lambda>v. v < 0) fd root_line check0) (\<lambda>check.
     seqE (for_range 0 (nat ntasks) (spawn_self h prog EXIT_FAIL) ()) (\<lambda>_.
     seqE (turns ntasks niters 0 skip check) (\<lambda>_. Ret (Inr fd))))))"

definition seek_root_file :: "pip_h \<Rightarrow> string \<Rightarrow> string \<Rightarrow> int \<Rightarrow> int \<Rightarrow> (int + int) prog" where
  "seek_root_file h prog fname ntasks niters =
     chk (Sys (Open fname)) (\<lambda>r. rv r < 0) (Ret (Inl EXIT_FAIL)) (\<lambda>r. let fd = rv r in
     Call (Mem (Store ''fd'' fd)) (\<lambda>_.
     seqE (for_range 0 (nat ntasks) (spawn_self h prog EXIT_FAIL) ()) (\<lambda>_.
     seqE (turns ntasks niters 0 (sync_turn (\<lambda>v. v < 0) EXIT_FAIL fd root_line) check0) (\<lambda>check.
     chk (Sys (Lib ''lseek'' [fd, 0])) (\<lambda>r. rv r < 0) (Ret (Inl EXIT_FAIL)) (\<lambda>_.
     seqE (turns ntasks niters 0 (read_turn (\<lambda>v. v < 0) fd root_line) check) (\<lambda>_.
       Ret (Inr fd)))))))"

definition seek_root :: "pip_h \<Rightarrow> string \<Rightarrow> seek_mode \<Rightarrow> int \<Rightarrow> int \<Rightarrow> (int + int \<times> int) prog" where
  "seek_root h prog mode ntasks niters =
     chk (Mem (Barrier_init (ntasks + 1))) (\<lambda>r. rv r \<noteq> 0) (Ret (Inl EXIT_FAIL)) (\<lambda>_.
     seqE (case mode of
             Stdin \<Rightarrow> seek_root_stdin h prog ntasks niters
           | Stdout \<Rightarrow> seek_root_stdout h prog ntasks niters
           | File fname \<Rightarrow> seek_root_file h prog fname ntasks niters) (\<lambda>fd.
     seqE (for_range 0 (nat ntasks) barrier_wait_body 0) (\<lambda>extval. Ret (Inr (fd, extval)))))"

definition seek_task :: "seek_mode \<Rightarrow> int \<Rightarrow> int \<Rightarrow> int \<Rightarrow> (int + int \<times> int) prog" where
  "seek_task mode ntasks pipid niters =
     Call (Mem (Load ''fd'')) (\<lambda>r. let fd = rv r; buff = task_line pipid in
       case mode of
         Stdin \<Rightarrow> seqE (turns ntasks niters (pipid + 1) (read_turn (\<lambda>v. v \<le> 0) fd buff) check0)
                    (\<lambda>_. Ret (Inr (fd, 0)))
       | Stdout \<Rightarrow> seqE (turns ntasks niters (pipid + 1) (write_turn (\<lambda>v. v \<le> 0) fd buff) check0)
                    (\<lambda>_. Ret (Inr (fd, 0)))
       | File _ \<Rightarrow>
           seqE (turns ntasks niters (pipid + 1) (sync_turn (\<lambda>v. v \<le> 0) EXIT_UNRESOLVED fd buff) check0) (\<lambda>check.
           seqE (turns ntasks niters (pipid + 1) (read_turn (\<lambda>v. v \<le> 0) fd buff) check) (\<lambda>_.
             Ret (Inr (fd, 0)))))"

definition seek_end :: "int \<times> int \<Rightarrow> int prog" where
  "seek_end = (\<lambda>(fd, extval).
     chk (Pip Pip_is_threaded) (\<lambda>r. rv r \<noteq> 0) (Ret EXIT_FAIL) (\<lambda>r.
       finE (if stored (o1 r) 0 = 0
             then chk (Sys (Close fd)) (\<lambda>r. rv r < 0) (Ret (Inl EXIT_FAIL)) (\<lambda>_. Ret (Inr ()))
             else Ret (Inr ())) (\<lambda>_. leave extval)))"

definition seek_main :: "pip_h \<Rightarrow> string list \<Rightarrow> int prog" where
  "seek_main h argv =
     (if length argv > 1 then
        let mode = seek_mode (argv ! 1) in
        finE (ntasks_guard (NTASKS h) (tl argv)) (\<lambda>ntasks.
          let niters = niters_arg argv 3 SEEK_NITERS in
          chk (Pip (Pip_init True (Some ntasks) True 0)) (\<lambda>r. rv r \<noteq> 0) (Ret EXIT_FAIL) (\<lambda>r.
            let pipid = stored (o1 r) 0; ntasks = stored (o2 r) ntasks in
            finE (if pipid = PIPID_ROOT h then seek_root h (argv ! 0) mode ntasks niters
                  else seek_task mode ntasks pipid niters) seek_end))
      else Halt (Exit EXIT_FAIL))"

section \<open>Short transfers\<close>

text \<open>Reads and writes that transfer at least one byte, when asked for some, and no more than that.\<close>

fun transfers :: "call \<Rightarrow> resp \<Rightarrow> bool" where
  "transfers (Sys (Read fd n)) r \<longleftrightarrow> (0 < n \<longrightarrow> 1 \<le> rv r \<and> rv r \<le> n \<and> length (data r) = nat (rv r))"
| "transfers (Sys (Write fd s)) r \<longleftrightarrow> (s \<noteq> [] \<longrightarrow> 1 \<le> rv r \<and> rv r \<le> int (length s))"
| "transfers _ r \<longleftrightarrow> True"

text \<open>The bytes the writes of a trace have transferred.\<close>

fun accepted :: "trace \<Rightarrow> string" where
  "accepted [] = []"
| "accepted ((Sys (Write fd s), r) # t) = take (nat (rv r)) s @ accepted t"
| "accepted (_ # t) = accepted t"

lemma accepted_append: "accepted (s @ t) = accepted s @ accepted t"
  by (induction s rule: accepted.induct) auto

lemma my_read_no_fault:
  "wlp any_answer (\<lambda>_. True) (\<lambda>_. True) (\<lambda>_. False) (my_read fd len)"
proof -
  have "wlp any_answer (\<lambda>_. True) (\<lambda>x. x \<noteq> None) (\<lambda>_. False)
      (loop (Suc (nat len)) (my_read_body fd len) ([], len))"
    by (rule wlp_loop_measure [where I = "\<lambda>_. True" and mu = "\<lambda>(p, l). nat l"])
      (auto simp: my_read_body_def Let_def)
  then show ?thesis unfolding my_read_def wlp_bind by (rule wlp_mono) (auto split: option.splits)
qed

lemma my_write_no_fault:
  "wlp any_answer (\<lambda>_. True) (\<lambda>_. True) (\<lambda>_. False) (my_write fd buff len)"
proof -
  have "wlp any_answer (\<lambda>_. True) (\<lambda>x. x \<noteq> None) (\<lambda>_. False)
      (loop (Suc (nat len)) (my_write_body fd buff len) (0, len))"
    by (rule wlp_loop_measure [where I = "\<lambda>_. True" and mu = "\<lambda>(p, l). nat l"])
      (auto simp: my_write_body_def Let_def)
  then show ?thesis unfolding my_write_def wlp_bind by (rule wlp_mono) (auto split: option.splits)
qed

lemma returns:
  assumes "wlp any_answer (\<lambda>_. True) (\<lambda>_. True) (\<lambda>_. False) p" "total e"
  obtains a where "outcome p e w = Returned a"
  using wlp_total [OF assms(1) answers_any assms(2), of w] by auto

lemma transferred: "1 \<le> v \<Longrightarrow> v \<le> l \<Longrightarrow> l < 2 ^ 31 \<Longrightarrow> to_int32 v = v"
  by (rule to_int32_id) simp_all

lemma my_write_round:
  assumes "accepted t = take (nat p) buff" "0 \<le> p" "0 < l" "p + l = int (length buff)"
    and "int (length buff) < 2 ^ 31"
    and r: "transfers (Sys (Write fd (take (nat l) (drop (nat p) buff)))) r"
  shows "accepted (t @ [(Sys (Write fd (take (nat l) (drop (nat p) buff))), r)]) = take (nat (p + to_int32 (rv r))) buff
    \<and> 1 \<le> to_int32 (rv r) \<and> to_int32 (rv r) \<le> l"
proof -
  have len: "int (length (take (nat l) (drop (nat p) buff))) = l" using assms(2-4) by simp
  then have "take (nat l) (drop (nat p) buff) \<noteq> []" using assms(3) by (metis int_ops(1) less_irrefl list.size(3))
  then have v: "1 \<le> rv r" "rv r \<le> l" using r len by (simp_all del: length_take length_drop take_eq_Nil)
  then have "to_int32 (rv r) = rv r" using assms(2,4,5) by (intro transferred [where l = l]) simp_all
  moreover have "take (nat (p + rv r)) buff = take (nat p) buff @ take (nat (rv r)) (drop (nat p) buff)"
    using v assms(2) by (simp add: nat_add_distrib take_add)
  moreover have "take (nat (rv r)) (take (nat l) (drop (nat p) buff)) = take (nat (rv r)) (drop (nat p) buff)"
    using v by (simp add: min_absorb1 nat_mono)
  ultimately show ?thesis using assms(1) v by (simp add: accepted_append)
qed

lemma my_write_wpt:
  assumes "int (length buff) < 2 ^ 31"
  shows "wpt transfers (\<lambda>t v. v = int (length buff) \<and> accepted t = buff) []
    (my_write fd buff (int (length buff)))"
proof -
  let ?len = "int (length buff)"
  let ?I = "\<lambda>t (p, l). accepted t = take (nat p) buff \<and> 0 \<le> p \<and> 0 \<le> l \<and> p + l = ?len"
  have "wpt transfers (\<lambda>t x. x = Some ?len \<and> accepted t = buff) []
      (loop (Suc (nat ?len)) (my_write_body fd buff ?len) (0, ?len))"
  proof (rule wpt_loop_measure [where I = ?I and mu = "\<lambda>(p, l). nat l"])
    fix t s assume "?I t s"
    then obtain p l where s: "s = (p, l)" and I: "accepted t = take (nat p) buff" "0 \<le> p" "0 \<le> l" "p + l = ?len"
      by auto
    have round: "accepted (t @ [(Sys (Write fd (take (nat l) (drop (nat p) buff))), r)]) = take (nat (p + to_int32 (rv r))) buff
        \<and> 1 \<le> to_int32 (rv r) \<and> to_int32 (rv r) \<le> l"
      if "0 < l" "transfers (Sys (Write fd (take (nat l) (drop (nat p) buff)))) r" for r
      using that my_write_round [OF I(1,2) _ I(4) assms] by blast
    show "wpt transfers (\<lambda>t x. case x of Inl s' \<Rightarrow> ?I t s' \<and> (case s' of (p, l) \<Rightarrow> nat l) < (case s of (p, l) \<Rightarrow> nat l)
        | Inr a \<Rightarrow> Some a = Some ?len \<and> accepted t = buff) t (my_write_body fd buff ?len s)"
    proof (cases "0 < l")
      case True
      show ?thesis unfolding s my_write_body_def using True
        by (simp add: Let_def del: transfers.simps) (use round [OF True] I in fastforce)
    next
      case False
      then show ?thesis using I by (simp add: s my_write_body_def)
    qed
  qed simp_all
  then show ?thesis unfolding my_write_def wpt_bind by (rule wpt_mono) (auto split: option.splits)
qed

lemma my_read_wpt:
  assumes "0 \<le> len" "len < 2 ^ 31"
  shows "wpt transfers (\<lambda>t (v, bytes). v = len \<and> bytes = gotten t \<and> int (length bytes) = len) []
    (my_read fd len)"
proof -
  let ?I = "\<lambda>t (p, l). p = gotten t \<and> 0 \<le> l \<and> int (length p) + l = len"
  have "wpt transfers (\<lambda>t x. x = Some (len, gotten t) \<and> int (length (gotten t)) = len) []
      (loop (Suc (nat len)) (my_read_body fd len) ([], len))"
  proof (rule wpt_loop_measure [where I = ?I and mu = "\<lambda>(p, l). nat l"])
    fix t s assume "?I t s"
    then obtain l where s: "s = (gotten t, l)" and I: "0 \<le> l" "int (length (gotten t)) + l = len"
      by auto
    have round: "gotten (t @ [(Sys (Read fd l), r)]) = gotten t @ take (nat (to_int32 (rv r))) (data r)
        \<and> 1 \<le> to_int32 (rv r) \<and> to_int32 (rv r) \<le> l \<and> nat (to_int32 (rv r)) = length (data r)"
      if "0 < l" "transfers (Sys (Read fd l)) r" for r
      using that I assms transferred [of "rv r" l] by (simp add: gotten_append)
    show "wpt transfers (\<lambda>t x. case x of Inl s' \<Rightarrow> ?I t s' \<and> (case s' of (p, l) \<Rightarrow> nat l) < (case s of (p, l) \<Rightarrow> nat l)
        | Inr a \<Rightarrow> Some a = Some (len, gotten t) \<and> int (length (gotten t)) = len) t (my_read_body fd len s)"
    proof (cases "0 < l")
      case True
      show ?thesis unfolding s my_read_body_def using True
        by (simp add: Let_def del: transfers.simps) (use round [OF True] I in fastforce)
    next
      case False
      then show ?thesis using I by (simp add: s my_read_body_def)
    qed
  qed (use assms in simp_all)
  then show ?thesis unfolding my_read_def wpt_bind by (rule wpt_mono) (auto split: option.splits)
qed

text \<open>C34: \<open>my\_write\<close> and \<open>my\_read\<close> make up for short transfers: when each call transfers something,
and no more than it is asked for, \<open>my\_write\<close> returns the whole length and the bytes transferred are
the buffer's, in order and once each; \<open>my\_read\<close> returns the whole length, with the bytes of its
reads joined. Neither loop runs out of its fuel.\<close>

theorem short_transfers:
  assumes "total e" "answers transfers e" "length buff < 2 ^ 31" "0 \<le> len" "len < 2 ^ 31"
  shows "outcome (my_write fd buff (int (length buff))) e w = Returned (int (length buff)) \<and>
    accepted (trace (my_write fd buff (int (length buff))) e w) = buff \<and>
    outcome (my_read fd len) e w = Returned (len, gotten (trace (my_read fd len) e w)) \<and>
    int (length (gotten (trace (my_read fd len) e w))) = len"
proof -
  have l: "int (length buff) < 2 ^ 31" using assms(3) by simp
  obtain v where v: "outcome (my_write fd buff (int (length buff))) e w = Returned v"
    using returns [OF my_write_no_fault assms(1)] .
  obtain a where a: "outcome (my_read fd len) e w = Returned a"
    using returns [OF my_read_no_fault assms(1)] .
  show ?thesis
    using wpt_outcome [OF my_write_wpt [OF l] assms(2) v] wpt_outcome [OF my_read_wpt [OF assms(4,5)] assms(2) a] v a
    by (cases a) simp
qed

text \<open>Reads and writes of three bytes at most.\<close>

definition e_three :: "unit env" where
  "e_three = reply (\<lambda>c. case c of
       Sys (Read fd n) \<Rightarrow> ok\<lparr>rv := min n 3, strv := Some (replicate (nat (min n 3)) CHR ''x'')\<rparr>
     | Sys (Write fd s) \<Rightarrow> ok\<lparr>rv := min (int (length s)) 3\<rparr>
     | _ \<Rightarrow> ok)"

lemma e_three: "total e_three" "answers transfers e_three"
proof -
  have "coop transfers e_three"
    unfolding e_three_def
  proof (rule coop_reply)
    fix c
    show "transfers c (case c of
       Sys (Read fd n) \<Rightarrow> ok\<lparr>rv := min n 3, strv := Some (replicate (nat (min n 3)) CHR ''x'')\<rparr>
     | Sys (Write fd s) \<Rightarrow> ok\<lparr>rv := min (int (length s)) 3\<rparr> | _ \<Rightarrow> ok)"
      by (cases "(c, ok)" rule: transfers.cases) (auto simp: data_def min_def Suc_le_eq)
  qed
  then show "total e_three" "answers transfers e_three" by (simp_all add: coop_def)
qed

lemma short_transfers_witness:
  "outcome (my_write 5 ''abcdefgh'' (int (length ''abcdefgh''))) e_three () = Returned (int (length ''abcdefgh'')) \<and>
    accepted (trace (my_write 5 ''abcdefgh'' (int (length ''abcdefgh''))) e_three ()) = ''abcdefgh'' \<and>
    outcome (my_read 5 8) e_three () = Returned (8, gotten (trace (my_read 5 8) e_three ())) \<and>
    int (length (gotten (trace (my_read 5 8) e_three ()))) = 8"
  by (rule short_transfers [OF e_three]) simp_all

end
