(* ===== verification/SeekFile.thy ===== *)
theory SeekFile
  imports Seek
begin

text \<open>
  \<open>basics/seek.c\<close> with a file: the interleaved system of the root and its tasks over the one open
  file they share. The root is participant \<open>m\<close>, the tasks are \<open>0, ..., m - 1\<close>.
\<close>

section \<open>The open file\<close>

text \<open>
  The file the descriptor \<open>fd0\<close> refers to. \<open>part n\<close> is how much of \<open>n\<close> bytes one call transfers:
  POSIX lets \<open>read\<close> and \<open>write\<close> transfer fewer bytes than asked for.
\<close>

record open_file =
  content :: string
  pos :: nat

definition partial :: "(nat \<Rightarrow> nat) \<Rightarrow> bool" where
  "partial part \<longleftrightarrow> (\<forall>n. (0 < n \<longrightarrow> 1 \<le> part n) \<and> part n \<le> n)"

definition file_write :: "nat \<Rightarrow> string \<Rightarrow> open_file \<Rightarrow> open_file" where
  "file_write k s w = \<lparr>content = take (pos w) (content w) @ take k s @ drop (pos w + k) (content w),
     pos = pos w + k\<rparr>"

definition file_read :: "nat \<Rightarrow> open_file \<Rightarrow> string" where
  "file_read k w = take k (drop (pos w) (content w))"

text \<open>
  What the calls of the program do to it. A task exists only once the root has spawned it, after
  it has stored the descriptor: what a task loads is that descriptor.
\<close>

definition file_idle :: "(tid \<Rightarrow> int) \<Rightarrow> int \<Rightarrow> int \<Rightarrow> tid \<Rightarrow> call \<Rightarrow> resp option" where
  "file_idle ids m fd0 i c = (case c of
       Mem (Load _) \<Rightarrow> Some (ok\<lparr>rv := fd0\<rparr>)
     | Mem (Store _ _) \<Rightarrow> Some ok
     | Mem (Barrier_init _) \<Rightarrow> Some ok
     | Mem _ \<Rightarrow> None
     | Sys (Open _) \<Rightarrow> None
     | Sys (Read _ _) \<Rightarrow> None
     | Sys (Write _ _) \<Rightarrow> None
     | Sys (Lib _ _) \<Rightarrow> None
     | Sys _ \<Rightarrow> Some ok
     | Pip (Pip_init _ _ _ _) \<Rightarrow> Some (ok\<lparr>o1 := Some (ids i), o2 := Some m\<rparr>)
     | Pip (Pip_wait_any _ _) \<Rightarrow> Some (ok\<lparr>o2 := Some (exited 0)\<rparr>)
     | Pip Pip_barrier_wait \<Rightarrow> None
     | Pip _ \<Rightarrow> Some ok)"

definition file_sem :: "(tid \<Rightarrow> int) \<Rightarrow> int \<Rightarrow> int \<Rightarrow> (nat \<Rightarrow> nat) \<Rightarrow> open_file sem" where
  "file_sem ids m fd0 part i c w = (case c of
       Sys (Open _) \<Rightarrow> Some (ok\<lparr>rv := fd0\<rparr>, \<lparr>content = [], pos = 0\<rparr>)
     | Sys (Write fd s) \<Rightarrow>
         if fd = fd0 then let k = part (length s) in Some (ok\<lparr>rv := int k\<rparr>, file_write k s w)
         else None
     | Sys (Read fd n) \<Rightarrow>
         if fd = fd0 then let s = file_read (nat n) w; s = take (part (length s)) s in
           Some (ok\<lparr>rv := int (length s), strv := Some s\<rparr>, w\<lparr>pos := pos w + length s\<rparr>)
         else None
     | Sys (Lib f args) \<Rightarrow>
         if f = ''lseek'' \<and> args = [fd0, 0] then Some (ok, w\<lparr>pos := 0\<rparr>) else None
     | _ \<Rightarrow> map_option (\<lambda>r. (r, w)) (file_idle ids m fd0 i c))"

lemma file_idle: "file_idle ids m fd0 i c = Some r \<Longrightarrow> file_sem ids m fd0 part i c w = Some (r, w)"
  by (cases c) (auto simp: file_idle_def file_sem_def split: sys_call.splits)

lemma file_sem_simps [env_simps]:
  "file_sem ids m fd0 part i (Sys (Open f)) w = Some (ok\<lparr>rv := fd0\<rparr>, \<lparr>content = [], pos = 0\<rparr>)"
  "file_sem ids m fd0 part i (Sys (Lib ''lseek'' [fd0, 0])) w = Some (ok, w\<lparr>pos := 0\<rparr>)"
  "file_sem ids m fd0 part i (Sys (Write fd0 s)) w =
     Some (ok\<lparr>rv := int (part (length s))\<rparr>, file_write (part (length s)) s w)"
  "file_sem ids m fd0 part i (Sys (Read fd0 n)) w =
     (let s = file_read (nat n) w; s = take (part (length s)) s in
       Some (ok\<lparr>rv := int (length s), strv := Some s\<rparr>, w\<lparr>pos := pos w + length s\<rparr>))"
  "file_sem ids m fd0 part i (Sys (Fsync fd)) w = Some (ok, w)"
  "file_sem ids m fd0 part i (Sys (Close fd)) w = Some (ok, w)"
  "file_sem ids m fd0 part i (Sys (Getenv s)) w = Some (ok, w)"
  "file_sem ids m fd0 part i (Mem (Load v)) w = Some (ok\<lparr>rv := fd0\<rparr>, w)"
  "file_sem ids m fd0 part i (Mem (Store v x)) w = Some (ok, w)"
  "file_sem ids m fd0 part i (Mem (Barrier_init k)) w = Some (ok, w)"
  "file_sem ids m fd0 part i (Pip (Pip_init a b c d)) w = Some (ok\<lparr>o1 := Some (ids i), o2 := Some m\<rparr>, w)"
  "file_sem ids m fd0 part i (Pip (Pip_spawn a1 a2 a3 a4)) w = Some (ok, w)"
  "file_sem ids m fd0 part i (Pip (Pip_wait_any b1 b2)) w = Some (ok\<lparr>o2 := Some (exited 0)\<rparr>, w)"
  "file_sem ids m fd0 part i (Pip Pip_is_threaded) w = Some (ok, w)"
  "file_sem ids m fd0 part i (Pip Pip_fin) w = Some (ok, w)"
  "file_idle ids m fd0 i (Sys (Getenv s)) = Some ok"
  "file_idle ids m fd0 i (Mem (Load v)) = Some (ok\<lparr>rv := fd0\<rparr>)"
  "file_idle ids m fd0 i (Pip (Pip_init a b c d)) = Some (ok\<lparr>o1 := Some (ids i), o2 := Some m\<rparr>)"
  by (simp_all add: file_sem_def file_idle_def Let_def)

text \<open>A piece of program that reaches its end before a barrier.\<close>

lemma to_barrier_bind:
  "to_barrier sem p i w = Some (Ret a, w') \<Longrightarrow> to_barrier sem (bind p f) i w = to_barrier sem (f a) i w'"
  by (induction p arbitrary: w) (auto split: if_splits option.splits)

section \<open>Reading and writing whole lines\<close>

lemma append_write:
  assumes "pos w = length (content w)" "k \<le> length s"
  shows "file_write k s w = \<lparr>content = content w @ take k s, pos = length (content w @ take k s)\<rparr>"
  using assms by (simp add: file_write_def min_absorb2)

lemma partial_range: "partial part \<Longrightarrow> 0 < l \<Longrightarrow> l < 2 ^ 31 \<Longrightarrow>
    1 \<le> part l \<and> part l \<le> l \<and> to_int32 (int (part l)) = int (part l)"
proof -
  assume a: "partial part" "0 < l" "l < 2 ^ 31"
  then have "1 \<le> part l" "part l \<le> l" by (auto simp: partial_def)
  moreover then have "to_int32 (int (part l)) = int (part l)" using a(3) by (intro to_int32_id) (simp_all flip: of_nat_less_iff)
  ultimately show ?thesis by blast
qed

lemma write_step:
  assumes "partial part" "length buff < 2 ^ 31" "0 < l" "p + l = length buff"
  shows "to_barrier (file_sem ids m fd0 part) (bind (my_write_body fd0 buff len (int p, int l)) g) i w =
    to_barrier (file_sem ids m fd0 part) (g (Inl (int (p + part l), int l - int (part l)))) i
      (file_write (part l) (drop p buff) w)"
proof -
  have k: "1 \<le> part l" "to_int32 (int (part l)) = int (part l)"
    using partial_range [OF assms(1,3)] assms(2,4) by simp_all
  have s: "take l (drop p buff) = drop p buff" "length (drop p buff) = l" using assms(4) by simp_all
  show ?thesis using assms(3) k
    by (simp add: my_write_body_def env_simps s Let_def del: length_drop)
qed

lemma write_loop:
  assumes part: "partial part" and len: "length buff < 2 ^ 31"
    and "p + l = length buff" "l < f" "pos w = length (content w)"
  shows "to_barrier (file_sem ids m fd0 part) (loop f (my_write_body fd0 buff (int (length buff))) (int p, int l)) i w =
    Some (Ret (Some (int (length buff))),
      \<lparr>content = content w @ drop p buff, pos = length (content w @ drop p buff)\<rparr>)"
  using assms(3-)
proof (induction f arbitrary: p l w)
  case (Suc f)
  show ?case
  proof (cases "l = 0")
    case True
    then show ?thesis using Suc.prems by (cases w) (simp add: my_write_body_def)
  next
    case False
    then have l: "0 < l" by simp
    have k: "1 \<le> part l" "part l \<le> l" using partial_range [OF part l] len Suc.prems(1) by simp_all
    let ?w = "file_write (part l) (drop p buff) w"
    have w: "content ?w = content w @ take (part l) (drop p buff)" "pos ?w = length (content ?w)"
      using append_write [OF Suc.prems(3), of "part l" "drop p buff"] k Suc.prems(1) by simp_all
    have d: "take (part l) (drop p buff) @ drop (p + part l) buff = drop p buff"
      by (metis add.commute append_take_drop_id drop_drop)
    have n: "int l - int (part l) = int (l - part l)" using k by simp
    have "to_barrier (file_sem ids m fd0 part) (loop f (my_write_body fd0 buff (int (length buff)))
        (int (p + part l), int (l - part l))) i ?w =
      Some (Ret (Some (int (length buff))), \<lparr>content = content ?w @ drop (p + part l) buff,
        pos = length (content ?w @ drop (p + part l) buff)\<rparr>)"
      by (rule Suc.IH) (use Suc.prems k w(2) in auto)
    then show ?thesis unfolding loop.simps write_step [OF part len l Suc.prems(1)] n by (simp only: sum.case w(1) append_assoc d)
  qed
qed simp

lemma my_write_runs:
  assumes "partial part" "length buff < 2 ^ 31" "pos w = length (content w)"
  shows "to_barrier (file_sem ids m fd0 part) (bind (my_write fd0 buff (int (length buff))) f) i w =
    to_barrier (file_sem ids m fd0 part) (f (int (length buff))) i
      \<lparr>content = content w @ buff, pos = length (content w @ buff)\<rparr>"
proof -
  have "to_barrier (file_sem ids m fd0 part)
      (loop (Suc (length buff)) (my_write_body fd0 buff (int (length buff))) (0, int (length buff))) i w =
    Some (Ret (Some (int (length buff))), \<lparr>content = content w @ buff, pos = length (content w @ buff)\<rparr>)"
    using write_loop [OF assms(1,2), of 0 "length buff" "Suc (length buff)" w] assms(3) by (simp del: loop.simps)
  then show ?thesis unfolding my_write_def bind_assoc by (simp add: to_barrier_bind del: loop.simps)
qed

lemma read_step:
  assumes "partial part" "length s < 2 ^ 31" "0 < l" "p + l = length s" "pos w = length u + p" "content w = u @ s @ v"
  shows "to_barrier (file_sem ids m fd0 part) (bind (my_read_body fd0 len (q, int l)) g) i w =
    to_barrier (file_sem ids m fd0 part) (g (Inl (q @ take (part l) (drop p s), int l - int (part l)))) i
      (w\<lparr>pos := length u + (p + part l)\<rparr>)"
proof -
  have k: "1 \<le> part l" "part l \<le> l" "to_int32 (int (part l)) = int (part l)"
    using partial_range [OF assms(1,3)] assms(2,4) by simp_all
  have r: "file_read l w = drop p s" "length (drop p s) = l" using assms by (simp_all add: file_read_def)
  have t: "length (take (part l) (drop p s)) = part l" using k(2) assms(4) by simp
  show ?thesis using assms(3) k(1)
    by (simp add: my_read_body_def env_simps r t k(3) Let_def data_def assms(5) add.assoc del: length_drop length_take)
qed

lemma read_loop:
  assumes part: "partial part" and len: "length s < 2 ^ 31"
    and "p + l = length s" "l < f" "pos w = length u + p" "content w = u @ s @ v"
  shows "to_barrier (file_sem ids m fd0 part) (loop f (my_read_body fd0 (int (length s))) (take p s, int l)) i w =
    Some (Ret (Some (int (length s), s)), w\<lparr>pos := length (u @ s)\<rparr>)"
  using assms(3-)
proof (induction f arbitrary: p l w)
  case (Suc f)
  show ?case
  proof (cases "l = 0")
    case True
    then show ?thesis using Suc.prems by (cases w) (simp add: my_read_body_def)
  next
    case False
    then have l: "0 < l" by simp
    have k: "1 \<le> part l" "part l \<le> l" using partial_range [OF part l] len Suc.prems(1) by simp_all
    have n: "int l - int (part l) = int (l - part l)" using k by simp
    have t: "take p s @ take (part l) (drop p s) = take (p + part l) s" by (simp add: take_add)
    have "to_barrier (file_sem ids m fd0 part) (loop f (my_read_body fd0 (int (length s)))
        (take (p + part l) s, int (l - part l))) i (w\<lparr>pos := length u + (p + part l)\<rparr>) =
      Some (Ret (Some (int (length s), s)), w\<lparr>pos := length u + (p + part l), pos := length (u @ s)\<rparr>)"
      by (rule Suc.IH) (use Suc.prems k in auto)
    then show ?thesis
      unfolding loop.simps read_step [OF part len l Suc.prems(1,3,4)] n t by simp
  qed
qed simp

lemma my_read_runs:
  assumes "partial part" "length s < 2 ^ 31" "pos w = length u" "content w = u @ s @ v"
  shows "to_barrier (file_sem ids m fd0 part) (bind (my_read fd0 (int (length s))) f) i w =
    to_barrier (file_sem ids m fd0 part) (f (int (length s), s)) i (w\<lparr>pos := length (u @ s)\<rparr>)"
proof -
  have "to_barrier (file_sem ids m fd0 part)
      (loop (Suc (length s)) (my_read_body fd0 (int (length s))) ([], int (length s))) i w =
    Some (Ret (Some (int (length s), s)), w\<lparr>pos := length (u @ s)\<rparr>)"
    using read_loop [OF assms(1,2), of 0 "length s" "Suc (length s)" w u v] assms(3,4) by (simp del: loop.simps)
  then show ?thesis unfolding my_read_def bind_assoc by (simp add: to_barrier_bind del: loop.simps)
qed

text \<open>A participant's turn.\<close>

lemma finE_bind: "finE (bind p k) f = bind p (\<lambda>x. finE (k x) f)"
  by (simp add: finE_def bind_assoc)

lemma seqE_bind: "seqE (bind p k) f = bind p (\<lambda>x. seqE (k x) f)"
  by (simp add: seqE_def bind_assoc)

lemma write_turn_runs:
  assumes "partial part" "length buff < 2 ^ 31" "\<not> bad (int (length buff))" "pos w = length (content w)"
  shows "to_barrier (file_sem ids m fd0 part) (finE (sync_turn bad fail fd0 buff check) f) i w =
    to_barrier (file_sem ids m fd0 part) (f check) i \<lparr>content = content w @ buff, pos = length (content w @ buff)\<rparr>"
  unfolding sync_turn_def write_turn_def seqE_bind finE_bind my_write_runs [OF assms(1,2,4)]
  using assms(3) by (simp add: chkv_def chk_def env_simps)

lemma read_turn_runs:
  assumes "partial part" "length s < 2 ^ 31" "\<not> bad (int (length s))" "pos w = length u" "content w = u @ s @ v"
    and "c_str (overwrite check s) = s"
  shows "to_barrier (file_sem ids m fd0 part) (finE (read_turn bad fd0 s check) f) i w =
    to_barrier (file_sem ids m fd0 part) (f (overwrite check s)) i (w\<lparr>pos := length (u @ s)\<rparr>)"
  unfolding read_turn_def finE_bind my_read_runs [OF assms(1,2,4,5)]
  using assms(3,6) by (simp add: chkv_def Let_def)

section \<open>Lines\<close>

definition line :: "nat \<Rightarrow> tid \<Rightarrow> string" where
  "line m i = (if i = m then root_line else task_line (int i))"

lemma length_show_nat: "0 < k \<Longrightarrow> n < 10 ^ k \<Longrightarrow> length (show_nat n) \<le> k"
proof (induction k arbitrary: n)
  case (Suc k)
  show ?case
  proof (cases "n < 10")
    case True
    then show ?thesis by (simp add: show_nat.simps [of n])
  next
    case False
    then have "0 < k" "n div 10 < 10 ^ k" using Suc.prems by (auto intro: Nat.gr0I)
    then have "length (show_nat (n div 10)) \<le> k" by (rule Suc.IH)
    then show ?thesis using False by (simp add: show_nat.simps [of n])
  qed
qed simp

lemma show_nat_no_NUL: "NUL \<notin> set (show_nat n)"
  using show_nat_isdigit [of NUL n] by (auto simp: isdigit_def NUL_def)

lemma line_props:
  assumes "i \<le> m" "m < 10 ^ 8"
  shows "length (line m i) = 8" "NUL \<notin> set (line m i)"
proof -
  have "length (show_nat i) \<le> 8" by (rule length_show_nat) (use assms in simp_all)
  then show "length (line m i) = 8"
    by (auto simp: line_def root_line_def task_line_def pad_left_def ROOT_name_def show_int_def)
  show "NUL \<notin> set (line m i)"
    using show_nat_no_NUL [of i] by (auto simp: line_def root_line_def task_line_def pad_left_def ROOT_name_def show_int_def NUL_def)
qed

lemma c_str_line:
  assumes "NUL \<notin> set s" "length s < 128" "check = check0 \<or> check = overwrite check0 s"
  shows "overwrite check s = overwrite check0 s" "c_str (overwrite check s) = s"
proof -
  show o: "overwrite check s = overwrite check0 s" using assms(3) by (auto simp: overwrite_def)
  have t: "takeWhile (\<lambda>c. c \<noteq> NUL) s = s" using assms(1) by (induction s) auto
  have "takeWhile (\<lambda>c. c \<noteq> NUL) (s @ replicate k NUL) = s" for k
    using assms(1) by (subst takeWhile_append2) (auto simp: t takeWhile_replicate)
  then show "c_str (overwrite check s) = s" unfolding o
    by (simp add: c_str_def overwrite_def check0_def drop_replicate)
qed

end
