(* ===== verification/SeekTurns.thy ===== *)
theory SeekTurns
  imports SeekFile
begin

text \<open>
  The phases of \<open>basics/seek.c\<close> with a file: \<open>N\<close> rounds of writing and \<open>N\<close> rounds of reading, each of
  \<open>m + 1\<close> turns, the root's first. The programs are brought into segments, of which the locale
  \<open>segmented\<close> says how every interleaving ends.
\<close>

section \<open>The programs as chains of segments\<close>

lemma bwait_props: "bw_ok bwait bwait" "at_bar (bwait k)" "resume (bwait k) v = k"
  by (simp_all add: bw_ok_def bwait_def)

lemma turns_chain:
  assumes "q \<le> m"
  shows "finE (turns (int m) (int N) (int q) a x) e = chain bwait (round_seg (Suc m) q (\<lambda>_. a)) (r * Suc m) (N * Suc m) e x"
proof -
  have b: "nat (int m + 1) = Suc m" by simp
  show ?thesis unfolding turns_def nat_int b for_range_const [of 0 _ _ _ "int r"]
    by (rule finE_rounds [OF bwait_props(1)]) (use assms in simp_all)
qed

text \<open>Two stages of turns, with \<open>pre\<close> between them.\<close>

definition stages :: "nat \<Rightarrow> nat \<Rightarrow> nat \<Rightarrow> ('b, 's) segment \<Rightarrow> ('b, 's) segment \<Rightarrow> ('b, 's) segment \<Rightarrow> nat \<Rightarrow> ('b, 's) segment" where
  "stages m N q a pre a' p = (if p < N * Suc m then round_seg (Suc m) q (\<lambda>_. a) p
     else if p = N * Suc m then (\<lambda>x. seqE (pre x) (round_seg (Suc m) q (\<lambda>_. a') p))
     else round_seg (Suc m) q (\<lambda>_. a') p)"

lemma stages_chain:
  assumes "q \<le> m" "0 < N"
  shows "finE (turns (int m) (int N) (int q) a x) (\<lambda>x. finE (pre x) (\<lambda>x. finE (turns (int m) (int N) (int q) a' x) e)) =
    chain bwait (stages m N q a pre a') 0 (2 * (N * Suc m)) e x"
proof -
  let ?K = "N * Suc m"
  let ?s = "stages m N q a pre a'"
  have K: "0 < ?K" using assms(2) by simp
  have "(\<lambda>x. finE (turns (int m) (int N) (int q) a' x) e) = chain bwait (round_seg (Suc m) q (\<lambda>_. a')) ?K ?K e"
    by (rule ext) (rule turns_chain [OF assms(1), where r = N])
  then have "finE (pre x) (\<lambda>x. finE (turns (int m) (int N) (int q) a' x) e) =
      chain bwait ((round_seg (Suc m) q (\<lambda>_. a'))(?K := \<lambda>x. seqE (pre x) (round_seg (Suc m) q (\<lambda>_. a') ?K))) ?K ?K e x"
    for x using chain_pre [OF K, of pre x bwait "round_seg (Suc m) q (\<lambda>_. a')" ?K e] by (simp only:)
  moreover have "chain bwait ((round_seg (Suc m) q (\<lambda>_. a'))(?K := \<lambda>x. seqE (pre x) (round_seg (Suc m) q (\<lambda>_. a') ?K))) ?K ?K e
      = chain bwait ?s ?K ?K e"
    by (rule chain_cong) (simp add: stages_def)
  ultimately have "(\<lambda>x. finE (pre x) (\<lambda>x. finE (turns (int m) (int N) (int q) a' x) e)) = chain bwait ?s ?K ?K e"
    by (simp add: fun_eq_iff)
  then have "finE (turns (int m) (int N) (int q) a x) (\<lambda>x. finE (pre x) (\<lambda>x. finE (turns (int m) (int N) (int q) a' x) e)) =
      chain bwait (round_seg (Suc m) q (\<lambda>_. a)) 0 ?K (chain bwait ?s ?K ?K e) x"
    using turns_chain [OF assms(1), of N a x _ 0] by simp
  also have "chain bwait (round_seg (Suc m) q (\<lambda>_. a)) 0 ?K (chain bwait ?s ?K ?K e) =
      chain bwait ?s 0 ?K (chain bwait ?s ?K ?K e)"
    by (rule chain_cong) (simp add: stages_def)
  also have "\<dots> = chain bwait ?s 0 (2 * ?K) e"
    using chain_append [of bwait ?s 0 ?K ?K e] by (simp only: mult_2 add_0)
  finally show ?thesis .
qed

section \<open>Who acts when, and what the file then holds\<close>

definition place :: "nat \<Rightarrow> tid \<Rightarrow> nat" where "place m i = (if i = m then 0 else Suc i)"

definition owner :: "nat \<Rightarrow> nat \<Rightarrow> tid" where
  "owner m p = (if p mod Suc m = 0 then m else p mod Suc m - 1)"

lemma place_props:
  assumes "i \<le> m"
  shows "place m i \<le> m" "p mod Suc m = place m i \<longleftrightarrow> i = owner m p"
proof -
  show p: "place m i \<le> m" using assms by (simp add: place_def)
  have "q = place m i \<longleftrightarrow> i = (if q = 0 then m else q - 1)" if "q \<le> m" for q
    using assms that unfolding place_def by auto
  from this [of "p mod Suc m"] show "p mod Suc m = place m i \<longleftrightarrow> i = owner m p"
    by (simp add: owner_def less_Suc_eq_le [symmetric])
qed

lemma owner_le: "owner m p \<le> m"
proof -
  have "(if q = 0 then m else q - 1) \<le> m" if "q \<le> m" for q using that by auto
  from this [of "p mod Suc m"] show ?thesis by (simp add: owner_def less_Suc_eq_le [symmetric])
qed

text \<open>The lines of the turns \<open>0, ..., p - 1\<close>.\<close>

definition out :: "nat \<Rightarrow> nat \<Rightarrow> string" where
  "out m p = concat (map (\<lambda>p. line m (owner m p)) [0..<p])"

definition file_at :: "nat \<Rightarrow> nat \<Rightarrow> nat \<Rightarrow> open_file" where
  "file_at m N p = (if p \<le> N * Suc m then \<lparr>content = out m p, pos = length (out m p)\<rparr>
     else \<lparr>content = out m (N * Suc m), pos = length (out m (p - N * Suc m))\<rparr>)"

text \<open>What a participant's array \<open>check\<close> holds: zeros, and its own line once it has read it.\<close>

definition check_at :: "nat \<Rightarrow> nat \<Rightarrow> nat \<Rightarrow> tid \<Rightarrow> string" where
  "check_at m N p i = (if p \<le> N * Suc m + place m i then check0 else overwrite check0 (line m i))"

lemma out_Suc: "out m (Suc p) = out m p @ line m (owner m p)"
  by (simp add: out_def)

lemma out_shift: "owner m (N * Suc m + p) = owner m p"
  by (simp add: owner_def del: mult_Suc_right)

lemma out_prefix: "p \<le> k \<Longrightarrow> out m k = out m p @ concat (map (\<lambda>p. line m (owner m p)) [p..<k])"
proof -
  assume "p \<le> k"
  then have "[0..<k] = [0..<p] @ [p..<k]" using upt_add_eq_append [of 0 p "k - p"] by simp
  then show ?thesis by (simp add: out_def)
qed

lemma check_at_idle:
  assumes "i \<le> m" "i \<noteq> owner m p"
  shows "check_at m N (Suc p) i = check_at m N p i"
proof -
  have "p \<noteq> N * Suc m + place m i"
  proof
    assume p: "p = N * Suc m + place m i"
    then have "p mod Suc m = place m i" using place_props(1) [OF assms(1)] by (simp del: mult_Suc_right)
    then show False using assms place_props(2) by simp
  qed
  then show ?thesis by (simp add: check_at_def)
qed

text \<open>The owner of a turn has its place in the round.\<close>

lemma owner_place: "p = p div Suc m * Suc m + place m (owner m p)"
  using place_props(2) [OF owner_le, of p m p] div_mult_mod_eq [of p "Suc m"] by simp

section \<open>The segments of the program\<close>

definition rejects :: "nat \<Rightarrow> tid \<Rightarrow> int \<Rightarrow> bool" where
  "rejects m i v = (if i = m then v < 0 else v \<le> 0)"

definition rewind :: "int \<Rightarrow> (int, string) segment" where
  "rewind fd check = chk (Sys (Lib ''lseek'' [fd, 0])) (\<lambda>r. rv r < 0) (Ret (Inl EXIT_FAIL)) (\<lambda>_. Ret (Inr check))"

definition seek_seg :: "nat \<Rightarrow> nat \<Rightarrow> int \<Rightarrow> tid \<Rightarrow> nat \<Rightarrow> (int, string) segment" where
  "seek_seg m N fd i = stages m N (place m i)
     (sync_turn (rejects m i) (if i = m then EXIT_FAIL else EXIT_UNRESOLVED) fd (line m i))
     (if i = m then rewind fd else skip)
     (read_turn (rejects m i) fd (line m i))"

lemma seek_seg_idle:
  assumes "i \<le> m" "i \<noteq> owner m p"
  shows "seek_seg m N fd i p = skip"
proof -
  have q: "p mod Suc m \<noteq> place m i" using place_props(2) assms by blast
  then have "i = m \<Longrightarrow> p \<noteq> N * Suc m" by (auto simp: place_def simp del: mult_Suc_right)
  then show ?thesis using q
    by (auto simp: seek_seg_def stages_def round_seg_def skip_def seqE_def fun_eq_iff simp del: mult_Suc_right)
qed

lemma seek_seg_write: "p < N * Suc m \<Longrightarrow> d = owner m p \<Longrightarrow> seek_seg m N fd d p =
    sync_turn (rejects m d) (if d = m then EXIT_FAIL else EXIT_UNRESOLVED) fd (line m d)"
  using place_props(2) [OF owner_le, of p m p] by (simp add: seek_seg_def stages_def round_seg_def)

lemma seek_seg_read: "j < N * Suc m \<Longrightarrow> d = owner m j \<Longrightarrow> seek_seg m N fd d (N * Suc m + j) x =
    (if j = 0 then seqE (rewind fd x) (read_turn (rejects m d) fd (line m d))
     else read_turn (rejects m d) fd (line m d) x)"
  using place_props(2) [OF owner_le, of j m j]
  by (simp add: seek_seg_def stages_def round_seg_def owner_def del: mult_Suc_right)

lemma rejects_line: "i \<le> m \<Longrightarrow> m < 10 ^ 8 \<Longrightarrow> \<not> rejects m i (int (length (line m i)))"
  by (simp add: rejects_def line_props)

lemma write_phase:
  assumes "partial part" "m < 10 ^ 8" "p < N * Suc m" "d = owner m p"
  shows "to_barrier (file_sem ids k fd part) (finE (seek_seg m N fd d p (check_at m N p d)) f) d (file_at m N p) =
    to_barrier (file_sem ids k fd part) (f (check_at m N (Suc p) d)) d (file_at m N (Suc p))"
proof -
  have d: "d \<le> m" using assms(4) owner_le by simp
  have "to_barrier (file_sem ids k fd part) (finE (seek_seg m N fd d p (check_at m N p d)) f) d (file_at m N p) =
    to_barrier (file_sem ids k fd part) (f (check_at m N p d)) d
      \<lparr>content = content (file_at m N p) @ line m d, pos = length (content (file_at m N p) @ line m d)\<rparr>"
    unfolding seek_seg_write [OF assms(3,4)]
    by (rule write_turn_runs [OF assms(1)])
      (use d assms(2,3) rejects_line [OF d assms(2)] in \<open>simp_all add: file_at_def line_props\<close>)
  moreover have "\<lparr>content = content (file_at m N p) @ line m d, pos = length (content (file_at m N p) @ line m d)\<rparr> =
      file_at m N (Suc p)"
    using assms(3,4) by (simp add: file_at_def out_Suc del: mult_Suc_right)
  moreover have "check_at m N p d = check_at m N (Suc p) d" using assms(3) by (simp add: check_at_def)
  ultimately show ?thesis by simp
qed

lemma read_at:
  assumes "partial part" "m < 10 ^ 8" "j < N * Suc m" "d = owner m j"
    and check: "check = check0 \<or> check = overwrite check0 (line m d)"
    and w: "content w = out m (N * Suc m)" "pos w = length (out m j)"
  shows "to_barrier (file_sem ids k fd part) (finE (read_turn (rejects m d) fd (line m d) check) f) d w =
    to_barrier (file_sem ids k fd part) (f (overwrite check0 (line m d))) d (w\<lparr>pos := length (out m (Suc j))\<rparr>)"
proof -
  have d: "d \<le> m" using assms(4) owner_le by simp
  have l: "length (line m d) < 128" "NUL \<notin> set (line m d)" using line_props [OF d assms(2)] by simp_all
  note c = c_str_line [OF l(2,1) check]
  have cw: "content w = out m j @ line m d @ concat (map (\<lambda>p. line m (owner m p)) [Suc j..<N * Suc m])"
    unfolding w(1) using out_prefix [of "Suc j" "N * Suc m" m] assms(3,4) by (simp add: out_Suc)
  have "to_barrier (file_sem ids k fd part) (finE (read_turn (rejects m d) fd (line m d) check) f) d w =
      to_barrier (file_sem ids k fd part) (f (overwrite check (line m d))) d (w\<lparr>pos := length (out m j @ line m d)\<rparr>)"
    by (rule read_turn_runs [OF assms(1) _ _ w(2) cw c(2)])
      (use l(1) rejects_line [OF d assms(2)] in simp_all)
  then show ?thesis by (simp add: c(1) out_Suc flip: assms(4))
qed

lemma read_phase:
  assumes "partial part" "m < 10 ^ 8" "j < N * Suc m" "d = owner m j"
  shows "to_barrier (file_sem ids k fd part)
      (finE (seek_seg m N fd d (N * Suc m + j) (check_at m N (N * Suc m + j) d)) f) d (file_at m N (N * Suc m + j)) =
    to_barrier (file_sem ids k fd part) (f (check_at m N (Suc (N * Suc m + j)) d)) d (file_at m N (Suc (N * Suc m + j)))"
proof -
  let ?c = "check_at m N (N * Suc m + j) d"
  have d: "d \<le> m" using assms(4) owner_le by simp
  have check: "?c = check0 \<or> ?c = overwrite check0 (line m d)" by (simp add: check_at_def)
  have next_check: "check_at m N (Suc (N * Suc m + j)) d = overwrite check0 (line m d)"
  proof -
    have "place m d \<le> j" using owner_place [of j m] assms(4) by simp
    then show ?thesis by (simp add: check_at_def)
  qed
  have next_file: "file_at m N (Suc (N * Suc m + j)) = \<lparr>content = out m (N * Suc m), pos = length (out m (Suc j))\<rparr>"
    by (simp add: file_at_def Suc_diff_le del: mult_Suc_right)
  show ?thesis
  proof (cases "j = 0")
    case True
    have "to_barrier (file_sem ids k fd part) (finE (read_turn (rejects m d) fd (line m d) ?c) f) d
        ((file_at m N (N * Suc m))\<lparr>pos := 0\<rparr>) =
      to_barrier (file_sem ids k fd part) (f (overwrite check0 (line m d))) d
        ((file_at m N (N * Suc m))\<lparr>pos := 0, pos := length (out m (Suc j))\<rparr>)"
      by (rule read_at [OF assms check]) (simp_all add: file_at_def True out_def)
    then show ?thesis unfolding seek_seg_read [OF assms(3,4)] using True next_check next_file
      by (simp add: finE_seqE rewind_def finE_chk chk_def env_simps file_at_def)
  next
    case False
    have "to_barrier (file_sem ids k fd part) (finE (read_turn (rejects m d) fd (line m d) ?c) f) d
        (file_at m N (N * Suc m + j)) =
      to_barrier (file_sem ids k fd part) (f (overwrite check0 (line m d))) d
        ((file_at m N (N * Suc m + j))\<lparr>pos := length (out m (Suc j))\<rparr>)"
      by (rule read_at [OF assms check]) (use False in \<open>simp_all add: file_at_def\<close>)
    then show ?thesis unfolding seek_seg_read [OF assms(3,4)] using False next_check next_file
      by (simp add: file_at_def)
  qed
qed

section \<open>The whole program\<close>

lemma to_barrier_for:
  assumes "\<And>j (g :: 's \<Rightarrow> int prog). to_barrier sem (finE (body j s) g) i w = to_barrier sem (g s) i w"
  shows "to_barrier sem (finE (for_range j k body s) (f :: 's \<Rightarrow> int prog)) i w = to_barrier sem (f s) i w"
  by (induction k arbitrary: j) (simp_all add: finE_seqE assms)

lemma quiet_waits_file: "quiet_run (file_sem ids m fd part)
    (finE (for_range j k barrier_wait_body 0) (f :: int \<Rightarrow> int prog)) i w =
    quiet_run (file_sem ids m fd part) (f 0) i w"
  by (rule quiet_for) (simp add: barrier_wait_body_def chk_def chkv_def env_simps Let_def)

definition seek_fits :: "pip_h \<Rightarrow> string list \<Rightarrow> bool" where
  "seek_fits h argv \<longleftrightarrow> 1 < length argv \<and> argv ! 1 \<noteq> ''stdin'' \<and> argv ! 1 \<noteq> ''stdout'' \<and> fits h (tl argv)"

definition seek_rounds :: "string list \<Rightarrow> nat" where
  "seek_rounds argv = nat (niters_arg argv 3 SEEK_NITERS)"

definition seek_ending :: "nat \<Rightarrow> int \<Rightarrow> tid \<Rightarrow> string \<Rightarrow> int prog" where
  "seek_ending m fd i check =
     (if i = m then finE (for_range 0 m barrier_wait_body 0) (\<lambda>extval. seek_end (fd, extval))
      else seek_end (fd, 0))"

lemma seek_rounds: "0 < seek_rounds argv" "int (seek_rounds argv) = niters_arg argv 3 SEEK_NITERS"
proof -
  have "0 < niters_arg argv 3 SEEK_NITERS" by (rule niters_arg_pos) (simp add: SEEK_NITERS_def)
  then show "0 < seek_rounds argv" "int (seek_rounds argv) = niters_arg argv 3 SEEK_NITERS"
    by (simp_all add: seek_rounds_def)
qed

lemma seek_chain:
  assumes "i \<le> m" "0 < N"
  shows "finE (turns (int m) (int N) (int (place m i))
        (sync_turn (rejects m i) (if i = m then EXIT_FAIL else EXIT_UNRESOLVED) fd (line m i)) x)
      (\<lambda>x. finE ((if i = m then rewind fd else skip) x)
        (\<lambda>x. finE (turns (int m) (int N) (int (place m i)) (read_turn (rejects m i) fd (line m i)) x) e)) =
    chain bwait (seek_seg m N fd i) 0 (2 * (N * Suc m)) e x"
  unfolding seek_seg_def by (rule stages_chain) (use place_props(1) assms in auto)

lemma finE_if: "finE (if b then p else q) f = (if b then finE p f else finE q f)"
  by simp

lemma roles: "rejects m m = (\<lambda>v. v < 0)" "i \<noteq> m \<Longrightarrow> rejects m i = (\<lambda>v. v \<le> 0)" "line m m = root_line"
    "i \<noteq> m \<Longrightarrow> line m i = task_line (int i)" "place m m = 0" "i \<noteq> m \<Longrightarrow> place m i = Suc i"
    "seek_ending m fd m = (\<lambda>_. finE (for_range 0 m barrier_wait_body 0) (\<lambda>extval. seek_end (fd, extval)))"
    "i \<noteq> m \<Longrightarrow> seek_ending m fd i = (\<lambda>_. seek_end (fd, 0))"
  by (auto simp: rejects_def line_def place_def seek_ending_def fun_eq_iff)

lemma seek_segmented:
  assumes bar: "barrier (Suc m) rel good" and m: "m < 10 ^ 8" and part: "partial part" and fd: "0 \<le> fd"
    and args: "seek_fits h argv"
  shows "segmented (Suc m) rel good
    (file_sem (\<lambda>i. if i = m then PIPID_ROOT h else int i) (int m) fd part)
    (file_idle (\<lambda>i. if i = m then PIPID_ROOT h else int i) (int m) fd) bwait
    (seek_seg m (seek_rounds argv) fd) (2 * (seek_rounds argv * Suc m)) (check_at m (seek_rounds argv))
    (\<lambda>p. Some (owner m p)) (file_at m (seek_rounds argv)) (seek_ending m fd) (\<lambda>_. 0) (\<lambda>_. seek_main h argv)"
    (is "segmented _ _ _ ?sem ?idle _ ?sg ?K ?st ?writer ?wst ?ending _ ?prog")
proof (rule segmented.intro [OF bar], unfold_locales)
  note N = seek_rounds [of argv]
  have mode: "seek_mode (argv ! Suc 0) = File (argv ! Suc 0)" and len: "Suc 0 < length argv"
    and limit: "arg_int (tl argv) 1 0 \<le> NTASKS h" and root: "PIPID_ROOT h < 0"
    using args by (simp_all add: seek_fits_def seek_mode_def fits_def)
  have start: "?st 0 i = check0" for i by (simp add: check_at_def)
  show "0 < ?K" using N(1) by simp
  show "quiet_run ?sem (?prog i) i (?wst 0) = quiet_run ?sem (chain bwait (?sg i) 0 ?K (?ending i) (?st 0 i)) i (?wst 0)"
    if "?writer 0 = None" "i < Suc m" for i using that by simp
  show "to_barrier ?sem (?prog d) d (?wst 0) = to_barrier ?sem (chain bwait (?sg d) 0 ?K (?ending d) (?st 0 d)) d (?wst 0)"
    if "?writer 0 = Some d" for d
  proof -
    have d: "d = m" using that by (simp add: owner_def)
    have empty: "?wst 0 = \<lparr>content = [], pos = 0\<rparr>" by (simp add: file_at_def out_def)
    have spawns: "to_barrier ?sem (finE (for_range j k (spawn_self h prog x) ()) f) i w = to_barrier ?sem (f ()) i w"
      for j k prog x i w and f :: "unit \<Rightarrow> int prog"
      by (rule to_barrier_for) (simp add: spawn_self_def chk_def env_simps)
    show ?thesis
      unfolding start seek_chain [OF eq_refl [OF d] N(1), where fd = fd and x = check0 and e = "?ending d", symmetric]
      using limit fd len unfolding empty d
      by (simp add: seek_main_def mode ntasks_guard_def env_simps Let_def seek_root_def seek_root_file_def chk_def
          finE_seqE seqE_assoc spawns rewind_def finE_if roles N(2) cong: if_cong)
  qed
  show "idle_run ?idle (?prog i) i = idle_run ?idle (chain bwait (?sg i) 0 ?K (?ending i) (?st 0 i)) i"
    if "?writer 0 = Some d" "i < Suc m" "i \<noteq> d" for d i
  proof -
    have i: "i \<le> m" "i \<noteq> m" using that by (simp_all add: owner_def)
    have "int i \<noteq> PIPID_ROOT h" using root by simp
    then show ?thesis
      unfolding start seek_chain [OF i(1) N(1), where fd = fd and x = check0 and e = "?ending i", symmetric]
      using limit len i(2)
      by (simp add: seek_main_def mode ntasks_guard_def env_simps Let_def seek_task_def chk_def
          finE_seqE seqE_assoc roles N(2) add.commute)
  qed
  show "?sem i c w = Some (r, w)" if "?idle i c = Some r" for i c r w
    using that by (rule file_idle)
  show "quiet_run ?sem (finE (?sg i p (?st p i)) f) i (?wst p) = quiet_run ?sem (f (?st (Suc p) i)) i (?wst p)"
    if "p < ?K" "?writer p = None" "i < Suc m" for p i f using that by simp
  show "?wst (Suc p) = ?wst p" if "p < ?K" "?writer p = None" for p using that by simp
  show "d < Suc m" if "p < ?K" "?writer p = Some d" for p d
    using that owner_le [of m p] by (simp add: less_Suc_eq_le)
  show "to_barrier ?sem (finE (?sg d p (?st p d)) f) d (?wst p) = to_barrier ?sem (f (?st (Suc p) d)) d (?wst (Suc p))"
    if p: "p < ?K" "?writer p = Some d" for p d f
  proof (cases "p < seek_rounds argv * Suc m")
    case True
    show ?thesis by (rule write_phase [OF part m True]) (use p(2) in simp)
  next
    case False
    then obtain j where j: "p = seek_rounds argv * Suc m + j" by (metis le_Suc_ex not_less)
    have "j < seek_rounds argv * Suc m" using p(1) unfolding j by linarith
    moreover have "d = owner m j" using p(2) out_shift unfolding j by simp
    ultimately show ?thesis unfolding j by (rule read_phase [OF part m])
  qed
  show "idle_run ?idle (finE (?sg i p (?st p i)) f) i = idle_run ?idle (f (?st (Suc p) i)) i"
    if "p < ?K" "?writer p = Some d" "i < Suc m" "i \<noteq> d" for p d i f
    using that by (simp add: seek_seg_idle check_at_idle)
  show "quiet_run ?sem (?ending i (?st ?K i)) i (?wst ?K) = Some (Ret 0)" if "i < Suc m" for i
    by (cases "i = m") (simp_all add: roles quiet_waits_file seek_end_def chk_def env_simps leave_def)
qed (simp_all add: bwait_props)

section \<open>What the file holds in the end\<close>

lemma owners: "map (\<lambda>p. owner m (k * Suc m + p)) [0..<Suc m] = m # [0..<m]"
proof -
  have "map (\<lambda>p. owner m (k * Suc m + p)) [0..<Suc m] = map (owner m) [0..<Suc m]"
    by (rule map_cong [OF refl out_shift])
  also have "\<dots> = owner m 0 # map (owner m) (map Suc [0..<m])"
    by (simp only: map_Suc_upt upt_conv_Cons [OF zero_less_Suc] list.map)
  also have "map (owner m) (map Suc [0..<m]) = [0..<m]"
    unfolding map_map by (rule map_idI) (simp add: owner_def)
  finally show ?thesis by (simp add: owner_def)
qed

text \<open>The lines of one round.\<close>

definition round_lines :: "nat \<Rightarrow> string" where
  "round_lines m = concat (map (line m) (m # [0..<m]))"

lemma out_rounds: "out m (N * Suc m) = concat (replicate N (round_lines m))"
proof (induction N)
  case 0
  then show ?case by (simp add: out_def)
next
  case (Suc N)
  have up: "[0..<Suc N * Suc m] = [0..<N * Suc m] @ map (\<lambda>p. N * Suc m + p) [0..<Suc m]"
    using upt_add_eq_append [of 0 "N * Suc m" "Suc m"] map_add_upt [of "N * Suc m" "Suc m"]
    by (simp add: add.commute add.left_commute)
  have "map (\<lambda>p. line m (owner m p)) (map (\<lambda>p. N * Suc m + p) [0..<Suc m]) = map (line m) (m # [0..<m])"
    using arg_cong [OF owners [of m N], of "map (line m)"] by (simp only: map_map comp_def)
  then have "out m (Suc N * Suc m) = out m (N * Suc m) @ round_lines m"
    by (simp only: out_def up map_append concat_append round_lines_def)
  also have "\<dots> = concat (replicate (Suc N) (round_lines m))"
    unfolding Suc.IH replicate_Suc replicate_append_same [symmetric] by simp
  finally show ?case .
qed

lemma file_end: "file_at m N (2 * (N * Suc m)) =
    \<lparr>content = concat (replicate N (round_lines m)), pos = length (concat (replicate N (round_lines m)))\<rparr>"
proof -
  have "2 * (N * Suc m) - N * Suc m = N * Suc m" by (simp only: mult_2 diff_add_inverse)
  then have "file_at m N (2 * (N * Suc m)) = \<lparr>content = out m (N * Suc m), pos = length (out m (N * Suc m))\<rparr>"
    by (cases "2 * (N * Suc m) \<le> N * Suc m") (auto simp: file_at_def simp del: mult_Suc_right)
  then show ?thesis by (simp only: out_rounds)
qed

text \<open>C3: \<open>seek\<close> with a file, for any number of tasks, any split of the transfers and any
interleaving: when nothing can go on, the root and every task have returned 0, and the file holds
as many rounds as there are iterations, each the root's line followed by the lines of the tasks in
the order of their PiP IDs. No line is torn or out of its place, no read sees another's line.\<close>

theorem seek_file_correct:
  assumes "barrier (Suc m) rel good" "m < 10 ^ 8" "partial part" "0 \<le> fd" "seek_fits h argv"
    and "steps (Suc m) (file_sem (\<lambda>i. if i = m then PIPID_ROOT h else int i) (int m) fd part) rel
      (\<lambda>_. seek_main h argv, \<lparr>content = [], pos = 0\<rparr>) c"
    and "\<not> (\<exists>c'. step (Suc m) (file_sem (\<lambda>i. if i = m then PIPID_ROOT h else int i) (int m) fd part) rel c c')"
  shows "finished (Suc m) (\<lambda>_. 0) c \<and>
    content (snd c) = concat (replicate (nat (niters_arg argv 3 SEEK_NITERS)) (round_lines m))"
proof -
  have w: "file_at m (seek_rounds argv) 0 = \<lparr>content = [], pos = 0\<rparr>" by (simp add: file_at_def out_def)
  note S = seek_segmented [OF assms(1-5)]
  from segmented.segments_end [OF S, unfolded w, OF assms(6,7)] show ?thesis
    by (simp only: file_end open_file.simps seek_rounds_def simp_thms)
qed

text \<open>\<open>seek\<close> with a file does not run for ever.\<close>

theorem seek_file_terminates:
  assumes "barrier (Suc m) rel good" "m < 10 ^ 8" "partial part" "0 \<le> fd" "seek_fits h argv"
  shows "Wellfounded.accp (\<lambda>x y. step (Suc m)
      (file_sem (\<lambda>i. if i = m then PIPID_ROOT h else int i) (int m) fd part) rel y x)
    (\<lambda>_. seek_main h argv, \<lparr>content = [], pos = 0\<rparr>)"
proof -
  have w: "file_at m (seek_rounds argv) 0 = \<lparr>content = [], pos = 0\<rparr>" by (simp add: file_at_def out_def)
  show ?thesis using segmented.segments_terminate [OF seek_segmented [OF assms]] unfolding w .
qed

definition seek_argv :: "string list" where "seek_argv = [''seek'', ''file'', ''3'', ''2'']"

lemma seek_argv: "seek_fits h_sample seek_argv" "niters_arg seek_argv 3 SEEK_NITERS = 2"
proof -
  have "atoi32 ''3'' = 3" "atoi32 ''2'' = 2" by (simp_all add: strtol_eval)
  then show "seek_fits h_sample seek_argv" "niters_arg seek_argv 3 SEEK_NITERS = 2"
    by (simp_all add: seek_argv_def seek_fits_def fits_sample niters_arg_def arg_int_def Let_def)
qed

lemma halves: "partial (\<lambda>n. (n + 1) div 2)"
  by (auto simp: partial_def)

lemma pbar4: "barrier (Suc 3) (pthread_release (Suc 3)) pthread_good"
  by (rule pthread_barrier) simp

text \<open>The contract on the program itself, with the POSIX barrier and halved transfers.\<close>

interpretation seek_turns: segmented "Suc (min m 99999999)" "pthread_release (Suc (min m 99999999))" pthread_good
    "file_sem (\<lambda>i. if i = min m 99999999 then PIPID_ROOT h_sample else int i) (int (min m 99999999)) (int fd) (\<lambda>n. (n + 1) div 2)"
    "file_idle (\<lambda>i. if i = min m 99999999 then PIPID_ROOT h_sample else int i) (int (min m 99999999)) (int fd)" bwait
    "seek_seg (min m 99999999) (seek_rounds seek_argv) (int fd)" "2 * (seek_rounds seek_argv * Suc (min m 99999999))"
    "check_at (min m 99999999) (seek_rounds seek_argv)" "\<lambda>p. Some (owner (min m 99999999) p)"
    "file_at (min m 99999999) (seek_rounds seek_argv)" "seek_ending (min m 99999999) (int fd)" "\<lambda>_. 0"
    "\<lambda>_. seek_main h_sample seek_argv" for m fd
  by (rule seek_segmented [OF pthread_barrier _ halves _ seek_argv(1)]) simp_all

lemma seek_file_correct_witness:
  "\<exists>c. steps (Suc 3) (file_sem (\<lambda>i. if i = 3 then PIPID_ROOT h_sample else int i) (int 3) 5 (\<lambda>n. (n + 1) div 2))
       (pthread_release (Suc 3)) (\<lambda>_. seek_main h_sample seek_argv, \<lparr>content = [], pos = 0\<rparr>) c \<and>
     finished (Suc 3) (\<lambda>_. 0) c \<and>
     content (snd c) = concat (replicate 2 ''    ROOT       0       1       2'')"
proof -
  have p: "(3::nat) < 10 ^ 8" "0 \<le> (5::int)" by simp_all
  from ends_somewhere [OF seek_turns.segments_terminate [where m = 3 and fd = 5]]
  obtain c where c: "steps (Suc 3) (file_sem (\<lambda>i. if i = 3 then PIPID_ROOT h_sample else int i) (int 3) 5 (\<lambda>n. (n + 1) div 2))
       (pthread_release (Suc 3)) (\<lambda>_. seek_main h_sample seek_argv, \<lparr>content = [], pos = 0\<rparr>) c"
    "\<not> (\<exists>c'. step (Suc 3) (file_sem (\<lambda>i. if i = 3 then PIPID_ROOT h_sample else int i) (int 3) 5 (\<lambda>n. (n + 1) div 2))
       (pthread_release (Suc 3)) c c')" by (auto simp: file_at_def out_def min_def)
  have "round_lines 3 = ''    ROOT       0       1       2''"
    by code_simp
  then show ?thesis
    using seek_file_correct [OF pbar4 p(1) halves p(2) seek_argv(1) c] c(1)
    by (intro exI [of _ c]) (simp add: seek_argv numeral_2_eq_2)
qed

lemma seek_file_terminates_witness:
  "Wellfounded.accp (\<lambda>x y. step (Suc 3)
      (file_sem (\<lambda>i. if i = 3 then PIPID_ROOT h_sample else int i) (int 3) 5 (\<lambda>n. (n + 1) div 2))
      (pthread_release (Suc 3)) y x)
    (\<lambda>_. seek_main h_sample seek_argv, \<lparr>content = [], pos = 0\<rparr>)"
  by (rule seek_file_terminates [OF pbar4 _ halves _ seek_argv(1)]) simp_all

end
