(* ===== verification/InitTests.thy ===== *)
theory InitTests
  imports Args
begin

text \<open>
  \<open>basics/pip_init.c\<close>: a table of tests of \<open>pip_init\<close>, each a function, of which the program runs
  the one its first argument names. The options and the names of the modes are constants of
  \<open>pip.h\<close>: the record \<open>pip_modes\<close>, of which \<open>MODE_GOT\<close> is None where the header does not define it.
\<close>

record pip_modes =
  MODE_PTHREAD :: int
  MODE_PROCESS :: int
  MODE_PRELOAD :: int
  MODE_PIPCLONE :: int
  MODE_GOT :: "int option"
  VALID_OPTS :: int
  ENV_MODE :: string
  ENV_THREAD :: string
  ENV_PTHREAD :: string
  ENV_PROCESS :: string
  ENV_PRELOAD :: string
  ENV_PIPCLONE :: string
  ENV_GOT :: string

section \<open>The tests\<close>

abbreviation failed :: "int prog" where "failed \<equiv> Ret EXIT_FAIL"

abbreviation init_all :: "int \<Rightarrow> int \<Rightarrow> call" where
  "init_all ntasks opts \<equiv> Pip (Pip_init True (Some ntasks) True opts)"

text \<open>\<open>strcasecmp\<close> as a checked value: 1 stands for any value that is not 0.\<close>

definition strcasecmp :: "string \<Rightarrow> string \<Rightarrow> int" where
  "strcasecmp a b = c_bool (\<not> strcaseeq a b)"

definition test_pip_init :: "pip_h \<Rightarrow> int prog" where
  "test_pip_init h =
     (if VERSION_MAJOR h > 1 then
        chk (Pip Pip_is_initialized) (\<lambda>r. rv r \<noteq> 0) failed (\<lambda>_.
        chk (init_all (NTASKS h) 0) (\<lambda>r. rv r \<noteq> 0) failed (\<lambda>_.
        chk (Pip Pip_is_initialized) (\<lambda>r. rv r = 0) failed (\<lambda>_. Ret EXIT_PASS)))
      else Ret EXIT_PASS)"

definition mode_check :: "pip_modes \<Rightarrow> string \<Rightarrow> int \<Rightarrow> int prog" where
  "mode_check k env mode =
     (if mode = MODE_PTHREAD k then
        chkv (c_bool (strcasecmp env (ENV_THREAD k) = 0 \<or> strcasecmp env (ENV_PTHREAD k) = 0)) (\<lambda>v. v = 0)
          failed (Ret EXIT_PASS)
      else if mode = MODE_PRELOAD k then
        chkv (strcasecmp env (ENV_PRELOAD k)) (\<lambda>v. v \<noteq> 0) failed (Ret EXIT_PASS)
      else if mode = MODE_PIPCLONE k then
        chkv (strcasecmp env (ENV_PIPCLONE k)) (\<lambda>v. v \<noteq> 0) failed (Ret EXIT_PASS)
      else if MODE_GOT k = Some mode then
        chkv (strcasecmp env (ENV_GOT k)) (\<lambda>v. v \<noteq> 0) failed (Ret EXIT_PASS)
      else failed)"

definition test_pip_init_null :: "pip_modes \<Rightarrow> int prog" where
  "test_pip_init_null k =
     Call (Sys (Getenv (ENV_MODE k))) (\<lambda>env.
     chk (Pip (Pip_init False None False 0)) (\<lambda>r. rv r \<noteq> 0) failed (\<lambda>_.
     case strv env of
       None \<Rightarrow> Ret EXIT_PASS
     | Some env \<Rightarrow>
         chk (Pip (Pip_get_mode True)) (\<lambda>r. rv r \<noteq> 0) failed (\<lambda>r. mode_check k env (stored (o1 r) 0))))"

definition test_pip_init_preload :: "pip_h \<Rightarrow> pip_modes \<Rightarrow> int prog" where
  "test_pip_init_preload h k =
     Call (Sys (Getenv (ENV_MODE k))) (\<lambda>env.
       if (case strv env of None \<Rightarrow> True | Some s \<Rightarrow> strcasecmp s (ENV_PRELOAD k) = 0)
       then chk (init_all (NTASKS h) (MODE_PRELOAD k)) (\<lambda>r. rv r \<noteq> 0) failed (\<lambda>_. Ret EXIT_PASS)
       else chk (init_all (NTASKS h) (MODE_PRELOAD k)) (\<lambda>r. rv r \<noteq> EPERM) failed (\<lambda>_. Ret EXIT_PASS))"

definition test_pip_init_got :: "pip_h \<Rightarrow> pip_modes \<Rightarrow> int prog" where
  "test_pip_init_got h k =
     (case MODE_GOT k of
        None \<Rightarrow> Ret EXIT_PASS
      | Some got \<Rightarrow> Call (Sys (Getenv (ENV_MODE k))) (\<lambda>env.
          if (case strv env of None \<Rightarrow> False | Some s \<Rightarrow> strcasecmp s (ENV_PRELOAD k) = 0)
          then chk (init_all (NTASKS h) got) (\<lambda>r. rv r \<noteq> EPERM) failed (\<lambda>_. Ret EXIT_PASS)
          else chk (init_all (NTASKS h) got) (\<lambda>r. rv r \<noteq> 0) failed (\<lambda>_. Ret EXIT_PASS)))"

definition test_twice :: "pip_h \<Rightarrow> int prog" where
  "test_twice h =
     chk (init_all (NTASKS h) 0) (\<lambda>r. rv r \<noteq> 0) failed (\<lambda>_.
     chk (init_all (NTASKS h) 0) (\<lambda>r. rv r \<noteq> EBUSY) failed (\<lambda>_. Ret EXIT_PASS))"

definition test_ntask_is_zero :: "int prog" where
  "test_ntask_is_zero = chk (init_all 0 0) (\<lambda>r. rv r \<noteq> EINVAL) failed (\<lambda>_. Ret EXIT_PASS)"

definition test_ntask_too_big :: "pip_h \<Rightarrow> int prog" where
  "test_ntask_too_big h =
     chk (init_all (NTASKS_MAX h + 1) 0) (\<lambda>r. rv r \<noteq> EOVERFLOW) failed (\<lambda>_. Ret EXIT_PASS)"

definition test_invalid_opts :: "pip_modes \<Rightarrow> int prog" where
  "test_invalid_opts k =
     chk (init_all 0 (NOT (VALID_OPTS k))) (\<lambda>r. rv r \<noteq> EINVAL) failed (\<lambda>_. Ret EXIT_PASS)"

definition test_both_pthread_process :: "pip_modes \<Rightarrow> int prog" where
  "test_both_pthread_process k =
     chk (init_all 0 (MODE_PTHREAD k OR MODE_PROCESS k)) (\<lambda>r. rv r \<noteq> EINVAL) failed (\<lambda>_. Ret EXIT_PASS)"

definition test_both_preload_clone :: "pip_modes \<Rightarrow> int prog" where
  "test_both_preload_clone k =
     chk (init_all 0 (MODE_PRELOAD k OR MODE_PIPCLONE k)) (\<lambda>r. rv r \<noteq> EINVAL) failed (\<lambda>_. Ret EXIT_PASS)"

definition test_pip_task_unset :: "pip_h \<Rightarrow> string list \<Rightarrow> int prog" where
  "test_pip_task_unset h argv =
     chk (init_all 1 0) (\<lambda>r. rv r \<noteq> 0) failed (\<lambda>r.
     finE (if stored (o1 r) 0 = PIPID_ROOT h then
             chk (Pip (Pip_spawn (Some (argv ! 0)) (CPUCORE_ASIS h) (Some 0) None)) (\<lambda>r. rv r \<noteq> 0)
               (Ret (Inl EXIT_FAIL)) (\<lambda>_.
             chk (Pip (Pip_wait 0 False)) (\<lambda>r. rv r \<noteq> 0) (Ret (Inl EXIT_FAIL)) (\<lambda>_. Ret (Inr ())))
           else Ret (Inr ())) (\<lambda>_.
     chk (Pip Pip_fin) (\<lambda>r. rv r \<noteq> 0) failed (\<lambda>_. Ret EXIT_PASS)))"

definition test_pip_child_task :: "pip_h \<Rightarrow> int prog" where
  "test_pip_child_task h =
     chk (Pip (Pip_init True (Some 10) False 0)) (\<lambda>r. rv r \<noteq> 0) failed (\<lambda>r.
     let pipid = stored (o1 r) 0; ntasks = stored (o2 r) 10 in
     chkv (c_bool (pipid = PIPID_ROOT h \<or> pipid \<ge> 0 \<and> pipid < ntasks)) (\<lambda>v. v = 0) failed
      (chk (Pip Pip_fin) (\<lambda>r. rv r \<noteq> 0) failed (\<lambda>_. Ret EXIT_PASS)))"

section \<open>The table and the program\<close>

definition init_tab :: "pip_h \<Rightarrow> pip_modes \<Rightarrow> string list \<Rightarrow> (string \<times> int prog) list" where
  "init_tab h k argv =
     [(''null'', test_pip_init_null k),
      (''preload'', test_pip_init_preload h k),
      (''got'', test_pip_init_got h k),
      (''twice'', test_twice h),
      (''ntask_is_zero'', test_ntask_is_zero),
      (''ntask_too_big'', test_ntask_too_big h),
      (''invalid_opts'', test_invalid_opts k),
      (''both_pthread_process'', test_both_pthread_process k),
      (''both_preload_clone'', test_both_preload_clone k),
      (''pip_task_unset'', test_pip_task_unset h argv),
      (''pip_child_task'', test_pip_child_task h)]"

primrec init_search :: "(string \<times> int prog) list \<Rightarrow> string \<Rightarrow> int prog" where
  "init_search [] test = Ret EXIT_FAIL"
| "init_search (nf # tab) test =
     (if fst nf = test then
        bind (snd nf) (\<lambda>ex. Call (Pip (Pip_exit ex)) (\<lambda>_. Ret EXIT_FAIL))
      else init_search tab test)"

definition pip_init_main :: "pip_h \<Rightarrow> pip_modes \<Rightarrow> string list \<Rightarrow> int prog" where
  "pip_init_main h k argv =
     (if length argv = 1 then
        bind (test_pip_init h) (\<lambda>ex. Call (Pip (Pip_exit ex)) (\<lambda>_. Ret EXIT_FAIL))
      else init_search (init_tab h k argv) (argv ! 1))"

section \<open>What the program reports\<close>

lemma init_search: "init_search tab test =
    (case map_of tab test of
       None \<Rightarrow> Ret EXIT_FAIL
     | Some f \<Rightarrow> bind f (\<lambda>ex. Call (Pip (Pip_exit ex)) (\<lambda>_. Ret EXIT_FAIL)))"
  by (induction tab) auto

text \<open>C36: given a name, \<open>pip\_init\<close> runs the test of that name alone and ends in \<open>pip\_exit\<close> with its
result, as long as \<open>pip\_exit\<close> does not return; an unknown name makes no call and is EXIT\_FAIL.\<close>

theorem pip_init_dispatch:
  assumes "length argv \<noteq> 1" "\<And>w ex. fst (e w (Pip (Pip_exit ex))) = None"
  shows "outcome (pip_init_main h k argv) e w =
    (case map_of (init_tab h k argv) (argv ! 1) of
       None \<Rightarrow> Returned EXIT_FAIL
     | Some test \<Rightarrow> (case outcome test e w of
           Returned ex \<Rightarrow> NoReturn (Pip (Pip_exit ex))
         | Halted h \<Rightarrow> Halted h | NoReturn c \<Rightarrow> NoReturn c))
   \<and> trace (pip_init_main h k argv) e w =
    (case map_of (init_tab h k argv) (argv ! 1) of None \<Rightarrow> [] | Some test \<Rightarrow> trace test e w)"
proof -
  have exit: "\<exists>w'. e w (Pip (Pip_exit ex)) = (None, w')" for w ex
    using assms(2) [of w ex] by (metis prod.collapse)
  have "outcome (Call (Pip (Pip_exit ex)) g) e w = NoReturn (Pip (Pip_exit ex))"
      "trace (Call (Pip (Pip_exit ex)) g) e w = []" for w ex and g :: "resp \<Rightarrow> int prog"
    using exit [of w ex] by auto
  then show ?thesis
    using assms(1) by (simp add: pip_init_main_def init_search run_parts del: outcome_simps(3) trace_simps(3)
        split: option.splits outcome.splits)
qed

definition k_sample :: pip_modes where
  "k_sample = \<lparr>MODE_PTHREAD = 0x1000, MODE_PROCESS = 0xE00, MODE_PRELOAD = 0x200, MODE_PIPCLONE = 0x400,
     MODE_GOT = Some 0x800, VALID_OPTS = 0x1E00, ENV_MODE = ''PIP_MODE'', ENV_THREAD = ''thread'',
     ENV_PTHREAD = ''pthread'', ENV_PROCESS = ''process'', ENV_PRELOAD = ''process:preload'',
     ENV_PIPCLONE = ''process:pipclone'', ENV_GOT = ''process:got''\<rparr>"

definition e_exits :: "unit env" where
  "e_exits w c = (case c of Pip (Pip_exit _) \<Rightarrow> (None, w) | _ \<Rightarrow> (Some (ok\<lparr>rv := EOVERFLOW\<rparr>), w))"

lemma pip_init_dispatch_witness:
  "outcome (pip_init_main h_sample k_sample [''pip_init'', ''ntask_too_big'']) e_exits () =
     NoReturn (Pip (Pip_exit EXIT_PASS))"
proof -
  have "outcome (test_ntask_too_big h_sample) e_exits () = Returned EXIT_PASS"
    by (simp add: test_ntask_too_big_def e_exits_def chk_def)
  moreover have "fst (e_exits w (Pip (Pip_exit ex))) = None" for w ex by (simp add: e_exits_def)
  ultimately show ?thesis
    using pip_init_dispatch [of "[''pip_init'', ''ntask_too_big'']" e_exits h_sample k_sample "()"]
    by (simp add: init_tab_def)
qed

text \<open>The values \<open>pip\_init\<close> returned in a run, and those the tests of the table ask for.\<close>

fun inits :: "trace \<Rightarrow> int list" where
  "inits [] = []"
| "inits ((Pip (Pip_init a b c d), r) # t) = rv r # inits t"
| "inits (_ # t) = inits t"

definition expected :: "(string \<times> int list) list" where
  "expected =
     [(''null'', [0]), (''twice'', [0, EBUSY]), (''ntask_is_zero'', [EINVAL]),
      (''ntask_too_big'', [EOVERFLOW]), (''invalid_opts'', [EINVAL]),
      (''both_pthread_process'', [EINVAL]), (''both_preload_clone'', [EINVAL]),
      (''pip_task_unset'', [0]), (''pip_child_task'', [0])]"

lemma inits_append: "inits (s @ t) = inits s @ inits t"
  by (induction s rule: inits.induct) auto

definition asks :: "int list \<Rightarrow> int prog \<Rightarrow> bool" where
  "asks codes test \<longleftrightarrow> wpt any_answer (\<lambda>t v. v = EXIT_PASS \<longrightarrow> inits t = codes) [] test"

lemma asks_expected: "list_all (\<lambda>(name, codes).
    case map_of (init_tab h k argv) name of None \<Rightarrow> False | Some test \<Rightarrow> asks codes test) expected"
  by (simp add: expected_def init_tab_def asks_def exit_defs test_pip_init_null_def mode_check_def test_twice_def
      test_ntask_is_zero_def test_ntask_too_big_def test_invalid_opts_def test_both_pthread_process_def
      test_both_preload_clone_def test_pip_task_unset_def test_pip_child_task_def wpt_simps Let_def split: option.splits)

text \<open>A test of the table that passes has seen \<open>pip\_init\<close> return the values it stands for, and
those only: 0 and then EBUSY for "twice", EOVERFLOW for "ntask\_too\_big", and so on.\<close>

theorem pip_init_tests_sound:
  assumes "(name, codes) \<in> set expected"
    and "map_of (init_tab h k argv) name = Some test"
    and "outcome test e w = Returned EXIT_PASS"
  shows "inits (trace test e w) = codes"
proof -
  have "asks codes test"
    using asks_expected [of h k argv] assms(1,2) by (auto simp: list_all_iff)
  from wpt_outcome [OF this [unfolded asks_def] answers_any assms(3)] show ?thesis by simp
qed

lemma pip_init_tests_sound_witness:
  "inits (trace (test_ntask_too_big h_sample) e_exits ()) = [EOVERFLOW]"
  by (rule pip_init_tests_sound [where name = "''ntask_too_big''" and h = h_sample and argv = "[]"])
    (simp_all add: expected_def init_tab_def test_ntask_too_big_def e_exits_def chk_def)

text \<open>The three tests of the options also ask for no tasks at all, so a library that answers
EINVAL to that passes them whatever it makes of the options.\<close>

theorem option_tests_blind:
  assumes "total e" "\<And>w opts. rv (answer e w (init_all 0 opts)) = EINVAL"
  shows "\<forall>test \<in> {test_invalid_opts k, test_both_pthread_process k, test_both_preload_clone k}.
     outcome test e w = Returned EXIT_PASS"
  using assms(2)
  by (simp add: test_invalid_opts_def test_both_pthread_process_def test_both_preload_clone_def chk_def
      total_simps [OF assms(1)] del: outcome_simps(3))

text \<open>A library that looks at the number of tasks only.\<close>

definition e_careless :: "unit env" where
  "e_careless = reply (\<lambda>c. case c of
     Pip (Pip_init _ (Some n) _ _) \<Rightarrow> ok\<lparr>rv := (if n = 0 then EINVAL else 0)\<rparr> | _ \<Rightarrow> ok)"

lemma option_tests_blind_witness:
  "outcome (test_invalid_opts k_sample) e_careless () = Returned EXIT_PASS \<and>
   rv (answer e_careless () (init_all 1 (NOT (VALID_OPTS k_sample)))) = 0"
proof -
  have "total e_careless" by (simp add: e_careless_def total_def)
  then show ?thesis
    using option_tests_blind [of e_careless k_sample "()"] by (simp add: e_careless_def answer_def)
qed

end
