(* ===== verification/ApiTests.thy ===== *)
theory ApiTests
  imports InitTests Plans
begin

text \<open>
  \<open>basics/pip_spawn.c\<close>, \<open>basics/pip_task_spawn.c\<close> and \<open>basics/pip_misc.c\<close>: tests that call the library
  with wrong and right arguments, before and after \<open>pip_init\<close>, and compare what it returns with the
  error they expect. Both variants of the code, for version 1 and for later ones, are modelled:
  the version is a field of \<open>pip_h\<close>.
\<close>

text \<open>\<open>ntasks = NTASKS\<close>, lowered to the variable NTASKS of the environment.\<close>

definition ntasks_capped :: "pip_h \<Rightarrow> (int \<Rightarrow> int prog) \<Rightarrow> int prog" where
  "ntasks_capped h k =
     Call (Sys (Getenv ''NTASKS'')) (\<lambda>r.
       case strv r of
         None \<Rightarrow> k (NTASKS h)
       | Some env \<Rightarrow> let ntenv = atoi32 env in k (if NTASKS h > ntenv then ntenv else NTASKS h))"

section \<open>pip\_spawn\<close>

abbreviation spawn_as :: "string option \<Rightarrow> int \<Rightarrow> int \<Rightarrow> call" where
  "spawn_as prog core pipid \<equiv> Pip (Pip_spawn prog core (Some pipid) None)"

definition spawn_task :: "pip_h \<Rightarrow> string \<Rightarrow> int prog" where
  "spawn_task h prog =
     chk (spawn_as (Some prog) (CPUCORE_ASIS h) (PIPID_ANY h)) (\<lambda>r. rv r \<noteq> EPERM) failed (\<lambda>_.
     chk (Pip Pip_fin) (\<lambda>r. rv r \<noteq> 0) failed (\<lambda>_. Ret EXIT_PASS))"

definition spawn_root :: "pip_h \<Rightarrow> string \<Rightarrow> int prog" where
  "spawn_root h prog =
     chk (spawn_as None (CPUCORE_ASIS h) (PIPID_ANY h)) (\<lambda>r. rv r \<noteq> EINVAL) failed (\<lambda>_.
     chk (spawn_as (Some prog) (- 123) (PIPID_ANY h)) (\<lambda>r. rv r \<noteq> EINVAL) failed (\<lambda>_.
     finE (if VERSION_MAJOR h > 1 then
             chk (spawn_as (Some prog) (CPUCORE_CORENO_MAX h + 1) (PIPID_ANY h)) (\<lambda>r. rv r \<noteq> EINVAL)
               (Ret (Inl EXIT_FAIL)) (\<lambda>_. Ret (Inr ()))
           else Ret (Inr ())) (\<lambda>_.
     chk (spawn_as (Some prog) (CPUCORE_ASIS h) 100000) (\<lambda>r. rv r \<noteq> EINVAL) failed (\<lambda>_.
     chk (spawn_as (Some prog) (CPUCORE_ASIS h) (- 123)) (\<lambda>r. rv r \<noteq> EINVAL) failed (\<lambda>_.
     chk (spawn_as (Some prog) (CPUCORE_ASIS h) (PIPID_MYSELF h)) (\<lambda>r. rv r \<noteq> EINVAL) failed (\<lambda>_.
     chk (spawn_as (Some prog) (CPUCORE_ASIS h) (PIPID_ANY h)) (\<lambda>r. rv r \<noteq> 0) failed (\<lambda>r.
     let pipid = stored (o1 r) (PIPID_ANY h) in
     chk (Pip (Pip_wait (- 123) True)) (\<lambda>r. rv r \<noteq> ERANGE) failed (\<lambda>r.
     let status = stored (o1 r) 0 in
     chk (Pip (Pip_wait pipid True)) (\<lambda>r. rv r \<noteq> 0) failed (\<lambda>r.
     let status = stored (o1 r) status in
       Ret (if WIFEXITED status then WEXITSTATUS status else EXIT_UNRESOLVED))))))))))"

definition pip_spawn_main :: "pip_h \<Rightarrow> string list \<Rightarrow> int prog" where
  "pip_spawn_main h argv =
     chk (spawn_as (Some (argv ! 0)) (CPUCORE_ASIS h) (PIPID_ANY h)) (\<lambda>r. rv r \<noteq> EPERM) failed (\<lambda>r.
     let pipid = stored (o1 r) (PIPID_ANY h) in
     ntasks_capped h (\<lambda>ntasks.
     chk (Pip (Pip_init True (Some ntasks) False 0)) (\<lambda>r. rv r \<noteq> 0) failed (\<lambda>r.
     let pipid = stored (o1 r) pipid in
     if VERSION_MAJOR h > 1 then
       Call (Pip Pip_isa_task) (\<lambda>r.
         if rv r \<noteq> 0 then spawn_task h (argv ! 0) else spawn_root h (argv ! 0))
     else if pipid \<noteq> PIPID_ROOT h then spawn_task h (argv ! 0) else spawn_root h (argv ! 0))))"

section \<open>pip\_task\_spawn\<close>

text \<open>The function a task is started with: \<open>arg\<close> is the number its argument points to.\<close>

definition static_user_func :: "pip_h \<Rightarrow> int \<Rightarrow> int prog" where
  "static_user_func h arg =
     chk (Pip (Pip_get_pipid True)) (\<lambda>r. if VERSION_MAJOR h > 1 then rv r \<noteq> 0 else rv r \<noteq> EPERM) (Ret 1) (\<lambda>r.
     let pipid = stored (o1 r) (- 100) in
     chk (Pip (Pip_init False None False 0)) (\<lambda>r. rv r \<noteq> 0) (Ret 1) (\<lambda>_.
     chk (Pip (Pip_get_pipid True)) (\<lambda>r. rv r \<noteq> 0) (Ret 1) (\<lambda>r.
     let pipid = stored (o1 r) pipid in
     chkv (c_bool (pipid \<noteq> arg)) (\<lambda>v. v \<noteq> 0) (Ret 1) (Ret 0))))"

definition global_user_func :: "pip_h \<Rightarrow> int \<Rightarrow> int prog" where
  "global_user_func h arg = static_user_func h arg"

abbreviation task_spawn :: "pip_h \<Rightarrow> spawn_program option \<Rightarrow> int \<Rightarrow> call" where
  "task_spawn h prog pipid \<equiv> Pip (Pip_task_spawn prog (CPUCORE_ASIS h) (Some pipid))"

text \<open>Linux: ENOEXEC. \<open>arg0\<close> is what the uninitialised \<open>arg\<close> holds until 8 is stored in it.\<close>

definition ENOEXEC :: int where "ENOEXEC = 8"

text \<open>The calls before \<open>pip\_init\<close>, which are to fail.\<close>

definition task_spawn_before :: "pip_h \<Rightarrow> string \<Rightarrow> int \<Rightarrow> (int + unit) prog" where
  "task_spawn_before h prog arg0 =
     chk (task_spawn h None (PIPID_ANY h)) (\<lambda>r. rv r \<noteq> EPERM \<and> rv r \<noteq> EINVAL) (Ret (Inl EXIT_FAIL)) (\<lambda>_.
     chk (task_spawn h (Some Zeroed) (PIPID_ANY h)) (\<lambda>r. rv r \<noteq> EPERM) (Ret (Inl EXIT_FAIL)) (\<lambda>_.
     chk (task_spawn h (Some (From_func prog ''static_user_func'' arg0 0)) (PIPID_ANY h))
       (\<lambda>r. rv r \<noteq> EPERM) (Ret (Inl EXIT_FAIL)) (\<lambda>_. Ret (Inr ()))))"

definition task_spawn_after :: "pip_h \<Rightarrow> string \<Rightarrow> int \<Rightarrow> int prog" where
  "task_spawn_after h prog arg0 =
     chk (task_spawn h None (PIPID_ANY h)) (\<lambda>r. rv r \<noteq> EINVAL) failed (\<lambda>_.
     chk (task_spawn h (Some Zeroed) (PIPID_ANY h)) (\<lambda>r. rv r \<noteq> EINVAL) failed (\<lambda>_.
     let static_func = task_spawn h (Some (From_func prog ''static_user_func'' arg0 0)) (PIPID_ANY h) in
     finE (if VERSION_MINOR h < 4 then
             chk static_func (\<lambda>r. rv r \<noteq> ENOEXEC) (Ret (Inl EXIT_FAIL)) (\<lambda>_. Ret (Inr 0))
           else
             chk static_func (\<lambda>r. rv r \<noteq> 0) (Ret (Inl EXIT_FAIL)) (\<lambda>r.
             chk (Pip (Pip_wait (stored (o1 r) (PIPID_ANY h)) True)) (\<lambda>r. rv r \<noteq> 0) (Ret (Inl EXIT_FAIL)) (\<lambda>r.
               Ret (Inr (stored (o1 r) 0))))) (\<lambda>status.
     chk (task_spawn h (Some (From_func prog ''global_user_func'' 8 0)) 8) (\<lambda>r. rv r \<noteq> 0) failed (\<lambda>r.
     chk (Pip (Pip_wait (stored (o1 r) 8) True)) (\<lambda>r. rv r \<noteq> 0) failed (\<lambda>r.
     let status = stored (o1 r) status in
     finE (if WIFEXITED status then
             chkv (c_bool (WEXITSTATUS status \<noteq> 0)) (\<lambda>v. v \<noteq> 0) (Ret (Inl EXIT_FAIL)) (Ret (Inr ()))
           else chkv 1 (\<lambda>v. v \<noteq> 0) (Ret (Inl EXIT_UNRESOLVED)) (Ret (Inr ()))) (\<lambda>_.
     chk (Pip Pip_fin) (\<lambda>r. rv r \<noteq> 0) failed (\<lambda>_. Ret EXIT_PASS)))))))"

definition pip_task_spawn_main :: "pip_h \<Rightarrow> int \<Rightarrow> string list \<Rightarrow> int prog" where
  "pip_task_spawn_main h arg0 argv =
     finE (task_spawn_before h (argv ! 0) arg0) (\<lambda>_.
     ntasks_capped h (\<lambda>ntasks.
     chk (Pip (Pip_init False (Some ntasks) False 0)) (\<lambda>r. rv r \<noteq> 0) failed (\<lambda>_.
       task_spawn_after h (argv ! 0) arg0)))"

section \<open>pip\_misc\<close>

definition misc_before :: "pip_h \<Rightarrow> (int + unit) prog" where
  "misc_before h =
     (let new = VERSION_MAJOR h > 1; out = Ret (Inl EXIT_FAIL) in
      chk (Pip Pip_is_initialized) (\<lambda>r. rv r = 0) out (\<lambda>_.
      chk (Pip Pip_get_ntasks) (\<lambda>r. if new then rv r \<noteq> 0 else rv r \<noteq> EPERM) out (\<lambda>_.
      chk (Pip (Pip_get_pipid False)) (\<lambda>r. if new then rv r \<noteq> 0 else rv r \<noteq> EINVAL) out (\<lambda>_.
      chk (Pip (Pip_get_pipid True)) (\<lambda>r. if new then rv r \<noteq> 0 else rv r \<noteq> EPERM) out (\<lambda>_.
      chk (Pip (Pip_get_mode False)) (\<lambda>r. if new then rv r \<noteq> 0 else rv r \<noteq> EINVAL) out (\<lambda>_.
      chk (Pip (Pip_get_mode True)) (\<lambda>r. if new then rv r \<noteq> 0 else rv r \<noteq> EPERM) out (\<lambda>_.
      Call (Pip Pip_get_mode_str) (\<lambda>r.
        chkv (c_bool (if new then strv r = None else strv r \<noteq> None)) (\<lambda>v. v \<noteq> 0) out (Ret (Inr ()))))))))))"

definition mode_strings :: "pip_modes \<Rightarrow> string list" where
  "mode_strings k = [ENV_PROCESS k, ENV_PRELOAD k, ENV_PIPCLONE k] @
     (case MODE_GOT k of None \<Rightarrow> [] | Some _ \<Rightarrow> [ENV_GOT k]) @ [ENV_PTHREAD k]"

definition misc_mode :: "pip_modes \<Rightarrow> (int + unit) prog" where
  "misc_mode k =
     chk (Pip (Pip_get_mode True)) (\<lambda>r. rv r \<noteq> 0) (Ret (Inl EXIT_FAIL)) (\<lambda>_.
     Call (Pip Pip_get_mode_str) (\<lambda>r.
       chkv (c_bool (strv r \<noteq> None)) (\<lambda>v. v = 0) (Ret (Inl EXIT_FAIL))
        (if list_all (\<lambda>s. the (strv r) \<noteq> s) (mode_strings k)
         then chkv 1 (\<lambda>v. v \<noteq> 0) (Ret (Inl EXIT_FAIL)) (Ret (Inr ()))
         else Ret (Inr ()))))"

definition misc_root :: "pip_h \<Rightarrow> int \<Rightarrow> (int + unit) prog" where
  "misc_root h pipid =
     chk (Pip (Pip_get_pipid False)) (\<lambda>r. rv r \<noteq> 0) (Ret (Inl EXIT_FAIL)) (\<lambda>_.
     chk (Pip (Pip_get_pipid True)) (\<lambda>r. rv r \<noteq> 0) (Ret (Inl EXIT_FAIL)) (\<lambda>r. let id = stored (o1 r) 0 in
     chkv (c_bool (id \<noteq> pipid)) (\<lambda>v. v \<noteq> 0) (Ret (Inl EXIT_FAIL))
      (chkv (c_bool (id \<noteq> PIPID_ROOT h)) (\<lambda>v. v \<noteq> 0) (Ret (Inl EXIT_FAIL)) (Ret (Inr ())))))"

definition misc_task :: "pip_h \<Rightarrow> int \<Rightarrow> int \<Rightarrow> (int + unit) prog" where
  "misc_task h pipid ntasks =
     chk (Pip (Pip_get_pipid False)) (\<lambda>r. if VERSION_MAJOR h > 1 then rv r \<noteq> 0 else rv r \<noteq> EINVAL)
       (Ret (Inl EXIT_FAIL)) (\<lambda>_.
     chk (Pip (Pip_get_pipid True)) (\<lambda>r. rv r \<noteq> 0) (Ret (Inl EXIT_FAIL)) (\<lambda>r. let id = stored (o1 r) 0 in
     chkv (c_bool (id \<noteq> pipid)) (\<lambda>v. v \<noteq> 0) (Ret (Inl EXIT_FAIL))
      (Call (Sys (Getenv PIP_TEST_NTASKS_ENV)) (\<lambda>r.
       chkv (c_bool (strv r = None)) (\<lambda>v. v \<noteq> 0) (Ret (Inl EXIT_FAIL))
       (chkv (c_bool (ntasks \<noteq> atoi32 (the (strv r)))) (\<lambda>v. v \<noteq> 0) (Ret (Inl EXIT_FAIL)) (Ret (Inr ())))))))"

definition pip_misc_main :: "pip_h \<Rightarrow> pip_modes \<Rightarrow> int prog" where
  "pip_misc_main h k =
     finE (misc_before h) (\<lambda>_.
     chk (Pip (Pip_init True (Some (NTASKS h)) False 0)) (\<lambda>r. rv r \<noteq> 0) failed (\<lambda>r.
     let pipid = stored (o1 r) 0; ntasks = stored (o2 r) (NTASKS h) in
     finE (if VERSION_MAJOR h > 1 then
             chk (Pip Pip_is_initialized) (\<lambda>r. rv r = 0) (Ret (Inl EXIT_FAIL)) (\<lambda>_.
             chk (Pip Pip_get_ntasks) (\<lambda>r. rv r \<noteq> 0) (Ret (Inl EXIT_FAIL)) (\<lambda>r.
             chkv (c_bool (stored (o1 r) 0 \<noteq> ntasks)) (\<lambda>v. v \<noteq> 0) (Ret (Inl EXIT_FAIL)) (Ret (Inr ()))))
           else Ret (Inr ())) (\<lambda>_.
     finE (misc_mode k) (\<lambda>_.
     finE (if VERSION_MAJOR h > 1 then
             Call (Pip Pip_isa_root) (\<lambda>r. if rv r \<noteq> 0 then misc_root h pipid
               else Call (Pip Pip_isa_task) (\<lambda>r. if rv r \<noteq> 0 then misc_task h pipid ntasks
                 else chkv 1 (\<lambda>v. v \<noteq> 0) (Ret (Inl EXIT_FAIL)) (Ret (Inr ()))))
           else if pipid = PIPID_ROOT h then misc_root h pipid else misc_task h pipid ntasks) (\<lambda>_.
     chk (Pip Pip_fin) (\<lambda>r. rv r \<noteq> 0) failed (\<lambda>_. Ret EXIT_PASS))))))"

section \<open>The plans of the spawn tests\<close>

text \<open>The number of tasks asked of \<open>pip\_init\<close>, from the answer for the variable NTASKS.\<close>

definition capped :: "pip_h \<Rightarrow> resp \<Rightarrow> int" where
  "capped h r = (case strv r of None \<Rightarrow> NTASKS h | Some env \<Rightarrow> min (NTASKS h) (atoi32 env))"

text \<open>The spawns of \<open>pip\_spawn\<close> in the root that are wrong, each in one argument.\<close>

definition wrong_spawns :: "pip_h \<Rightarrow> string \<Rightarrow> call list" where
  "wrong_spawns h prog =
     [spawn_as None (CPUCORE_ASIS h) (PIPID_ANY h), spawn_as (Some prog) (- 123) (PIPID_ANY h)] @
     (if VERSION_MAJOR h > 1 then [spawn_as (Some prog) (CPUCORE_CORENO_MAX h + 1) (PIPID_ANY h)] else []) @
     map (spawn_as (Some prog) (CPUCORE_ASIS h)) [100000, - 123, PIPID_MYSELF h]"

text \<open>A wait that succeeds and shows an exit with 0; \<open>st\<close> is what the status was before.\<close>

definition waited_well :: "status \<Rightarrow> resp \<Rightarrow> bool" where
  "waited_well st r \<longleftrightarrow> rv r = 0 \<and> WIFEXITED (stored (o1 r) st) \<and> WEXITSTATUS (stored (o1 r) st) = 0"

definition spawn_task_plan :: "pip_h \<Rightarrow> string \<Rightarrow> plan" where
  "spawn_task_plan h prog =
     each [(spawn_as (Some prog) (CPUCORE_ASIS h) (PIPID_ANY h), returns EPERM), (Pip Pip_fin, returns 0)] Done"

definition spawn_root_plan :: "pip_h \<Rightarrow> string \<Rightarrow> plan" where
  "spawn_root_plan h prog =
     each (map (\<lambda>c. (c, returns EINVAL)) (wrong_spawns h prog))
      (Expect (spawn_as (Some prog) (CPUCORE_ASIS h) (PIPID_ANY h)) (returns 0) (\<lambda>sp.
       Expect (Pip (Pip_wait (- 123) True)) (returns ERANGE) (\<lambda>wr.
       Expect (Pip (Pip_wait (stored (o1 sp) (PIPID_ANY h)) True)) (waited_well (stored (o1 wr) 0)) (\<lambda>_. Done))))"

definition spawn_plan :: "pip_h \<Rightarrow> string \<Rightarrow> plan" where
  "spawn_plan h prog =
     Expect (spawn_as (Some prog) (CPUCORE_ASIS h) (PIPID_ANY h)) (returns EPERM) (\<lambda>early.
     Expect (Sys (Getenv ''NTASKS'')) any_return (\<lambda>env.
     Expect (Pip (Pip_init True (Some (capped h env)) False 0)) (returns 0) (\<lambda>init.
       if VERSION_MAJOR h > 1 then
         Expect (Pip Pip_isa_task) any_return (\<lambda>r. if rv r \<noteq> 0 then spawn_task_plan h prog else spawn_root_plan h prog)
       else if stored (o1 init) (stored (o1 early) (PIPID_ANY h)) \<noteq> PIPID_ROOT h then spawn_task_plan h prog
       else spawn_root_plan h prog)))"

text \<open>\<open>pip\_task\_spawn\<close>: without a program, with an empty one, with a function that is not global.\<close>

definition static_func :: "pip_h \<Rightarrow> string \<Rightarrow> int \<Rightarrow> call" where
  "static_func h prog arg0 = task_spawn h (Some (From_func prog ''static_user_func'' arg0 0)) (PIPID_ANY h)"

definition task_spawn_end :: "pip_h \<Rightarrow> string \<Rightarrow> status \<Rightarrow> plan" where
  "task_spawn_end h prog st =
     Expect (task_spawn h (Some (From_func prog ''global_user_func'' 8 0)) 8) (returns 0) (\<lambda>sp.
     each [(Pip (Pip_wait (stored (o1 sp) 8) True), waited_well st), (Pip Pip_fin, returns 0)] Done)"

definition task_spawn_plan :: "pip_h \<Rightarrow> string \<Rightarrow> int \<Rightarrow> plan" where
  "task_spawn_plan h prog arg0 =
     each [(task_spawn h None (PIPID_ANY h), \<lambda>r. rv r \<in> {EPERM, EINVAL}),
           (task_spawn h (Some Zeroed) (PIPID_ANY h), returns EPERM), (static_func h prog arg0, returns EPERM)]
     (Expect (Sys (Getenv ''NTASKS'')) any_return (\<lambda>env.
      each [(Pip (Pip_init False (Some (capped h env)) False 0), returns 0),
            (task_spawn h None (PIPID_ANY h), returns EINVAL), (task_spawn h (Some Zeroed) (PIPID_ANY h), returns EINVAL)]
      (if VERSION_MINOR h < 4 then each [(static_func h prog arg0, returns ENOEXEC)] (task_spawn_end h prog 0)
       else Expect (static_func h prog arg0) (returns 0) (\<lambda>sp.
            Expect (Pip (Pip_wait (stored (o1 sp) (PIPID_ANY h)) True)) (returns 0) (\<lambda>r.
              task_spawn_end h prog (stored (o1 r) 0))))))"

text \<open>The function of a task: without \<open>pip\_init\<close> version 1 does not tell its PiP ID.\<close>

definition user_func_plan :: "pip_h \<Rightarrow> int \<Rightarrow> plan" where
  "user_func_plan h arg =
     Expect (Pip (Pip_get_pipid True)) (returns (if VERSION_MAJOR h > 1 then 0 else EPERM)) (\<lambda>r.
     each [(Pip (Pip_init False None False 0), returns 0),
           (Pip (Pip_get_pipid True), \<lambda>r'. rv r' = 0 \<and> stored (o1 r') (stored (o1 r) (- 100)) = arg)] Done)"

lemmas spawn_defs = pip_spawn_main_def spawn_task_def spawn_root_def ntasks_capped_def Let_def

lemma spawn_parts_decide:
  "decides R EXIT_PASS (spawn_task h prog) (spawn_task_plan h prog)"
  "decides R EXIT_PASS (spawn_root h prog) (spawn_root_plan h prog)"
  by (cases "VERSION_MAJOR h > 1"; simp add: spawn_task_def spawn_task_plan_def spawn_root_def spawn_root_plan_def
      wrong_spawns_def returns_def waited_well_def chk_def exit_defs Let_def)+

lemma pip_spawn_decides: "decides R EXIT_PASS (pip_spawn_main h argv) (spawn_plan h (argv ! 0))"
  by (auto simp: pip_spawn_main_def spawn_plan_def ntasks_capped_def capped_def returns_def chk_def
      spawn_parts_decide [unfolded exit_defs]
      exit_defs Let_def min_def split: option.splits)

lemma pip_task_spawn_decides: "decides R EXIT_PASS (pip_task_spawn_main h arg0 argv) (task_spawn_plan h (argv ! 0) arg0)"
  by (cases "VERSION_MINOR h < 4"; simp add: pip_task_spawn_main_def task_spawn_before_def task_spawn_after_def
      ntasks_capped_def task_spawn_plan_def task_spawn_end_def static_func_def capped_def returns_def waited_well_def
      chk_def chkv_def exit_defs Let_def min_def split: option.splits)

lemma user_func_decides: "decides R 0 (static_user_func h arg) (user_func_plan h arg)"
  by (simp add: static_user_func_def user_func_plan_def returns_def chk_def chkv_def Let_def)

text \<open>C37: \<open>pip\_spawn\<close> and \<open>pip\_task\_spawn\<close> pass if and only if their calls, with their arguments and in their
order, and the answers are those of the plan: before \<open>pip\_init\<close> and in a task every spawn is refused with EPERM; after
it, in the root, each spawn that is wrong in its program, its core or its PiP ID is refused with EINVAL, the right one
is accepted, a wait for the ID -123 is refused with ERANGE and the wait for the task shows its exit with 0. The
function of a task returns 0 if and only if it is told, after \<open>pip\_init\<close>, the PiP ID it was given.\<close>

theorem spawn_tests_decide:
  "(outcome (pip_spawn_main h argv) e w = Returned EXIT_PASS \<longleftrightarrow>
      follows (spawn_plan h (argv ! 0)) (trace (pip_spawn_main h argv) e w)) \<and>
   (outcome (pip_task_spawn_main h arg0 argv) e w = Returned EXIT_PASS \<longleftrightarrow>
      follows (task_spawn_plan h (argv ! 0) arg0) (trace (pip_task_spawn_main h arg0 argv) e w)) \<and>
   (outcome (global_user_func h arg) e w = Returned 0 \<longleftrightarrow>
      follows (user_func_plan h arg) (trace (global_user_func h arg) e w))"
  unfolding global_user_func_def
  by (intro conjI decides_iff [OF pip_spawn_decides answers_any] decides_iff [OF pip_task_spawn_decides answers_any]
    decides_iff [OF user_func_decides answers_any])

text \<open>A library that checks the arguments of a spawn as documented; its state says whether it is initialised.\<close>

definition spawn_right :: "pip_h \<Rightarrow> pip_call \<Rightarrow> bool" where
  "spawn_right h q = (case q of
       Pip_spawn p c (Some i) _ \<Rightarrow> p \<noteq> None \<and> c = CPUCORE_ASIS h \<and> i = PIPID_ANY h
     | Pip_task_spawn (Some (From_func p f _ _)) _ _ \<Rightarrow> f = ''global_user_func''
     | _ \<Rightarrow> False)"

definition spawn_env :: "pip_h \<Rightarrow> bool env" where
  "spawn_env h up c = (case c of
       Pip (Pip_init _ _ _ _) \<Rightarrow> (Some (ok\<lparr>o1 := Some (PIPID_ROOT h)\<rparr>), True)
     | Pip (Pip_spawn p q i a) \<Rightarrow>
         (Some (ok\<lparr>rv := if \<not> up then EPERM else if spawn_right h (Pip_spawn p q i a) then 0 else EINVAL, o1 := Some 0\<rparr>), up)
     | Pip (Pip_task_spawn p q i) \<Rightarrow>
         (Some (ok\<lparr>rv := if \<not> up then EPERM else if spawn_right h (Pip_task_spawn p q i) then 0
             else case p of Some (From_func _ _ _ _) \<Rightarrow> ENOEXEC | _ \<Rightarrow> EINVAL, o1 := Some 0\<rparr>), up)
     | Pip (Pip_wait i _) \<Rightarrow> (Some (ok\<lparr>rv := (if i < 0 then ERANGE else 0), o1 := Some (exited 0)\<rparr>), up)
     | _ \<Rightarrow> (Some ok, up))"

lemma spawn_tests_decide_witness:
  "follows (spawn_plan h_sample ''p'') (trace (pip_spawn_main h_sample [''p'']) (spawn_env h_sample) False) \<and>
   follows (task_spawn_plan h_sample ''p'' 0) (trace (pip_task_spawn_main h_sample 0 [''p'']) (spawn_env h_sample) False)"
proof -
  have "outcome (pip_spawn_main h_sample [''p'']) (spawn_env h_sample) False = Returned EXIT_PASS"
    by (simp add: spawn_defs chk_def h_sample_def spawn_env_def spawn_right_def exit_defs errno_defs)
  moreover have "outcome (pip_task_spawn_main h_sample 0 [''p'']) (spawn_env h_sample) False = Returned EXIT_PASS"
    by (simp add: spawn_defs pip_task_spawn_main_def task_spawn_before_def task_spawn_after_def chk_def chkv_def
        h_sample_def spawn_env_def spawn_right_def exit_defs errno_defs ENOEXEC_def)
  ultimately show ?thesis
    using spawn_tests_decide [of h_sample "[''p'']" "spawn_env h_sample" False 0] by simp
qed

text \<open>What \<open>pip\_misc\<close> asks of the answers that follow \<open>pip\_init\<close>, of which the answer is \<open>r\<close>.\<close>

definition agrees :: "pip_h \<Rightarrow> pip_modes \<Rightarrow> resp \<Rightarrow> call \<times> resp \<Rightarrow> bool" where
  "agrees h k r = (\<lambda>(c, r'). case c of
       Pip (Pip_get_pipid True) \<Rightarrow> stored (o1 r') 0 = stored (o1 r) 0
     | Pip Pip_get_ntasks \<Rightarrow> stored (o1 r') 0 = stored (o2 r) (NTASKS h)
     | Pip Pip_get_mode_str \<Rightarrow> (case strv r' of None \<Rightarrow> False | Some s \<Rightarrow> s \<in> set (mode_strings k))
     | Sys (Getenv _) \<Rightarrow> (case strv r' of None \<Rightarrow> False | Some s \<Rightarrow> atoi32 s = stored (o2 r) (NTASKS h))
     | _ \<Rightarrow> True)"

lemma agrees_simps [simp]:
  "agrees h k r (Pip (Pip_get_pipid True), r') \<longleftrightarrow> stored (o1 r') 0 = stored (o1 r) 0"
  "agrees h k r (Pip (Pip_get_pipid False), r')"
  "agrees h k r (Pip Pip_get_ntasks, r') \<longleftrightarrow> stored (o1 r') 0 = stored (o2 r) (NTASKS h)"
  "agrees h k r (Pip Pip_get_mode_str, r') \<longleftrightarrow> (\<exists>s. strv r' = Some s \<and> s \<in> set (mode_strings k))"
  "agrees h k r (Sys (Getenv v), r') \<longleftrightarrow> (\<exists>s. strv r' = Some s \<and> atoi32 s = stored (o2 r) (NTASKS h))"
  "agrees h k r (Pip (Pip_get_mode b), r')" "agrees h k r (Pip Pip_is_initialized, r')"
  "agrees h k r (Pip Pip_isa_root, r')" "agrees h k r (Pip Pip_isa_task, r')" "agrees h k r (Pip Pip_fin, r')"
  by (auto simp: agrees_def split: option.splits)

fun since_init :: "trace \<Rightarrow> trace" where
  "since_init [] = []"
| "since_init ((Pip (Pip_init a b c d), r) # t) = (Pip (Pip_init a b c d), r) # t"
| "since_init (_ # t) = since_init t"

definition consistent :: "pip_h \<Rightarrow> pip_modes \<Rightarrow> trace \<Rightarrow> bool" where
  "consistent h k t = (case since_init t of [] \<Rightarrow> False | cr # u \<Rightarrow> list_all (agrees h k (snd cr)) u)"

lemma consistent_simps [simp]:
  "consistent h k ((Pip (Pip_init a b c d), r) # u) \<longleftrightarrow> list_all (agrees h k r) u"
  "consistent h k ((Pip Pip_is_initialized, r) # t) = consistent h k t"
  "consistent h k ((Pip Pip_get_ntasks, r) # t) = consistent h k t"
  "consistent h k ((Pip (Pip_get_pipid x), r) # t) = consistent h k t"
  "consistent h k ((Pip (Pip_get_mode x), r) # t) = consistent h k t"
  "consistent h k ((Pip Pip_get_mode_str, r) # t) = consistent h k t"
  by (simp_all add: consistent_def)

lemma not_all: "\<not> list_all (\<lambda>s. x \<noteq> s) ys \<longleftrightarrow> x \<in> set ys"
  by (auto simp: list_all_iff)

lemma pip_misc_wpt:
  "wpt any_answer (\<lambda>t v. v = EXIT_PASS \<longrightarrow> consistent h k t) [] (pip_misc_main h k)"
  by (cases "VERSION_MAJOR h > 1")
    (simp add: pip_misc_main_def misc_before_def misc_mode_def misc_root_def misc_task_def wpt_simps Let_def
        exit_defs not_all; fastforce)+

text \<open>A passed \<open>pip\_misc\<close> test has seen the library agree with itself: after \<open>pip\_init\<close> every
query of the PiP ID and of the number of tasks gives what \<open>pip\_init\<close> gave, the mode is one of the
documented names, and the environment of a task carries that number of tasks.\<close>

theorem pip_misc_sound:
  assumes "outcome (pip_misc_main h k) e w = Returned EXIT_PASS"
  shows "consistent h k (trace (pip_misc_main h k) e w)"
  using wpt_outcome [OF pip_misc_wpt answers_any assms] by simp

text \<open>A library as a task of three sees it.\<close>

definition e_task :: "unit env" where
  "e_task = reply (\<lambda>c. case c of
       Pip Pip_is_initialized \<Rightarrow> ok\<lparr>rv := 1\<rparr> | Pip Pip_isa_task \<Rightarrow> ok\<lparr>rv := 1\<rparr>
     | Pip Pip_get_ntasks \<Rightarrow> ok\<lparr>o1 := Some 3\<rparr> | Pip (Pip_get_pipid _) \<Rightarrow> ok\<lparr>o1 := Some 2\<rparr>
     | Pip (Pip_init _ _ _ _) \<Rightarrow> ok\<lparr>o1 := Some 2, o2 := Some 3\<rparr>
     | Pip Pip_get_mode_str \<Rightarrow> ok\<lparr>strv := Some ''pthread''\<rparr>
     | Sys (Getenv _) \<Rightarrow> ok\<lparr>strv := Some ''3''\<rparr> | _ \<Rightarrow> ok)"

lemma pip_misc_sound_witness:
  "consistent h_sample k_sample (trace (pip_misc_main h_sample k_sample) e_task ())"
  by (rule pip_misc_sound)
    (simp add: pip_misc_main_def misc_before_def misc_mode_def misc_task_def mode_strings_def chk_def chkv_def
      Let_def e_task_def h_sample_def k_sample_def strtol_eval)

end
