(* ===== verification/EndTests.thy ===== *)
theory EndTests
  imports BarrierTests
begin

text \<open>
  \<open>basics/end.c\<close>: the root and its tasks end in one of eight ways (return, \<open>exit\<close>, \<open>pip_exit\<close>,
  \<open>_exit\<close>, each with or without \<open>pip_fin\<close> before it), and the root checks how often the hooks
  given to \<open>pip_spawn\<close> were called. The counters the hooks increment are variables the tasks share.
\<close>

section \<open>Hooks and their check\<close>

record hook_args =
  n_before :: int
  n_after :: int

definition before_var :: "int \<Rightarrow> string" where "before_var i = ''before'' @ show_int i"
definition after_var :: "int \<Rightarrow> string" where "after_var i = ''after'' @ show_int i"

definition before_hook :: "int \<Rightarrow> int prog" where
  "before_hook i = Call (Mem (Load (before_var i))) (\<lambda>r.
     Call (Mem (Store (before_var i) (to_int32 (rv r + 1)))) (\<lambda>_. Ret 0))"

definition after_hook :: "int \<Rightarrow> int prog" where
  "after_hook i = Call (Mem (Load (after_var i))) (\<lambda>r.
     Call (Mem (Store (after_var i) (to_int32 (rv r + 1)))) (\<lambda>_. Ret 0))"

text \<open>One round of the loop of \<open>check\<close>, without its messages.\<close>

definition check_one :: "int \<Rightarrow> hook_args \<Rightarrow> int \<Rightarrow> int" where
  "check_one test a ret =
     (if test \<in> {0, 1, 2, 4, 5, 6} then
        if n_before a \<noteq> 1 \<or> n_after a \<noteq> 1 then
          (let ret = (if n_before a = 0 then 1 else if n_before a > 1 then 1 else ret)
           in if n_after a = 0 then 1 else if n_after a > 1 then 1 else ret)
        else ret
      else if test \<in> {3, 7} then
        (let ret = (if n_before a = 0 then 1 else if n_before a > 1 then 1 else ret)
         in if n_after a \<noteq> 0 then 1 else ret)
      else 1)"

definition check :: "hook_args list \<Rightarrow> int \<Rightarrow> int" where
  "check args test = fold (check_one test) args 0"

section \<open>The ways to end\<close>

text \<open>\<open>choice\<close>, whose argument is never NULL: it is called with arguments that are there.\<close>

definition choice_way :: "string \<Rightarrow> int option" where
  "choice_way s =
     (if s = [] \<or> strcaseeq ''return'' s then Some 0
      else if strcaseeq ''exit'' s then Some 1
      else if strcaseeq ''pip_exit'' s then Some 2
      else if strcaseeq ''_exit'' s then Some 3
      else if strcaseeq ''fin-return'' s then Some 4
      else if strcaseeq ''fin-exit'' s then Some 5
      else if strcaseeq ''fin-pip_exit'' s then Some 6
      else if strcaseeq ''fin-_exit'' s then Some 7
      else None)"

definition choice :: "string \<Rightarrow> (int + int) prog" where
  "choice opt = (case choice_way opt of Some way \<Rightarrow> Ret (Inr way) | None \<Rightarrow> Halt (Exit 1))"

text \<open>\<open>switch (end)\<close>: the cases 2 and 6 fall through when \<open>pip_exit\<close> returns.\<close>

definition fin_then :: "int prog \<Rightarrow> int prog" where
  "fin_then k = chk (Pip Pip_fin) (\<lambda>r. rv r \<noteq> 0) (Ret EXIT_FAIL) (\<lambda>_. k)"

definition end_switch :: "int \<Rightarrow> int \<Rightarrow> int prog" where
  "end_switch way extval =
     (if way = 0 then Ret extval
      else if way = 1 then Halt (Exit extval)
      else if way = 2 then Call (Pip (Pip_exit extval)) (\<lambda>_. Halt (Uexit extval))
      else if way = 3 then Halt (Uexit extval)
      else if way = 4 then fin_then (Ret extval)
      else if way = 5 then fin_then (Halt (Exit extval))
      else if way = 6 then fin_then (Call (Pip (Pip_exit extval)) (\<lambda>_. fin_then (Halt (Uexit extval))))
      else if way = 7 then fin_then (Halt (Uexit extval))
      else Ret extval)"

section \<open>The program\<close>

text \<open>Spawning task \<open>i\<close> with its hooks, and waiting for a task.\<close>

definition end_round :: "pip_h \<Rightarrow> string \<Rightarrow> int \<Rightarrow> int \<Rightarrow> (int + int) prog" where
  "end_round h prog i extval =
     Call (Mem (Store (before_var i) 0)) (\<lambda>_. Call (Mem (Store (after_var i) 0)) (\<lambda>_.
     chk (Pip (Pip_spawn (Some prog) (CPUCORE_ASIS h) (Some i) (Some (nat i)))) (\<lambda>r. rv r \<noteq> 0)
       (Ret (Inl EXIT_FAIL)) (\<lambda>_. barrier_wait_body i extval)))"

text \<open>Reading the counters for \<open>check\<close>.\<close>

definition load_args :: "int \<Rightarrow> hook_args list \<Rightarrow> ('e + hook_args list) prog" where
  "load_args i args =
     Call (Mem (Load (before_var i))) (\<lambda>b. Call (Mem (Load (after_var i))) (\<lambda>a.
       Ret (Inr (args @ [\<lparr>n_before = rv b, n_after = rv a\<rparr>]))))"

definition end_root :: "pip_h \<Rightarrow> string \<Rightarrow> int \<Rightarrow> int \<Rightarrow> int \<Rightarrow> int prog" where
  "end_root h prog ntasks end_rt end_tk =
     finE (if ntasks > 0 then
             Call (Sys (Malloc (12 * ntasks))) (\<lambda>_.
             chk (Pip (Pip_barrier_init ntasks)) (\<lambda>r. rv r \<noteq> 0) (Ret (Inl EXIT_FAIL)) (\<lambda>_. Ret (Inr ())))
           else Ret (Inr ())) (\<lambda>_.
     finE (for_range 0 (nat ntasks) (end_round h prog) 0) (\<lambda>extval.
     finE (for_range 0 (nat ntasks) load_args []) (\<lambda>args.
       if check args end_tk \<noteq> 0 then Ret EXIT_FAIL else end_switch end_rt extval)))"

definition end_main :: "pip_h \<Rightarrow> string list \<Rightarrow> int prog" where
  "end_main h argv =
     (let ntasks = arg_int argv 1 0;
          ntasks = (if ntasks < 0 then 8 else ntasks)
      in if ntasks > NTASKS h then Ret EXIT_UNTESTED
      else
        finE (if length argv > 2 then choice (argv ! 2) else Ret (Inr 0)) (\<lambda>end_rt.
        finE (if length argv > 3 then choice (argv ! 3) else Ret (Inr 0)) (\<lambda>end_tk.
        chk (Pip (Pip_init True (Some (if ntasks < 1 then 1 else ntasks)) True 0)) (\<lambda>r. rv r \<noteq> 0) (Ret EXIT_FAIL) (\<lambda>r.
          if stored (o1 r) 0 = PIPID_ROOT h then end_root h (argv ! 0) ntasks end_rt end_tk
          else end_switch end_tk 0))))"

section \<open>The check is exact\<close>

text \<open>What the hooks of a task that ends in the given way have to be called.\<close>

definition counts_ok :: "int \<Rightarrow> hook_args \<Rightarrow> bool" where
  "counts_ok way a \<longleftrightarrow> n_before a = 1 \<and>
     (if way \<in> {3, 7} then n_after a = 0 else n_after a = 1 \<and> way \<in> {0, 1, 2, 4, 5, 6})"

lemma check_one_nonzero: "ret \<noteq> 0 \<Longrightarrow> check_one test a ret \<noteq> 0"
  by (simp add: check_one_def Let_def)

lemma fold_check_nonzero: "ret \<noteq> 0 \<Longrightarrow> fold (check_one test) args ret \<noteq> 0"
  by (induction args arbitrary: ret) (simp_all add: check_one_nonzero)

lemma check_one_ok:
  assumes "0 \<le> n_before a" "0 \<le> n_after a"
  shows "check_one test a 0 = (if counts_ok test a then 0 else 1)"
  using assms by (auto simp: check_one_def counts_ok_def Let_def)

lemma check_ok:
  assumes "\<And>a. a \<in> set args \<Longrightarrow> 0 \<le> n_before a \<and> 0 \<le> n_after a"
  shows "check args test = 0 \<longleftrightarrow> (\<forall>a\<in>set args. counts_ok test a)"
  using assms
proof (induction args)
  case (Cons a args)
  have one: "check_one test a 0 = (if counts_ok test a then 0 else 1)"
    by (rule check_one_ok) (use Cons.prems in auto)
  show ?case
  proof (cases "counts_ok test a")
    case True
    then show ?thesis using Cons one by (simp add: check_def)
  next
    case False
    then have "check (a # args) test \<noteq> 0" by (simp add: check_def one fold_check_nonzero)
    then show ?thesis using False by simp
  qed
qed (simp add: check_def)

text \<open>C35: \<open>check\<close> finds a task whose hooks were not called as its way to end demands, whenever there
is one: the before-hook exactly once, the after-hook exactly once or, for a task that leaves
through \<open>\_exit\<close>, never. (Counters only grow from 0.)\<close>

theorem check_spec:
  assumes "list_all (\<lambda>a. 0 \<le> n_before a \<and> 0 \<le> n_after a) args"
  shows "check args test = 0 \<longleftrightarrow> list_all (counts_ok test) args"
  using check_ok [of args test] assms by (simp add: list_all_iff)

lemma check_spec_witness:
  "(check [\<lparr>n_before = 1, n_after = 1\<rparr>, \<lparr>n_before = 1, n_after = 0\<rparr>] 3 = 0 \<longleftrightarrow>
     list_all (counts_ok 3) [\<lparr>n_before = 1, n_after = 1\<rparr>, \<lparr>n_before = 1, n_after = 0\<rparr>]) \<and>
   check [\<lparr>n_before = 1, n_after = 1\<rparr>, \<lparr>n_before = 1, n_after = 0\<rparr>] 3 = 1"
  using check_spec [of "[\<lparr>n_before = 1, n_after = 1\<rparr>, \<lparr>n_before = 1, n_after = 0\<rparr>]" 3]
  by (simp add: check_def check_one_def)

section \<open>The whole test\<close>

text \<open>
  A library that calls the hooks of task \<open>i\<close> as often as \<open>nb i\<close> and \<open>na i\<close> say by the time the task is
  waited for, and reports it exited with 0.
\<close>

definition e_hooks :: "pip_h \<Rightarrow> (int \<Rightarrow> int) \<Rightarrow> (int \<Rightarrow> int) \<Rightarrow> (string \<Rightarrow> int) env" where
  "e_hooks h nb na w c = (case c of
       Mem (Load v) \<Rightarrow> (Some (ok\<lparr>rv := w v\<rparr>), w)
     | Mem (Store v x) \<Rightarrow> (Some ok, w(v := x))
     | Pip (Pip_init _ _ _ _) \<Rightarrow> (Some (ok\<lparr>o1 := Some (PIPID_ROOT h)\<rparr>), w)
     | Pip (Pip_spawn _ _ (Some i) (Some j)) \<Rightarrow>
         (Some ok, w(before_var i := w (before_var i) + nb i, after_var i := w (after_var i) + na i))
     | Pip (Pip_wait_any _ _) \<Rightarrow> (Some (ok\<lparr>o2 := Some (exited 0)\<rparr>), w)
     | Pip (Pip_exit _) \<Rightarrow> (None, w)
     | _ \<Rightarrow> (Some ok, w))"

lemma e_hooks_simps:
  "e_hooks h nb na w (Mem (Load v)) = (Some (ok\<lparr>rv := w v\<rparr>), w)"
  "e_hooks h nb na w (Mem (Store v x)) = (Some ok, w(v := x))"
  "e_hooks h nb na w (Pip (Pip_init a b c d)) = (Some (ok\<lparr>o1 := Some (PIPID_ROOT h)\<rparr>), w)"
  "e_hooks h nb na w (Pip (Pip_spawn p q (Some i) (Some j))) =
     (Some ok, w(before_var i := w (before_var i) + nb i, after_var i := w (after_var i) + na i))"
  "e_hooks h nb na w (Pip (Pip_wait_any u y)) = (Some (ok\<lparr>o2 := Some (exited 0)\<rparr>), w)"
  "e_hooks h nb na w (Pip (Pip_exit z)) = (None, w)"
  "e_hooks h nb na w (Sys s) = (Some ok, w)" "e_hooks h nb na w (Pip Pip_fin) = (Some ok, w)"
  "e_hooks h nb na w (Pip (Pip_barrier_init n)) = (Some ok, w)"
  by (simp_all add: e_hooks_def)

lemma var_names:
  assumes "0 \<le> i" "i < 2 ^ 31" "0 \<le> j" "j < 2 ^ 31"
  shows "before_var i \<noteq> after_var j" "before_var i = before_var j \<longleftrightarrow> i = j" "after_var i = after_var j \<longleftrightarrow> i = j"
proof -
  show "before_var i \<noteq> after_var j" by (simp add: before_var_def after_var_def)
  have "atoi32 (show_int i) = i" "atoi32 (show_int j) = j" using assms by (simp_all add: atoi32_show_int)
  then have "show_int i = show_int j \<Longrightarrow> i = j" by metis
  then show "before_var i = before_var j \<longleftrightarrow> i = j" "after_var i = after_var j \<longleftrightarrow> i = j"
    by (auto simp: before_var_def after_var_def)
qed

definition called :: "(int \<Rightarrow> int) \<Rightarrow> (int \<Rightarrow> int) \<Rightarrow> int \<Rightarrow> hook_args" where
  "called nb na i = \<lparr>n_before = nb i, n_after = na i\<rparr>"

definition counters :: "(int \<Rightarrow> int) \<Rightarrow> (int \<Rightarrow> int) \<Rightarrow> int \<Rightarrow> (string \<Rightarrow> int) \<Rightarrow> bool" where
  "counters nb na j w \<longleftrightarrow> (\<forall>i. 0 \<le> i \<and> i < j \<longrightarrow> w (before_var i) = nb i \<and> w (after_var i) = na i)"

lemma end_round_runs:
  assumes "0 \<le> j" "j < 2 ^ 31" "counters nb na j w"
  shows "outcome (end_round h prog j 0) (e_hooks h nb na) w = Returned (Inr 0) \<and>
    counters nb na (j + 1) (final_env (end_round h prog j 0) (e_hooks h nb na) w)"
proof -
  let ?w = "w(before_var j := 0, after_var j := 0)"
  let ?w' = "?w(before_var j := nb j, after_var j := na j)"
  have d: "before_var j \<noteq> after_var j" using var_names(1) assms(1,2) by blast
  have "counters nb na (j + 1) ?w'"
    unfolding counters_def
  proof (intro allI impI)
    fix i assume i: "0 \<le> i \<and> i < j + 1"
    then have r: "0 \<le> i" "i < 2 ^ 31" using assms(2) by simp_all
    show "?w' (before_var i) = nb i \<and> ?w' (after_var i) = na i"
      using assms(3) i var_names [OF r assms(1,2)] var_names [OF assms(1,2) r] by (auto simp: counters_def)
  qed
  then show ?thesis using d
    by (simp add: end_round_def chk_def chkv_def e_hooks_simps barrier_wait_body_def Let_def fun_upd_twist)
qed

lemma load_args_runs:
  assumes "counters nb na n w" "0 \<le> j" "j < n"
  shows "outcome (load_args j (map (called nb na) [0..j - 1])) (e_hooks h nb na) w =
      Returned (Inr (map (called nb na) [0..j]) :: int + hook_args list) \<and>
    final_env (load_args j (map (called nb na) [0..j - 1]) :: (int + hook_args list) prog) (e_hooks h nb na) w = w"
  using assms by (simp add: load_args_def e_hooks_simps counters_def called_def upto_rec2 del: upto.simps)

text \<open>How the process of the root ends: what it returns, exits with or hands to \<open>pip\_exit\<close>.\<close>

definition ends_as :: "int \<Rightarrow> int outcome" where
  "ends_as way =
     (if way \<in> {1, 5} then Halted (Exit 0) else if way \<in> {2, 6} then NoReturn (Pip (Pip_exit 0))
      else if way \<in> {3, 7} then Halted (Uexit 0) else Returned 0)"

lemma end_switch_ends: "outcome (end_switch way 0) (e_hooks h nb na) w = ends_as way"
  by (simp add: end_switch_def fin_then_def chk_def e_hooks_simps ends_as_def)

text \<open>C20: run with a number of tasks and a way to end for the root and for the tasks, the root of
\<open>end\<close> ends in its way, with 0, exactly when the hooks of every task were called as the tasks' way
demands, and returns EXIT\_FAIL otherwise.\<close>

theorem end_main_spec:
  assumes "0 < atoi32 n" "atoi32 n \<le> NTASKS h"
    and "choice_way rt = Some end_rt" "choice_way tk = Some end_tk"
    and "\<And>i. 0 \<le> nb i \<and> 0 \<le> na i"
  shows "outcome (end_main h [prog, n, rt, tk]) (e_hooks h nb na) w =
    (if \<forall>i. 0 \<le> i \<and> i < atoi32 n \<longrightarrow> counts_ok end_tk (called nb na i) then ends_as end_rt
     else Returned EXIT_FAIL)"
proof -
  let ?n = "atoi32 n" and ?e = "e_hooks h nb na"
  have n: "?n < 2 ^ 31" "0 + int (nat ?n) = ?n" using to_int32_range assms(1) by (simp_all add: atoi32_def)
  let ?p = "for_range 0 (nat ?n) (end_round h prog) 0"
  have rounds: "outcome ?p ?e w = Returned (Inr 0)" "counters nb na ?n (final_env ?p ?e w)" for w
    using for_range_runs_inv [where i = 0 and n = "nat ?n" and body = "end_round h prog" and st = "\<lambda>_. 0"
        and e = ?e and W = "counters nb na" and w = w] end_round_runs n
    by (simp_all add: counters_def)
  let ?q = "for_range 0 (nat ?n) load_args [] :: (int + hook_args list) prog"
  have loads: "outcome ?q ?e w = Returned (Inr (map (called nb na) [0..?n - 1]))" if "counters nb na ?n w" for w
    using for_range_runs_inv [where i = 0 and n = "nat ?n" and st = "\<lambda>j. map (called nb na) [0..j - 1]"
        and body = "load_args :: int \<Rightarrow> hook_args list \<Rightarrow> (int + hook_args list) prog"
        and e = ?e and W = "\<lambda>j. counters nb na ?n" and w = w] load_args_runs n(2) that
    by (simp del: upto.simps)
  have check: "check (map (called nb na) [0..?n - 1]) end_tk = 0 \<longleftrightarrow>
      (\<forall>i. 0 \<le> i \<and> i < ?n \<longrightarrow> counts_ok end_tk (called nb na i))"
    by (subst check_ok) (use assms(5) in \<open>auto simp: called_def\<close>)
  show ?thesis
    using assms(1,2) rounds loads
    by (simp add: end_main_def arg_int_def choice_def assms(3,4) chk_def e_hooks_simps
        end_root_def Let_def outcome_finE check end_switch_ends del: upto.simps) blast
qed

lemma end_main_spec_witness:
  "outcome (end_main h_sample [''end'', ''2'', ''fin-exit'', ''_exit'']) (e_hooks h_sample (\<lambda>_. 1) (\<lambda>_. 0)) (\<lambda>_. 5) =
     Halted (Exit 0)"
proof -
  have n: "atoi32 ''2'' = 2" by (simp add: strtol_eval)
  then have "0 < atoi32 ''2''" "atoi32 ''2'' \<le> NTASKS h_sample" by (simp_all add: NTASKS_def h_sample_def)
  note spec = end_main_spec [OF this, of "''fin-exit''" 5 "''_exit''" 3 "\<lambda>_. 1" "\<lambda>_. 0" "''end''" "\<lambda>_. 5"]
  have "choice_way ''fin-exit'' = Some 5" "choice_way ''_exit'' = Some 3" by code_simp+
  with spec show ?thesis by (simp add: counts_ok_def called_def ends_as_def)
qed

end
