(* ===== verification/CoreBind.thy ===== *)
theory CoreBind
  imports BarrierTests
begin

text \<open>
  \<open>basics/corebind.c\<close>: the root binds half of the tasks to cores through \<open>pip_spawn\<close> and the others
  through its own affinity, which they inherit; every task checks that it may run on its core. A
  \<open>cpu_set_t\<close> is the integer whose bits it is; the calls on the affinity carry it as an argument or
  store it through their output pointer. The messages of the program are left out.
\<close>

section \<open>Sets of cores\<close>

definition CPU_SETSIZE :: nat where "CPU_SETSIZE = 1024"

definition CPU_COUNT :: "int \<Rightarrow> int" where
  "CPU_COUNT s = int (length (filter (bit s) [0..<CPU_SETSIZE]))"

text \<open>The loop of \<open>nth_core\<close> (\<open>k\<close> is the argument \<open>nth\<close>) from \<open>i\<close> on, with \<open>n\<close> rounds left.\<close>

primrec nth_core_loop :: "nat \<Rightarrow> nat \<Rightarrow> int \<Rightarrow> int \<Rightarrow> int \<Rightarrow> int" where
  "nth_core_loop 0 i j k cpuset = - 1"
| "nth_core_loop (Suc n) i j k cpuset =
     (if bit cpuset i then (if j = k then int i else nth_core_loop n (Suc i) (j + 1) k cpuset)
      else nth_core_loop n (Suc i) j k cpuset)"

text \<open>The remainder by zero, of an empty set, raises SIGFPE.\<close>

definition nth_core :: "int \<Rightarrow> int \<Rightarrow> (int \<Rightarrow> 'a prog) \<Rightarrow> 'a prog" where
  "nth_core m cpuset k =
     (let ncores = CPU_COUNT cpuset in
      if ncores = 0 then Halt (Fault SIGFPE)
      else k (nth_core_loop CPU_SETSIZE 0 0 (c_rem m ncores) cpuset))"

abbreviation getaffinity :: call where "getaffinity \<equiv> Sys (Lib ''sched_getaffinity'' [])"
abbreviation setaffinity :: "int \<Rightarrow> call" where "setaffinity s \<equiv> Sys (Lib ''sched_setaffinity'' [s])"

definition fill_body :: "int \<Rightarrow> int \<Rightarrow> ('e + int) prog" where
  "fill_body i fullset = Call (setaffinity (2 ^ nat i)) (\<lambda>r.
     Ret (Inr (if rv r = 0 then fullset OR 2 ^ nat i else fullset)))"

definition fill_cpuset :: "('e + int) prog" where
  "fill_cpuset =
     Call getaffinity (\<lambda>r. if rv r \<noteq> 0 then Call (Sys (Print_fle (rv r))) (\<lambda>_. Halt (Exit (errno r)))
      else let save = stored (o1 r) 0 in
     seqE (for_range 0 CPU_SETSIZE fill_body 0) (\<lambda>fullset.
     Call (setaffinity save) (\<lambda>r. if rv r \<noteq> 0 then Call (Sys (Print_fle (rv r))) (\<lambda>_. Halt (Exit (errno r)))
      else Ret (Inr fullset))))"

section \<open>The program\<close>

definition bind_by_core :: "pip_h \<Rightarrow> string \<Rightarrow> int \<Rightarrow> int \<Rightarrow> unit \<Rightarrow> (int + unit) prog" where
  "bind_by_core h prog cpufull i u =
     nth_core i cpufull (\<lambda>core.
     chk (Pip (Pip_spawn (Some prog) core (Some i) None)) (\<lambda>r. rv r \<noteq> 0) (Ret (Inl EXIT_FAIL)) (\<lambda>_. Ret (Inr ())))"

definition bind_by_affinity :: "pip_h \<Rightarrow> string \<Rightarrow> int \<Rightarrow> int \<Rightarrow> unit \<Rightarrow> (int + unit) prog" where
  "bind_by_affinity h prog cpufull i u =
     nth_core i cpufull (\<lambda>core.
     chk (setaffinity (2 ^ nat core)) (\<lambda>r. rv r \<noteq> 0) (Ret (Inl EXIT_UNRESOLVED)) (\<lambda>_.
     chk (Pip (Pip_spawn (Some prog) (CPUCORE_ASIS h) (Some i) None)) (\<lambda>r. rv r \<noteq> 0) (Ret (Inl EXIT_FAIL)) (\<lambda>_.
       Ret (Inr ()))))"

text \<open>The loop that waits, which a task that was killed breaks off; \<open>n\<close> rounds are left.\<close>

primrec core_waits :: "nat \<Rightarrow> int \<Rightarrow> (int + int) prog" where
  "core_waits 0 extval = Ret (Inr extval)"
| "core_waits (Suc n) extval =
     chk (Pip (Pip_wait_any False True)) (\<lambda>r. rv r \<noteq> 0) (Ret (Inl EXIT_FAIL)) (\<lambda>r.
       let status = stored (o2 r) 0 in
       if WIFEXITED status then
         let extval = WEXITSTATUS status in
         chkv (c_bool (extval \<noteq> 0)) (\<lambda>v. v \<noteq> 0) (Ret (Inl EXIT_FAIL)) (core_waits n extval)
       else chkv 1 (\<lambda>v. v \<noteq> 0) (Ret (Inr EXIT_UNRESOLVED)) (Ret (Inr EXIT_UNRESOLVED)))"

definition core_root :: "pip_h \<Rightarrow> string \<Rightarrow> int \<Rightarrow> int \<Rightarrow> int \<Rightarrow> (int + int) prog" where
  "core_root h prog cpufull ntasks hntasks =
     seqE (for_range 0 (nat hntasks) (bind_by_core h prog cpufull) ()) (\<lambda>_.
     seqE (for_range hntasks (nat (ntasks - hntasks)) (bind_by_affinity h prog cpufull) ()) (\<lambda>_.
       core_waits (nat ntasks) 0))"

definition core_task :: "int \<Rightarrow> int \<Rightarrow> (int + int) prog" where
  "core_task cpufull pipid =
     nth_core pipid cpufull (\<lambda>core.
     chk getaffinity (\<lambda>r. rv r \<noteq> 0) (Ret (Inl EXIT_FAIL)) (\<lambda>r.
     chkv (c_bool (bit (stored (o1 r) 0) (nat core))) (\<lambda>v. v = 0) (Ret (Inl EXIT_FAIL)) (Ret (Inr 0))))"

definition corebind_main :: "pip_h \<Rightarrow> string list \<Rightarrow> int prog" where
  "corebind_main h argv =
     finE (ntasks_guard (NTASKS h) argv) (\<lambda>ntasks.
       let hntasks = c_div ntasks 2; hntasks = (if hntasks < 1 then 1 else hntasks) in
       finE fill_cpuset (\<lambda>cpufull.
       chk (Pip (Pip_init True (Some ntasks) True 0)) (\<lambda>r. rv r \<noteq> 0) (Ret EXIT_FAIL) (\<lambda>r.
         let pipid = stored (o1 r) 0; ntasks = stored (o2 r) ntasks in
         finE (if pipid = PIPID_ROOT h then core_root h (argv ! 0) cpufull ntasks hntasks
               else core_task cpufull pipid) (\<lambda>extval.
           chk (Pip Pip_fin) (\<lambda>r. rv r \<noteq> 0) (Ret EXIT_FAIL) (\<lambda>_. Ret extval)))))"

section \<open>The n-th core\<close>

definition cores :: "int \<Rightarrow> nat list" where "cores s = filter (bit s) [0..<CPU_SETSIZE]"

lemma nth_core_loop:
  "0 \<le> k - j \<Longrightarrow> nat (k - j) < length (filter (bit s) [i..<i + n]) \<Longrightarrow>
     nth_core_loop n i j k s = int (filter (bit s) [i..<i + n] ! nat (k - j))"
proof (induction n arbitrary: i j)
  case (Suc n)
  have up: "[i..<i + Suc n] = i # [Suc i..<Suc i + n]" by (simp add: upt_conv_Cons)
  show ?case
  proof (cases "bit s i")
    case True
    show ?thesis
    proof (cases "j = k")
      case False
      then have k: "nat (k - j) = Suc (nat (k - (j + 1)))" using Suc.prems(1) by simp
      show ?thesis using Suc.prems unfolding up using True False k Suc.IH [of "j + 1" "Suc i"] by simp
    qed (unfold up, simp add: True)
  next
    case False
    then show ?thesis using Suc.prems unfolding up using Suc.IH [of j "Suc i"] by simp
  qed
qed simp

lemma nth_core_eq:
  assumes "0 \<le> m" "cores s \<noteq> []"
  shows "nth_core m s k = k (int (cores s ! (nat m mod length (cores s))))"
proof -
  let ?l = "length (cores s)"
  have l: "0 < ?l" using assms(2) by simp
  have c: "CPU_COUNT s = int ?l" by (simp add: CPU_COUNT_def cores_def)
  have r: "c_rem m (int ?l) = int (nat m mod ?l)"
    using assms(1) l by (simp add: c_rem_nonneg zmod_int)
  have "nth_core_loop CPU_SETSIZE 0 0 (int (nat m mod ?l)) s = int (cores s ! (nat m mod ?l))"
    using nth_core_loop [of "int (nat m mod ?l)" 0 s 0 CPU_SETSIZE] l by (simp add: cores_def)
  then show ?thesis using l by (simp add: nth_core_def c r)
qed

lemma cores_nth: "cores s \<noteq> [] \<Longrightarrow> bit s (cores s ! (m mod length (cores s))) \<and> cores s ! (m mod length (cores s)) < CPU_SETSIZE"
proof -
  assume "cores s \<noteq> []"
  then have "cores s ! (m mod length (cores s)) \<in> set (cores s)" by (intro nth_mem) simp
  then show ?thesis by (auto simp: cores_def)
qed

section \<open>The root binds, the task checks\<close>

text \<open>
  A machine with the cores of the set \<open>avail\<close>, seen by the participant with PiP ID \<open>pid\<close>. The state:
  the participant's affinity, and the affinity each spawned task gets: its core's or, spawned as it
  is, the one of the root at that time.
\<close>

type_synonym machine = "int \<times> (int \<Rightarrow> int)"

definition runnable :: "int \<Rightarrow> int \<Rightarrow> bool" where
  "runnable avail s \<longleftrightarrow> s \<noteq> 0 \<and> s AND avail = s"

definition e_cpu :: "pip_h \<Rightarrow> int \<Rightarrow> int \<Rightarrow> machine env" where
  "e_cpu h avail pid w c = (case c of
       Sys (Lib f args) \<Rightarrow>
         if args = [] then (Some (ok\<lparr>o1 := Some (fst w)\<rparr>), w)
         else if runnable avail (hd args) then (Some ok, (hd args, snd w))
         else (Some (ok\<lparr>rv := - 1, errno := EINVAL\<rparr>), w)
     | Pip (Pip_spawn _ core (Some i) _) \<Rightarrow>
         (Some ok, (fst w, (snd w)(i := if core = CPUCORE_ASIS h then fst w else 2 ^ nat core)))
     | Pip (Pip_init _ _ _ _) \<Rightarrow> (Some (ok\<lparr>o1 := Some pid\<rparr>), w)
     | Pip (Pip_wait_any _ _) \<Rightarrow> (Some (ok\<lparr>o2 := Some (exited 0)\<rparr>), w)
     | _ \<Rightarrow> (Some ok, w))"

lemma e_cpu_simps:
  "e_cpu h avail pid w getaffinity = (Some (ok\<lparr>o1 := Some (fst w)\<rparr>), w)"
  "e_cpu h avail pid w (setaffinity s) = (if runnable avail s then (Some ok, (s, snd w))
     else (Some (ok\<lparr>rv := - 1, errno := EINVAL\<rparr>), w))"
  "e_cpu h avail pid w (Pip (Pip_spawn p core (Some i) k)) =
     (Some ok, (fst w, (snd w)(i := if core = CPUCORE_ASIS h then fst w else 2 ^ nat core)))"
  "e_cpu h avail pid w (Pip (Pip_init a b c d)) = (Some (ok\<lparr>o1 := Some pid\<rparr>), w)"
  "e_cpu h avail pid w (Pip (Pip_wait_any x y)) = (Some (ok\<lparr>o2 := Some (exited 0)\<rparr>), w)"
  "e_cpu h avail pid w (Pip Pip_fin) = (Some ok, w)" "e_cpu h avail pid w (Sys (Getenv v)) = (Some ok, w)"
  by (simp_all add: e_cpu_def)

lemma runnable_power: "runnable avail (2 ^ n) \<longleftrightarrow> bit avail n"
proof -
  have "(2::int) ^ n AND avail = 2 ^ n \<longleftrightarrow> bit avail n"
  proof
    assume "(2::int) ^ n AND avail = 2 ^ n"
    then have "bit ((2::int) ^ n AND avail) n" by (simp add: bit_simps)
    then show "bit avail n" by (simp add: bit_simps)
  next
    assume "bit avail n"
    then show "(2::int) ^ n AND avail = 2 ^ n" by (intro bit_eqI) (auto simp: bit_simps)
  qed
  then show ?thesis by (simp add: runnable_def)
qed

lemma take_bit_grows: "take_bit (Suc n) (x::int) = (if bit x n then take_bit n x OR 2 ^ n else take_bit n x)"
  by (rule bit_eqI) (auto simp: bit_simps less_Suc_eq)

lemma fill_loop:
  "outcome (for_range 0 CPU_SETSIZE fill_body 0 :: ('e + int) prog) (e_cpu h avail pid) (cur, m) =
     Returned (Inr (take_bit CPU_SETSIZE avail)) \<and>
   snd (final_env (for_range 0 CPU_SETSIZE fill_body 0 :: ('e + int) prog) (e_cpu h avail pid) (cur, m)) = m"
proof -
  have "outcome (fill_body j (take_bit (nat j) avail) :: ('e + int) prog) (e_cpu h avail pid) w =
      Returned (Inr (take_bit (nat (j + 1)) avail)) \<and>
    snd (final_env (fill_body j (take_bit (nat j) avail) :: ('e + int) prog) (e_cpu h avail pid) w) = m"
    if "0 \<le> j" "snd w = m" for j w
  proof -
    have "nat (j + 1) = Suc (nat j)" using that(1) by simp
    then show ?thesis using that(2)
      by (simp add: fill_body_def e_cpu_simps runnable_power take_bit_grows)
  qed
  then show ?thesis
    using for_range_runs_inv [where i = 0 and n = CPU_SETSIZE and st = "\<lambda>j. take_bit (nat j) avail"
        and body = "fill_body :: int \<Rightarrow> int \<Rightarrow> ('e + int) prog" and e = "e_cpu h avail pid"
        and W = "\<lambda>_ w. snd w = m" and w = "(cur, m)"] by simp
qed

lemma fill_runs:
  assumes "runnable avail cur"
  shows "outcome (fill_cpuset :: ('e + int) prog) (e_cpu h avail pid) (cur, m) =
      Returned (Inr (take_bit CPU_SETSIZE avail))"
    "final_env (fill_cpuset :: ('e + int) prog) (e_cpu h avail pid) (cur, m) = (cur, m)"
  using fill_loop [where 'e = 'e, of h avail pid cur m] assms
  by (simp_all add: fill_cpuset_def e_cpu_simps seqE_def run_parts)

text \<open>The core of task \<open>i\<close>.\<close>

definition core_of :: "int \<Rightarrow> int \<Rightarrow> nat" where
  "core_of avail i = cores avail ! (nat i mod length (cores avail))"

lemma core_of: "cores avail \<noteq> [] \<Longrightarrow> bit avail (core_of avail i) \<and> core_of avail i < CPU_SETSIZE"
  unfolding core_of_def by (rule cores_nth)

definition bound :: "int \<Rightarrow> int \<Rightarrow> machine \<Rightarrow> bool" where
  "bound avail j w \<longleftrightarrow> (\<forall>i. 0 \<le> i \<and> i < j \<longrightarrow> snd w i = 2 ^ core_of avail i)"

lemma bind_rounds:
  assumes "cores avail \<noteq> []" "CPUCORE_ASIS h < 0 \<or> int CPU_SETSIZE \<le> CPUCORE_ASIS h"
    and "0 \<le> j" "bound avail j w"
  shows "outcome (bind_by_core h prog avail j ()) (e_cpu h avail pid) w = Returned (Inr ()) \<and>
      bound avail (j + 1) (final_env (bind_by_core h prog avail j ()) (e_cpu h avail pid) w)"
    "outcome (bind_by_affinity h prog avail j ()) (e_cpu h avail pid) w = Returned (Inr ()) \<and>
      bound avail (j + 1) (final_env (bind_by_affinity h prog avail j ()) (e_cpu h avail pid) w)"
proof -
  have c: "int (cores avail ! (nat j mod length (cores avail))) = int (core_of avail j)" by (simp add: core_of_def)
  have "int (core_of avail j) \<noteq> CPUCORE_ASIS h" using core_of [OF assms(1), of j] assms(2) by linarith
  then show "outcome (bind_by_core h prog avail j ()) (e_cpu h avail pid) w = Returned (Inr ()) \<and>
      bound avail (j + 1) (final_env (bind_by_core h prog avail j ()) (e_cpu h avail pid) w)"
    using assms(3,4) by (simp add: bind_by_core_def nth_core_eq assms(1) c chk_def e_cpu_simps bound_def)
  have "runnable avail (2 ^ core_of avail j)" using core_of [OF assms(1)] by (simp add: runnable_power)
  then show "outcome (bind_by_affinity h prog avail j ()) (e_cpu h avail pid) w = Returned (Inr ()) \<and>
      bound avail (j + 1) (final_env (bind_by_affinity h prog avail j ()) (e_cpu h avail pid) w)"
    using assms(3,4) by (simp add: bind_by_affinity_def nth_core_eq assms(1) c chk_def e_cpu_simps bound_def)
qed

lemma core_waits_runs:
  "outcome (core_waits n 0) (e_cpu h avail pid) w = Returned (Inr 0)"
  "final_env (core_waits n 0) (e_cpu h avail pid) w = w"
  by (induction n) (simp_all add: chk_def chkv_def e_cpu_simps Let_def)

lemma core_root_runs:
  assumes "cores avail \<noteq> []" "CPUCORE_ASIS h < 0 \<or> int CPU_SETSIZE \<le> CPUCORE_ASIS h" "0 \<le> k" "k \<le> n"
  shows "outcome (core_root h prog avail n k) (e_cpu h avail pid) w = Returned (Inr 0) \<and>
    bound avail n (final_env (core_root h prog avail n k) (e_cpu h avail pid) w)"
proof -
  let ?e = "e_cpu h avail pid"
  let ?p = "for_range 0 (nat k) (bind_by_core h prog avail) ()"
  have p: "outcome ?p ?e w = Returned (Inr ())" "bound avail k (final_env ?p ?e w)"
    using for_range_runs_inv [where i = 0 and n = "nat k" and st = "\<lambda>_. ()" and body = "bind_by_core h prog avail"
        and e = ?e and W = "bound avail" and w = w] bind_rounds(1) [OF assms(1,2)] assms(3)
    by (simp_all add: bound_def)
  let ?q = "for_range k (nat (n - k)) (bind_by_affinity h prog avail) ()"
  have q: "outcome ?q ?e w' = Returned (Inr ())" "bound avail n (final_env ?q ?e w')" if "bound avail k w'" for w'
    using for_range_runs_inv [where i = k and n = "nat (n - k)" and st = "\<lambda>_. ()"
        and body = "bind_by_affinity h prog avail" and e = ?e and W = "bound avail" and w = w']
      bind_rounds(2) [OF assms(1,2)] assms(3,4) that by simp_all
  show ?thesis using p q [OF p(2)] core_waits_runs
    by (simp add: core_root_def seqE_def run_parts)
qed

lemma two_bits: "bit (2 ^ n :: int) n"
  by (simp add: bit_simps)

text \<open>C13: \<open>corebind\<close>, on a machine with any set of cores: the root returns 0, having bound every task
to one core, half of the tasks through \<open>pip\_spawn\<close> and the others through its own affinity; and each
task, started with the affinity that gives it, finds itself on the core it computes and returns 0.\<close>

theorem corebind_agrees:
  assumes "fits h argv" "0 < NTASKS h" "CPUCORE_ASIS h < 0 \<or> int CPU_SETSIZE \<le> CPUCORE_ASIS h"
    and "cores avail \<noteq> []" "take_bit CPU_SETSIZE avail = avail" "runnable avail cur"
    and "w = final_env (corebind_main h argv) (e_cpu h avail (PIPID_ROOT h)) (cur, \<lambda>_. 0)"
    and "0 \<le> i" "i < ntasks_of h argv"
  shows "outcome (corebind_main h argv) (e_cpu h avail (PIPID_ROOT h)) (cur, \<lambda>_. 0) = Returned 0 \<and>
    snd w i = 2 ^ core_of avail i \<and>
    outcome (corebind_main h argv) (e_cpu h avail i) (snd w i, m) = Returned 0"
proof -
  let ?n = "ntasks_of h argv"
  have n: "0 < ?n" using assms(2) by (simp add: ntasks_of_def)
  define k where "k = (let k = c_div ?n 2 in if k < 1 then 1 else k)"
  have k: "0 \<le> k" "k \<le> ?n" using n by (auto simp: k_def c_div_nonneg Let_def)
  have guard: "outcome (finE (ntasks_guard (NTASKS h) argv) f) (e_cpu h avail pid) w = outcome (f ?n) (e_cpu h avail pid) w"
    "final_env (finE (ntasks_guard (NTASKS h) argv) f) (e_cpu h avail pid) w = final_env (f ?n) (e_cpu h avail pid) w"
    for f :: "int \<Rightarrow> int prog" and pid w
    using assms(1) by (auto simp: ntasks_guard_def Let_def fits_def ntasks_of_def e_cpu_simps)
  have fill: "outcome (finE fill_cpuset f) (e_cpu h avail pid) (c, m) = outcome (f avail) (e_cpu h avail pid) (c, m)"
    "final_env (finE fill_cpuset f) (e_cpu h avail pid) (c, m) = final_env (f avail) (e_cpu h avail pid) (c, m)"
    if "runnable avail c" for f :: "int \<Rightarrow> int prog" and pid c m
    using fill_runs [where 'e = int, OF that, of h pid m] assms(5) by (simp_all add: finE_def run_parts)
  let ?e = "e_cpu h avail (PIPID_ROOT h)"
  let ?root = "core_root h (argv ! 0) avail ?n k"
  have root: "outcome ?root ?e v = Returned (Inr 0)" "bound avail ?n (final_env ?root ?e v)" for v
    using core_root_runs [OF assms(4,3) k] by blast+
  have root_then: "outcome (finE ?root f) ?e v = outcome (f 0) ?e (final_env ?root ?e v)"
    "final_env (finE ?root f) ?e v = final_env (f 0) ?e (final_env ?root ?e v)" for f v
    using root(1) [of v] by (simp_all add: finE_def run_parts)
  have "outcome (corebind_main h argv) ?e (cur, \<lambda>_. 0) = Returned 0" "bound avail ?n w"
    using root(2) [of "(cur, \<lambda>_. 0)"] unfolding assms(7)
    by (simp_all add: corebind_main_def guard fill [OF assms(6)] chk_def e_cpu_simps Let_def root_then
        flip: k_def [unfolded Let_def])
  moreover then have wi: "snd w i = 2 ^ core_of avail i" using assms(8,9) by (simp add: bound_def)
  moreover have "outcome (corebind_main h argv) (e_cpu h avail i) (2 ^ core_of avail i, m) = Returned 0"
  proof -
    have r: "runnable avail (2 ^ core_of avail i)" using core_of [OF assms(4)] by (simp add: runnable_power)
    have core: "nth_core i avail k = k (int (core_of avail i))" for k :: "int \<Rightarrow> (int + int) prog"
      by (simp add: nth_core_eq [OF assms(8,4)] core_of_def)
    have "i \<noteq> PIPID_ROOT h" using assms(1,8) by (simp add: fits_def)
    then show ?thesis using two_bits
      by (simp add: corebind_main_def guard fill [OF r] chk_def chkv_def e_cpu_simps Let_def core_task_def core)
  qed
  ultimately show ?thesis by simp
qed

text \<open>A machine with the cores 1 and 3, and a library for which -1 is the core "as it is".\<close>

lemma corebind_agrees_witness:
  "snd (final_env (corebind_main (h_sample\<lparr>CPUCORE_ASIS := - 1\<rparr>) argv_sample)
      (e_cpu (h_sample\<lparr>CPUCORE_ASIS := - 1\<rparr>) 10 (- 1)) (8, \<lambda>_. 0)) 2 = 2 ^ core_of 10 2 \<and>
   outcome (corebind_main (h_sample\<lparr>CPUCORE_ASIS := - 1\<rparr>) argv_sample)
      (e_cpu (h_sample\<lparr>CPUCORE_ASIS := - 1\<rparr>) 10 2) (2 ^ core_of 10 2, \<lambda>_. 0) = Returned 0"
proof -
  let ?h = "h_sample\<lparr>CPUCORE_ASIS := - 1\<rparr>"
  have f: "fits ?h argv_sample" "ntasks_of ?h argv_sample = 3"
    using argv_sample(1) by (simp_all add: fits_def NTASKS_def ntasks_of_def argv_sample_def arg_int_def strtol_eval)
  have "bit (10::int) 1" by simp
  then have c: "1 \<in> set (cores 10)" by (simp add: cores_def CPU_SETSIZE_def)
  have t: "take_bit CPU_SETSIZE 10 = (10::int)" by (simp add: take_bit_eq_mod CPU_SETSIZE_def)
  have r: "runnable 10 8" by (simp add: runnable_def)
  from corebind_agrees [OF f(1) _ _ _ t r refl, of 2 "\<lambda>_. 0"] show ?thesis
    using c f(2) by (force simp: NTASKS_def h_sample_def)
qed

end
