(* ===== verification/HeapTests.thy ===== *)
theory HeapTests
  imports Args
begin

text \<open>
  \<open>compat/malloc-x.c\<close>, \<open>compat/memalign-x.c\<close> and \<open>compat/realloc-x.c\<close>: every task replaces, over and
  over, a region of memory another task has allocated. The regions are in slots the tasks share,
  each with a spin lock. The programs differ only in how a region is replaced, which is the
  parameter \<open>swap\<close> of their common body and of the locale \<open>heap_swap\<close>.
\<close>

section \<open>The common body\<close>

definition HEAP_NITERS :: int where "HEAP_NITERS = 10000"
definition HEAP_MAX :: int where "HEAP_MAX = 1024 * 1024"
definition PGSZ :: int where "PGSZ = 4096"

text \<open>The fields of \<open>slots[n]\<close>; its lock is an argument of the calls on it.\<close>

definition region_var :: "int \<Rightarrow> string" where "region_var n = ''region'' @ show_int n"
definition who_var :: "int \<Rightarrow> string" where "who_var n = ''who'' @ show_int n"

abbreviation trylock :: "int \<Rightarrow> call" where "trylock n \<equiv> Sys (Lib ''pip_spin_trylock'' [n])"
abbreviation unlock :: "int \<Rightarrow> call" where "unlock n \<equiv> Sys (Lib ''pip_spin_unlock'' [n])"
abbreviation mprobe :: "int \<Rightarrow> call" where "mprobe p \<equiv> Sys (Lib ''mprobe'' [p])"

text \<open>Leaving the loop: a \<open>return\<close>, the jump to \<open>done\<close>, or a search that used up its fuel.\<close>

datatype heap_stop = Return int | Goto_done | Out_of_fuel

text \<open>The search for a slot another task filled last and whose lock is free.\<close>

definition slot_body :: "pip_h \<Rightarrow> int \<Rightarrow> int \<Rightarrow> unit \<Rightarrow> (unit + int option) prog" where
  "slot_body h pipid nt u =
     Call (Mem (Load ''count'')) (\<lambda>r.
       if rv r = 0 then Ret (Inr None)
       else Call (Sys Random) (\<lambda>r.
         if nt = 0 then Halt (Fault SIGFPE)
         else let n = to_int32 (c_rem (rv r) nt);
             probe = Call (Mem (Load (who_var n))) (\<lambda>r.
               if rv r = pipid then Ret (Inl ())
               else Call (trylock n) (\<lambda>r. if rv r = 0 then Ret (Inl ()) else Ret (Inr (Some n))))
           in if VERSION_MAJOR h > 1 then Call (Pip Pip_yield) (\<lambda>_. probe) else probe))"

text \<open>The states \<open>mprobe\<close> reports, by the values of glibc's \<open>enum mcheck_status\<close>.\<close>

definition MCHECK_FREE :: int where "MCHECK_FREE = 1"
definition MCHECK_HEAD :: int where "MCHECK_HEAD = 2"
definition MCHECK_TAIL :: int where "MCHECK_TAIL = 3"

definition heap_round :: "pip_h \<Rightarrow> nat \<Rightarrow> (int \<Rightarrow> int \<Rightarrow> (heap_stop + unit) prog) \<Rightarrow> int \<Rightarrow> int \<Rightarrow>
    int \<Rightarrow> unit \<Rightarrow> (heap_stop + unit) prog" where
  "heap_round h fuel swap pipid nt i u =
     bind (loop fuel (slot_body h pipid nt) ()) (\<lambda>x. case x of
       None \<Rightarrow> Ret (Inl Out_of_fuel)
     | Some None \<Rightarrow> Ret (Inl Goto_done)
     | Some (Some n) \<Rightarrow>
         Call (Sys Random) (\<lambda>r. let sz = c_rem (rv r) HEAP_MAX in
         Call (Mem (Load (region_var n))) (\<lambda>r. Call (mprobe (rv r)) (\<lambda>r.
         if rv r = MCHECK_HEAD \<or> rv r = MCHECK_TAIL \<or> rv r = MCHECK_FREE then Ret (Inl (Return EXIT_FAIL))
         else seqE (swap n sz) (\<lambda>_.
           Call (Mem (Store (who_var n) pipid)) (\<lambda>_. Call (unlock n) (\<lambda>_. Ret (Inr ()))))))))"

definition heap_loop :: "pip_h \<Rightarrow> nat \<Rightarrow> (int \<Rightarrow> int \<Rightarrow> (heap_stop + unit) prog) \<Rightarrow> int \<Rightarrow> int \<Rightarrow> int \<Rightarrow>
    (heap_stop + unit) prog" where
  "heap_loop h fuel swap niters pipid nt = for_range 0 (nat niters) (heap_round h fuel swap pipid nt) ()"

text \<open>Task 0 sets the slots up and exports them, the others import them.\<close>

definition slot_init :: "int \<Rightarrow> unit \<Rightarrow> (int + unit) prog" where
  "slot_init i u = Call (Mem (Store (region_var i) 0)) (\<lambda>_. Call (Mem (Store (who_var i) (- 1))) (\<lambda>_.
     Call (Sys (Lib ''pip_spin_init'' [i])) (\<lambda>_. Ret (Inr ()))))"

definition heap_setup :: "int \<Rightarrow> int \<Rightarrow> (int + unit) prog" where
  "heap_setup pipid nt =
     (let out = Ret (Inl EXIT_FAIL);
          named = (\<lambda>c k. chk (Pip c) (\<lambda>r. rv r \<noteq> 0) out (\<lambda>_. k)) in
      if pipid = 0 then
        Call (Sys (Malloc (24 * nt))) (\<lambda>_.
        seqE (for_range 0 (nat nt) slot_init ()) (\<lambda>_.
        Call (Mem (Store ''count'' (nt - 1))) (\<lambda>_.
        named (Pip_named_export ''COUNT'') (named (Pip_named_export ''SLOTS'')
          (named (Pip_barrier_init nt) (named (Pip_named_export ''BARRIER'') (Ret (Inr ()))))))))
      else named (Pip_named_import 0 ''COUNT'') (named (Pip_named_import 0 ''SLOTS'')
        (named (Pip_named_import 0 ''BARRIER'') (Ret (Inr ())))))"

text \<open>\<open>niters0\<close>: what the uninitialised \<open>niters\<close> holds when there is no argument.\<close>

definition heap_main :: "pip_h \<Rightarrow> nat \<Rightarrow> (int \<Rightarrow> int \<Rightarrow> (heap_stop + unit) prog) \<Rightarrow> int \<Rightarrow> string list \<Rightarrow>
    int option prog" where
  "heap_main h fuel swap niters0 argv =
     (let niters = (if length argv > 1 then atoi32 (argv ! 1) else niters0);
          niters = (if niters \<le> 0 then HEAP_NITERS else niters) in
      Call (Sys (Lib ''mcheck'' [])) (\<lambda>_. Call (Sys (Lib ''mallopt'' [3])) (\<lambda>_.
      Call (Pip Pip_get_ntasks) (\<lambda>r. let nt = stored (o1 r) 0 in
      Call (Pip (Pip_get_pipid True)) (\<lambda>r. let pipid = stored (o1 r) 0 in
      bind (heap_setup pipid nt) (\<lambda>x. case x of Inl v \<Rightarrow> Ret (Some v) | Inr _ \<Rightarrow>
      Call (Sys (Malloc 1024)) (\<lambda>r. Call (Mem (Store (region_var pipid) (rv r))) (\<lambda>_.
      Call (Mem (Store (who_var pipid) pipid)) (\<lambda>_.
      chk (Pip Pip_barrier_wait) (\<lambda>r. rv r \<noteq> 0) (Ret (Some EXIT_FAIL)) (\<lambda>_.
      Call (Sys (Srand (pipid + 101))) (\<lambda>_.
      bind (heap_loop h fuel swap niters pipid nt) (\<lambda>x. case x of
        Inl (Return v) \<Rightarrow> Ret (Some v)
      | Inl Out_of_fuel \<Rightarrow> Ret None
      | _ \<Rightarrow> Call (Sys (Lib ''pip_atomic_sub_and_fetch'' [1])) (\<lambda>_.
          Call (Sys (Lib ''mcheck_check_all'' [])) (\<lambda>_. Ret (Some 0)))))))))))))))"

section \<open>The three ways to replace a region\<close>

definition swap_malloc :: "int \<Rightarrow> int \<Rightarrow> (heap_stop + unit) prog" where
  "swap_malloc n sz =
     Call (Mem (Load (region_var n))) (\<lambda>p. Call (Sys (Lib ''free'' [rv p])) (\<lambda>_.
     Call (Sys (Malloc sz)) (\<lambda>q. Call (Mem (Store (region_var n) (rv q))) (\<lambda>_. Ret (Inr ())))))"

text \<open>\<open>posix_memalign\<close> stores the new region's address in the slot itself.\<close>

definition swap_memalign :: "int \<Rightarrow> int \<Rightarrow> (heap_stop + unit) prog" where
  "swap_memalign n sz =
     Call (Mem (Load (region_var n))) (\<lambda>p. Call (Sys (Lib ''free'' [rv p])) (\<lambda>_.
     if sz > PGSZ then
       chk (Sys (Lib ''posix_memalign'' [PGSZ, sz])) (\<lambda>r. rv r \<noteq> 0) (Ret (Inl (Return EXIT_FAIL))) (\<lambda>r.
         case o1 r of None \<Rightarrow> Ret (Inr ())
         | Some q \<Rightarrow> Call (Mem (Store (region_var n) q)) (\<lambda>_. Ret (Inr ())))
     else Call (Sys (Malloc sz)) (\<lambda>q. Call (Mem (Store (region_var n) (rv q))) (\<lambda>_. Ret (Inr ())))))"

definition swap_realloc :: "int \<Rightarrow> int \<Rightarrow> (heap_stop + unit) prog" where
  "swap_realloc n sz =
     Call (Mem (Load (region_var n))) (\<lambda>p. Call (Sys (Lib ''realloc'' [rv p, sz])) (\<lambda>q.
     Call (Mem (Store (region_var n) (rv q))) (\<lambda>_. Ret (Inr ()))))"

definition malloc_x_main :: "pip_h \<Rightarrow> nat \<Rightarrow> int \<Rightarrow> string list \<Rightarrow> int option prog" where
  "malloc_x_main h fuel niters0 argv = heap_main h fuel swap_malloc niters0 argv"

definition memalign_x_main :: "pip_h \<Rightarrow> nat \<Rightarrow> int \<Rightarrow> string list \<Rightarrow> int option prog" where
  "memalign_x_main h fuel niters0 argv = heap_main h fuel swap_memalign niters0 argv"

definition realloc_x_main :: "pip_h \<Rightarrow> nat \<Rightarrow> int \<Rightarrow> string list \<Rightarrow> int option prog" where
  "realloc_x_main h fuel niters0 argv = heap_main h fuel swap_realloc niters0 argv"

section \<open>The discipline of the locks\<close>

text \<open>
  What a task holds: no lock, or the lock of slot \<open>n\<close> with the region it has loaded from it since. A
  call keeps the discipline when it locks nothing twice, unlocks what is locked, stores into the
  fields of the locked slot only and frees, probes or reallocates the region loaded from it only.
\<close>

type_synonym holding = "(int \<times> int option) option"

definition lock_step :: "holding \<Rightarrow> call \<times> resp \<Rightarrow> holding option" where
  "lock_step lk = (\<lambda>(c, r). case c of
       Mem (Load v) \<Rightarrow> Some (case lk of None \<Rightarrow> None
         | Some (n, p) \<Rightarrow> Some (n, if v = region_var n then Some (rv r) else p))
     | Mem (Store v x) \<Rightarrow> (case lk of None \<Rightarrow> None
         | Some (n, p) \<Rightarrow> if v = region_var n \<or> v = who_var n then Some lk else None)
     | Sys (Lib f args) \<Rightarrow>
         if f = ''pip_spin_trylock'' then
           (if lk = None then Some (if rv r = 0 then None else Some (hd args, None)) else None)
         else if f = ''pip_spin_unlock'' then
           (case lk of None \<Rightarrow> None | Some (n, p) \<Rightarrow> if n = hd args then Some None else None)
         else if f = ''free'' \<or> f = ''realloc'' \<or> f = ''mprobe'' then
           (case lk of None \<Rightarrow> None | Some (n, p) \<Rightarrow> if p = Some (hd args) then Some lk else None)
         else Some lk
     | _ \<Rightarrow> Some lk)"

primrec lock_run :: "holding option \<Rightarrow> trace \<Rightarrow> holding option" where
  "lock_run s [] = s"
| "lock_run s (x # t) = lock_run (case s of None \<Rightarrow> None | Some lk \<Rightarrow> lock_step lk x) t"

definition locks :: "trace \<Rightarrow> holding option" where
  "locks t = lock_run (Some None) t"

lemma lock_run_append: "lock_run s (t @ u) = lock_run (lock_run s t) u"
  by (induction t arbitrary: s) simp_all

lemma locks_simps [simp]: "locks [] = Some None" "locks (t @ u) = lock_run (locks t) u"
  by (simp_all add: locks_def lock_run_append)

lemma lock_step_simps [simp]:
  "lock_step (Some (n, p)) (Mem (Load v), r) = Some (Some (n, if v = region_var n then Some (rv r) else p))"
  "lock_step None (Mem (Load v), r) = Some None"
  "lock_step (Some (n, p)) (Mem (Store v x), r) =
     (if v = region_var n \<or> v = who_var n then Some (Some (n, p)) else None)"
  "lock_step lk (trylock m, r) =
     (if lk = None then Some (if rv r = 0 then None else Some (m, None)) else None)"
  "lock_step (Some (n, p)) (unlock m, r) = (if n = m then Some None else None)"
  "lock_step (Some (n, p)) (mprobe q, r) = (if p = Some q then Some (Some (n, p)) else None)"
  "lock_step (Some (n, p)) (Sys (Lib ''free'' [q]), r) = (if p = Some q then Some (Some (n, p)) else None)"
  "lock_step (Some (n, p)) (Sys (Lib ''realloc'' [q, s]), r) = (if p = Some q then Some (Some (n, p)) else None)"
  "lock_step lk (Sys (Lib ''posix_memalign'' [q, s]), r) = Some lk"
  "lock_step lk (Sys Random, r) = Some lk" "lock_step lk (Sys (Malloc s), r) = Some lk"
  "lock_step lk (Sys (Print_fle y), r) = Some lk" "lock_step lk (Pip z, r) = Some lk"
  by (simp_all add: lock_step_def)

text \<open>What a way to replace a region owes its caller: it keeps the lock it is called with.\<close>

locale heap_swap =
  fixes swap :: "int \<Rightarrow> int \<Rightarrow> (heap_stop + unit) prog"
  assumes swap: "locks t = Some (Some (n, p)) \<Longrightarrow>
      wpt any_answer (\<lambda>t x. case x of Inl stop \<Rightarrow> locks t \<noteq> None \<and> (\<exists>v. stop = Return v)
        | Inr _ \<Rightarrow> \<exists>p. locks t = Some (Some (n, p))) t (swap n sz)"
begin

definition left_well :: "trace \<Rightarrow> heap_stop + unit \<Rightarrow> bool" where
  "left_well t x \<longleftrightarrow> (case x of Inl (Return v) \<Rightarrow> locks t \<noteq> None | _ \<Rightarrow> locks t = Some None)"

lemma left_well_simps:
  "left_well t (Inl (Return v)) \<longleftrightarrow> locks t \<noteq> None" "left_well t (Inl Goto_done) \<longleftrightarrow> locks t = Some None"
  "left_well t (Inl Out_of_fuel) \<longleftrightarrow> locks t = Some None" "left_well t (Inr u) \<longleftrightarrow> locks t = Some None"
  by (simp_all add: left_well_def)

lemma slot_wpt:
  assumes "locks t = Some None"
  shows "wpt any_answer (\<lambda>t x. locks t = Some (case x of Some (Some n) \<Rightarrow> Some (n, None) | _ \<Rightarrow> None)) t
    (loop fuel (slot_body h pipid nt) ())"
  by (rule wpt_loop [where I = "\<lambda>t _. locks t = Some None"])
    (use assms in \<open>auto simp: slot_body_def Let_def\<close>)

lemma round_wpt:
  assumes "locks t = Some None"
  shows "wpt any_answer (\<lambda>t x. case x of Inl e \<Rightarrow> left_well t (Inl e) | Inr _ \<Rightarrow> locks t = Some None) t
    (heap_round h fuel swap pipid nt i u)"
  unfolding heap_round_def wpt_bind
proof (rule wpt_mono [OF slot_wpt [OF assms]])
  fix t :: trace and x
  assume L: "locks t = Some (case x of Some (Some n) \<Rightarrow> Some (n, None) | _ \<Rightarrow> None)"
  have after_swap: "wpt any_answer (\<lambda>t x. case x of Inl e \<Rightarrow> left_well t (Inl e) | Inr _ \<Rightarrow> locks t = Some None) t
      (seqE (swap n sz) (\<lambda>_. Call (Mem (Store (who_var n) pipid)) (\<lambda>_. Call (unlock n) (\<lambda>_. Ret (Inr ())))))"
    if "locks t = Some (Some (n, p))" for t n p sz
    unfolding wpt_seqE
    by (rule wpt_mono [OF swap [OF that]]) (auto simp: left_well_simps split: sum.splits)
  show "wpt any_answer (\<lambda>t x. case x of Inl e \<Rightarrow> left_well t (Inl e) | Inr _ \<Rightarrow> locks t = Some None) t
     (case x of None \<Rightarrow> Ret (Inl Out_of_fuel) | Some None \<Rightarrow> Ret (Inl Goto_done)
      | Some (Some n) \<Rightarrow>
         Call (Sys Random) (\<lambda>r. let sz = c_rem (rv r) HEAP_MAX in
         Call (Mem (Load (region_var n))) (\<lambda>r. Call (mprobe (rv r)) (\<lambda>r.
         if rv r = MCHECK_HEAD \<or> rv r = MCHECK_TAIL \<or> rv r = MCHECK_FREE then Ret (Inl (Return EXIT_FAIL))
         else seqE (swap n sz) (\<lambda>_.
           Call (Mem (Store (who_var n) pipid)) (\<lambda>_. Call (unlock n) (\<lambda>_. Ret (Inr ()))))))))"
    using L by (auto simp: left_well_simps Let_def split: option.splits intro!: after_swap)
qed

lemma loop_wpt: "wpt any_answer left_well [] (heap_loop h fuel swap niters pipid nt)"
  unfolding heap_loop_def
proof (rule wpt_for_range [where I = "\<lambda>_ t _. locks t = Some None"])
  show "wpt any_answer (\<lambda>t x. case x of Inl e \<Rightarrow> left_well t (Inl e) | Inr s \<Rightarrow> locks t = Some None) t
      (heap_round h fuel swap pipid nt j s)" if "locks t = Some None" for j t s
    by (rule round_wpt [OF that])
qed (simp_all add: left_well_def)

end

interpretation malloc_x: heap_swap swap_malloc
  by unfold_locales (simp add: swap_malloc_def)

interpretation memalign_x: heap_swap swap_memalign
  by unfold_locales (auto simp: swap_memalign_def wpt_chk split: option.splits)

interpretation realloc_x: heap_swap swap_realloc
  by unfold_locales (simp add: swap_realloc_def)

text \<open>C22: in each of the three programs a task keeps the discipline of the locks through all of its
rounds, whatever the other tasks do to the slots meanwhile: it holds one lock at most, writes the
fields of a slot under that slot's lock, frees, probes or reallocates only the region it has read
from the slot under its lock, and holds no lock when it leaves the loop, but for the \<open>return\<close>s inside.\<close>

theorem heap_locks:
  assumes "swap = swap_malloc \<or> swap = swap_memalign \<or> swap = swap_realloc"
    and "outcome (heap_loop h fuel swap niters pipid nt) e w = Returned x"
  shows "locks (trace (heap_loop h fuel swap niters pipid nt) e w) \<noteq> None \<and>
    (case x of Inl (Return v) \<Rightarrow> True | _ \<Rightarrow> locks (trace (heap_loop h fuel swap niters pipid nt) e w) = Some None)"
proof -
  have "wpt any_answer malloc_x.left_well [] (heap_loop h fuel swap niters pipid nt)"
    using assms(1) malloc_x.loop_wpt memalign_x.loop_wpt realloc_x.loop_wpt by blast
  from wpt_outcome [OF this answers_any assms(2)] show ?thesis
    by (auto simp: malloc_x.left_well_def split: sum.splits heap_stop.splits)
qed

text \<open>A heap with a filled slot of another task.\<close>

definition e_heap :: "unit env" where
  "e_heap = reply (\<lambda>c. case c of
       Mem (Load v) \<Rightarrow> ok\<lparr>rv := 5\<rparr>
     | Sys (Lib f args) \<Rightarrow> (if f = ''pip_spin_trylock'' then ok\<lparr>rv := 1\<rparr> else ok)
     | Sys (Malloc n) \<Rightarrow> ok\<lparr>rv := 7\<rparr> | _ \<Rightarrow> ok)"

lemma heap_locks_witness:
  "locks (trace (heap_loop h_sample 1 swap_malloc 1 0 2) e_heap ()) = Some None \<and>
   Sys (Lib ''free'' [5]) \<in> set (calls (heap_loop h_sample 1 swap_malloc 1 0 2) e_heap ())"
proof -
  have run: "outcome (heap_loop h_sample 1 swap_malloc 1 0 2) e_heap () = Returned (Inr ())"
    "Sys (Lib ''free'' [5]) \<in> set (calls (heap_loop h_sample 1 swap_malloc 1 0 2) e_heap ())"
    by (simp_all add: heap_loop_def heap_round_def slot_body_def swap_malloc_def h_sample_def e_heap_def c_rem_def
        to_int32_def MCHECK_FREE_def MCHECK_HEAD_def MCHECK_TAIL_def calls_def)
  show ?thesis using heap_locks [OF disjI1 [OF refl] run(1)] run(2) by simp
qed

end
