(* ===== verification/ChainTests.thy ===== *)
theory ChainTests
  imports Seek
begin

text \<open>
  \<open>basics/hook_and_coe.c\<close>: the root builds a chain of pipes through its tasks, the before-hook of
  each task moving its two ends to the descriptors 0 and 1; the root sends a file through the chain
  and compares what comes back. The program is modelled as it is compiled, without DEBUG and with
  \<open>FD_CLOEXEC\<close>.
\<close>

section \<open>Hooks\<close>

definition CHAIN_NTASKS :: int where "CHAIN_NTASKS = 16"
definition FD_CLOEXEC :: int where "FD_CLOEXEC = 1"
definition FNAME :: string where "FNAME = ''GreatExpectations-Chap1.txt''"
definition BUFSZ :: int where "BUFSZ = 1024"

definition set_coe_flag :: "int \<Rightarrow> int prog" where
  "set_coe_flag fd =
     Call (Sys (Lib ''fcntl_getfd'' [fd])) (\<lambda>r.
       if rv r \<ge> 0 then
         Call (Sys (Lib ''fcntl_setfd'' [fd, rv r OR FD_CLOEXEC])) (\<lambda>r.
           Ret (if rv r < 0 then errno r else 0))
       else Ret (errno r))"

text \<open>\<open>CHECK (f, c, return (errno))\<close>\<close>

definition chk_errno :: "call \<Rightarrow> (int \<Rightarrow> bool) \<Rightarrow> int prog \<Rightarrow> int prog" where
  "chk_errno f c k = Call f (\<lambda>r. if c (rv r) then Call (Sys (Print_fle (rv r))) (\<lambda>_. Ret (errno r)) else k)"

definition move_fd :: "int \<Rightarrow> int \<Rightarrow> int prog \<Rightarrow> int prog" where
  "move_fd fd target k =
     (if fd \<noteq> target then
        chk_errno (Sys (Lib ''dup2'' [fd, target])) (\<lambda>v. v < 0) (chk_errno (Sys (Close fd)) (\<lambda>v. v \<noteq> 0) k)
      else k)"

definition bhook :: "int \<times> int \<Rightarrow> int prog" where
  "bhook = (\<lambda>(p0, p1). move_fd p0 0 (move_fd p1 1 (Ret 0)))"

definition ahook :: "int prog" where "ahook = Call (Sys Free) (\<lambda>_. Ret 0)"

section \<open>Copying\<close>

text \<open>The loop that writes \<open>ccr\<close> bytes from position \<open>p\<close> of the buffer on; it may not end.\<close>

definition put_body :: "int \<Rightarrow> string \<Rightarrow> int \<times> int \<Rightarrow> (int \<times> int + (int + unit)) prog" where
  "put_body fd buff = (\<lambda>(p, ccr).
     if ccr > 0 then
       chk (Sys (Write fd (take (nat ccr) (drop (nat p) buff)))) (\<lambda>r. rv r < 0) (Ret (Inr (Inl EXIT_FAIL)))
         (\<lambda>r. Ret (Inl (p + rv r, ccr - rv r)))
     else Ret (Inr (Inr ())))"

text \<open>A task: one round of its endless loop; None when the writing has used its fuel up.\<close>

definition relay_body :: "nat \<Rightarrow> unit \<Rightarrow> (unit + (int + unit) option) prog" where
  "relay_body fuel u =
     chk (Sys (Read 0 BUFSZ)) (\<lambda>r. rv r < 0) (Ret (Inr (Some (Inl EXIT_FAIL)))) (\<lambda>r.
       if rv r = 0 then Ret (Inr (Some (Inr ())))
       else bind (loop fuel (put_body 1 (take (nat (rv r)) (data r))) (0, rv r)) (\<lambda>x. case x of
           None \<Rightarrow> Ret (Inr None)
         | Some (Inl v) \<Rightarrow> Ret (Inr (Some (Inl v)))
         | Some (Inr _) \<Rightarrow> Ret (Inl ())))"

definition chain_task :: "nat \<Rightarrow> int option prog" where
  "chain_task fuel =
     bind (loop fuel (relay_body fuel) ()) (\<lambda>x. case x of
       Some (Some (Inr _)) \<Rightarrow>
         chk (Sys (Close 0)) (\<lambda>r. rv r \<noteq> 0) (Ret (Some EXIT_FAIL)) (\<lambda>_.
         chk (Sys (Close 1)) (\<lambda>r. rv r \<noteq> 0) (Ret (Some EXIT_FAIL)) (\<lambda>_. Ret (Some 0)))
     | Some (Some (Inl v)) \<Rightarrow> Ret (Some v)
     | _ \<Rightarrow> Ret None)"

section \<open>The root\<close>

definition chain_pipe :: "int \<Rightarrow> (int \<times> int) list \<Rightarrow> (int + (int \<times> int) list) prog" where
  "chain_pipe i pipes =
     chk (Sys (Lib ''pipe'' [])) (\<lambda>r. rv r \<noteq> 0) (Ret (Inl EXIT_FAIL)) (\<lambda>r.
       Ret (Inr (pipes @ [(stored (o1 r) 0, stored (o2 r) 0)])))"

definition chk_coe :: "int \<Rightarrow> (int + 'a) prog \<Rightarrow> (int + 'a) prog" where
  "chk_coe fd k = bind (set_coe_flag fd) (\<lambda>v. chkv v (\<lambda>v. v \<noteq> 0) (Ret (Inl EXIT_FAIL)) k)"

text \<open>Task \<open>i\<close> reads from pipe \<open>i\<close> and writes to pipe \<open>i + 1\<close>: the argument of its hooks.\<close>

definition chain_spawn :: "pip_h \<Rightarrow> string \<Rightarrow> (int \<times> int) list \<Rightarrow> int \<Rightarrow> unit \<Rightarrow> (int + unit) prog" where
  "chain_spawn h prog pipes i u =
     (let rd = fst (pipes ! nat i); wr = snd (pipes ! nat (i + 1)) in
      chk (Sys (Malloc 8)) (\<lambda>r. rv r = 0) (Ret (Inl EXIT_FAIL)) (\<lambda>_.
      Call (Mem (Store ''pipep[0]'' rd)) (\<lambda>_. Call (Mem (Store ''pipep[1]'' wr)) (\<lambda>_.
      chk (Pip (Pip_spawn (Some prog) (CPUCORE_ASIS h) (Some i) (Some (nat i)))) (\<lambda>r. rv r \<noteq> 0)
        (Ret (Inl EXIT_FAIL)) (\<lambda>_.
      chk (Sys (Close rd)) (\<lambda>r. rv r \<noteq> 0) (Ret (Inl EXIT_FAIL)) (\<lambda>_.
      chk (Sys (Close wr)) (\<lambda>r. rv r \<noteq> 0) (Ret (Inl EXIT_FAIL)) (\<lambda>_. Ret (Inr ()))))))))"

text \<open>The pipes and the tasks; the result is \<open>fd_out\<close> and \<open>fd_in\<close>.\<close>

definition chain_setup :: "pip_h \<Rightarrow> string \<Rightarrow> int \<Rightarrow> (int + int \<times> int) prog" where
  "chain_setup h prog ntasks =
     seqE (chain_pipe 0 []) (\<lambda>pipes. let fd_out = snd (pipes ! 0) in
     chk_coe fd_out (seqE (for_range 1 (nat (ntasks - 1)) chain_pipe pipes) (\<lambda>pipes.
     seqE (chain_pipe ntasks pipes) (\<lambda>pipes. let fd_in = fst (pipes ! nat ntasks) in
     chk_coe fd_in
      (seqE (chain_spawn h prog pipes 0 ()) (\<lambda>_.
       seqE (for_range 1 (nat (ntasks - 2)) (chain_spawn h prog pipes) ()) (\<lambda>_.
       seqE (if ntasks > 1 then chain_spawn h prog pipes (ntasks - 1) () else Ret (Inr ())) (\<lambda>_.
         Ret (Inr (fd_out, fd_in))))))))))"

text \<open>Reading back: \<open>ccc =- ccr\<close> makes \<open>ccc\<close> negative, so that the loop ends after one read.\<close>

definition back_body :: "int \<Rightarrow> string \<times> int \<Rightarrow> (string \<times> int + (int + string)) prog" where
  "back_body fd = (\<lambda>(bytes, ccc).
     if ccc > 0 then
       chk (Sys (Read fd ccc)) (\<lambda>r. rv r < 0) (Ret (Inr (Inl EXIT_FAIL))) (\<lambda>r.
         if rv r = 0 then Ret (Inr (Inr bytes))
         else Ret (Inl (bytes @ take (nat (rv r)) (data r), - rv r)))
     else Ret (Inr (Inr bytes)))"

text \<open>\<open>strncmp (a, b, n) == 0\<close> for two character arrays.\<close>

definition strneq :: "string \<Rightarrow> string \<Rightarrow> nat \<Rightarrow> bool" where
  "strneq a b n = (c_str (take n a) = c_str (take n b))"

definition chain_round :: "nat \<Rightarrow> int \<Rightarrow> int \<Rightarrow> int \<Rightarrow> unit \<Rightarrow> (unit + (int + unit) option) prog" where
  "chain_round fuel fd_file fd_out fd_in u =
     chk (Sys (Read fd_file BUFSZ)) (\<lambda>r. rv r < 0) (Ret (Inr (Some (Inl EXIT_FAIL)))) (\<lambda>r.
       if rv r = 0 then Ret (Inr (Some (Inr ())))
       else let cc = rv r; buff = take (nat cc) (data r) in
         bind (loop fuel (put_body fd_out buff) (0, cc)) (\<lambda>x. case x of
           None \<Rightarrow> Ret (Inr None)
         | Some (Inl v) \<Rightarrow> Ret (Inr (Some (Inl v)))
         | Some (Inr _) \<Rightarrow>
             bind (loop 2 (back_body fd_in) ([], cc)) (\<lambda>x. case x of
               None \<Rightarrow> Ret (Inr None)
             | Some (Inl v) \<Rightarrow> Ret (Inr (Some (Inl v)))
             | Some (Inr bytes) \<Rightarrow>
                 chkv (c_bool (\<not> strneq buff (overwrite (replicate (nat BUFSZ + 1) NUL) bytes) (nat cc)))
                   (\<lambda>v. v \<noteq> 0) (Ret (Inr (Some (Inl EXIT_FAIL)))) (Ret (Inl ())))))"

definition chain_root :: "pip_h \<Rightarrow> nat \<Rightarrow> string \<Rightarrow> int \<Rightarrow> int option prog" where
  "chain_root h fuel prog ntasks =
     bind (chain_setup h prog ntasks) (\<lambda>x. case x of
       Inl v \<Rightarrow> Ret (Some v)
     | Inr (fd_out, fd_in) \<Rightarrow>
         chk (Sys (Open FNAME)) (\<lambda>r. rv r < 0) (Ret (Some EXIT_FAIL)) (\<lambda>r. let fd_file = rv r in
         bind (loop fuel (chain_round fuel fd_file fd_out fd_in) ()) (\<lambda>x. case x of
           Some (Some (Inr _)) \<Rightarrow>
             chk (Sys (Close fd_file)) (\<lambda>r. rv r \<noteq> 0) (Ret (Some EXIT_FAIL)) (\<lambda>_.
             chk (Sys (Close fd_out)) (\<lambda>r. rv r \<noteq> 0) (Ret (Some EXIT_FAIL)) (\<lambda>_.
             chk (Sys (Close fd_in)) (\<lambda>r. rv r \<noteq> 0) (Ret (Some EXIT_FAIL)) (\<lambda>_.
             bind (for_range 0 (nat ntasks) (\<lambda>i _. chk (Pip (Pip_wait i True)) (\<lambda>r. rv r \<noteq> 0)
                 (Ret (Inl EXIT_FAIL)) (\<lambda>_. Ret (Inr ()))) ()) (\<lambda>x. case x of
               Inl v \<Rightarrow> Ret (Some v) | Inr _ \<Rightarrow> Ret (Some 0)))))
         | Some (Some (Inl v)) \<Rightarrow> Ret (Some v)
         | _ \<Rightarrow> Ret None)))"

definition chain_main :: "pip_h \<Rightarrow> nat \<Rightarrow> string list \<Rightarrow> int option prog" where
  "chain_main h fuel argv =
     bind (ntasks_guard CHAIN_NTASKS argv) (\<lambda>x. case x of
       Inl v \<Rightarrow> Ret (Some v)
     | Inr ntasks \<Rightarrow>
         chk (Pip (Pip_init True (Some ntasks) False 0)) (\<lambda>r. rv r \<noteq> 0) (Ret (Some EXIT_FAIL)) (\<lambda>r.
           let pipid = stored (o1 r) 999; ntasks = stored (o2 r) ntasks in
           if pipid = PIPID_ROOT h then chain_root h fuel (argv ! 0) ntasks else chain_task fuel))"

section \<open>A task passes on what it reads\<close>

text \<open>What the standard says of \<open>read\<close> and \<open>write\<close>: no more than asked for; any count may be short.\<close>

fun posix_io :: "call \<Rightarrow> resp \<Rightarrow> bool" where
  "posix_io (Sys (Read fd n)) r \<longleftrightarrow> rv r \<le> max n 0 \<and> length (data r) = nat (rv r)"
| "posix_io (Sys (Write fd s)) r \<longleftrightarrow> rv r \<le> int (length s)"
| "posix_io _ r \<longleftrightarrow> True"

text \<open>The calls of a copying task: it reads from descriptor 0 and writes to descriptor 1.\<close>

definition pipe_call :: "call \<times> resp \<Rightarrow> bool" where
  "pipe_call = (\<lambda>(c, _). case c of Sys (Read fd n) \<Rightarrow> fd = 0 \<and> n = BUFSZ | Sys (Write fd s) \<Rightarrow> fd = 1 | _ \<Rightarrow> False)"

lemma pipe_call_simps [simp]: "pipe_call (Sys (Read 0 BUFSZ), r)" "pipe_call (Sys (Write 1 s), r)"
  by (simp_all add: pipe_call_def)

definition passed_on :: "string \<Rightarrow> trace \<Rightarrow> bool" where
  "passed_on buff t \<longleftrightarrow> gotten t = accepted t @ buff \<and> list_all pipe_call t"

text \<open>A copy that is complete: all that was read was written and the input had come to its end.\<close>

definition copied_all :: "trace \<Rightarrow> bool" where
  "copied_all t \<longleftrightarrow> (\<exists>u eof. t = u @ [(Sys (Read 0 BUFSZ), eof)] \<and> rv eof = 0 \<and>
     accepted u = gotten u \<and> list_all pipe_call u)"

lemma put_round:
  assumes "passed_on (drop (nat p) buff) t" "0 \<le> p" "0 < l" "p + l = int (length buff)"
    and r: "posix_io (Sys (Write 1 (take (nat l) (drop (nat p) buff)))) r" "0 \<le> rv r"
  shows "passed_on (drop (nat (p + rv r)) buff) (t @ [(Sys (Write 1 (take (nat l) (drop (nat p) buff))), r)])
    \<and> rv r \<le> l"
proof -
  have len: "int (length (take (nat l) (drop (nat p) buff))) = l" using assms(2-4) by simp
  then have v: "rv r \<le> l" using r(1) by (simp del: length_take length_drop)
  have "take (nat (rv r)) (take (nat l) (drop (nat p) buff)) = take (nat (rv r)) (drop (nat p) buff)"
    using v by (simp add: min_absorb1 nat_mono)
  moreover have "drop (nat p) buff = take (nat (rv r)) (drop (nat p) buff) @ drop (nat (p + rv r)) buff"
    using r(2) assms(2) by (metis add.commute append_take_drop_id drop_drop nat_add_distrib)
  ultimately show ?thesis using assms(1) v by (simp add: passed_on_def accepted_append gotten_append)
qed

definition copied :: "trace \<Rightarrow> (int + unit) option \<Rightarrow> bool" where
  "copied t x \<longleftrightarrow> (case x of Some (Inl v) \<Rightarrow> v = EXIT_FAIL | Some (Inr _) \<Rightarrow> passed_on [] t | None \<Rightarrow> True)"

lemma copied_simps [simp]:
  "copied t None" "copied t (Some (Inl v)) \<longleftrightarrow> v = EXIT_FAIL" "copied t (Some (Inr u)) \<longleftrightarrow> passed_on [] t"
  by (simp_all add: copied_def)

lemma put_wpt:
  assumes "passed_on buff t"
  shows "wpt posix_io copied t
    (loop f (put_body 1 buff) (0, int (length buff)))"
proof (rule wpt_loop [where I = "\<lambda>t (p, l). passed_on (drop (nat p) buff) t \<and> 0 \<le> p \<and> 0 \<le> l \<and> p + l = int (length buff)"])
  fix t s assume "case s of (p, l) \<Rightarrow> passed_on (drop (nat p) buff) t \<and> 0 \<le> p \<and> 0 \<le> l \<and> p + l = int (length buff)"
  then obtain p l where s: "s = (p, l)" and I: "passed_on (drop (nat p) buff) t" "0 \<le> p" "0 \<le> l" "p + l = int (length buff)"
    by auto
  show "wpt posix_io (\<lambda>t x. case x of
        Inl s' \<Rightarrow> (case s' of (p, l) \<Rightarrow> passed_on (drop (nat p) buff) t \<and> 0 \<le> p \<and> 0 \<le> l \<and> p + l = int (length buff))
      | Inr a \<Rightarrow> copied t (Some a)) t (put_body 1 buff s)"
  proof (cases "0 < l")
    case True
    show ?thesis unfolding s put_body_def using True
      by (simp add: wpt_chk del: posix_io.simps) (use put_round [OF I(1,2) True I(4)] I in fastforce)
  next
    case False
    then show ?thesis using I by (simp add: s put_body_def)
  qed
qed (use assms in auto)

definition relayed :: "trace \<Rightarrow> (int + unit) option \<Rightarrow> bool" where
  "relayed t x \<longleftrightarrow> (case x of Some (Inl v) \<Rightarrow> v = EXIT_FAIL | Some (Inr _) \<Rightarrow> copied_all t | None \<Rightarrow> True)"

lemma relayed_simps [simp]:
  "relayed t None" "relayed t (Some (Inl v)) \<longleftrightarrow> v = EXIT_FAIL" "relayed t (Some (Inr u)) \<longleftrightarrow> copied_all t"
  by (simp_all add: relayed_def)

lemma relay_wpt:
  assumes "passed_on [] t"
  shows "wpt posix_io (\<lambda>t x. case x of Inl _ \<Rightarrow> passed_on [] t | Inr y \<Rightarrow> relayed t y) t
    (relay_body fuel u)"
proof -
  let ?Q = "\<lambda>t x. case x of Inl _ \<Rightarrow> passed_on [] t | Inr y \<Rightarrow> relayed t y"
  have "wpt posix_io ?Q (t @ [(Sys (Read 0 BUFSZ), r)])
      (bind (loop fuel (put_body 1 (take (nat (rv r)) (data r))) (0, rv r))
        (\<lambda>x. case x of None \<Rightarrow> Ret (Inr None) | Some (Inl v) \<Rightarrow> Ret (Inr (Some (Inl v)))
           | Some (Inr _) \<Rightarrow> Ret (Inl ())))"
    if r: "posix_io (Sys (Read 0 BUFSZ)) r" "0 \<le> rv r" for r
  proof -
    have "passed_on (take (nat (rv r)) (data r)) (t @ [(Sys (Read 0 BUFSZ), r)])"
      using assms by (simp add: passed_on_def gotten_append accepted_append)
    moreover have "int (length (take (nat (rv r)) (data r))) = rv r" using r by simp
    ultimately show ?thesis
      using put_wpt [of "take (nat (rv r)) (data r)" "t @ [(Sys (Read 0 BUFSZ), r)]" fuel]
      by (auto simp: wpt_bind elim!: wpt_mono split: option.splits sum.splits)
  qed
  moreover have "copied_all (t @ [(Sys (Read 0 BUFSZ), r)])" if "rv r = 0" for r
    using assms that by (auto simp: passed_on_def copied_all_def)
  ultimately show ?thesis
    unfolding relay_body_def by (auto simp: wpt_chk simp del: posix_io.simps)
qed

definition task_copied :: "trace \<Rightarrow> bool" where
  "task_copied t \<longleftrightarrow> (\<exists>u in_end out_end. t = u @ [(Sys (Close 0), in_end), (Sys (Close 1), out_end)] \<and>
     rv in_end = 0 \<and> rv out_end = 0 \<and> copied_all u)"

lemma chain_task_wpt: "wpt posix_io (\<lambda>t v. v = Some 0 \<longrightarrow> task_copied t) [] (chain_task fuel)"
proof -
  have "wpt posix_io (\<lambda>t x. case x of None \<Rightarrow> True | Some y \<Rightarrow> relayed t y) [] (loop fuel (relay_body fuel) ())"
  proof (rule wpt_loop [where I = "\<lambda>t _. passed_on [] t"])
    show "wpt posix_io (\<lambda>t x. case x of Inl s' \<Rightarrow> passed_on [] t
        | Inr a \<Rightarrow> (case Some a of None \<Rightarrow> True | Some y \<Rightarrow> relayed t y)) t (relay_body fuel s)"
      if "passed_on [] t" for t s
      by (rule wpt_mono [OF relay_wpt [OF that]]) (auto split: sum.splits)
  qed (simp_all add: passed_on_def)
  then show ?thesis unfolding chain_task_def wpt_bind
    by (rule wpt_mono)
      (auto simp: wpt_chk task_copied_def EXIT_FAIL_def split: option.splits sum.splits)
qed

text \<open>C27: a task of the chain that returns 0 has made no calls but reads of descriptor 0 and writes to descriptor 1,
and has written there exactly the bytes it read, in order, whatever the lengths of the single transfers were, up to the
end of its input; then it has closed descriptor 0 and descriptor 1.\<close>

theorem chain_task_copies:
  assumes "answers posix_io e" "outcome (chain_task fuel) e w = Returned (Some 0)"
  shows "\<exists>u eof in_end out_end. trace (chain_task fuel) e w =
      u @ [(Sys (Read 0 BUFSZ), eof), (Sys (Close 0), in_end), (Sys (Close 1), out_end)] \<and>
    rv eof = 0 \<and> rv in_end = 0 \<and> rv out_end = 0 \<and> list_all pipe_call u \<and> accepted u = gotten u"
  using wpt_outcome [OF chain_task_wpt assms] assms(2) by (auto simp: task_copied_def copied_all_def)

text \<open>An input that comes in pieces of four bytes at most and an output that takes three at a time.\<close>

definition e_pieces :: "string env" where
  "e_pieces w c = (case c of
       Sys (Read fd n) \<Rightarrow> let k = min (nat n) 4 in
         (Some (ok\<lparr>rv := int (length (take k w)), strv := Some (take k w)\<rparr>), drop k w)
     | Sys (Write fd s) \<Rightarrow> (Some (ok\<lparr>rv := int (min 3 (length s))\<rparr>), w)
     | _ \<Rightarrow> (Some ok, w))"

lemma e_pieces: "answers posix_io e_pieces"
  unfolding answers_def
proof (intro allI impI)
  fix w c r w' assume "e_pieces w c = (Some r, w')"
  then show "posix_io c r"
    by (cases "(c, r)" rule: posix_io.cases) (auto simp: e_pieces_def Let_def data_def)
qed

lemma chain_task_copies_witness:
  "\<exists>u eof in_end out_end. trace (chain_task 4) e_pieces ''abcdef'' =
      u @ [(Sys (Read 0 BUFSZ), eof), (Sys (Close 0), in_end), (Sys (Close 1), out_end)] \<and>
    list_all pipe_call u \<and> accepted u = gotten u \<and> gotten (trace (chain_task 4) e_pieces ''abcdef'') = ''abcdef''"
proof -
  have "outcome (chain_task 4) e_pieces ''abcdef'' = Returned (Some 0)"
      "gotten (trace (chain_task 4) e_pieces ''abcdef'') = ''abcdef''"
    by (simp_all add: chain_task_def relay_body_def put_body_def BUFSZ_def e_pieces_def chk_def prog_simps data_def
        min_def)
  then show ?thesis using chain_task_copies [OF e_pieces] by blast
qed

section \<open>The root does not wait for the whole of its text\<close>

text \<open>A file with \<open>text\<close>, a pipe \<open>fd_in\<close> that gives a proper part of it at first.\<close>

definition short_chain :: "int \<Rightarrow> string \<Rightarrow> int \<Rightarrow> call \<Rightarrow> resp \<Rightarrow> bool" where
  "short_chain fd_file text fd_in c r \<longleftrightarrow> (case c of
       Sys (Read fd n) \<Rightarrow>
         if fd = fd_file then rv r = int (length text) \<and> data r = text
         else fd = fd_in \<longrightarrow> 0 < rv r \<and> rv r < int (length text) \<and> data r = take (nat (rv r)) text
     | Sys (Write fd s) \<Rightarrow> rv r = int (length s)
     | _ \<Rightarrow> True)"

lemma c_str_no_NUL: "NUL \<notin> set s \<Longrightarrow> c_str s = s"
  by (induction s) (auto simp: c_str_def)

lemma c_str_zeros: "c_str (s @ replicate k NUL) = c_str s"
  by (induction s) (auto simp: c_str_def takeWhile_replicate)

lemma length_c_str: "length (c_str s) \<le> length s"
  by (simp add: c_str_def length_takeWhile_le)

text \<open>When the pipe gives back only a part of the text first, with the rest still to come, the
root does not read on: it compares the part with the whole and reports EXIT\_FAIL, although every
byte is on its way. (\<open>ccc =- ccr\<close> stores the negated count where \<open>ccc -= ccr\<close> would subtract it.)\<close>

theorem chain_short_read_fails:
  assumes "coop (short_chain fd_file text fd_in) e" "fd_in \<noteq> fd_file"
    and "text \<noteq> []" "length text \<le> 1024" "NUL \<notin> set text"
  shows "outcome (chain_round (Suc (Suc fuel)) fd_file fd_out fd_in ()) e w = Returned (Inr (Some (Inl EXIT_FAIL)))"
proof -
  have sent: "rv (answer e w (Sys (Read fd_file n))) = int (length text)"
      "data (answer e w (Sys (Read fd_file n))) = text" for w n
    using coop_answer [OF assms(1), of "Sys (Read fd_file n)" w] by (simp_all add: short_chain_def)
  have returned: "0 < rv (answer e w (Sys (Read fd_in n)))" "rv (answer e w (Sys (Read fd_in n))) < int (length text)"
      "data (answer e w (Sys (Read fd_in n))) = take (nat (rv (answer e w (Sys (Read fd_in n))))) text" for w n
    using coop_answer [OF assms(1), of "Sys (Read fd_in n)" w] assms(2) by (simp_all add: short_chain_def)
  have wr: "rv (answer e w (Sys (Write fd s))) = int (length s)" for w fd s
    using coop_answer [OF assms(1), of "Sys (Write fd s)" w] by (simp add: short_chain_def)
  have len: "0 < length text" using assms(3) by simp
  have differ: "\<not> strneq text (overwrite (replicate 1025 NUL) (take k text)) (length text)" if "k < length text" for k
  proof -
    have "c_str (take (length text) (overwrite (replicate 1025 NUL) (take k text))) = c_str (take k text)"
      using that assms(4) by (simp add: overwrite_def c_str_zeros drop_replicate take_replicate)
    then have "length (c_str (take (length text) (overwrite (replicate 1025 NUL) (take k text)))) < length text"
      using length_c_str [of "take k text"] that by simp
    then show ?thesis using c_str_no_NUL [OF assms(5)] by (auto simp: strneq_def)
  qed
  have k: "nat (rv (answer e w (Sys (Read fd_in n)))) < length text" for w n
    using returned(1,2) [of w n] by simp
  have some: "rv (answer e w (Sys (Read fd_in n))) \<noteq> 0" for w n
    using returned(1) [of w n] by simp
  show ?thesis
    using returned(1,2) len k
    by (simp add: some chain_round_def chk_def chkv_def put_body_def back_body_def outcome_bind sent wr returned(3) BUFSZ_def
        coop_simps [OF assms(1)] numeral_2_eq_2 differ not_le not_less Let_def
        del: outcome_simps(3) final_env_simps(3))
qed

definition e_short :: "unit env" where
  "e_short = reply (\<lambda>c. case c of
       Sys (Read fd n) \<Rightarrow> (if fd = 3 then ok\<lparr>rv := 4, strv := Some ''abcd''\<rparr> else ok\<lparr>rv := 2, strv := Some ''ab''\<rparr>)
     | Sys (Write fd s) \<Rightarrow> ok\<lparr>rv := int (length s)\<rparr> | _ \<Rightarrow> ok)"

lemma chain_short_read_fails_witness:
  "outcome (chain_round (Suc (Suc 0)) 3 4 5 ()) e_short () = Returned (Inr (Some (Inl EXIT_FAIL)))"
proof (rule chain_short_read_fails)
  show "coop (short_chain 3 ''abcd'' 5) e_short"
    unfolding e_short_def
    by (rule coop_reply) (auto simp: short_chain_def data_def numeral_2_eq_2 split: call.splits sys_call.splits)
qed (simp_all add: NUL_def)

end
