(* ===== verification/MutexTests.thy ===== *)
theory MutexTests
  imports BarrierTests
begin

text \<open>
  \<open>blt/pip_mutex.c\<close>: between two barriers every task adds one to a shared count, \<open>niters\<close> times, in a
  critical section. The tasks interleave freely, so the proof is an invariant of the configurations:
  each task is at one of the places of its program, and the places agree with the mutex and the count.
\<close>

section \<open>The program\<close>

definition MUTEX_NITERS :: int where "MUTEX_NITERS = 100"

definition mutex_setup :: "int \<Rightarrow> int \<Rightarrow> (int + unit) prog" where
  "mutex_setup ntasks pipid =
     (let out = Ret (Inl EXIT_FAIL);
          export = (\<lambda>name k. chk (Pip (Pip_named_export name)) (\<lambda>r. rv r \<noteq> 0) out (\<lambda>_. k));
          import = (\<lambda>name k. chk (Pip (Pip_named_import 0 name)) (\<lambda>r. rv r \<noteq> 0) out (\<lambda>r.
            chkv (c_bool (stored (o1 r) 0 = 0)) (\<lambda>v. v \<noteq> 0) out k)) in
      if pipid = 0 then
        chk (Mem Mutex_init) (\<lambda>r. rv r \<noteq> 0) out (\<lambda>_. export ''MUTEX''
         (chk (Pip (Pip_barrier_init ntasks)) (\<lambda>r. rv r \<noteq> 0) out (\<lambda>_. export ''BARRIER''
          (Call (Mem (Store ''count'' 0)) (\<lambda>_. export ''COUNT'' (Ret (Inr ())))))))
      else import ''MUTEX'' (import ''BARRIER'' (import ''COUNT'' (Ret (Inr ())))))"

definition mutex_round :: "unit \<Rightarrow> (int + unit) prog" where
  "mutex_round u =
     chk (Mem Mutex_lock) (\<lambda>r. rv r \<noteq> 0) (Ret (Inl EXIT_FAIL)) (\<lambda>_.
     incr (chk (Mem Mutex_unlock) (\<lambda>r. rv r \<noteq> 0) (Ret (Inl EXIT_FAIL)) (\<lambda>_. Ret (Inr ()))))"

definition mutex_check :: "int \<Rightarrow> int \<Rightarrow> int \<Rightarrow> (int + unit) prog" where
  "mutex_check ntasks pipid niters =
     (if pipid = 0 then
        Call (Mem (Load ''count'')) (\<lambda>r.
          chkv (c_bool (rv r \<noteq> to_int32 (ntasks * niters))) (\<lambda>v. v \<noteq> 0) (Ret (Inl EXIT_FAIL)) (Ret (Inr ())))
      else Ret (Inr ()))"

text \<open>From the first barrier on.\<close>

definition mutex_rounds :: "int \<Rightarrow> int \<Rightarrow> int \<Rightarrow> int prog" where
  "mutex_rounds ntasks pipid niters =
     bar_wait (Ret EXIT_FAIL)
      (finE (for_range 0 (nat niters) (\<lambda>_. mutex_round) ()) (\<lambda>_.
       bar_wait (Ret EXIT_FAIL) (finE (mutex_check ntasks pipid niters) (\<lambda>_. leave 0))))"

definition pip_mutex_main :: "int \<Rightarrow> string list \<Rightarrow> int prog" where
  "pip_mutex_main ntasks0 argv =
     (let niters = niters_arg argv 1 MUTEX_NITERS in
      chk (Pip (Pip_init True (Some ntasks0) False 0)) (\<lambda>r. rv r \<noteq> 0) (Ret EXIT_FAIL) (\<lambda>r.
        let pipid = stored (o1 r) 0; ntasks = stored (o2 r) ntasks0 in
        finE (mutex_setup ntasks pipid) (\<lambda>_. mutex_rounds ntasks pipid niters)))"

section \<open>The mutex and the count\<close>

text \<open>
  The library as the test relies on it: \<open>pip\_init\<close> gives task \<open>i\<close> the ID \<open>i\<close> and the number of tasks, a
  lock is granted to one task at a time, and only its holder can unlock.
\<close>

record mutex_state =
  holder :: "tid option"
  cnt :: int

definition mutex_sem :: "nat \<Rightarrow> mutex_state sem" where
  "mutex_sem n i c w = (case c of
       Mem Mutex_lock \<Rightarrow> if holder w = None then Some (ok, w\<lparr>holder := Some i\<rparr>) else None
     | Mem Mutex_unlock \<Rightarrow>
         if holder w = Some i then Some (ok, w\<lparr>holder := None\<rparr>) else Some (ok\<lparr>rv := EPERM\<rparr>, w)
     | Mem Mutex_init \<Rightarrow> Some (ok, w\<lparr>holder := None\<rparr>)
     | Mem (Load _) \<Rightarrow> Some (ok\<lparr>rv := cnt w\<rparr>, w)
     | Mem (Store _ v) \<Rightarrow> Some (ok, w\<lparr>cnt := v\<rparr>)
     | Pip (Pip_init _ _ _ _) \<Rightarrow> Some (ok\<lparr>o1 := Some (int i), o2 := Some (int n)\<rparr>, w)
     | Pip (Pip_named_import _ _) \<Rightarrow> Some (ok\<lparr>o1 := Some 1\<rparr>, w)
     | _ \<Rightarrow> Some (ok, w))"

lemma mutex_sem_simps [simp]:
  "mutex_sem n i (Mem Mutex_lock) w = (if holder w = None then Some (ok, w\<lparr>holder := Some i\<rparr>) else None)"
  "mutex_sem n i (Mem Mutex_unlock) w =
     (if holder w = Some i then Some (ok, w\<lparr>holder := None\<rparr>) else Some (ok\<lparr>rv := EPERM\<rparr>, w))"
  "mutex_sem n i (Mem Mutex_init) w = Some (ok, w\<lparr>holder := None\<rparr>)"
  "mutex_sem n i (Mem (Load v)) w = Some (ok\<lparr>rv := cnt w\<rparr>, w)"
  "mutex_sem n i (Mem (Store v x)) w = Some (ok, w\<lparr>cnt := x\<rparr>)"
  "mutex_sem n i (Pip (Pip_init a b d e)) w = Some (ok\<lparr>o1 := Some (int i), o2 := Some (int n)\<rparr>, w)"
  "mutex_sem n i (Pip (Pip_named_import q v)) w = Some (ok\<lparr>o1 := Some 1\<rparr>, w)"
  "mutex_sem n i (Pip (Pip_named_export v)) w = Some (ok, w)"
  "mutex_sem n i (Pip (Pip_barrier_init q)) w = Some (ok, w)"
  "mutex_sem n i (Pip Pip_fin) w = Some (ok, w)"
  by (simp_all add: mutex_sem_def)

text \<open>A task is in the critical section when its next call writes the count or unlocks.\<close>

fun critical :: "'a prog \<Rightarrow> bool" where
  "critical (Call (Mem (Store _ _)) _) = True"
| "critical (Call (Mem Mutex_unlock) _) = True"
| "critical _ = False"

definition mutex_start :: mutex_state where
  "mutex_start = \<lparr>holder = None, cnt = 0\<rparr>"

section \<open>The places of the program\<close>

text \<open>
  Where a task is after the setup: before the first barrier, with \<open>k\<close> rounds to go (\<open>Idle 0\<close> is the
  second barrier), in the critical section with \<open>k\<close> more rounds after this one, or past the second
  barrier. \<open>at n N i pl\<close> is what task \<open>i\<close> has left to do there.
\<close>

datatype place = Start | Idle nat | Held nat | Loaded nat int | Stored nat | Closing | Leaving | Gone

definition tail :: "nat \<Rightarrow> nat \<Rightarrow> tid \<Rightarrow> int prog" where
  "tail n N i = finE (mutex_check (int n) (int i) (int N)) (\<lambda>_. leave 0)"

definition rest :: "nat \<Rightarrow> nat \<Rightarrow> tid \<Rightarrow> nat \<Rightarrow> int prog" where
  "rest n N i k = finE (for_range 0 k (\<lambda>_. mutex_round) ()) (\<lambda>_. bar_wait (Ret EXIT_FAIL) (tail n N i))"

definition unlocking :: "int prog \<Rightarrow> int prog" where
  "unlocking p = chk (Mem Mutex_unlock) (\<lambda>r. rv r \<noteq> 0) (Ret EXIT_FAIL) (\<lambda>_. p)"

fun at :: "nat \<Rightarrow> nat \<Rightarrow> tid \<Rightarrow> place \<Rightarrow> int prog" where
  "at n N i Start = bar_wait (Ret EXIT_FAIL) (rest n N i N)"
| "at n N i (Idle k) = rest n N i k"
| "at n N i (Held k) = Call (Mem (Load ''count'')) (\<lambda>r.
     Call (Mem (Store ''count'' (to_int32 (rv r + 1)))) (\<lambda>_. unlocking (rest n N i k)))"
| "at n N i (Loaded k v) = Call (Mem (Store ''count'' (to_int32 (v + 1)))) (\<lambda>_. unlocking (rest n N i k))"
| "at n N i (Stored k) = unlocking (rest n N i k)"
| "at n N i Closing = tail n N i"
| "at n N i Leaving = leave 0"
| "at n N i Gone = Ret 0"

text \<open>The step of a task between places, None where it is blocked.\<close>

fun move :: "tid \<Rightarrow> place \<Rightarrow> mutex_state \<Rightarrow> (place \<times> mutex_state) option" where
  "move i (Idle (Suc k)) w = (if holder w = None then Some (Held k, w\<lparr>holder := Some i\<rparr>) else None)"
| "move i (Held k) w = Some (Loaded k (cnt w), w)"
| "move i (Loaded k v) w = Some (Stored k, w\<lparr>cnt := to_int32 (v + 1)\<rparr>)"
| "move i (Stored k) w = Some (Idle k, w\<lparr>holder := None\<rparr>)"
| "move i Closing w = Some (if i = 0 then Leaving else Gone, w)"
| "move i Leaving w = Some (Gone, w)"
| "move i _ w = None"

lemma rest_simps:
  "rest n N i 0 = bar_wait (Ret EXIT_FAIL) (tail n N i)"
  "rest n N i (Suc k) = chk (Mem Mutex_lock) (\<lambda>r. rv r \<noteq> 0) (Ret EXIT_FAIL) (\<lambda>_. at n N i (Held k))"
  using for_range_const [of 1 k mutex_round "()" 0]
  by (simp_all add: rest_def mutex_round_def unlocking_def incr_def chk_def finE_seqE seqE_assoc
      if_distrib [of "\<lambda>p. finE p f" for f] cong: if_cong)

lemma at_bar_at: "at_bar (at n N i pl) \<longleftrightarrow> pl = Start \<or> pl = Idle 0"
proof (cases pl)
  case (Idle k)
  then show ?thesis by (cases k) (simp_all add: rest_simps bar_wait_def chk_def)
qed (simp_all add: bar_wait_def chk_def unlocking_def tail_def mutex_check_def leave_def)

lemma bar_wait_bars: "at_bar (bar_wait a k)"
  by (simp add: bar_wait_def chk_def)

lemma resume_at:
  "resume (at n N i Start) 0 = at n N i (Idle N)" "resume (at n N i (Idle 0)) 0 = at n N i Closing"
  by (simp_all add: bar_wait_def chk_def rest_simps)

text \<open>What the count has to be at a place, and who has to hold the mutex.\<close>

fun inside :: "place \<Rightarrow> bool" where
  "inside (Held _) = True"
| "inside (Loaded _ _) = True"
| "inside (Stored _) = True"
| "inside _ = False"

fun working :: "place \<Rightarrow> bool" where
  "working (Idle _) = True"
| "working pl = inside pl"

fun over :: "place \<Rightarrow> bool" where
  "over Closing = True"
| "over Leaving = True"
| "over Gone = True"
| "over _ = False"

text \<open>One call of a task is one move of its place, and the other way round.\<close>

lemma call_move:
  assumes "at n N i pl = Call c k" "\<not> is_bar c" "mutex_sem n i c w = Some (r, w')"
    and "inside pl \<Longrightarrow> holder w = Some i" "over pl \<Longrightarrow> cnt w = to_int32 (int n * int N)"
  shows "\<exists>pl'. move i pl w = Some (pl', w') \<and> k r = at n N i pl'"
proof (cases pl)
  case (Idle j)
  then show ?thesis using assms by (cases j) (auto simp: rest_simps bar_wait_def chk_def split: if_splits)
qed (use assms in \<open>auto simp: bar_wait_def chk_def chkv_def unlocking_def tail_def mutex_check_def leave_def
    split: if_splits\<close>)

lemma move_call:
  assumes "move i pl w = Some x"
    and "inside pl \<Longrightarrow> holder w = Some i"
  shows "\<exists>c k r w'. at n N i pl = Call c k \<and> \<not> is_bar c \<and> mutex_sem n i c w = Some (r, w')"
proof (cases pl)
  case (Idle j)
  then show ?thesis using assms by (cases j) (auto simp: rest_simps chk_def split: if_splits)
qed (use assms in \<open>auto simp: bar_wait_def chk_def chkv_def unlocking_def tail_def mutex_check_def leave_def\<close>)

lemma critical_inside: "critical (at n N i pl) \<Longrightarrow> inside pl"
proof (cases pl)
  case (Idle j)
  then show "critical (at n N i pl) \<Longrightarrow> inside pl" by (cases j) (simp_all add: rest_simps bar_wait_def chk_def)
qed (simp_all add: bar_wait_def chk_def unlocking_def tail_def mutex_check_def leave_def split: if_splits)

section \<open>The invariant\<close>

text \<open>The rounds whose increment is in the count.\<close>

fun counted :: "nat \<Rightarrow> place \<Rightarrow> int" where
  "counted N (Idle k) = int N - int k"
| "counted N (Held k) = int N - int (Suc k)"
| "counted N (Loaded k _) = int N - int (Suc k)"
| "counted N (Stored k) = int N - int k"
| "counted N _ = 0"

definition rounds_inv :: "nat \<Rightarrow> nat \<Rightarrow> (tid \<Rightarrow> place) \<Rightarrow> mutex_state \<Rightarrow> bool" where
  "rounds_inv n N pl w \<longleftrightarrow>
     (\<forall>i<n. working (pl i) \<and> (inside (pl i) \<longleftrightarrow> holder w = Some i) \<and>
        (\<forall>k v. pl i = Loaded k v \<longrightarrow> v = cnt w)) \<and>
     (\<forall>i. holder w = Some i \<longrightarrow> i < n) \<and> cnt w = to_int32 (\<Sum>i<n. counted N (pl i))"

definition over_inv :: "nat \<Rightarrow> nat \<Rightarrow> (tid \<Rightarrow> place) \<Rightarrow> mutex_state \<Rightarrow> bool" where
  "over_inv n N pl w \<longleftrightarrow> (\<forall>i<n. over (pl i)) \<and> cnt w = to_int32 (int n * int N)"

lemma to_int32_add: "to_int32 (to_int32 x + y) = to_int32 (x + y)"
  by (simp add: to_int32_def) presburger

lemma counted_upd:
  fixes pl :: "tid \<Rightarrow> place"
  shows "i < n \<Longrightarrow> (\<Sum>j<n. counted N ((pl(i := q)) j)) = (\<Sum>j<n. counted N (pl j)) - counted N (pl i) + counted N q"
proof -
  assume i: "i < n"
  have "(\<Sum>j\<in>{..<n} - {i}. counted N ((pl(i := q)) j)) = (\<Sum>j\<in>{..<n} - {i}. counted N (pl j))"
    by (rule sum.cong) auto
  then show ?thesis
    using i sum.remove [OF finite_lessThan, of i n "\<lambda>j. counted N (pl j)"]
      sum.remove [OF finite_lessThan, of i n "\<lambda>j. counted N ((pl(i := q)) j)"] by simp
qed

lemma rounds_move:
  assumes I: "rounds_inv n N pl w" and i: "i < n" and m: "move i (pl i) w = Some (q, w')"
  shows "rounds_inv n N (pl(i := q)) w'"
proof -
  have w: "working (pl i)" "inside (pl i) \<longleftrightarrow> holder w = Some i"
    "\<And>k v. pl i = Loaded k v \<Longrightarrow> v = cnt w" and c: "cnt w = to_int32 (\<Sum>j<n. counted N (pl j))"
    using I i by (auto simp: rounds_inv_def)
  show ?thesis
  proof (cases "pl i")
    case (Idle k)
    then obtain j where "k = Suc j" using m by (cases k) auto
    then show ?thesis using I m i Idle w unfolding rounds_inv_def counted_upd [OF i] by (auto split: if_splits)
  next
    case (Loaded k v)
    have "to_int32 (cnt w + 1) = to_int32 ((\<Sum>j<n. counted N (pl j)) + 1)" unfolding c by (rule to_int32_add)
    moreover have "counted N (Stored k) = counted N (pl i) + 1" using Loaded by simp
    ultimately have "cnt w' = to_int32 (\<Sum>j<n. counted N ((pl(i := q)) j))"
      using m Loaded w(3) [OF Loaded] unfolding counted_upd [OF i] by auto
    moreover have "q = Stored k" "holder w' = holder w" using m Loaded by auto
    moreover have "\<not> inside (pl j)" if "j < n" "j \<noteq> i" for j
      using that w(2) Loaded I i by (auto simp: rounds_inv_def)
    then have "pl j \<noteq> Loaded k' v'" if "j < n" "j \<noteq> i" for j k' v' using that by force
    ultimately show ?thesis using I i w Loaded unfolding rounds_inv_def by auto
  qed (use I m i w in \<open>unfold rounds_inv_def counted_upd [OF i], auto\<close>)
qed

lemma over_move: "over_inv n N pl w \<Longrightarrow> i < n \<Longrightarrow> move i (pl i) w = Some (q, w') \<Longrightarrow> over_inv n N (pl(i := q)) w'"
  by (cases "pl i") (auto simp: over_inv_def split: if_splits)

text \<open>At a release all tasks wait at the same barrier.\<close>

lemma begin_release: "rounds_inv n N (\<lambda>_. Idle N) mutex_start"
  by (simp add: rounds_inv_def mutex_start_def to_int32_def)

lemma rounds_release:
  assumes "rounds_inv n N pl w" "\<And>i. i < n \<Longrightarrow> pl i = Idle 0"
  shows "over_inv n N (\<lambda>i. if i < n then Closing else pl i) w"
proof -
  have "(\<Sum>i<n. counted N (pl i)) = (\<Sum>i<n. int N)" by (rule sum.cong) (use assms(2) in auto)
  then show ?thesis using assms(1) by (simp add: over_inv_def rounds_inv_def)
qed

text \<open>A task can move unless all have arrived at a barrier or at the end.\<close>

lemma rounds_progress:
  assumes "rounds_inv n N pl w"
  obtains i x where "i < n" "move i (pl i) w = Some x" | "\<And>i. i < n \<Longrightarrow> pl i = Idle 0"
proof (cases "holder w")
  case (Some i)
  then have "i < n" "inside (pl i)" using assms by (auto simp: rounds_inv_def)
  then show ?thesis using that(1) [of i] by (cases "pl i") auto
next
  case None
  then have idle: "\<exists>k. pl i = Idle k" if "i < n" for i
    using assms that by (cases "pl i") (auto simp: rounds_inv_def)
  show ?thesis
  proof (cases "\<exists>i<n. pl i \<noteq> Idle 0")
    case True
    then obtain i k where "i < n" "pl i = Idle (Suc k)" using idle by (metis not0_implies_Suc)
    then show ?thesis using that(1) [of i] None by auto
  qed (use that(2) in blast)
qed

lemma over_progress:
  assumes "over_inv n N pl w"
  obtains i x where "i < n" "move i (pl i) w = Some x" | "\<And>i. i < n \<Longrightarrow> pl i = Gone"
proof (cases "\<exists>i<n. pl i \<noteq> Gone")
  case True
  then obtain i where "i < n" "over (pl i)" "pl i \<noteq> Gone" using assms by (auto simp: over_inv_def)
  then show ?thesis using that(1) [of i] by (cases "pl i") auto
qed (use that(2) in blast)

section \<open>The phases\<close>

text \<open>
  The setup up to the first barrier, in which only task 0 touches the mutex and the count; the rounds;
  and what follows the second barrier. Within the last two every step shortens the distance of a place
  from the end.
\<close>

fun rank :: "nat \<Rightarrow> place \<Rightarrow> nat" where
  "rank N Start = 4 * N + 5"
| "rank N (Idle k) = 4 * k + 4"
| "rank N (Held k) = 4 * k + 7"
| "rank N (Loaded k _) = 4 * k + 6"
| "rank N (Stored k) = 4 * k + 5"
| "rank N Closing = 3"
| "rank N Leaving = 2"
| "rank N Gone = 0"

lemma move_rank: "move i p w = Some (q, w') \<Longrightarrow> rank N q < rank N p"
proof (cases p)
  case (Idle k)
  then show "move i p w = Some (q, w') \<Longrightarrow> rank N q < rank N p" by (cases k) (auto split: if_splits)
qed (auto split: if_splits)

definition mutex_idle :: "nat \<Rightarrow> tid \<Rightarrow> call \<Rightarrow> resp option" where
  "mutex_idle n i c = (case c of
       Pip (Pip_init _ _ _ _) \<Rightarrow> Some (ok\<lparr>o1 := Some (int i), o2 := Some (int n)\<rparr>)
     | Pip (Pip_named_import _ _) \<Rightarrow> Some (ok\<lparr>o1 := Some 1\<rparr>)
     | _ \<Rightarrow> None)"

lemma mutex_idle: "idle_calls (mutex_sem n) (mutex_idle n)"
  by (auto simp: idle_calls_def mutex_idle_def mutex_sem_def split: call.splits pip_call.splits)

definition placed :: "nat \<Rightarrow> nat \<Rightarrow> (nat \<Rightarrow> nat \<Rightarrow> (tid \<Rightarrow> place) \<Rightarrow> mutex_state \<Rightarrow> bool) \<Rightarrow> nat \<Rightarrow>
    (int, mutex_state) config \<Rightarrow> bool" where
  "placed n N Q k c \<longleftrightarrow> (\<exists>pl. (\<forall>i<n. fst c i = at n N i (pl i)) \<and> Q n N pl (snd c) \<and> k = (\<Sum>i<n. rank N (pl i)))"

definition mutex_phase :: "nat \<Rightarrow> nat \<Rightarrow> nat \<Rightarrow> nat \<Rightarrow> (int, mutex_state) config \<Rightarrow> bool" where
  "mutex_phase n N p k c =
     (if p = 0 then phase_inv n (mutex_sem n) (mutex_idle n) (Some 0) (\<lambda>i. at n N i Start) mutex_start c \<and>
        k = remaining n (mutex_sem n) c
      else if p = 1 then placed n N rounds_inv k c else placed n N over_inv k c)"

text \<open>What a call does in the last two phases.\<close>

lemma placed_local:
  assumes Q: "\<And>pl w i q w'. Q n N pl w \<Longrightarrow> i < n \<Longrightarrow> move i (pl i) w = Some (q, w') \<Longrightarrow> Q n N (pl(i := q)) w'"
    and hold: "\<And>pl w i. Q n N pl w \<Longrightarrow> i < n \<Longrightarrow> inside (pl i) \<Longrightarrow> holder w = Some i"
    and full: "\<And>pl w i. Q n N pl w \<Longrightarrow> i < n \<Longrightarrow> over (pl i) \<Longrightarrow> cnt w = to_int32 (int n * int N)"
    and I: "placed n N Q k (P, w)" and i: "i < n" and Pi: "P i = Call c f" and nb: "\<not> is_bar c"
    and s: "mutex_sem n i c w = Some (r, w')"
  shows "\<exists>k'<k. placed n N Q k' (P(i := f r), w')"
proof -
  obtain pl where pl: "\<And>j. j < n \<Longrightarrow> P j = at n N j (pl j)" "Q n N pl w" "k = (\<Sum>j<n. rank N (pl j))"
    using I by (auto simp: placed_def)
  have "at n N i (pl i) = Call c f" using pl(1) [OF i] Pi by simp
  from call_move [OF this nb s hold [OF pl(2) i] full [OF pl(2) i]]
  obtain q where q: "move i (pl i) w = Some (q, w')" "f r = at n N i q" by blast
  have "(\<Sum>j<n. rank N ((pl(i := q)) j)) < (\<Sum>j<n. rank N (pl j))"
    using i move_rank [OF q(1)] by (intro sum_strict_mono_ex1) (auto intro!: bexI [of _ i] simp: le_less)
  moreover have "placed n N Q (\<Sum>j<n. rank N ((pl(i := q)) j)) (P(i := f r), w')"
    using pl(1) q(2) Q [OF pl(2) i q(1)] unfolding placed_def by (intro exI [of _ "pl(i := q)"]) auto
  ultimately show ?thesis using pl(3) by blast
qed

lemma rounds_local:
  assumes "placed n N rounds_inv k (P, w)" "i < n" "P i = Call c f" "\<not> is_bar c" "mutex_sem n i c w = Some (r, w')"
  shows "\<exists>k'<k. placed n N rounds_inv k' (P(i := f r), w')"
  using assms
proof (rule placed_local [rotated 3])
  fix pl w i assume I: "rounds_inv n N pl w" "i < n"
  show "rounds_inv n N (pl(i := q)) w'" if "move i (pl i) w = Some (q, w')" for q w'
    by (rule rounds_move [OF I that])
  show "holder w = Some i" if "inside (pl i)" using I that by (auto simp: rounds_inv_def)
  show "cnt w = to_int32 (int n * int N)" if "over (pl i)"
  proof -
    have "working (pl i)" using I by (simp add: rounds_inv_def)
    then show ?thesis using that by (cases "pl i") auto
  qed
qed

lemma over_local:
  assumes "placed n N over_inv k (P, w)" "i < n" "P i = Call c f" "\<not> is_bar c" "mutex_sem n i c w = Some (r, w')"
  shows "\<exists>k'<k. placed n N over_inv k' (P(i := f r), w')"
  using assms
proof (rule placed_local [rotated 3])
  fix pl w i assume I: "over_inv n N pl w" "i < n"
  show "over_inv n N (pl(i := q)) w'" if "move i (pl i) w = Some (q, w')" for q w'
    by (rule over_move [OF I that])
  show "holder w = Some i" if "inside (pl i)"
  proof -
    have "over (pl i)" using I by (simp add: over_inv_def)
    then show ?thesis using that by (cases "pl i") auto
  qed
  show "cnt w = to_int32 (int n * int N)" if "over (pl i)" using I by (simp add: over_inv_def)
qed

lemma placed_move:
  assumes pl: "\<And>j. j < n \<Longrightarrow> P j = at n N j (pl j)" and i: "i < n" and m: "move i (pl i) w = Some x"
    and h: "inside (pl i) \<Longrightarrow> holder w = Some i"
  shows "\<exists>c'. step n (mutex_sem n) rel (P, w) c'"
proof -
  obtain c k r w' where "at n N i (pl i) = Call c k" "\<not> is_bar c" "mutex_sem n i c w = Some (r, w')"
    using move_call [OF m h] by blast
  then have "step n (mutex_sem n) rel (P, w) (P(i := k r), w')" using pl [OF i] i by (intro step.local) simp_all
  then show ?thesis by (rule exI)
qed

lemma rounds_release_all:
  assumes bar: "barrier n rel (\<lambda>v. v = 0)" and I: "placed n N rounds_inv k (P, w)"
    and A: "A \<subseteq> {i. i < n \<and> at_bar (P i)}" "rel A rvs"
  shows "\<exists>k'. placed n N over_inv k' (\<lambda>i. if i \<in> A then resume (P i) (rvs i) else P i, w)"
proof -
  note S = barrier.sync_all [OF bar A]
  obtain pl where pl: "\<And>i. i < n \<Longrightarrow> P i = at n N i (pl i)" "rounds_inv n N pl w"
    using I by (auto simp: placed_def)
  have z: "pl i = Idle 0" if "i < n" for i
  proof -
    have "working (pl i)" using pl(2) that by (simp add: rounds_inv_def)
    then show ?thesis using S(2) [OF that] pl(1) [OF that] by (auto simp: at_bar_at simp del: at.simps)
  qed
  have "over_inv n N (\<lambda>_. Closing) w" using rounds_release [OF pl(2) z] by (simp add: over_inv_def)
  then show ?thesis
    using S(1,3) z pl(1) unfolding placed_def
    by (intro exI [of _ "\<Sum>i<n. rank N Closing"] exI [of _ "\<lambda>_. Closing"]) (auto simp: resume_at simp del: at.simps)
qed

lemma over_no_release:
  assumes bar: "barrier n rel (\<lambda>v. v = 0)" and I: "placed n N over_inv k (P, w)"
    and A: "A \<subseteq> {i. i < n \<and> at_bar (P i)}" "rel A rvs"
  shows False
proof -
  have n: "0 < n" by (rule barrier.participants [OF bar])
  obtain pl where "P 0 = at n N 0 (pl 0)" "over (pl 0)" using I n by (auto simp: placed_def over_inv_def)
  then show False using barrier.sync_all(2) [OF bar A n] at_bar_at [of n N 0 "pl 0"] by auto
qed

lemma mutex_live:
  assumes bar: "barrier n rel (\<lambda>v. v = 0)" and p: "p \<le> 2" and I: "mutex_phase n N p k c"
  shows "(finished n (\<lambda>_. 0) c \<and> cnt (snd c) = to_int32 (int n * int N)) \<or> (\<exists>c'. step n (mutex_sem n) rel c c')"
proof -
  have n: "0 < n" by (rule barrier.participants [OF bar])
  consider (prelim) "p = 0" | (rounds) "p = 1" | (over) "p = 2" using p by linarith
  then show ?thesis
  proof cases
    case prelim
    then have "phase_inv n (mutex_sem n) (mutex_idle n) (Some 0) (\<lambda>i. at n N i Start) mutex_start c"
      using I by (simp add: mutex_phase_def)
    from barrier.phase_live [OF bar mutex_idle this] n show ?thesis
      by (simp add: stopped_def bar_wait_bars)
  next
    case rounds
    then obtain pl where pl: "\<And>i. i < n \<Longrightarrow> fst c i = at n N i (pl i)" "rounds_inv n N pl (snd c)"
      using I by (auto simp: mutex_phase_def placed_def)
    from pl(2) have "\<exists>c'. step n (mutex_sem n) rel (fst c, snd c) c'"
    proof (cases rule: rounds_progress)
      case (1 i x)
      then show ?thesis using pl(2) by (intro placed_move [OF pl(1)]) (auto simp: rounds_inv_def)
    next
      case 2
      then show ?thesis
        using pl(1) by (intro barrier.all_at_barrier [OF bar]) (simp add: at_bar_at del: at.simps)
    qed
    then show ?thesis by simp
  next
    case over
    then obtain pl where pl: "\<And>i. i < n \<Longrightarrow> fst c i = at n N i (pl i)" "over_inv n N pl (snd c)"
      using I by (auto simp: mutex_phase_def placed_def)
    from pl(2) show ?thesis
    proof (cases rule: over_progress)
      case (1 i x)
      have "\<not> inside (pl i)" using pl(2) 1(1) by (cases "pl i") (auto simp: over_inv_def)
      then show ?thesis using placed_move [OF pl(1) 1] by auto
    next
      case 2
      then show ?thesis using pl by (simp add: finished_def over_inv_def)
    qed
  qed
qed

lemma mutex_advance:
  assumes bar: "barrier n rel (\<lambda>v. v = 0)" and p: "p \<le> 2" and I: "mutex_phase n N p k c"
    and st: "step n (mutex_sem n) rel c c'"
  shows "(\<exists>k'<k. mutex_phase n N p k' c') \<or> (p < 2 \<and> (\<exists>k'. mutex_phase n N (Suc p) k' c'))"
proof -
  have n: "0 < n" by (rule barrier.participants [OF bar])
  consider (prelim) "p = 0" | (rounds) "p = 1" | (over) "p = 2" using p by linarith
  then show ?thesis
  proof cases
    case prelim
    then have P0: "phase_inv n (mutex_sem n) (mutex_idle n) (Some 0) (\<lambda>i. at n N i Start) mutex_start c"
      and k: "k = remaining n (mutex_sem n) c" using I by (simp_all add: mutex_phase_def)
    from n have "\<forall>d. Some 0 = Some d \<longrightarrow> d < n" by simp
    from barrier.phase_advance [OF bar mutex_idle P0 this st]
    show ?thesis
    proof (elim disjE)
      assume "(\<forall>i<n. at_bar (at n N i Start)) \<and> (\<exists>rvs. (\<forall>i<n. rvs i = 0 \<and>
        fst c' i = resume (at n N i Start) (rvs i)) \<and> snd c' = mutex_start)"
      then have "placed n N rounds_inv (\<Sum>i<n. rank N (Idle N)) c'"
        using begin_release [of n N] unfolding placed_def
        by (intro exI [of _ "\<lambda>_. Idle N"]) (auto simp: resume_at simp del: at.simps)
      then show ?thesis using prelim by (auto simp: mutex_phase_def)
    qed (use prelim k in \<open>auto simp: mutex_phase_def\<close>)
  next
    case rounds
    then have R: "placed n N rounds_inv k (fst c, snd c)" using I by (simp add: mutex_phase_def)
    from st show ?thesis
    proof (cases rule: step.cases)
      case (local i P cc f w r w')
      have "\<exists>k'<k. placed n N rounds_inv k' (P(i := f r), w')"
        using rounds_local local R by simp
      then show ?thesis using rounds local(2) by (auto simp: mutex_phase_def)
    next
      case (sync A P rvs w)
      then show ?thesis using rounds_release_all [OF bar _ sync(3,4)] R rounds by (auto simp: mutex_phase_def)
    qed
  next
    case over
    then have R: "placed n N over_inv k (fst c, snd c)" using I by (simp add: mutex_phase_def)
    from st show ?thesis
    proof (cases rule: step.cases)
      case (local i P cc f w r w')
      have "\<exists>k'<k. placed n N over_inv k' (P(i := f r), w')"
        using over_local local R by simp
      then show ?thesis using over local(2) by (auto simp: mutex_phase_def)
    next
      case (sync A P rvs w)
      then have False using over_no_release [OF bar _ sync(3,4), of N k w] R by simp
      then show ?thesis ..
    qed
  qed
qed

lemma mutex_phased:
  assumes "barrier n rel (\<lambda>v. v = 0)"
  shows "phased (step n (mutex_sem n) rel) (mutex_phase n N) 2
    (\<lambda>c. finished n (\<lambda>_. 0) c \<and> cnt (snd c) = to_int32 (int n * int N))"
  by (rule phased.intro [OF mutex_advance [OF assms] mutex_live [OF assms]])

definition mutex_iters :: "string list \<Rightarrow> nat" where
  "mutex_iters argv = nat (niters_arg argv 1 MUTEX_NITERS)"

lemma iters: "int (mutex_iters argv) = niters_arg argv 1 MUTEX_NITERS"
  using niters_arg_pos [of MUTEX_NITERS argv 1] by (simp add: mutex_iters_def MUTEX_NITERS_def)

lemma mutex_begins:
  "mutex_phase n (mutex_iters argv) 0 (remaining n (mutex_sem n) (\<lambda>_. pip_mutex_main ntasks0 argv, mutex_start))
     (\<lambda>_. pip_mutex_main ntasks0 argv, mutex_start)"
proof -
  have m: "mutex_start\<lparr>holder := None\<rparr> = mutex_start" "mutex_start\<lparr>cnt := 0\<rparr> = mutex_start" "holder mutex_start = None"
    by (simp_all add: mutex_start_def)
  have N: "0 < niters_arg argv (Suc 0) MUTEX_NITERS" by (rule niters_arg_pos) (simp add: MUTEX_NITERS_def)
  then show ?thesis
    by (simp add: mutex_phase_def phase_inv_def pip_mutex_main_def mutex_setup_def mutex_rounds_def Let_def chk_def
        chkv_def m mutex_idle_def bar_wait_def rest_def tail_def mutex_iters_def cong: if_cong)
qed

text \<open>In the setup only task 0 writes the count.\<close>

lemma prelim_critical:
  assumes "mutex_phase n N 0 k (P, w)" "i < n" "critical (P i)"
  shows "i = 0"
proof (rule ccontr)
  assume "i \<noteq> 0"
  then have "idle_run (mutex_idle n) (P i) i = Some (at n N i Start)"
    using assms by (simp add: mutex_phase_def phase_inv_def)
  then show False using assms(3) by (cases "P i" rule: critical.cases) (auto simp: mutex_idle_def bar_wait_def chk_def)
qed

section \<open>Properties\<close>

text \<open>C21: mutual exclusion. Two tasks are never both about to write the count or to unlock the mutex, in
any configuration the tasks of pip_mutex can reach.\<close>

theorem mutex_exclusion:
  assumes "barrier n rel (\<lambda>v. v = 0)"
    and "steps n (mutex_sem n) rel (\<lambda>_. pip_mutex_main ntasks0 argv, mutex_start) (P, w)"
    and "i < n" "j < n" "critical (P i)" "critical (P j)"
  shows "i = j"
proof -
  let ?N = "mutex_iters argv"
  obtain q k where q: "q \<le> 2" "mutex_phase n ?N q k (P, w)"
    using phased.reaches [OF mutex_phased [OF assms(1)] _ mutex_begins assms(2)] by auto
  show ?thesis
  proof (cases "q = 0")
    case True
    then show ?thesis using q(2) prelim_critical assms(3-6) by blast
  next
    case False
    then obtain pl where pl: "\<And>l. l < n \<Longrightarrow> P l = at n ?N l (pl l)" "rounds_inv n ?N pl w \<or> over_inv n ?N pl w"
      using q(2) by (auto simp: mutex_phase_def placed_def split: if_splits)
    have "holder w = Some l" if "l < n" "critical (P l)" for l
    proof -
      have "inside (pl l)" using critical_inside pl(1) that by metis
      moreover from this have "\<not> over (pl l)" by (cases "pl l") auto
      ultimately show ?thesis using pl(2) that(1) by (auto simp: rounds_inv_def over_inv_def)
    qed
    from this [OF assms(3,5)] this [OF assms(4,6)] show ?thesis by simp
  qed
qed

text \<open>C2: no increment is lost: whatever the interleaving, pip_mutex ends, all its tasks return 0, and the
count is the number of tasks times the number of iterations, as an int holds it.\<close>

theorem mutex_correct:
  assumes "barrier n rel (\<lambda>v. v = 0)"
    and "steps n (mutex_sem n) rel (\<lambda>_. pip_mutex_main ntasks0 argv, mutex_start) c"
    and "\<not> (\<exists>c'. step n (mutex_sem n) rel c c')"
  shows "Wellfounded.accp (\<lambda>x y. step n (mutex_sem n) rel y x) (\<lambda>_. pip_mutex_main ntasks0 argv, mutex_start) \<and>
    finished n (\<lambda>_. 0) c \<and> cnt (snd c) = to_int32 (int n * niters_arg argv 1 MUTEX_NITERS)"
  using phased.terminates_from [OF mutex_phased [OF assms(1)] _ mutex_begins, of ntasks0 argv]
    phased.ends [OF mutex_phased [OF assms(1)] _ mutex_begins assms(2,3)]
  by (simp add: iters)

section \<open>Witnesses\<close>

text \<open>Some calls of one task, the others standing still.\<close>

primrec advance :: "'w sem \<Rightarrow> tid \<Rightarrow> nat \<Rightarrow> 'a prog \<Rightarrow> 'w \<Rightarrow> ('a prog \<times> 'w) option" where
  "advance sem i 0 p w = Some (p, w)"
| "advance sem i (Suc m) p w = (case p of
     Call c k \<Rightarrow> if is_bar c then None else
       (case sem i c w of None \<Rightarrow> None | Some (r, w') \<Rightarrow> advance sem i m (k r) w')
   | _ \<Rightarrow> None)"

lemma advance_steps:
  "i < n \<Longrightarrow> advance sem i m (P i) w = Some (p, w') \<Longrightarrow> steps n sem rel (P, w) (P(i := p), w')"
proof (induction m arbitrary: P w)
  case (Suc m)
  then obtain c k r w1 where c: "P i = Call c k" "\<not> is_bar c" "sem i c w = Some (r, w1)"
    "advance sem i m (k r) w1 = Some (p, w')" by (auto split: prog.splits option.splits if_splits)
  then have "step n sem rel (P, w) (P(i := k r), w1)" using Suc.prems by (intro step.local)
  moreover have "steps n sem rel (P(i := k r), w1) (P(i := p), w')"
    using Suc.IH [of "P(i := k r)" w1] c(4) Suc.prems(1) by (simp del: fun_upd_apply add: fun_upd_same)
  ultimately show ?case by (rule converse_rtranclp_into_rtranclp)
qed (simp add: fun_upd_idem)

definition mutex_argv :: "string list" where "mutex_argv = [''pip_mutex'', ''2'']"

lemma mutex_exclusion_witness:
  "\<exists>P w. steps 3 (mutex_sem 3) (all_release 3) (\<lambda>_. pip_mutex_main 0 mutex_argv, mutex_start) (P, w) \<and>
     critical (P 0) \<and> (\<forall>i<3. critical (P i) \<longrightarrow> i = 0)"
proof -
  define x where "x = the (advance (mutex_sem 3) 0 5 (pip_mutex_main 0 mutex_argv) mutex_start)"
  have x: "advance (mutex_sem 3) 0 5 (pip_mutex_main 0 mutex_argv) mutex_start = Some x" "critical (fst x)"
    by (simp_all add: x_def pip_mutex_main_def mutex_setup_def Let_def chk_def numeral_eq_Suc)
  let ?P = "(\<lambda>_. pip_mutex_main 0 mutex_argv)(0 := fst x)"
  have st: "steps 3 (mutex_sem 3) (all_release 3) (\<lambda>_. pip_mutex_main 0 mutex_argv, mutex_start) (?P, snd x)"
    by (rule advance_steps [where m = 5]) (use x in simp_all)
  moreover have "critical (?P 0)" using x(2) by simp
  moreover have "i = 0" if "i < 3" "critical (?P i)" for i :: nat
    by (rule mutex_exclusion [OF bar3 st that(1) _ that(2)]) (use x(2) in simp_all)
  ultimately show ?thesis by blast
qed

lemma mutex_correct_witness:
  "\<exists>c. steps 3 (mutex_sem 3) (all_release 3) (\<lambda>_. pip_mutex_main 0 mutex_argv, mutex_start) c \<and>
     finished 3 (\<lambda>_. 0) c \<and> cnt (snd c) = 6"
proof -
  from ends_somewhere [OF phased.terminates_from [OF mutex_phased [OF bar3] _ mutex_begins, of 0 mutex_argv]]
  obtain c where c: "steps 3 (mutex_sem 3) (all_release 3) (\<lambda>_. pip_mutex_main 0 mutex_argv, mutex_start) c"
    "\<not> (\<exists>c'. step 3 (mutex_sem 3) (all_release 3) c c')" by blast
  have "niters_arg mutex_argv 1 MUTEX_NITERS = 2"
    by (simp add: niters_arg_def arg_int_def mutex_argv_def strtol_eval)
  with mutex_correct [OF bar3 c] c(1) show ?thesis by (intro exI [of _ c]) (simp add: to_int32_def)
qed

end
