(* ===== verification/Relay.thy ===== *)
theory Relay
  imports Spmd
begin

text \<open>
  Tasks that hand a turn around: in each configuration of the relay one task can move and the others
  are blocked, until all wait at a barrier. The positions \<open>q\<close> of the relay are abstract; \<open>conf q\<close> is the
  configuration at \<open>q\<close> and \<open>nxt q\<close> the position after the one call that is possible there.
\<close>

fun blocked :: "'w sem \<Rightarrow> 'a prog \<Rightarrow> tid \<Rightarrow> 'w \<Rightarrow> bool" where
  "blocked sem (Call c k) i w \<longleftrightarrow> is_bar c \<or> sem i c w = None"
| "blocked sem _ i w \<longleftrightarrow> True"

definition agree :: "nat \<Rightarrow> ('a, 'w) config \<Rightarrow> ('a, 'w) config \<Rightarrow> bool" where
  "agree n c d \<longleftrightarrow> (\<forall>i<n. fst c i = fst d i) \<and> snd c = snd d"

text \<open>The next call of task \<open>i\<close>: what it has left afterwards, and the shared state.\<close>

definition call_of :: "'w sem \<Rightarrow> tid \<Rightarrow> ('a, 'w) config \<Rightarrow> ('a prog \<times> 'w) option" where
  "call_of sem i c = (case fst c i of
       Call f k \<Rightarrow> if is_bar f then None else map_option (\<lambda>(r, w). (k r, w)) (sem i f (snd c))
     | _ \<Rightarrow> None)"

lemma call_of_step:
  assumes "i < n" "call_of sem i c = Some (p, w)"
  shows "step n sem rel c ((fst c)(i := p), w)"
proof -
  obtain f k r where "fst c i = Call f k" "\<not> is_bar f" "sem i f (snd c) = Some (r, w)" "p = k r"
    using assms(2) by (auto simp: call_of_def split: prog.splits if_splits)
  then show ?thesis using step.local [of i n "fst c" f k sem "snd c" r w rel] assms(1) by simp
qed

lemma call_of_cong: "fst c i = fst d i \<Longrightarrow> snd c = snd d \<Longrightarrow> call_of sem i c = call_of sem i d"
  by (cases "fst d i") (simp_all add: call_of_def)

text \<open>The call of task \<open>i\<close> leads from one configuration to the other, all other tasks being blocked.\<close>

definition turn :: "nat \<Rightarrow> 'w sem \<Rightarrow> tid \<Rightarrow> ('a, 'w) config \<Rightarrow> ('a, 'w) config \<Rightarrow> bool" where
  "turn n sem i c d \<longleftrightarrow> i < n \<and> call_of sem i c = Some (fst d i, snd d) \<and>
     (\<forall>j<n. j \<noteq> i \<longrightarrow> fst d j = fst c j \<and> blocked sem (fst c j) j (snd c))"

locale relay = barrier n rel good
  for n :: nat and rel :: release and good :: "int \<Rightarrow> bool" +
  fixes sem :: "'w sem" and pos :: "'q set" and conf :: "'q \<Rightarrow> ('a, 'w) config" and nxt :: "'q \<Rightarrow> 'q option"
    and rk :: "'q \<Rightarrow> nat"
  assumes turns: "q \<in> pos \<Longrightarrow> nxt q = Some q' \<Longrightarrow> q' \<in> pos \<and> rk q' < rk q \<and> (\<exists>i. turn n sem i (conf q) (conf q'))"
    and over: "q \<in> pos \<Longrightarrow> nxt q = None \<Longrightarrow> i < n \<Longrightarrow> at_bar (fst (conf q) i)"
begin

definition rinv :: "nat \<Rightarrow> ('a, 'w) config \<Rightarrow> bool" where
  "rinv k c \<longleftrightarrow> (\<exists>q\<in>pos. k = rk q \<and> agree n c (conf q))"

lemma at_bar_no_call: "at_bar p \<Longrightarrow> p = Call f k \<Longrightarrow> is_bar f"
  by simp

lemma relay_live:
  assumes "rinv k c"
  shows "\<exists>c'. step n sem rel c c'"
proof -
  obtain q where q: "q \<in> pos" "\<And>i. i < n \<Longrightarrow> fst c i = fst (conf q) i" "snd c = snd (conf q)"
    using assms by (auto simp: rinv_def agree_def)
  have "\<exists>c'. step n sem rel (fst c, snd c) c'"
  proof (cases "nxt q")
    case None
    then show ?thesis using q(1,2) over by (intro all_at_barrier) simp
  next
    case (Some q')
    then obtain i where "i < n" "call_of sem i (conf q) = Some (fst (conf q') i, snd (conf q'))"
      using turns [OF q(1)] by (auto simp: turn_def)
    moreover have "call_of sem i c = call_of sem i (conf q)" using q(2,3) calculation(1) by (intro call_of_cong)
    ultimately have "step n sem rel c ((fst c)(i := fst (conf q') i), snd (conf q'))" by (intro call_of_step) simp_all
    then show ?thesis by auto
  qed
  then show ?thesis by simp
qed

text \<open>A step is the turn that is due, or the barrier when the relay is over.\<close>

lemma relay_advance:
  assumes "rinv k c" "step n sem rel c c'"
  shows "(\<exists>k'<k. rinv k' c') \<or> (\<exists>q\<in>pos. nxt q = None \<and>
    (\<exists>rvs. (\<forall>i<n. good (rvs i) \<and> fst c' i = resume (fst (conf q) i) (rvs i)) \<and> snd c' = snd (conf q)))"
proof -
  obtain q where q: "q \<in> pos" "k = rk q" "\<And>i. i < n \<Longrightarrow> fst c i = fst (conf q) i" "snd c = snd (conf q)"
    using assms(1) by (auto simp: rinv_def agree_def)
  from assms(2) show ?thesis
  proof (cases rule: step.cases)
    case (local i P f g w r w')
    have cq: "fst (conf q) i = Call f g" "sem i f (snd (conf q)) = Some (r, w')"
      using q(3) [of i] q(4) local by simp_all
    have "nxt q \<noteq> None" using over [OF q(1) _ local(3)] cq(1) local(5) by auto
    then obtain q' where n': "nxt q = Some q'" by blast
    obtain j where t: "turn n sem j (conf q) (conf q')" using turns [OF q(1) n'] by blast
    have "i = j"
    proof (rule ccontr)
      assume "i \<noteq> j"
      then have "blocked sem (fst (conf q) i) i (snd (conf q))" using t local(3) by (simp add: turn_def)
      then show False using cq local(5) by simp
    qed
    then have d: "fst (conf q') i = g r" "snd (conf q') = w'"
      "\<And>l. l < n \<Longrightarrow> l \<noteq> i \<Longrightarrow> fst (conf q') l = fst (conf q) l"
      using t cq local(5) \<open>i = j\<close> by (auto simp: turn_def call_of_def)
    have "agree n c' (conf q')" using local(1,2) q(3) d by (auto simp: agree_def)
    then show ?thesis using turns [OF q(1) n'] q(2) by (auto simp: rinv_def)
  next
    case (sync A P rvs w)
    note S = sync_all [OF sync(3,4)]
    have cq: "at_bar (fst (conf q) i)" if "i < n" for i using q(3) [OF that] S(2) [OF that] sync(1) by simp
    have "nxt q = None"
    proof (rule ccontr)
      assume "nxt q \<noteq> None"
      then obtain q' j where "turn n sem j (conf q) (conf q')" using turns [OF q(1)] by fast
      then show False using cq [of j] by (auto simp: turn_def call_of_def split: prog.splits if_splits)
    qed
    moreover have "\<forall>i<n. good (rvs i) \<and> fst c' i = resume (fst (conf q) i) (rvs i)"
      using S q(3) sync(1,2) by auto
    moreover have "snd c' = snd (conf q)" using q(4) sync(1,2) by simp
    ultimately show ?thesis using q(1) by blast
  qed
qed

end

end
