(* ===== verification/KillTests.thy ===== *)
theory KillTests
  imports BarrierTests Relay
begin

text \<open>
  \<open>basics/pip_kill.c\<close>: a signal goes round from the root through all tasks and back, twice in each
  iteration; who passes it on writes its PiP ID to a shared variable, who gets it checks the ID and the
  signal. The messages the program prints are left out.
\<close>

section \<open>The program\<close>

abbreviation exit_fail :: "'a prog" where "exit_fail \<equiv> Halt (Exit EXIT_FAIL)"

abbreviation nz :: "resp \<Rightarrow> bool" where "nz r \<equiv> rv r \<noteq> 0"

definition pbar :: "'a prog \<Rightarrow> 'a prog \<Rightarrow> 'a prog" where
  "pbar a k = chk (Mem Barrier_wait) (\<lambda>r. rv r \<noteq> 0 \<and> rv r \<noteq> SERIAL_THREAD) a (\<lambda>_. k)"

lemma pbar_simps:
  "at_bar (pbar a k)" "pthread_good v \<Longrightarrow> resume (pbar a k) v = k"
  by (auto simp: pbar_def chk_def pthread_good_def)

lemma seq_pbar: "finE (pbar exit_fail k) f = pbar exit_fail (finE k f)"
  by (simp add: pbar_def chk_def if_distrib [of "\<lambda>p. finE p f"] cong: if_cong)

lemma pbar_quiet: "quiet_run sem (pbar a k) i w = Some (pbar a k)"
  by (simp add: pbar_def chk_def)

text \<open>\<open>junk\<close> is what an uninitialised local variable holds.\<close>

definition wait_signal_root :: "pip_h \<Rightarrow> int \<Rightarrow> int \<Rightarrow> int \<Rightarrow> (int + unit) prog" where
  "wait_signal_root h junk ntasks signo =
     Call (Mem (Store ''pipid_sender'' (PIPID_ROOT h))) (\<lambda>_.
     chk (Pip (Pip_kill 0 signo)) nz exit_fail (\<lambda>_.
     Call (Sys Sigwait) (\<lambda>s. let sig = stored (o1 s) junk in
     Call (Mem (Load ''pipid_sender'')) (\<lambda>r.
     chkv (c_bool (rv r \<noteq> ntasks - 1)) (\<lambda>v. v \<noteq> 0) exit_fail
     (chkv (c_bool (sig \<noteq> signo)) (\<lambda>v. v \<noteq> 0) exit_fail (Ret (Inr ())))))))"

definition wait_signal_task :: "pip_h \<Rightarrow> int \<Rightarrow> int \<Rightarrow> int \<Rightarrow> (int + unit) prog" where
  "wait_signal_task h ntasks pipid signo =
     (let next = pipid + 1; prev = pipid - 1;
          next = (if next \<ge> ntasks then PIPID_ROOT h else next);
          prev = (if prev < 0 then PIPID_ROOT h else prev) in
      Call (Sys Sigwait) (\<lambda>s. let sig = stored (o1 s) (- 1) in
      chkv (c_bool (sig \<noteq> signo)) (\<lambda>v. v \<noteq> 0) exit_fail
      (Call (Mem (Load ''pipid_sender'')) (\<lambda>r.
       chkv (c_bool (rv r \<noteq> prev)) (\<lambda>v. v \<noteq> 0) exit_fail
       (Call (Mem (Store ''pipid_sender'' pipid)) (\<lambda>_.
        chk (Pip (Pip_kill next signo)) nz exit_fail (\<lambda>_. Ret (Inr ()))))))))"

text \<open>The handler; the program blocks the signals and takes them with \<open>sigwait\<close>.\<close>

definition sigusr_handler :: "int \<Rightarrow> unit prog" where
  "sigusr_handler signo = chk (Pip (Pip_get_pipid True)) nz (Ret ()) (\<lambda>_. Ret ())"

definition kill_niters :: "string list \<Rightarrow> cint" where
  "kill_niters argv =
     (let niters = (if length argv > 2 then atoi32 (argv ! 1) else 100) in if niters \<le> 0 then 100 else niters)"

definition kill_signals :: "(int + unit) prog" where
  "kill_signals =
     chk (Sys (Lib ''sigemptyset'' [])) nz exit_fail (\<lambda>_.
     chk (Sys (Lib ''sigemptyset'' [])) nz exit_fail (\<lambda>_.
     chk (Sys (Lib ''sigaddset'' [SIGUSR1])) nz exit_fail (\<lambda>_.
     chk (Sys (Lib ''sigaddset'' [SIGUSR2])) nz exit_fail (\<lambda>_.
     chk (Sys (Sigaction SIGUSR1 ''sigusr_handler'')) nz exit_fail (\<lambda>_.
     chk (Sys (Sigaction SIGUSR2 ''sigusr_handler'')) nz exit_fail (\<lambda>_. Ret (Inr ())))))))"

definition block_sigusrs :: "(resp \<Rightarrow> 'a prog) \<Rightarrow> 'a prog" where
  "block_sigusrs k = chk (Sys (Lib ''pip_sigmask'' [])) nz exit_fail k"

definition kill_rounds :: "(int \<Rightarrow> (int + unit) prog) \<Rightarrow> int \<Rightarrow> (int + unit) prog" where
  "kill_rounds wait niters = for_range 0 (nat niters) (\<lambda>_ _. seqE (wait SIGUSR1) (\<lambda>_. wait SIGUSR2)) ()"

definition kill_wait_body :: "int \<Rightarrow> int \<Rightarrow> int \<Rightarrow> (int + int) prog" where
  "kill_wait_body junk i extval =
     chk (Pip (Pip_wait i True)) nz exit_fail (\<lambda>r. let status = stored (o1 r) junk in
       if WIFEXITED status then
         let extval = WEXITSTATUS status in chkv extval (\<lambda>v. v \<noteq> 0) exit_fail (Ret (Inr extval))
       else chkv 1 (\<lambda>v. v \<noteq> 0) (Halt (Exit EXIT_UNRESOLVED)) (Ret (Inr extval)))"

definition kill_fin :: "int \<Rightarrow> int prog" where
  "kill_fin extval = chk (Pip Pip_fin) nz exit_fail (\<lambda>_. Ret extval)"

definition kill_collect :: "int \<Rightarrow> int \<Rightarrow> int prog" where
  "kill_collect junk ntasks = finE (for_range 0 (nat ntasks) (kill_wait_body junk) 0) kill_fin"

definition kill_root :: "pip_h \<Rightarrow> int \<Rightarrow> string \<Rightarrow> int \<Rightarrow> int \<Rightarrow> int prog" where
  "kill_root h junk prog ntasks niters =
     chk (Pip (Pip_kill (- 1) SIGUSR1)) (\<lambda>r. rv r \<noteq> ERANGE \<and> rv r \<noteq> EINVAL) exit_fail (\<lambda>_.
     chk (Pip (Pip_kill ntasks SIGUSR1)) (\<lambda>r. rv r \<noteq> ERANGE \<and> rv r \<noteq> EINVAL) exit_fail (\<lambda>_.
     chk (Pip (Pip_kill 0 SIGUSR1)) (\<lambda>r. rv r \<noteq> ESRCH) exit_fail (\<lambda>_.
     Call (Mem (Store ''pipid_sender'' 0)) (\<lambda>_.
     chk (Mem (Barrier_init (ntasks + 1))) nz (Ret EXIT_FAIL) (\<lambda>_.
     finE (for_range 0 (nat ntasks) (spawn_self h prog EXIT_FAIL) ()) (\<lambda>_.
     pbar exit_fail (finE (kill_rounds (wait_signal_root h junk ntasks) niters) (\<lambda>_.
     pbar exit_fail (kill_collect junk ntasks)))))))))"

definition kill_task :: "pip_h \<Rightarrow> int \<Rightarrow> int \<Rightarrow> int \<Rightarrow> int prog" where
  "kill_task h ntasks pipid niters =
     chk (Pip (Pip_kill (- 1) SIGUSR1)) (\<lambda>r. rv r \<noteq> ERANGE) exit_fail (\<lambda>_.
     chk (Pip (Pip_kill ntasks SIGUSR1)) (\<lambda>r. rv r \<noteq> ERANGE) exit_fail (\<lambda>_.
     pbar exit_fail (finE (kill_rounds (wait_signal_task h ntasks pipid) niters) (\<lambda>_.
     pbar (Ret EXIT_FAIL) (kill_fin 0)))))"

definition pip_kill_main :: "pip_h \<Rightarrow> int \<Rightarrow> string list \<Rightarrow> int prog" where
  "pip_kill_main h junk argv =
     finE (ntasks_guard (NTASKS h) argv) (\<lambda>ntasks. let niters = kill_niters argv in
     finE kill_signals (\<lambda>_.
     chk (Pip (Pip_init True (Some ntasks) True 0)) nz (Ret EXIT_FAIL) (\<lambda>r.
     let pipid = stored (o1 r) 0; ntasks = stored (o2 r) ntasks in
     block_sigusrs (\<lambda>_.
       if pipid = PIPID_ROOT h then kill_root h junk (argv ! 0) ntasks niters
       else kill_task h ntasks pipid niters))))"

section \<open>Signals\<close>

text \<open>
  Participant \<open>m\<close> is the root. A signal waits at its target until it is taken; an ID that is neither the
  root's nor a task's is refused with ERANGE, a task that has not been spawned with ESRCH.
\<close>

record kill_state =
  sender :: int
  spawned :: "int set"
  pend :: "tid \<Rightarrow> int set"

definition send :: "tid \<Rightarrow> int \<Rightarrow> kill_state \<Rightarrow> kill_state" where
  "send i s w = w\<lparr>pend := (pend w)(i := insert s (pend w i))\<rparr>"

definition take_signal :: "tid \<Rightarrow> kill_state \<Rightarrow> kill_state" where
  "take_signal i w = w\<lparr>pend := (pend w)(i := pend w i - {Min (pend w i)})\<rparr>"

definition kill_sem :: "pip_h \<Rightarrow> nat \<Rightarrow> kill_state sem" where
  "kill_sem h m i c w = (case c of
       Mem (Load _) \<Rightarrow> Some (ok\<lparr>rv := sender w\<rparr>, w)
     | Mem (Store _ v) \<Rightarrow> Some (ok, w\<lparr>sender := v\<rparr>)
     | Mem _ \<Rightarrow> Some (ok, w)
     | Sys Sigwait \<Rightarrow>
         if pend w i = {} then None else Some (ok\<lparr>o1 := Some (Min (pend w i))\<rparr>, take_signal i w)
     | Sys _ \<Rightarrow> Some (ok, w)
     | Pip (Pip_init _ _ _ _) \<Rightarrow>
         Some (ok\<lparr>o1 := Some (if i = m then PIPID_ROOT h else int i), o2 := Some (int m)\<rparr>, w)
     | Pip (Pip_kill p s) \<Rightarrow>
         if p = PIPID_ROOT h then Some (ok, send m s w)
         else if p < 0 \<or> p \<ge> int m then Some (ok\<lparr>rv := ERANGE\<rparr>, w)
         else if p \<notin> spawned w then Some (ok\<lparr>rv := ESRCH\<rparr>, w)
         else Some (ok, send (nat p) s w)
     | Pip (Pip_spawn _ _ p _) \<Rightarrow> Some (ok, w\<lparr>spawned := spawned w \<union> set_option p\<rparr>)
     | Pip (Pip_wait _ _) \<Rightarrow> Some (ok\<lparr>o1 := Some (exited 0)\<rparr>, w)
     | Pip _ \<Rightarrow> Some (ok, w))"

definition kill_idle :: "pip_h \<Rightarrow> nat \<Rightarrow> tid \<Rightarrow> call \<Rightarrow> resp option" where
  "kill_idle h m i c = (case c of
       Sys Sigwait \<Rightarrow> None
     | Sys _ \<Rightarrow> Some ok
     | Pip (Pip_init _ _ _ _) \<Rightarrow>
         Some (ok\<lparr>o1 := Some (if i = m then PIPID_ROOT h else int i), o2 := Some (int m)\<rparr>)
     | Pip (Pip_kill p s) \<Rightarrow> if p \<noteq> PIPID_ROOT h \<and> (p < 0 \<or> p \<ge> int m) then Some (ok\<lparr>rv := ERANGE\<rparr>) else None
     | _ \<Rightarrow> None)"

lemma kill_idle: "idle_calls (kill_sem h m) (kill_idle h m)"
  by (auto simp: idle_calls_def kill_idle_def kill_sem_def
      split: call.splits sys_call.splits pip_call.splits if_splits)

definition kill_start :: kill_state where
  "kill_start = \<lparr>sender = 0, spawned = {}, pend = (\<lambda>_. {})\<rparr>"

end
