(* ===== verification/KillRing.thy ===== *)
theory KillRing
  imports KillTests
begin

text \<open>
  The ring of signals of \<open>pip\_kill\<close> proved correct: between the two barriers the program is a relay, in
  which one participant at most can move. The positions of the relay are the calls of a round; every
  interleaving ends with all participants returning 0.
\<close>

section \<open>The rounds of a participant\<close>

text \<open>What is left with \<open>k\<close> signals to come: SIGUSR1 when their number is even.\<close>

definition sig_of :: "nat \<Rightarrow> int" where "sig_of k = (if even k then SIGUSR1 else SIGUSR2)"

primrec left :: "(int \<Rightarrow> (int + unit) prog) \<Rightarrow> int prog \<Rightarrow> nat \<Rightarrow> int prog" where
  "left wait e 0 = e"
| "left wait e (Suc k) = finE (wait (sig_of (Suc k))) (\<lambda>_. left wait e k)"

lemma left_rounds: "finE (kill_rounds wait (int N)) (\<lambda>_. e) = left wait e (2 * N)"
proof -
  have "finE (for_range j N (\<lambda>_ _. seqE (wait SIGUSR1) (\<lambda>_. wait SIGUSR2)) ()) (\<lambda>_. e) = left wait e (2 * N)" for j
    by (induction N arbitrary: j) (simp_all add: finE_seqE sig_of_def)
  then show ?thesis by (simp add: kill_rounds_def)
qed

lemma sig_sane: "sig_of k \<noteq> 0"
  by (simp add: sig_of_def SIGUSR1_def SIGUSR2_def)

lemma upd_const: "(\<lambda>_. c)(x := c) = (\<lambda>_. c)"
  by (rule ext) simp

lemma nat_int_plus: "nat (int j + 1) = Suc j"
  by simp

section \<open>The positions\<close>

datatype kpos = RStore | RKill | TWait nat | TLoad nat | TStore nat | TKill nat | RWait | RLoad

text \<open>\<open>At k p\<close>: the signal after which \<open>k\<close> more come is at \<open>p\<close>.\<close>

datatype kq = At nat kpos | Over

fun knext :: "nat \<Rightarrow> kq \<Rightarrow> kq option" where
  "knext m (At k RStore) = Some (At k RKill)"
| "knext m (At k RKill) = Some (At k (TWait 0))"
| "knext m (At k (TWait j)) = Some (At k (TLoad j))"
| "knext m (At k (TLoad j)) = Some (At k (TStore j))"
| "knext m (At k (TStore j)) = Some (At k (TKill j))"
| "knext m (At k (TKill j)) = Some (At k (if Suc j < m then TWait (Suc j) else RWait))"
| "knext m (At k RWait) = Some (At k RLoad)"
| "knext m (At k RLoad) = Some (case k of 0 \<Rightarrow> Over | Suc k' \<Rightarrow> At k' RStore)"
| "knext m Over = None"

fun krank :: "nat \<Rightarrow> kq \<Rightarrow> nat" where
  "krank m Over = 0"
| "krank m (At k p) = k * (4 * m + 6) + (case p of
     RStore \<Rightarrow> 4 * m + 5 | RKill \<Rightarrow> 4 * m + 4 | TWait j \<Rightarrow> 4 * (m - j) + 2 | TLoad j \<Rightarrow> 4 * (m - j) + 1
   | TStore j \<Rightarrow> 4 * (m - j) | TKill j \<Rightarrow> 4 * (m - j) - 1 | RWait \<Rightarrow> 2 | RLoad \<Rightarrow> 1)"

fun kpos_ok :: "nat \<Rightarrow> kpos \<Rightarrow> bool" where
  "kpos_ok m (TWait j) = (j < m)"
| "kpos_ok m (TLoad j) = (j < m)"
| "kpos_ok m (TStore j) = (j < m)"
| "kpos_ok m (TKill j) = (j < m)"
| "kpos_ok m _ = True"

definition kposs :: "nat \<Rightarrow> nat \<Rightarrow> kq set" where
  "kposs m N = insert Over {At k p | k p. k < 2 * N \<and> kpos_ok m p}"

lemma kposs_simps: "Over \<in> kposs m N" "At k p \<in> kposs m N \<longleftrightarrow> k < 2 * N \<and> kpos_ok m p"
  by (auto simp: kposs_def)

lemma knext_ok:
  assumes "0 < m" "q \<in> kposs m N" "knext m q = Some q'"
  shows "q' \<in> kposs m N \<and> krank m q' < krank m q"
proof (cases q)
  case (At k p)
  then show ?thesis using assms by (cases p) (auto simp: kposs_simps split: nat.splits)
qed (use assms in simp)

section \<open>The ring\<close>

locale kill_ring = barrier "Suc m" rel pthread_good
  for m :: nat and rel :: release +
  fixes h :: pip_h and junk :: int and N :: nat and E :: "tid \<Rightarrow> int prog"
  assumes tasks: "0 < m" and iters: "0 < N" and root_id: "PIPID_ROOT h < 0"
    and E: "i \<le> m \<Longrightarrow> at_bar (E i)"
begin

definition prev_id :: "nat \<Rightarrow> int" where "prev_id j = (if j = 0 then PIPID_ROOT h else int j - 1)"

definition next_id :: "nat \<Rightarrow> int" where "next_id j = (if Suc j < m then int j + 1 else PIPID_ROOT h)"

text \<open>What a participant has left: before its turn, and in the middle of it.\<close>

definition task :: "nat \<Rightarrow> nat \<Rightarrow> int prog" where
  "task j k = left (wait_signal_task h (int m) (int j)) (E j) k"

definition root :: "nat \<Rightarrow> int prog" where
  "root k = left (wait_signal_root h junk (int m)) (E m) k"

definition t_kill :: "nat \<Rightarrow> nat \<Rightarrow> int prog" where
  "t_kill j k = chk (Pip (Pip_kill (next_id j) (sig_of (Suc k)))) nz exit_fail (\<lambda>_. task j k)"

definition t_store :: "nat \<Rightarrow> nat \<Rightarrow> int prog" where
  "t_store j k = Call (Mem (Store ''pipid_sender'' (int j))) (\<lambda>_. t_kill j k)"

definition t_load :: "nat \<Rightarrow> nat \<Rightarrow> int prog" where
  "t_load j k = Call (Mem (Load ''pipid_sender'')) (\<lambda>r.
     chkv (c_bool (rv r \<noteq> prev_id j)) (\<lambda>v. v \<noteq> 0) exit_fail (t_store j k))"

definition r_load :: "nat \<Rightarrow> int \<Rightarrow> int prog" where
  "r_load k sig = Call (Mem (Load ''pipid_sender'')) (\<lambda>r.
     chkv (c_bool (rv r \<noteq> int m - 1)) (\<lambda>v. v \<noteq> 0) exit_fail
     (chkv (c_bool (sig \<noteq> sig_of (Suc k))) (\<lambda>v. v \<noteq> 0) exit_fail (root k)))"

definition r_wait :: "nat \<Rightarrow> int prog" where
  "r_wait k = Call (Sys Sigwait) (\<lambda>s. r_load k (stored (o1 s) junk))"

definition r_kill :: "nat \<Rightarrow> int prog" where
  "r_kill k = chk (Pip (Pip_kill 0 (sig_of (Suc k)))) nz exit_fail (\<lambda>_. r_wait k)"

lemma task_Suc: "task j (Suc k) = Call (Sys Sigwait) (\<lambda>s.
    chkv (c_bool (stored (o1 s) (- 1) \<noteq> sig_of (Suc k))) (\<lambda>v. v \<noteq> 0) exit_fail (t_load j k))" if "j < m"
  using that unfolding task_def t_load_def t_store_def t_kill_def
  by (simp add: wait_signal_task_def Let_def chkv_def chk_def prev_id_def next_id_def nat_int_plus
      if_distrib [of "\<lambda>p. finE p f" for f] cong: if_cong)

lemma root_Suc: "root (Suc k) = Call (Mem (Store ''pipid_sender'' (PIPID_ROOT h))) (\<lambda>_. r_kill k)"
  unfolding root_def r_load_def r_wait_def r_kill_def
  by (simp add: wait_signal_root_def Let_def chkv_def chk_def
      if_distrib [of "\<lambda>p. finE p f" for f] cong: if_cong)

text \<open>The configuration at a position.\<close>

fun active :: "nat \<Rightarrow> kpos \<Rightarrow> tid \<Rightarrow> int prog" where
  "active k RStore i = (if i = m then root (Suc k) else task i (Suc k))"
| "active k RKill i = (if i = m then r_kill k else task i (Suc k))"
| "active k (TWait j) i = (if i = m then r_wait k else if i < j then task i k else task i (Suc k))"
| "active k (TLoad j) i = (if i = m then r_wait k else if i < j then task i k else
     if i = j then t_load j k else task i (Suc k))"
| "active k (TStore j) i = (if i = m then r_wait k else if i < j then task i k else
     if i = j then t_store j k else task i (Suc k))"
| "active k (TKill j) i = (if i = m then r_wait k else if i < j then task i k else
     if i = j then t_kill j k else task i (Suc k))"
| "active k RWait i = (if i = m then r_wait k else task i k)"
| "active k RLoad i = (if i = m then r_load k (sig_of (Suc k)) else task i k)"

fun sender_at :: "nat \<Rightarrow> kpos \<Rightarrow> int" where
  "sender_at k RStore = (if Suc k = 2 * N then 0 else int m - 1)"
| "sender_at k RKill = PIPID_ROOT h"
| "sender_at k (TWait j) = prev_id j"
| "sender_at k (TLoad j) = prev_id j"
| "sender_at k (TStore j) = prev_id j"
| "sender_at k (TKill j) = int j"
| "sender_at k RWait = int m - 1"
| "sender_at k RLoad = int m - 1"

fun pend_at :: "nat \<Rightarrow> kpos \<Rightarrow> tid \<Rightarrow> int set" where
  "pend_at k (TWait j) = (\<lambda>_. {})(j := {sig_of (Suc k)})"
| "pend_at k RWait = (\<lambda>_. {})(m := {sig_of (Suc k)})"
| "pend_at k _ = (\<lambda>_. {})"

fun kconf :: "kq \<Rightarrow> (int, kill_state) config" where
  "kconf (At k p) = (active k p, \<lparr>sender = sender_at k p, spawned = {0..<int m}, pend = pend_at k p\<rparr>)"
| "kconf Over = (\<lambda>i. if i = m then root 0 else task i 0,
     \<lparr>sender = int m - 1, spawned = {0..<int m}, pend = (\<lambda>_. {})\<rparr>)"

lemma kill_simps:
  "kill_sem h m i (Mem (Load v)) w = Some (ok\<lparr>rv := sender w\<rparr>, w)"
  "kill_sem h m i (Mem (Store v x)) w = Some (ok, w\<lparr>sender := x\<rparr>)"
  "kill_sem h m i (Sys Sigwait) w =
     (if pend w i = {} then None else Some (ok\<lparr>o1 := Some (Min (pend w i))\<rparr>, take_signal i w))"
  "kill_sem h m i (Pip (Pip_kill (PIPID_ROOT h) s)) w = Some (ok, send m s w)"
  "0 \<le> p \<Longrightarrow> p < int m \<Longrightarrow> spawned w = {0..<int m} \<Longrightarrow> kill_sem h m i (Pip (Pip_kill p s)) w = Some (ok, send (nat p) s w)"
  using root_id by (auto simp: kill_sem_def)

lemma task_blocked: "i < m \<Longrightarrow> pend w i = {} \<Longrightarrow> blocked (kill_sem h m) (task i k) i w"
  using E [of i] by (cases k) (auto simp: task_Suc task_def [of i 0] kill_simps elim: blocked.elims at_bar.elims)

lemma wait_blocked: "pend w m = {} \<Longrightarrow> blocked (kill_sem h m) (r_wait k) m w"
  by (simp add: r_wait_def kill_simps)

lemmas r_simps = kill_simps root_Suc r_load_def r_wait_def r_kill_def chk_def chkv_def
lemmas t_simps = kill_simps task_Suc t_kill_def t_store_def t_load_def chk_def chkv_def

lemma root_turn:
  assumes "p = RStore \<or> p = RKill \<or> p = RWait \<or> p = RLoad" "k < 2 * N" "knext m (At k p) = Some q'"
  shows "\<exists>i. turn (Suc m) (kill_sem h m) i (kconf (At k p)) (kconf q')"
  using assms tasks
  by (elim disjE)
    (rule exI [of _ m]; auto simp: turn_def call_of_def r_simps send_def take_signal_def upd_const prev_id_def task_blocked
      less_Suc_eq split: nat.splits cong: if_cong)+

lemma task_turn:
  assumes "p = TWait j \<or> p = TLoad j \<or> p = TStore j \<or> p = TKill j" "j < m" "k < 2 * N" "knext m (At k p) = Some q'"
  shows "\<exists>i. turn (Suc m) (kill_sem h m) i (kconf (At k p)) (kconf q')"
  using assms
  by (elim disjE)
    (rule exI [of _ j]; auto simp: turn_def call_of_def t_simps send_def take_signal_def upd_const prev_id_def next_id_def nat_int_plus
      task_blocked wait_blocked less_Suc_eq split: nat.splits cong: if_cong)+

end

sublocale kill_ring \<subseteq> relay "Suc m" rel pthread_good "kill_sem h m" "kposs m N" kconf "knext m" "krank m"
proof
  fix q q' assume q: "q \<in> kposs m N" "knext m q = Some q'"
  show "q' \<in> kposs m N \<and> krank m q' < krank m q \<and> (\<exists>i. turn (Suc m) (kill_sem h m) i (kconf q) (kconf q'))"
  proof (intro conjI)
    obtain k p where kp: "q = At k p" "k < 2 * N" "kpos_ok m p" using q by (cases q) (auto simp: kposs_simps)
    then show "\<exists>i. turn (Suc m) (kill_sem h m) i (kconf q) (kconf q')"
      using root_turn [of p k q'] task_turn [of p _ k q'] q(2) by (cases p) auto
  qed (use knext_ok [OF tasks q] in auto)
next
  fix q i assume "q \<in> kposs m N" "knext m q = None" "i < Suc m"
  then have "q = Over" by (auto simp: kposs_def elim!: knext.elims)
  then show "at_bar (fst (kconf q) i)" using E [of i] \<open>i < Suc m\<close> by (cases "i = m") (simp_all add: root_def task_def)
qed

context kill_ring
begin

definition ring_inv :: "nat \<Rightarrow> (int, kill_state) config \<Rightarrow> bool" where
  "ring_inv = rinv"

lemma ring_begins: "ring_inv (krank m (At (2 * N - 1) RStore)) c"
  if "\<And>i. i \<le> m \<Longrightarrow> fst c i = (if i = m then root (2 * N) else task i (2 * N))"
    "snd c = \<lparr>sender = 0, spawned = {0..<int m}, pend = (\<lambda>_. {})\<rparr>"
proof -
  have "Suc (2 * N - 1) = 2 * N" using iters by simp
  then have "agree (Suc m) c (kconf (At (2 * N - 1) RStore))" using that by (auto simp: agree_def)
  then show ?thesis using iters unfolding ring_inv_def rinv_def by (intro bexI [of _ "At (2 * N - 1) RStore"]) (auto simp: kposs_simps)
qed

lemma ring_live: "ring_inv k c \<Longrightarrow> \<exists>c'. step (Suc m) (kill_sem h m) rel c c'"
  unfolding ring_inv_def by (rule relay_live)

lemma ring_advance:
  assumes "ring_inv k c" "step (Suc m) (kill_sem h m) rel c c'"
  shows "(\<exists>k'<k. ring_inv k' c') \<or> (\<exists>rvs. (\<forall>i\<le>m. pthread_good (rvs i) \<and> fst c' i = resume (E i) (rvs i)) \<and>
    snd c' = \<lparr>sender = int m - 1, spawned = {0..<int m}, pend = (\<lambda>_. {})\<rparr>)"
  using relay_advance [OF assms [unfolded ring_inv_def]]
proof (elim disjE bexE)
  fix q assume "q \<in> kposs m N" and e: "knext m q = None \<and>
    (\<exists>rvs. (\<forall>i<Suc m. pthread_good (rvs i) \<and> fst c' i = resume (fst (kconf q) i) (rvs i)) \<and> snd c' = snd (kconf q))"
  then have "q = Over" by (auto simp: kposs_def elim!: knext.elims)
  moreover have "fst (kconf Over) i = E i" for i by (simp add: root_def task_def)
  ultimately show ?thesis using e by (auto simp: less_Suc_eq_le)
qed (simp add: ring_inv_def)

end

section \<open>The whole program\<close>

definition kill_end :: "int \<Rightarrow> nat \<Rightarrow> tid \<Rightarrow> int prog" where
  "kill_end junk m i =
     (if i = m then pbar exit_fail (kill_collect junk (int m)) else pbar (Ret EXIT_FAIL) (kill_fin 0))"

lemma kill_ring:
  assumes "barrier (Suc m) rel pthread_good" "0 < m" "0 < N" "PIPID_ROOT h < 0"
  shows "kill_ring m rel h N (kill_end junk m)"
  using assms by (auto simp: kill_ring_def kill_ring_axioms_def kill_end_def pbar_simps)

interpretation kill_rings: kill_ring "Suc m" "pthread_release (Suc (Suc m))" "h\<lparr>PIPID_ROOT := - 16\<rparr>" junk "Suc N"
    "kill_end junk (Suc m)" for m h junk N
  by (rule kill_ring [OF pthread_barrier]) simp_all

text \<open>What the program does up to the first barrier.\<close>

lemma idle_guard: "fits h argv \<Longrightarrow>
    idle_run (kill_idle h m) (finE (ntasks_guard (NTASKS h) argv) f) i = idle_run (kill_idle h m) (f (ntasks_of h argv)) i"
  by (auto simp: ntasks_guard_def Let_def kill_idle_def fits_def ntasks_of_def)

lemma write_guard: "fits h argv \<Longrightarrow>
    to_barrier (kill_sem h m) (finE (ntasks_guard (NTASKS h) argv) f) i w =
    to_barrier (kill_sem h m) (f (ntasks_of h argv)) i w"
  by (auto simp: ntasks_guard_def Let_def kill_sem_def fits_def ntasks_of_def)

lemma write_spawns: "to_barrier (kill_sem h m) (finE (for_range (int j) k (spawn_self h prog x) ()) f) i w =
    to_barrier (kill_sem h m) (f ()) i (w\<lparr>spawned := spawned w \<union> {int j..<int (j + k)}\<rparr>)"
proof (induction k arbitrary: j w)
  case (Suc k)
  have eq: "insert (int j) (spawned w) \<union> {1 + int j..<1 + (int j + int k)} = spawned w \<union> {int j..<1 + (int j + int k)}"
    by auto
  show ?case using Suc.IH [of "Suc j"] eq
    by (simp add: finE_seqE spawn_self_def chk_def kill_sem_def add.commute)
qed simp

lemma write_spawns_all: "to_barrier (kill_sem h m) (finE (for_range 0 k (spawn_self h prog x) ()) f) i w =
    to_barrier (kill_sem h m) (f ()) i (w\<lparr>spawned := spawned w \<union> {0..<int k}\<rparr>)"
  using write_spawns [of h m 0 k prog x f i w] by simp

definition kill_iters :: "string list \<Rightarrow> nat" where "kill_iters argv = nat (kill_niters argv)"

lemma kill_iters: "0 < kill_iters argv" "int (kill_iters argv) = kill_niters argv"
  by (simp_all add: kill_iters_def kill_niters_def Let_def)

definition ring_start :: "pip_h \<Rightarrow> int \<Rightarrow> nat \<Rightarrow> nat \<Rightarrow> tid \<Rightarrow> int prog" where
  "ring_start h junk m N i =
     (if i = m then kill_ring.root m h junk (kill_end junk m) (2 * N)
      else kill_ring.task m h (kill_end junk m) i (2 * N))"

definition all_spawned :: "nat \<Rightarrow> int \<Rightarrow> kill_state" where
  "all_spawned m v = \<lparr>sender = v, spawned = {0..<int m}, pend = (\<lambda>_. {})\<rparr>"

lemma prelude_task:
  assumes "fits h argv" "PIPID_ROOT h < - 1" "i < m"
    and R: "kill_ring m rel h (kill_iters argv) (kill_end junk m)"
  shows "idle_run (kill_idle h m) (pip_kill_main h junk argv) i =
    Some (pbar exit_fail (ring_start h junk m (kill_iters argv) i))"
  using assms(2,3) kill_iters(2) [of argv]
    left_rounds [of "wait_signal_task h (int m) (int i)" "kill_iters argv" "pbar (Ret EXIT_FAIL) (kill_fin 0)"]
  by (simp add: pip_kill_main_def idle_guard [OF assms(1)] kill_signals_def block_sigusrs_def kill_task_def chk_def
      kill_idle_def Let_def pbar_def ring_start_def kill_ring.task_def [OF R] kill_end_def)

lemma prelude_root:
  assumes "fits h argv" "PIPID_ROOT h < - 1" "0 < m"
    and R: "kill_ring m rel h (kill_iters argv) (kill_end junk m)"
  shows "to_barrier (kill_sem h m) (pip_kill_main h junk argv) m kill_start =
    Some (pbar exit_fail (ring_start h junk m (kill_iters argv) m), all_spawned m 0)"
proof -
  have bar: "to_barrier (kill_sem h m) (pbar a p) i w = Some (pbar a p, w)" for a p i w
    by (simp add: pbar_def chk_def)
  have st: "kill_start\<lparr>sender := 0\<rparr> = kill_start" "spawned kill_start = {}"
    "kill_start\<lparr>spawned := {0..<int m}\<rparr> = all_spawned m 0" by (simp_all add: kill_start_def all_spawned_def)
  show ?thesis
    using assms(2,3) kill_iters(2) [of argv]
      left_rounds [of "wait_signal_root h junk (int m)" "kill_iters argv" "pbar exit_fail (kill_collect junk (int m))"]
    by (simp add: pip_kill_main_def write_guard [OF assms(1)] kill_signals_def block_sigusrs_def kill_root_def chk_def
        kill_sem_def Let_def ring_start_def kill_ring.root_def [OF R] kill_end_def bar st write_spawns_all
        errno_defs)
qed

lemma fin_quiet: "quiet_run (kill_sem h m) (kill_fin v) i w = Some (Ret v)"
  by (simp add: kill_fin_def chk_def kill_sem_def)

lemma collect_quiet: "quiet_run (kill_sem h m) (kill_collect junk q) i w = Some (Ret 0)"
proof -
  have "quiet_run (kill_sem h m) (finE (for_range j k (kill_wait_body junk) 0) (f :: int \<Rightarrow> int prog)) i w =
      quiet_run (kill_sem h m) (f 0) i w" for j k f
    by (rule quiet_for) (simp add: kill_wait_body_def chk_def chkv_def kill_sem_def Let_def)
  then show ?thesis by (simp add: kill_collect_def fin_quiet)
qed

definition kill_phase :: "pip_h \<Rightarrow> int \<Rightarrow> nat \<Rightarrow> nat \<Rightarrow> nat \<Rightarrow> nat \<Rightarrow> (int, kill_state) config \<Rightarrow> bool" where
  "kill_phase h junk m N p k c =
     (if p = 0 then phase_inv (Suc m) (kill_sem h m) (kill_idle h m) (Some m)
          (\<lambda>i. pbar exit_fail (ring_start h junk m N i)) (all_spawned m 0) c \<and> k = remaining (Suc m) (kill_sem h m) c
      else if p = 1 then kill_ring.ring_inv m h junk N (kill_end junk m) k c
      else phase_inv (Suc m) (kill_sem h m) (kill_idle h m) None (\<lambda>_. Ret 0) (all_spawned m (int m - 1)) c \<and>
          k = remaining (Suc m) (kill_sem h m) c)"

definition kill_done :: "nat \<Rightarrow> (int, kill_state) config \<Rightarrow> bool" where
  "kill_done m c \<longleftrightarrow> finished (Suc m) (\<lambda>_. 0) c \<and> snd c = all_spawned m (int m - 1)"

lemma kill_live:
  assumes bar: "barrier (Suc m) rel pthread_good" and R: "kill_ring m rel h N (kill_end junk m)"
    and p: "p \<le> 2" and I: "kill_phase h junk m N p k c"
  shows "kill_done m c \<or> (\<exists>c'. step (Suc m) (kill_sem h m) rel c c')"
proof -
  consider "p = 0" | "p = 1" | "p = 2" using p by linarith
  then show ?thesis
  proof cases
    case 1
    then have "phase_inv (Suc m) (kill_sem h m) (kill_idle h m) (Some m)
        (\<lambda>i. pbar exit_fail (ring_start h junk m N i)) (all_spawned m 0) c" using I by (simp add: kill_phase_def)
    from barrier.phase_live [OF bar kill_idle this] show ?thesis by (simp add: stopped_def pbar_simps)
  next
    case 2
    then show ?thesis
      using I kill_ring.ring_live [OF R] by (simp add: kill_phase_def)
  next
    case 3
    then have "phase_inv (Suc m) (kill_sem h m) (kill_idle h m) None (\<lambda>_. Ret 0) (all_spawned m (int m - 1)) c"
      using I by (simp add: kill_phase_def)
    from barrier.quiet_live [OF bar kill_idle this] show ?thesis
      by (auto simp: stopped_def kill_done_def finished_def)
  qed
qed

lemma kill_advance:
  assumes bar: "barrier (Suc m) rel pthread_good" and R: "kill_ring m rel h N (kill_end junk m)"
    and p: "p \<le> 2" and I: "kill_phase h junk m N p k c" and st: "step (Suc m) (kill_sem h m) rel c c'"
  shows "(\<exists>k'<k. kill_phase h junk m N p k' c') \<or> (p < 2 \<and> (\<exists>k'. kill_phase h junk m N (Suc p) k' c'))"
proof -
  consider (prelude) "p = 0" | (ring) "p = 1" | (closing) "p = 2" using p by linarith
  then show ?thesis
  proof cases
    case prelude
    then have P: "phase_inv (Suc m) (kill_sem h m) (kill_idle h m) (Some m)
        (\<lambda>i. pbar exit_fail (ring_start h junk m N i)) (all_spawned m 0) c"
      and k: "k = remaining (Suc m) (kill_sem h m) c" using I by (simp_all add: kill_phase_def)
    have "\<forall>d. Some m = Some d \<longrightarrow> d < Suc m" by simp
    from barrier.phase_advance [OF bar kill_idle P this st] show ?thesis
    proof (elim disjE)
      assume "(\<forall>i<Suc m. at_bar (pbar exit_fail (ring_start h junk m N i))) \<and> (\<exists>rvs. (\<forall>i<Suc m. pthread_good (rvs i) \<and>
        fst c' i = resume (pbar exit_fail (ring_start h junk m N i)) (rvs i)) \<and> snd c' = all_spawned m 0)"
      then obtain rvs where e: "\<And>i. i < Suc m \<Longrightarrow> pthread_good (rvs i)"
        "\<And>i. i < Suc m \<Longrightarrow> fst c' i = resume (pbar exit_fail (ring_start h junk m N i)) (rvs i)"
        "snd c' = all_spawned m 0" by blast
      have "kill_ring.ring_inv m h junk N (kill_end junk m) (krank m (At (2 * N - 1) RStore)) c'"
      proof (rule kill_ring.ring_begins [OF R])
        fix i assume "i \<le> m"
        then have "fst c' i = ring_start h junk m N i" using e(1,2) [of i] by (simp add: pbar_simps)
        then show "fst c' i = (if i = m then kill_ring.root m h junk (kill_end junk m) (2 * N)
            else kill_ring.task m h (kill_end junk m) i (2 * N))" by (simp add: ring_start_def)
      qed (simp add: e(3) all_spawned_def)
      then have "\<exists>k'. kill_ring.ring_inv m h junk N (kill_end junk m) k' c'" by (rule exI)
      then show ?thesis using prelude by (simp add: kill_phase_def)
    qed (use prelude k in \<open>auto simp: kill_phase_def\<close>)
  next
    case ring
    then have Q: "kill_ring.ring_inv m h junk N (kill_end junk m) k c" using I by (simp add: kill_phase_def)
    from kill_ring.ring_advance [OF R Q st] show ?thesis
    proof (elim disjE)
      assume e: "\<exists>rvs. (\<forall>i\<le>m. pthread_good (rvs i) \<and> fst c' i = resume (kill_end junk m i) (rvs i)) \<and>
        snd c' = \<lparr>sender = int m - 1, spawned = {0..<int m}, pend = (\<lambda>_. {})\<rparr>"
      then have "quiet_run (kill_sem h m) (fst c' i) i (snd c') = Some (Ret 0)" if "i < Suc m" for i
        using that by (auto simp: kill_end_def pbar_simps collect_quiet fin_quiet less_Suc_eq_le split: if_splits)
      then show ?thesis using ring e by (auto simp: kill_phase_def phase_inv_def all_spawned_def)
    qed (use ring in \<open>simp add: kill_phase_def\<close>)
  next
    case closing
    then have P: "phase_inv (Suc m) (kill_sem h m) (kill_idle h m) None (\<lambda>_. Ret 0) (all_spawned m (int m - 1)) c"
      and k: "k = remaining (Suc m) (kill_sem h m) c" using I by (simp_all add: kill_phase_def)
    from barrier.quiet_advance [OF bar kill_idle P st] show ?thesis
      using closing k by (auto simp: kill_phase_def)
  qed
qed

lemma kill_phased:
  assumes "barrier (Suc m) rel pthread_good" and "kill_ring m rel h N (kill_end junk m)"
  shows "phased (step (Suc m) (kill_sem h m) rel) (kill_phase h junk m N) 2 (kill_done m)"
  by (rule phased.intro [OF kill_advance [OF assms] kill_live [OF assms]])

lemma kill_begins:
  assumes "fits h argv" "PIPID_ROOT h < - 1" "kill_ring m rel h (kill_iters argv) (kill_end junk m)" "0 < m"
  shows "\<exists>k. kill_phase h junk m (kill_iters argv) 0 k (\<lambda>_. pip_kill_main h junk argv, kill_start)"
  using prelude_task [OF assms(1,2) _ assms(3)] prelude_root [OF assms(1,2,4,3)]
  by (simp add: kill_phase_def phase_inv_def less_Suc_eq)

section \<open>The property\<close>

text \<open>C1: the ring of signals never breaks: whatever the interleaving, the run of pip_kill ends, the root and
all tasks return 0, no signal is left pending and the last sender is the last task.\<close>

theorem pip_kill_correct:
  assumes "barrier (Suc m) rel pthread_good" "0 < m" "fits h argv" "PIPID_ROOT h < - 1"
    and "steps (Suc m) (kill_sem h m) rel (\<lambda>_. pip_kill_main h junk argv, kill_start) c"
    and "\<not> (\<exists>c'. step (Suc m) (kill_sem h m) rel c c')"
  shows "Wellfounded.accp (\<lambda>x y. step (Suc m) (kill_sem h m) rel y x) (\<lambda>_. pip_kill_main h junk argv, kill_start) \<and>
    finished (Suc m) (\<lambda>_. 0) c \<and> (\<forall>i. pend (snd c) i = {}) \<and> sender (snd c) = int m - 1"
proof -
  have R: "kill_ring m rel h (kill_iters argv) (kill_end junk m)"
    using assms(1,2,4) kill_iters(1) by (intro kill_ring) simp_all
  obtain k where k: "kill_phase h junk m (kill_iters argv) 0 k (\<lambda>_. pip_kill_main h junk argv, kill_start)"
    using kill_begins [OF assms(3,4) R assms(2)] by blast
  note P = kill_phased [OF assms(1) R]
  show ?thesis
    using phased.terminates_from [OF P _ k] phased.ends [OF P _ k assms(5,6)]
    by (simp add: kill_done_def all_spawned_def)
qed

definition h_ring :: pip_h where "h_ring = h_sample\<lparr>PIPID_ROOT := - 16\<rparr>"

definition kill_argv :: "string list" where "kill_argv = [''pip_kill'', ''3'', ''3'']"

lemma pip_kill_correct_witness:
  "\<exists>c. steps 4 (kill_sem h_ring 3) (pthread_release 4) (\<lambda>_. pip_kill_main h_ring 0 kill_argv, kill_start) c \<and>
     finished 4 (\<lambda>_. 0) c \<and> sender (snd c) = 2"
proof -
  have four: "Suc 3 = 4" by simp
  note B = pthread_barrier [of "Suc 3"]
  have bar: "barrier (Suc 3) (pthread_release (Suc 3)) pthread_good" by (rule B) simp
  have F: "fits h_ring kill_argv" "PIPID_ROOT h_ring < - 1"
    by (simp_all add: fits_def h_ring_def kill_argv_def arg_int_def strtol_eval NTASKS_def h_sample_def)
  have R: "kill_ring 3 (pthread_release (Suc 3)) h_ring (kill_iters kill_argv) (kill_end 0 3)"
    using bar F(2) kill_iters(1) by (intro kill_ring) simp_all
  obtain k where k: "kill_phase h_ring 0 3 (kill_iters kill_argv) 0 k (\<lambda>_. pip_kill_main h_ring 0 kill_argv, kill_start)"
    using kill_begins [OF F R] by auto
  obtain c where c: "steps (Suc 3) (kill_sem h_ring 3) (pthread_release (Suc 3))
      (\<lambda>_. pip_kill_main h_ring 0 kill_argv, kill_start) c"
    "\<not> (\<exists>c'. step (Suc 3) (kill_sem h_ring 3) (pthread_release (Suc 3)) c c')"
    using ends_somewhere [OF phased.terminates_from [OF kill_phased [OF bar R] _ k]] by auto
  from pip_kill_correct [OF bar _ F c] c(1) show ?thesis unfolding four by (intro exI [of _ c]) simp
qed

end
