(* ===== verification/AtomicTests.thy ===== *)
theory AtomicTests
  imports KillTests
begin

text \<open>
  \<open>porting/atomic.c\<close>: threads add to and subtract from a shared number with the atomic operations of the
  PiP library; each sees the others' additions in between, and in the end the number has to be 0. The
  threads interleave freely between the first two barriers; after that they take turns at a barrier to
  print how often they were interleaved.
\<close>

section \<open>The program\<close>

definition NTHREADS :: int where "NTHREADS = 100"

definition ATOMIC_NITERS :: nat where "ATOMIC_NITERS = 10 * 1000 * 1000"

definition nthreads_arg :: "string list \<Rightarrow> cint" where
  "nthreads_arg argv =
     (let nthreads = (if length argv > 1 then atoi32 (argv ! 1) else 10);
          nthreads = (if nthreads = 0 then NTHREADS else nthreads) in
      if nthreads > NTHREADS then NTHREADS else nthreads)"

definition atomic_round :: "int \<Rightarrow> int \<Rightarrow> (int + int) prog" where
  "atomic_round inc ninter =
     Call (Sys (Lib ''pip_atomic_fetch_and_add'' [inc])) (\<lambda>x.
     Call (Sys (Lib ''pip_atomic_sub_and_fetch'' [inc])) (\<lambda>y.
       Ret (Inr (if to_int32 (rv x) \<noteq> to_int32 (rv y) then ninter + 1 else ninter))))"

definition thread_print :: "int \<Rightarrow> int \<Rightarrow> int \<Rightarrow> int \<Rightarrow> unit \<Rightarrow> ('e + unit) prog" where
  "thread_print num ninter niters i u =
     (let wait = pbar exit_fail (Ret (Inr ())) in
      if i = num then Call (Sys (Lib ''printf'' [num, ninter, niters])) (\<lambda>_. Call (Sys (Lib ''fflush'' [])) (\<lambda>_. wait))
      else wait)"

text \<open>\<open>num\<close> (\<open>id\<close> in the source) is what the argument of the thread points to; the result 0 is the NULL it returns.\<close>

definition atomic_thread :: "int \<Rightarrow> int \<Rightarrow> int prog" where
  "atomic_thread nthreads num =
     chkv (c_bool (num < 0 \<or> num > nthreads)) (\<lambda>v. v \<noteq> 0) exit_fail
     (pbar exit_fail (let inc = num + 20 in
      finE (for_range 0 ATOMIC_NITERS (\<lambda>_. atomic_round inc) 0) (\<lambda>ninter.
      pbar exit_fail
       (finE (for_range 0 (nat nthreads) (thread_print num ninter (int ATOMIC_NITERS)) ()) (\<lambda>_. Ret 0)))))"

definition create_threads :: "'e \<Rightarrow> int \<Rightarrow> ('e + unit) prog" where
  "create_threads ex nthreads =
     for_range 0 (nat nthreads) (\<lambda>i _. chk (Sys (Lib ''pthread_create'' [i])) nz (Ret (Inl ex)) (\<lambda>_. Ret (Inr ()))) ()"

definition join_threads :: "'e \<Rightarrow> int \<Rightarrow> ('e + unit) prog" where
  "join_threads ex nthreads =
     for_range 0 (nat nthreads) (\<lambda>i _. chk (Sys (Lib ''pthread_join'' [i])) nz (Ret (Inl ex)) (\<lambda>_. Ret (Inr ()))) ()"

definition atomic_main :: "string list \<Rightarrow> int prog" where
  "atomic_main argv =
     (let nthreads = nthreads_arg argv in
      chk (Mem (Barrier_init (nthreads + 1))) nz (Ret EXIT_FAIL) (\<lambda>_.
      finE (create_threads EXIT_FAIL nthreads) (\<lambda>_.
      pbar exit_fail (pbar exit_fail
       (Call (Mem (Load ''count'')) (\<lambda>r. let c = to_int32 (rv r) in
        finE (for_range 0 (nat nthreads) (\<lambda>_ _. pbar exit_fail (Ret (Inr ()))) ()) (\<lambda>_.
        finE (join_threads EXIT_FAIL nthreads) (\<lambda>_.
        chkv (c_bool (c \<noteq> 0)) (\<lambda>v. v \<noteq> 0) (Ret EXIT_FAIL) (Ret 0)))))))))"

section \<open>The atomic operations\<close>

text \<open>The number is the shared state; joining a thread is left to the operating system.\<close>

definition atomic_sem :: "int sem" where
  "atomic_sem i c w = (case c of
       Sys (Lib f args) \<Rightarrow>
         if f = ''pip_atomic_fetch_and_add'' then Some (ok\<lparr>rv := w\<rparr>, w + hd args)
         else if f = ''pip_atomic_sub_and_fetch'' then Some (ok\<lparr>rv := w - hd args\<rparr>, w - hd args)
         else Some (ok, w)
     | Mem (Load _) \<Rightarrow> Some (ok\<lparr>rv := w\<rparr>, w)
     | _ \<Rightarrow> Some (ok, w))"

lemma atomic_sem_simps [simp]:
  "atomic_sem i (Sys (Lib ''pip_atomic_fetch_and_add'' [x])) w = Some (ok\<lparr>rv := w\<rparr>, w + x)"
  "atomic_sem i (Sys (Lib ''pip_atomic_sub_and_fetch'' [x])) w = Some (ok\<lparr>rv := w - x\<rparr>, w - x)"
  "atomic_sem i (Sys (Lib ''pthread_create'' a)) w = Some (ok, w)"
  "atomic_sem i (Sys (Lib ''pthread_join'' a)) w = Some (ok, w)"
  "atomic_sem i (Sys (Lib ''printf'' a)) w = Some (ok, w)"
  "atomic_sem i (Sys (Lib ''fflush'' a)) w = Some (ok, w)"
  "atomic_sem i (Mem (Barrier_init x)) w = Some (ok, w)"
  "atomic_sem i (Mem (Load v)) w = Some (ok\<lparr>rv := w\<rparr>, w)"
  by (simp_all add: atomic_sem_def)

section \<open>The places of a thread between the first two barriers\<close>

datatype aplace = Idle nat int | Added nat int int

definition prints :: "nat \<Rightarrow> nat \<Rightarrow> int \<Rightarrow> nat \<Rightarrow> int prog" where
  "prints m i ninter p =
     finE (for_range (int p) (m - p) (thread_print (int i) ninter (int ATOMIC_NITERS)) ()) (\<lambda>_. Ret 0)"

definition adds :: "nat \<Rightarrow> nat \<Rightarrow> nat \<Rightarrow> int \<Rightarrow> int prog" where
  "adds m i k ninter = finE (for_range 0 k (\<lambda>_. atomic_round (int i + 20)) ninter) (\<lambda>ninter.
     pbar exit_fail (prints m i ninter 0))"

fun aat :: "nat \<Rightarrow> nat \<Rightarrow> aplace \<Rightarrow> int prog" where
  "aat m i (Idle k x) = adds m i k x"
| "aat m i (Added k x v) = Call (Sys (Lib ''pip_atomic_sub_and_fetch'' [int i + 20])) (\<lambda>y.
     adds m i k (if to_int32 v \<noteq> to_int32 (rv y) then x + 1 else x))"

fun added :: "nat \<Rightarrow> aplace \<Rightarrow> int" where
  "added i (Idle _ _) = 0"
| "added i (Added _ _ _) = int i + 20"

fun arank :: "aplace \<Rightarrow> nat" where
  "arank (Idle k _) = 2 * k"
| "arank (Added k _ _) = Suc (2 * k)"

lemma adds_simps:
  "adds m i 0 x = pbar exit_fail (prints m i x 0)"
  "adds m i (Suc k) x = Call (Sys (Lib ''pip_atomic_fetch_and_add'' [int i + 20])) (\<lambda>v. aat m i (Added k x (rv v)))"
  using for_range_const [of 1 k "atomic_round (int i + 20)" _ 0]
  by (simp_all add: adds_def atomic_round_def finE_seqE)

lemma aat_not_bar: "at_bar (aat m i pl) \<longleftrightarrow> (\<exists>x. pl = Idle 0 x)"
proof (cases pl)
  case (Idle k x)
  then show ?thesis by (cases k) (simp_all add: adds_simps pbar_simps)
qed simp

text \<open>A call of a thread takes it to its next place and changes the number by what it has then added.\<close>

lemma aat_call:
  assumes "aat m i pl = Call c f" "\<not> is_bar c" "atomic_sem i c w = Some (r, w')"
  shows "\<exists>q. f r = aat m i q \<and> arank q < arank pl \<and> w' - added i q = w - added i pl"
proof (cases pl)
  case (Idle k x)
  then obtain j where "k = Suc j" using assms by (cases k) (auto simp: adds_simps pbar_def chk_def)
  then show ?thesis using assms Idle by (intro exI [of _ "Added j x w"]) (auto simp: adds_simps)
next
  case (Added k x v)
  then show ?thesis using assms
    by (intro exI [of _ "Idle k (if to_int32 v \<noteq> to_int32 (w - (int i + 20)) then x + 1 else x)"]) auto
qed

section \<open>The phases\<close>

definition mloop :: "nat \<Rightarrow> nat \<Rightarrow> int prog" where
  "mloop m p =
     finE (for_range (int p) (m - p) (\<lambda>_ _. pbar exit_fail (Ret (Inr ()))) ()) (\<lambda>_.
     finE (join_threads EXIT_FAIL (int m)) (\<lambda>_. chkv (c_bool ((0::int) \<noteq> 0)) (\<lambda>v. v \<noteq> 0) (Ret EXIT_FAIL) (Ret 0)))"

definition mtail :: "nat \<Rightarrow> int prog" where
  "mtail m = Call (Mem (Load ''count'')) (\<lambda>r. let c = to_int32 (rv r) in
     finE (for_range 0 m (\<lambda>_ _. pbar exit_fail (Ret (Inr ()))) ()) (\<lambda>_.
     finE (join_threads EXIT_FAIL (int m)) (\<lambda>_. chkv (c_bool (c \<noteq> 0)) (\<lambda>v. v \<noteq> 0) (Ret EXIT_FAIL) (Ret 0))))"

definition astop :: "nat \<Rightarrow> (tid \<Rightarrow> int) \<Rightarrow> nat \<Rightarrow> tid \<Rightarrow> int prog" where
  "astop m nin p i =
     (if p = 0 then pbar exit_fail (if i = m then pbar exit_fail (mtail m) else adds m i ATOMIC_NITERS 0)
      else if p < m + 2 then pbar exit_fail (if i = m then mloop m (p - 1) else prints m i (nin i) (p - 1))
      else Ret 0)"

definition adding :: "nat \<Rightarrow> nat \<Rightarrow> (int, int) config \<Rightarrow> bool" where
  "adding m k c \<longleftrightarrow> (\<exists>pl. (\<forall>i<m. fst c i = aat m i (pl i)) \<and> fst c m = pbar exit_fail (mtail m) \<and>
     snd c = (\<Sum>i<m. added i (pl i)) \<and> k = (\<Sum>i<m. arank (pl i)))"

definition aphase :: "nat \<Rightarrow> nat \<Rightarrow> nat \<Rightarrow> (int, int) config \<Rightarrow> bool" where
  "aphase m p k c =
     (if p = 1 then adding m k c
      else \<exists>nin. phase_inv (Suc m) atomic_sem (\<lambda>_ _. None) None (astop m nin p) 0 c \<and> k = remaining (Suc m) atomic_sem c)"

lemma no_idle: "idle_calls atomic_sem (\<lambda>_ _. None)"
  by (simp add: idle_calls_def)

lemma prints_quiet:
  assumes "q \<le> m"
  shows "quiet_run atomic_sem (prints m i x q) i w = Some (if q < m then pbar exit_fail (prints m i x (Suc q)) else Ret 0)"
proof (cases "q < m")
  case True
  then obtain d where "m - q = Suc d" "m - Suc q = d" by (cases "m - q") auto
  then show ?thesis using True
    by (simp add: prints_def thread_print_def finE_seqE seq_pbar pbar_quiet Let_def add.commute)
qed (use assms in \<open>simp add: prints_def\<close>)

lemma join_quiet: "quiet_run atomic_sem (finE (join_threads EXIT_FAIL (int k)) (f :: unit \<Rightarrow> int prog)) i w = quiet_run atomic_sem (f ()) i w"
  unfolding join_threads_def by (rule quiet_for) (simp add: chk_def)

lemma mloop_quiet:
  assumes "q \<le> m"
  shows "quiet_run atomic_sem (mloop m q) i w = Some (if q < m then pbar exit_fail (mloop m (Suc q)) else Ret 0)"
proof (cases "q < m")
  case True
  then obtain d where "m - q = Suc d" "m - Suc q = d" by (cases "m - q") auto
  then show ?thesis using True
    by (simp add: mloop_def finE_seqE seq_pbar pbar_quiet add.commute)
qed (use assms in \<open>simp add: mloop_def join_quiet chkv_def\<close>)

lemma mtail_quiet: "0 < m \<Longrightarrow> quiet_run atomic_sem (mtail m) i 0 = Some (pbar exit_fail (mloop m 1))"
  using mloop_quiet [of 0 m i 0] by (simp add: mtail_def mloop_def to_int32_def)

lemma astop_stopped: "stopped (astop m nin p i)"
  by (simp add: astop_def stopped_def pbar_simps)

text \<open>From the second barrier on nothing changes the number.\<close>

lemma adding_over:
  assumes "adding m k c" "\<And>i. i < m \<Longrightarrow> at_bar (fst c i)"
  obtains nin where "\<And>i. i < m \<Longrightarrow> fst c i = pbar exit_fail (prints m i (nin i) 0)" "snd c = 0"
proof -
  obtain pl where pl: "\<And>i. i < m \<Longrightarrow> fst c i = aat m i (pl i)" "snd c = (\<Sum>i<m. added i (pl i))"
    using assms(1) by (auto simp: adding_def)
  have "\<exists>x. pl i = Idle 0 x" if "i < m" for i using pl(1) [OF that] assms(2) [OF that] by (simp add: aat_not_bar)
  then obtain nin where nin: "\<And>i. i < m \<Longrightarrow> pl i = Idle 0 (nin i)" by metis
  show thesis
  proof (rule that [of nin])
    show "fst c i = pbar exit_fail (prints m i (nin i) 0)" if "i < m" for i
      using pl(1) [OF that] nin [OF that] by (simp add: adds_simps)
    show "snd c = 0" using pl(2) nin by simp
  qed
qed

lemma adding_step:
  assumes bar: "barrier (Suc m) rel pthread_good" and m: "0 < m" and I: "adding m k c"
    and st: "step (Suc m) atomic_sem rel c c'"
  shows "(\<exists>k'<k. adding m k' c') \<or> (\<exists>k'. aphase m 2 k' c')"
  using st
proof (cases rule: step.cases)
  case (local i P f g w r w')
  obtain pl where pl: "\<And>j. j < m \<Longrightarrow> P j = aat m j (pl j)" "P m = pbar exit_fail (mtail m)"
    "w = (\<Sum>j<m. added j (pl j))" "k = (\<Sum>j<m. arank (pl j))"
    using I local(1) by (auto simp: adding_def)
  have i: "i < m" using local(3-5) pl(2) by (cases "i = m") (auto simp: pbar_def chk_def)
  then obtain q where q: "g r = aat m i q" "arank q < arank (pl i)" "w' - added i q = w - added i (pl i)"
    using aat_call [of m i "pl i" f g w r w'] local(4-6) pl(1) by auto
  have "(\<Sum>j<m. arank ((pl(i := q)) j)) < k"
    unfolding pl(4) using i q(2) by (intro sum_strict_mono_ex1) (auto intro!: bexI [of _ i] simp: le_less)
  moreover have "(\<Sum>j<m. added j ((pl(i := q)) j)) = w'"
  proof -
    have "(\<Sum>j\<in>{..<m} - {i}. added j ((pl(i := q)) j)) = (\<Sum>j\<in>{..<m} - {i}. added j (pl j))"
      by (rule sum.cong) auto
    then show ?thesis
      using q(3) pl(3) i sum.remove [OF finite_lessThan, of i m "\<lambda>j. added j (pl j)"]
        sum.remove [OF finite_lessThan, of i m "\<lambda>j. added j ((pl(i := q)) j)"] by simp
  qed
  ultimately have "adding m (\<Sum>j<m. arank ((pl(i := q)) j)) c'"
    using pl(1,2) q(1) i local(2) unfolding adding_def by (intro exI [of _ "pl(i := q)"]) auto
  then show ?thesis using \<open>_ < k\<close> by blast
next
  case (sync A P rvs w)
  note S = barrier.sync_all [OF bar sync(3,4)]
  obtain nin where nin: "\<And>i. i < m \<Longrightarrow> P i = pbar exit_fail (prints m i (nin i) 0)" "w = 0"
    using adding_over [OF I] S(2) sync(1) by auto
  have main: "P m = pbar exit_fail (mtail m)" using I sync(1) by (auto simp: adding_def)
  have "quiet_run atomic_sem (fst c' i) i 0 = Some (astop m nin 2 i)" if "i < Suc m" for i
  proof -
    have "fst c' i = (if i = m then mtail m else prints m i (nin i) 0)"
      using that S(1) S(3) [OF that] nin(1) main sync(2) by (auto simp: pbar_simps)
    then show ?thesis using m that by (auto simp: astop_def mtail_quiet prints_quiet)
  qed
  then have "\<exists>k'. aphase m 2 k' c'" using nin(2) sync(2) by (auto simp: aphase_def phase_inv_def)
  then show ?thesis by blast
qed

lemma adding_live:
  assumes bar: "barrier (Suc m) rel pthread_good" and I: "adding m k c"
  shows "\<exists>c'. step (Suc m) atomic_sem rel c c'"
proof (cases "\<forall>i<m. at_bar (fst c i)")
  case True
  then have "at_bar (fst c i)" if "i < Suc m" for i
    using I that by (cases "i = m") (auto simp: adding_def pbar_simps)
  then show ?thesis using barrier.all_at_barrier [OF bar, of "fst c" atomic_sem "snd c"] by simp
next
  case False
  then obtain i where i: "i < m" "\<not> at_bar (fst c i)" by blast
  then obtain pl where pl: "fst c i = aat m i pl" "\<And>x. pl \<noteq> Idle 0 x" using I by (metis aat_not_bar adding_def)
  have "\<exists>q w. call_of atomic_sem i c = Some (q, w)"
  proof (cases pl)
    case (Idle k x)
    then show ?thesis using pl by (cases k) (auto simp: call_of_def adds_simps)
  qed (use pl(1) in \<open>simp add: call_of_def\<close>)
  then obtain q w where "call_of atomic_sem i c = Some (q, w)" by blast
  then show ?thesis using call_of_step [of i "Suc m" atomic_sem c q w rel] i(1) by auto
qed

lemma aphase_live:
  assumes bar: "barrier (Suc m) rel pthread_good" and p: "p \<le> m + 2" and I: "aphase m p k c"
  shows "(finished (Suc m) (\<lambda>_. 0) c \<and> snd c = 0) \<or> (\<exists>c'. step (Suc m) atomic_sem rel c c')"
proof (cases "p = 1")
  case True
  then show ?thesis using adding_live [OF bar] I by (simp add: aphase_def)
next
  case False
  then obtain nin where "phase_inv (Suc m) atomic_sem (\<lambda>_ _. None) None (astop m nin p) 0 c"
    using I by (auto simp: aphase_def)
  from barrier.quiet_live [OF bar no_idle this]
  have "(\<forall>i<Suc m. fst c i = astop m nin p i) \<and> snd c = 0 \<and> \<not> (\<forall>i<Suc m. at_bar (astop m nin p i)) \<or>
      (\<exists>c'. step (Suc m) atomic_sem rel c c')" by (simp add: astop_stopped)
  moreover have "at_bar (astop m nin p i)" if "p < m + 2" for i using that by (simp add: astop_def pbar_simps)
  moreover have "astop m nin p i = Ret 0" if "\<not> p < m + 2" for i using that by (simp add: astop_def)
  ultimately show ?thesis by (cases "p < m + 2") (auto simp: finished_def)
qed

lemma astop_next:
  assumes "2 \<le> p" "p < m + 2" "i \<le> m" "pthread_good v"
  shows "quiet_run atomic_sem (resume (astop m nin p i) v) i 0 = Some (astop m nin (Suc p) i)"
proof -
  have "Suc (p - 1) = p" "p - 1 \<le> m" "p - 1 < m \<longleftrightarrow> Suc p < m + 2" using assms by auto
  then show ?thesis using assms by (simp add: astop_def pbar_simps mloop_quiet prints_quiet)
qed

lemma aphase_advance:
  assumes bar: "barrier (Suc m) rel pthread_good" and m: "0 < m" and p: "p \<le> m + 2" and I: "aphase m p k c"
    and st: "step (Suc m) atomic_sem rel c c'"
  shows "(\<exists>k'<k. aphase m p k' c') \<or> (p < m + 2 \<and> (\<exists>k'. aphase m (Suc p) k' c'))"
proof (cases "p = 1")
  case True
  then show ?thesis using adding_step [OF bar m _ st] I by (auto simp: aphase_def numeral_2_eq_2)
next
  case False
  then obtain nin where P: "phase_inv (Suc m) atomic_sem (\<lambda>_ _. None) None (astop m nin p) 0 c"
    and k: "k = remaining (Suc m) atomic_sem c" using I by (auto simp: aphase_def)
  from barrier.quiet_advance [OF bar no_idle P st] show ?thesis
  proof (elim disjE)
    assume "(\<forall>i<Suc m. at_bar (astop m nin p i)) \<and>
      (\<exists>rvs. (\<forall>i<Suc m. pthread_good (rvs i) \<and> fst c' i = resume (astop m nin p i) (rvs i)) \<and> snd c' = 0)"
    then obtain rvs where e: "\<And>i. i < Suc m \<Longrightarrow> pthread_good (rvs i)"
      "\<And>i. i < Suc m \<Longrightarrow> fst c' i = resume (astop m nin p i) (rvs i)" "snd c' = 0" and b: "at_bar (astop m nin p m)"
      by auto
    have p': "p < m + 2" using b p by (cases "p < m + 2") (auto simp: astop_def split: if_splits)
    have "\<exists>k'. aphase m (Suc p) k' c'"
    proof (cases "p = 0")
      case True
      have "fst c' i = (if i = m then pbar exit_fail (mtail m) else aat m i (Idle ATOMIC_NITERS 0))" if "i < Suc m" for i
        using e(1,2) [OF that] True by (simp add: astop_def pbar_simps)
      then have "adding m (\<Sum>i<m. arank (Idle ATOMIC_NITERS 0)) c'"
        using e(3) unfolding adding_def by (intro exI [of _ "\<lambda>_. Idle ATOMIC_NITERS 0"]) simp
      then show ?thesis using True by (auto simp: aphase_def)
    next
      case F: False
      then have "quiet_run atomic_sem (fst c' i) i 0 = Some (astop m nin (Suc p) i)" if "i < Suc m" for i
        using e(1,2) [OF that] astop_next [of p m i "rvs i" nin] False p' that by simp
      then show ?thesis using False F e(3) by (auto simp: aphase_def phase_inv_def)
    qed
    then show ?thesis using p' by blast
  qed (use False k in \<open>auto simp: aphase_def\<close>)
qed

lemma atomic_phased:
  assumes "barrier (Suc m) rel pthread_good" "0 < m"
  shows "phased (step (Suc m) atomic_sem rel) (aphase m) (m + 2) (\<lambda>c. finished (Suc m) (\<lambda>_. 0) c \<and> snd c = 0)"
  by (rule phased.intro [OF aphase_advance [OF assms] aphase_live [OF assms(1)]])

definition atomic_progs :: "string list \<Rightarrow> nat \<Rightarrow> tid \<Rightarrow> int prog" where
  "atomic_progs argv m i = (if i = m then atomic_main argv else atomic_thread (int m) (int i))"

lemma atomic_begins:
  assumes "nthreads_arg argv = int m" "0 < m"
  shows "\<exists>k. aphase m 0 k (atomic_progs argv m, 0)"
proof -
  have create: "quiet_run atomic_sem (finE (create_threads EXIT_FAIL (int q)) (f :: unit \<Rightarrow> int prog)) i w = quiet_run atomic_sem (f ()) i w"
    for q f i w unfolding create_threads_def by (rule quiet_for) (simp add: chk_def)
  have "quiet_run atomic_sem (atomic_progs argv m i) i 0 = Some (astop m nin 0 i)" if "i < Suc m" for i nin
  proof (cases "i = m")
    case True
    have "quiet_run atomic_sem (atomic_main argv) m 0 =
        quiet_run atomic_sem (finE (create_threads EXIT_FAIL (int m)) (\<lambda>_. pbar exit_fail (pbar exit_fail (mtail m)))) m 0"
      by (simp add: atomic_main_def assms(1) Let_def chk_def mtail_def)
    then show ?thesis using True by (simp add: atomic_progs_def create pbar_quiet astop_def)
  next
    case False
    then show ?thesis using that
      by (simp add: atomic_progs_def atomic_thread_def chkv_def pbar_quiet astop_def adds_def prints_def Let_def)
  qed
  then show ?thesis by (simp add: aphase_def phase_inv_def)
qed

section \<open>The property\<close>

text \<open>C9: the atomic operations add up: whatever the interleaving, the run of atomic ends, all threads and
main return 0 and the number is 0.\<close>

theorem atomic_correct:
  assumes "barrier (Suc m) rel pthread_good" "nthreads_arg argv = int m" "0 < m"
    and "steps (Suc m) atomic_sem rel (atomic_progs argv m, 0) c" "\<not> (\<exists>c'. step (Suc m) atomic_sem rel c c')"
  shows "Wellfounded.accp (\<lambda>x y. step (Suc m) atomic_sem rel y x) (atomic_progs argv m, 0) \<and>
    finished (Suc m) (\<lambda>_. 0) c \<and> snd c = 0"
proof -
  obtain k where k: "aphase m 0 k (atomic_progs argv m, 0)" using atomic_begins [OF assms(2,3)] by blast
  note P = atomic_phased [OF assms(1,3)]
  show ?thesis using phased.terminates_from [OF P _ k] phased.ends [OF P _ k assms(4,5)] by simp
qed

definition atomic_argv :: "string list" where "atomic_argv = [''atomic'', ''2'']"

lemma atomic_correct_witness:
  "\<exists>c. steps (Suc 2) atomic_sem (pthread_release (Suc 2)) (atomic_progs atomic_argv 2, 0) c \<and>
     finished (Suc 2) (\<lambda>_. 0) c \<and> snd c = 0"
proof -
  have bar: "barrier (Suc 2) (pthread_release (Suc 2)) pthread_good" by (rule pthread_barrier) simp
  have a: "nthreads_arg atomic_argv = int 2"
    by (simp add: nthreads_arg_def atomic_argv_def strtol_eval Let_def NTHREADS_def)
  obtain k where k: "aphase 2 0 k (atomic_progs atomic_argv 2, 0)" using atomic_begins [OF a] by auto
  obtain c where c: "steps (Suc 2) atomic_sem (pthread_release (Suc 2)) (atomic_progs atomic_argv 2, 0) c"
    "\<not> (\<exists>c'. step (Suc 2) atomic_sem (pthread_release (Suc 2)) c c')"
    using ends_somewhere [OF phased.terminates_from [OF atomic_phased [OF bar] _ k]] by auto
  from atomic_correct [OF bar a _ c] c(1) show ?thesis by (intro exI [of _ c]) simp
qed

end
