(* ===== verification/PthreadTests.thy ===== *)
theory PthreadTests
  imports AtomicTests
begin

text \<open>
  \<open>pthread/pthread_barrier.c\<close>: main sets a barrier up for a number of threads, creates and joins them; each
  thread meets the others at the barrier \<open>niters\<close> times. Main and its threads are run together: a thread is
  there from its creation on, it can be joined once it has returned, and the barrier opens for the number of
  threads it was set up for.
\<close>

section \<open>The program\<close>

definition BARRIER_NTHREADS :: int where "BARRIER_NTHREADS = 10"

definition PTHREAD_NITERS :: int where "PTHREAD_NITERS = 100"

definition barrier_thread :: "int \<Rightarrow> int prog" where
  "barrier_thread niters =
     finE (for_range 0 (nat niters) (\<lambda>_ _. pbar exit_fail (Ret (Inr ()))) ()) (\<lambda>_. Ret 0)"

definition pthread_barrier_main :: "string list \<Rightarrow> int prog" where
  "pthread_barrier_main argv =
     (let nthreads = arg_int argv 1 0;
          nthreads = (if nthreads = 0 then BARRIER_NTHREADS else nthreads);
          nthreads = (if nthreads > BARRIER_NTHREADS then BARRIER_NTHREADS else nthreads) in
      chk (Mem (Barrier_init nthreads)) nz (Ret EXIT_FAIL) (\<lambda>_.
      finE (create_threads EXIT_FAIL nthreads) (\<lambda>_. finE (join_threads EXIT_FAIL nthreads) (\<lambda>_. Ret 0))))"

section \<open>Main and its threads\<close>

text \<open>
  A configuration: what main has left to do, the count of the barrier and the threads created so far. A
  thread runs \<open>body\<close>; it has no calls but those of the barrier.
\<close>

type_synonym threads = "int prog \<times> int \<times> (tid \<Rightarrow> int prog option)"

inductive thr_step :: "int prog \<Rightarrow> threads \<Rightarrow> threads \<Rightarrow> bool" for body where
  init: "thr_step body (Call (Mem (Barrier_init n)) k, b, T) (k ok, n, T)"
| create: "thr_step body (Call (Sys (Lib ''pthread_create'' [i])) k, b, T) (k ok, b, T(nat i \<mapsto> body))"
| join: "T (nat i) = Some (Ret v) \<Longrightarrow>
    thr_step body (Call (Sys (Lib ''pthread_join'' [i])) k, b, T) (k ok, b, T)"
| meet: "A \<subseteq> {i. \<exists>p. T i = Some p \<and> at_bar p} \<Longrightarrow> pthread_release (nat b) A rvs \<Longrightarrow>
    thr_step body (M, b, T) (M, b, \<lambda>i. if i \<in> A then map_option (\<lambda>p. resume p (rvs i)) (T i) else T i)"

inductive_cases thr_stepE: "thr_step body (M, b, T) c'"

text \<open>What main has left to create and to join, and the threads \<open>0..<k\<close> after \<open>r\<close> barriers.\<close>

definition left_create :: "nat \<Rightarrow> nat \<Rightarrow> int prog" where
  "left_create N k = finE (for_range (int k) (N - k)
     (\<lambda>i _. chk (Sys (Lib ''pthread_create'' [i])) nz (Ret (Inl EXIT_FAIL)) (\<lambda>_. Ret (Inr ()))) ())
     (\<lambda>_. finE (join_threads EXIT_FAIL (int N)) (\<lambda>_. Ret 0))"

definition left_join :: "nat \<Rightarrow> nat \<Rightarrow> int prog" where
  "left_join N k = finE (for_range (int k) (N - k)
     (\<lambda>i _. chk (Sys (Lib ''pthread_join'' [i])) nz (Ret (Inl EXIT_FAIL)) (\<lambda>_. Ret (Inr ()))) ()) (\<lambda>_. Ret 0)"

definition left_meet :: "nat \<Rightarrow> nat \<Rightarrow> int prog" where
  "left_meet m r = finE (for_range (int r) (m - r) (\<lambda>_ _. pbar exit_fail (Ret (Inr ()))) ()) (\<lambda>_. Ret 0)"

definition threads_at :: "nat \<Rightarrow> nat \<Rightarrow> nat \<Rightarrow> tid \<Rightarrow> int prog option" where
  "threads_at m k r i = (if i < k then Some (left_meet m r) else None)"

text \<open>The configuration after the barrier was set up and \<open>k\<close> more steps, for \<open>N\<close> threads and \<open>m\<close> rounds.\<close>

definition thr_conf :: "nat \<Rightarrow> nat \<Rightarrow> int \<Rightarrow> nat \<Rightarrow> threads" where
  "thr_conf N m b k =
     (if k \<le> N then (left_create N k, b, threads_at m k 0)
      else if k \<le> N + m then (left_join N 0, b, threads_at m N (k - N))
      else (left_join N (k - N - m), b, threads_at m N m))"

lemma threads_none: "threads_at m 0 r = (\<lambda>_. None)"
  by (simp add: threads_at_def fun_eq_iff)

lemma left_unfold:
  "k < N \<Longrightarrow> left_create N k = Call (Sys (Lib ''pthread_create'' [int k]))
     (\<lambda>r. if nz r then Call (Sys (Print_fle (rv r))) (\<lambda>_. Ret EXIT_FAIL) else left_create N (Suc k))"
  "k < N \<Longrightarrow> left_join N k = Call (Sys (Lib ''pthread_join'' [int k]))
     (\<lambda>r. if nz r then Call (Sys (Print_fle (rv r))) (\<lambda>_. Ret EXIT_FAIL) else left_join N (Suc k))"
  "r < m \<Longrightarrow> left_meet m r = pbar exit_fail (left_meet m (Suc r))"
  by (simp_all add: left_create_def left_join_def left_meet_def Suc_diff_Suc [symmetric] chk_def finE_seqE seq_pbar
      if_distrib [of "\<lambda>p. seqE p f" for f] if_distrib [of "\<lambda>p. finE p f" for f] add.commute cong: if_cong)

lemma left_done [simp]:
  "left_create N N = left_join N 0" "left_join N N = Ret 0" "left_meet m m = Ret 0"
  by (simp_all add: left_create_def left_join_def left_meet_def join_threads_def)


lemma meets:
  "k < N \<Longrightarrow> \<not> (A \<subseteq> {i. \<exists>p. threads_at m k r i = Some p \<and> at_bar p} \<and> pthread_release N A rvs)"
  "0 < N \<Longrightarrow> \<not> (A \<subseteq> {i. \<exists>p. threads_at m k m i = Some p \<and> at_bar p} \<and> pthread_release N A rvs)"
  "A \<subseteq> {i. \<exists>p. threads_at m N r i = Some p \<and> at_bar p} \<Longrightarrow> pthread_release N A rvs \<Longrightarrow> A = {..<N}"
proof -
  have sub: "A \<subseteq> {..<k}" if "A \<subseteq> {i. \<exists>p. threads_at m k r i = Some p \<and> at_bar p}" for k r
    using that by (auto simp: threads_at_def split: if_splits)
  show "k < N \<Longrightarrow> \<not> (A \<subseteq> {i. \<exists>p. threads_at m k r i = Some p \<and> at_bar p} \<and> pthread_release N A rvs)"
    using card_mono [OF finite_lessThan sub] by (fastforce simp: pthread_release_def)
  show "0 < N \<Longrightarrow> \<not> (A \<subseteq> {i. \<exists>p. threads_at m k m i = Some p \<and> at_bar p} \<and> pthread_release N A rvs)"
    by (auto simp: pthread_release_def threads_at_def split: if_splits)
  show "A \<subseteq> {i. \<exists>p. threads_at m N r i = Some p \<and> at_bar p} \<Longrightarrow> pthread_release N A rvs \<Longrightarrow> A = {..<N}"
    using sub by (intro card_subset_eq) (auto simp: pthread_release_def)
qed

lemma met:
  assumes "r < m" "pthread_release N {..<N} rvs"
  shows "(\<lambda>i. if i < N then map_option (\<lambda>p. resume p (rvs i)) (threads_at m N r i) else threads_at m N r i) =
    threads_at m N (Suc r)"
proof -
  have "pthread_good (rvs i)" if "i < N" for i
    using assms(2) that by (auto simp: pthread_release_def pthread_good_def)
  then show ?thesis using assms(1) by (auto simp: fun_eq_iff threads_at_def left_unfold pbar_simps)
qed

text \<open>From each configuration of the course there is a step, and only the step to the next one.\<close>

lemma create_step:
  assumes "k < N"
  shows "thr_step (left_meet m 0) (left_create N k, int N, threads_at m k 0) c \<longleftrightarrow>
    c = (left_create N (Suc k), int N, threads_at m (Suc k) 0)"
proof -
  have up: "(threads_at m k 0)(k \<mapsto> left_meet m 0) = threads_at m (Suc k) 0"
    by (auto simp: fun_eq_iff threads_at_def)
  show ?thesis
  proof
    assume "thr_step (left_meet m 0) (left_create N k, int N, threads_at m k 0) c"
    then show "c = (left_create N (Suc k), int N, threads_at m (Suc k) 0)"
      by (rule thr_stepE) (use assms meets(1) up in \<open>auto simp: left_unfold\<close>)
  next
    show "c = (left_create N (Suc k), int N, threads_at m (Suc k) 0) \<Longrightarrow>
        thr_step (left_meet m 0) (left_create N k, int N, threads_at m k 0) c"
      using thr_step.create [of "left_meet m 0" "int k" "\<lambda>r. if nz r then Call (Sys (Print_fle (rv r))) (\<lambda>_. Ret EXIT_FAIL) else left_create N (Suc k)" "int N" "threads_at m k 0"]
        up assms by (simp add: left_unfold)
  qed
qed

lemma meet_step:
  assumes "r < m" "0 < N"
  shows "thr_step body (left_join N 0, int N, threads_at m N r) c \<longleftrightarrow>
    c = (left_join N 0, int N, threads_at m N (Suc r))"
proof
  assume "thr_step body (left_join N 0, int N, threads_at m N r) c"
  then show "c = (left_join N 0, int N, threads_at m N (Suc r))"
  proof (rule thr_stepE)
    fix A rvs
    assume c: "c = (left_join N 0, int N, \<lambda>i. if i \<in> A then map_option (\<lambda>p. resume p (rvs i)) (threads_at m N r i)
        else threads_at m N r i)"
      and A: "A \<subseteq> {i. \<exists>p. threads_at m N r i = Some p \<and> at_bar p}" "pthread_release (nat (int N)) A rvs"
    have "A = {..<N}" using A by (intro meets(3)) simp_all
    with A(2) met [OF assms(1), of N rvs] show ?thesis unfolding c by simp
  qed (use assms in \<open>auto simp: left_unfold threads_at_def pbar_def chk_def\<close>)
next
  obtain rvs where rvs: "pthread_release N {..<N} rvs"
    using barrier.releases [OF pthread_barrier [OF assms(2)]] by blast
  have "{..<N} \<subseteq> {i. \<exists>p. threads_at m N r i = Some p \<and> at_bar p}"
    using assms by (auto simp: threads_at_def left_unfold pbar_simps)
  from thr_step.meet [OF this, of "int N" rvs body "left_join N 0"]
  show "c = (left_join N 0, int N, threads_at m N (Suc r)) \<Longrightarrow>
      thr_step body (left_join N 0, int N, threads_at m N r) c"
    using rvs met [OF assms(1) rvs] by simp
qed

lemma join_step:
  assumes "j < N"
  shows "thr_step body (left_join N j, int N, threads_at m N m) c \<longleftrightarrow> c = (left_join N (Suc j), int N, threads_at m N m)"
proof
  assume "thr_step body (left_join N j, int N, threads_at m N m) c"
  then show "c = (left_join N (Suc j), int N, threads_at m N m)"
    by (rule thr_stepE) (use assms meets(2) in \<open>auto simp: left_unfold\<close>)
next
  show "c = (left_join N (Suc j), int N, threads_at m N m) \<Longrightarrow>
      thr_step body (left_join N j, int N, threads_at m N m) c"
    using assms thr_step.join [of "threads_at m N m" "int j" 0 body "\<lambda>r. if nz r then Call (Sys (Print_fle (rv r))) (\<lambda>_. Ret EXIT_FAIL) else left_join N (Suc j)" "int N"]
    by (simp add: left_unfold threads_at_def)
qed


definition course_length :: "nat \<Rightarrow> nat \<Rightarrow> nat" where
  "course_length N m = (if N = 0 then 0 else N + m + N)"

lemma course_step:
  assumes "k < course_length N m" "0 < m"
  shows "thr_step (left_meet m 0) (thr_conf N m (int N) k) c \<longleftrightarrow> c = thr_conf N m (int N) (Suc k)"
proof -
  have N: "0 < N" "k < N + m + N" using assms(1) by (auto simp: course_length_def split: if_splits)
  consider "k < N" | r where "k = N + r" "r < m" | j where "k = N + m + j" "j < N"
    using N by (metis add_diff_inverse_nat less_diff_conv2 linorder_not_le nat_add_left_cancel_less)
  then show ?thesis
  proof cases
    case 1
    then show ?thesis by (simp add: thr_conf_def create_step)
  next
    case 2
    then have "thr_conf N m (int N) k = (left_join N 0, int N, threads_at m N r)"
      "thr_conf N m (int N) (Suc k) = (left_join N 0, int N, threads_at m N (Suc r))"
      by (auto simp: thr_conf_def)
    then show ?thesis using 2 N by (simp add: meet_step)
  next
    case 3
    then have "thr_conf N m (int N) k = (left_join N j, int N, threads_at m N m)"
      "thr_conf N m (int N) (Suc k) = (left_join N (Suc j), int N, threads_at m N m)"
      using assms(2) by (auto simp: thr_conf_def)
    then show ?thesis using 3 by (simp add: join_step)
  qed
qed

lemma course_end:
  assumes "0 < m" "nat b = N"
  shows "thr_conf N m b (course_length N m) = (Ret 0, b, \<lambda>i. if i < N then Some (Ret 0) else None)"
    "\<not> thr_step body (thr_conf N m b (course_length N m)) c"
proof -
  show e: "thr_conf N m b (course_length N m) = (Ret 0, b, \<lambda>i. if i < N then Some (Ret 0) else None)"
    using assms by (auto simp: thr_conf_def course_length_def threads_at_def fun_eq_iff)
  show "\<not> thr_step body (thr_conf N m b (course_length N m)) c"
    unfolding e by (auto elim!: thr_stepE simp: pthread_release_def split: if_splits)
qed

text \<open>Every run follows the course.\<close>

lemma course:
  assumes "0 < m" "nat b = N" "0 < N \<Longrightarrow> b = int N"
    and "(thr_step (left_meet m 0) ^^ k) (thr_conf N m b 0) c"
  shows "k \<le> course_length N m \<and> c = thr_conf N m b k"
  using assms(4)
proof (induction k arbitrary: c)
  case (Suc k)
  then obtain d where d: "(thr_step (left_meet m 0) ^^ k) (thr_conf N m b 0) d" "thr_step (left_meet m 0) d c"
    by auto
  note IH = Suc.IH [OF d(1)]
  have "k \<noteq> course_length N m" using IH d(2) course_end(2) [OF assms(1,2)] by metis
  with IH have k: "k < course_length N m" by simp
  then have "b = int N" using assms(3) by (auto simp: course_length_def split: if_splits)
  with IH k d(2) course_step [OF k assms(1)] show ?case by simp
qed simp

lemma course_runs:
  assumes "0 < m" "k \<le> course_length N m"
  shows "(thr_step (left_meet m 0) ^^ k) (thr_conf N m (int N) 0) (thr_conf N m (int N) k)"
  using assms(2) by (induction k) (auto simp: course_step assms(1))

lemma barrier_thread_meets: "barrier_thread niters = left_meet (nat niters) 0"
  by (simp add: barrier_thread_def left_meet_def)

lemma main_first:
  assumes "n = arg_int argv 1 0" "b = (if n = 0 then 10 else min n 10)"
  shows "thr_step body (pthread_barrier_main argv, 0, \<lambda>_. None) c \<longleftrightarrow> c = (left_create (nat b) 0, b, \<lambda>_. None)"
proof -
  have m: "pthread_barrier_main argv = Call (Mem (Barrier_init b))
      (\<lambda>r. if nz r then Call (Sys (Print_fle (rv r))) (\<lambda>_. Ret EXIT_FAIL) else left_create (nat b) 0)"
    using assms by (auto simp: pthread_barrier_main_def Let_def chk_def left_create_def create_threads_def
      join_threads_def BARRIER_NTHREADS_def min_def)
  show ?thesis
  proof
    assume "thr_step body (pthread_barrier_main argv, 0, \<lambda>_. None) c"
    then show "c = (left_create (nat b) 0, b, \<lambda>_. None)"
      unfolding m by (rule thr_stepE) (auto simp: pthread_release_def)
  next
    show "c = (left_create (nat b) 0, b, \<lambda>_. None) \<Longrightarrow> thr_step body (pthread_barrier_main argv, 0, \<lambda>_. None) c"
      using thr_step.init [of body b "\<lambda>r. if nz r then Call (Sys (Print_fle (rv r))) (\<lambda>_. Ret EXIT_FAIL)
        else left_create (nat b) 0" 0 "\<lambda>_. None"] unfolding m by simp
  qed
qed

text \<open>C15: pthread_barrier never hangs: main and the threads it creates, run together under any interleaving,
always have a step to make until main has returned 0 after exactly as many threads as the argument asks for (10
when it is missing or 0, never more than 10) were created, met \<open>niters\<close> times at the barrier set up for them,
returned NULL and were joined; and that takes exactly one step for each creation, meeting and join.\<close>

theorem pthread_barrier_ends:
  assumes "n = arg_int argv 1 0" "nthreads = nat (if n = 0 then 10 else min n 10)"
    and "niters = niters_arg argv 2 PTHREAD_NITERS"
    and "(thr_step (barrier_thread niters) ^^ k) (pthread_barrier_main argv, 0, \<lambda>_. None) (M, b, T)"
  shows "k \<le> Suc (course_length nthreads (nat niters)) \<and>
    (if k < Suc (course_length nthreads (nat niters)) then \<exists>c. thr_step (barrier_thread niters) (M, b, T) c
     else M = Ret 0 \<and> T = (\<lambda>i. if i < nthreads then Some (Ret 0) else None))"
proof -
  let ?b = "if n = 0 then 10 else min n 10"
  let ?m = "nat niters"
  have pos: "0 < ?m" using niters_arg_pos [of PTHREAD_NITERS argv 2] assms(3) by (simp add: PTHREAD_NITERS_def)
  have first: "thr_step (left_meet ?m 0) (pthread_barrier_main argv, 0, \<lambda>_. None) c \<longleftrightarrow>
      c = thr_conf nthreads ?m ?b 0" for c
    using main_first [OF assms(1) refl] by (simp add: thr_conf_def threads_none assms(2))
  have b: "0 < nthreads \<Longrightarrow> ?b = int nthreads" using assms(2) by simp
  show ?thesis
  proof (cases k)
    case 0
    then have "(M, b, T) = (pthread_barrier_main argv, 0, \<lambda>_. None)" using assms(4) by simp
    moreover have "thr_step (left_meet ?m 0) (pthread_barrier_main argv, 0, \<lambda>_. None) (thr_conf nthreads ?m ?b 0)"
      using first by blast
    ultimately have "\<exists>c. thr_step (left_meet ?m 0) (M, b, T) c" by (simp only: ) blast
    then show ?thesis using 0 unfolding barrier_thread_meets by simp
  next
    case (Suc j)
    then have "(thr_step (left_meet ?m 0) ^^ j) (thr_conf nthreads ?m ?b 0) (M, b, T)"
      using relpowp_Suc_D2 [OF assms(4) [unfolded Suc barrier_thread_meets]] unfolding first by blast
    note c = course [OF pos assms(2) [symmetric] b this]
    show ?thesis
    proof (cases "j < course_length nthreads ?m")
      case True
      then have "0 < nthreads" by (cases nthreads) (simp_all add: course_length_def)
      then have "\<exists>d. thr_step (left_meet ?m 0) (M, b, T) d"
        using c course_step [OF True pos] b by auto
      then show ?thesis using True Suc unfolding barrier_thread_meets by simp
    next
      case False
      then have "j = course_length nthreads ?m" using c by simp
      then show ?thesis using c Suc course_end(1) [OF pos assms(2) [symmetric]] by simp
    qed
  qed
qed


lemma pthread_barrier_ends_witness:
  "\<exists>b T. (thr_step (barrier_thread 100) ^^ 109) (pthread_barrier_main [''x'', ''4''], 0, \<lambda>_. None) (Ret 0, b, T)"
proof -
  have n: "(4 :: int) = arg_int [''x'', ''4''] 1 0" by (simp add: arg_int_def strtol_eval)
  have m: "(100 :: int) = niters_arg [''x'', ''4''] 2 PTHREAD_NITERS"
    by (simp add: niters_arg_def arg_int_def PTHREAD_NITERS_def)
  obtain M b T where c: "thr_conf 4 100 4 108 = (M, b, T)" by (cases "thr_conf 4 100 4 108")
  have "(thr_step (left_meet 100 0) ^^ 108) (thr_conf 4 100 4 0) (M, b, T)"
    using course_runs [of 100 108 4] by (simp add: course_length_def c)
  moreover have "thr_step (left_meet 100 0) (pthread_barrier_main [''x'', ''4''], 0, \<lambda>_. None) (thr_conf 4 100 4 0)"
    using main_first [OF n refl] by (simp add: thr_conf_def threads_none)
  ultimately have r: "(thr_step (barrier_thread 100) ^^ Suc 108) (pthread_barrier_main [''x'', ''4''], 0, \<lambda>_. None) (M, b, T)"
    unfolding barrier_thread_meets nat_numeral by (intro relpowp_Suc_I2)
  have "M = Ret 0" using pthread_barrier_ends [OF n refl m r] by (simp add: course_length_def)
  with r show ?thesis by auto
qed

end
