(* ===== verification/EnvironTests.thy ===== *)
theory EnvironTests
  imports Args
begin

text \<open>
  \<open>compat/environ.c\<close>: variables put into the environment by \<open>putenv\<close> and \<open>setenv\<close> are found there by
  \<open>getenv\<close>. The locale \<open>environment\<close> is the contract of the three functions.
\<close>

section \<open>The program\<close>

definition ENVIRON_NITERS :: int where "ENVIRON_NITERS = 100"

definition foo :: "int \<Rightarrow> cint" where "foo x = to_int32 (x * 10)"

definition bar :: "int \<Rightarrow> cint" where "bar x = to_int32 (x + 1234)"

definition put_env :: "int \<Rightarrow> unit \<Rightarrow> (int + unit) prog" where
  "put_env i u = Call (Sys (Putenv ((''ENV'' @ show_int i) @ ''='' @ show_int (foo i)))) (\<lambda>_. Ret (Inr ()))"

definition set_env :: "int \<Rightarrow> unit \<Rightarrow> (int + unit) prog" where
  "set_env i u =
     chk (Sys (Setenv (''env'' @ show_int i) (show_int (bar i)) 0)) (\<lambda>r. rv r \<noteq> 0) (Ret (Inl EXIT_FAIL)) (\<lambda>_.
       Ret (Inr ()))"

definition get_env :: "string \<Rightarrow> (int \<Rightarrow> cint) \<Rightarrow> int \<Rightarrow> unit \<Rightarrow> (int + unit) prog" where
  "get_env key f i u =
     Call (Sys (Getenv (key @ show_int i))) (\<lambda>r.
       chkv (c_bool (strv r = None)) (\<lambda>v. v \<noteq> 0) (Ret (Inl EXIT_FAIL))
        (case strv r of
           None \<Rightarrow> Halt (Fault SIGSEGV)
         | Some val \<Rightarrow> chkv (c_bool (atoi32 val \<noteq> f i)) (\<lambda>v. v \<noteq> 0) (Ret (Inl EXIT_FAIL)) (Ret (Inr ()))))"

definition environ_main :: "string list \<Rightarrow> int prog" where
  "environ_main argv =
     (let niters = nat (niters_arg argv 1 ENVIRON_NITERS) in
      finE (for_range 0 niters put_env ()) (\<lambda>_.
      finE (for_range 0 niters (get_env ''ENV'' foo) ()) (\<lambda>_.
      finE (for_range 0 niters set_env ()) (\<lambda>_.
      finE (for_range 0 niters (get_env ''env'' bar) ()) (\<lambda>_. Ret 0)))))"

section \<open>The contract of the environment\<close>

locale environment =
  fixes e :: "'w env" and look :: "'w \<Rightarrow> string \<Rightarrow> string option"
  assumes getenv: "\<exists>r w'. e w (Sys (Getenv k)) = (Some r, w') \<and> strv r = look w k \<and> look w' = look w"
    and putenv: "CHR ''='' \<notin> set k \<Longrightarrow>
        \<exists>r w'. e w (Sys (Putenv (k @ ''='' @ v))) = (Some r, w') \<and> look w' = (look w)(k \<mapsto> v)"
    and setenv: "CHR ''='' \<notin> set k \<Longrightarrow> \<exists>r w'. e w (Sys (Setenv k v ov)) = (Some r, w') \<and> rv r = 0 \<and>
        look w' = (if ov \<noteq> 0 \<or> look w k = None then (look w)(k \<mapsto> v) else look w)"

lemma no_eq: "CHR ''='' \<notin> set (show_int i)"
proof
  have "\<not> isdigit (CHR ''='')" by (simp add: isdigit_def)
  moreover assume "CHR ''='' \<in> set (show_int i)"
  ultimately show False using show_nat_isdigit by (auto simp: show_int_def split: if_splits)
qed

lemma show_int_inj: "0 \<le> i \<Longrightarrow> 0 \<le> j \<Longrightarrow> show_int i = show_int j \<longleftrightarrow> i = j"
proof -
  assume "0 \<le> i" "0 \<le> j"
  moreover have "int (nat i) = int (nat j)" if "show_nat (nat i) = show_nat (nat j)"
    using that strtol_digits_show_nat by metis
  ultimately show ?thesis by (auto simp: show_int_def)
qed

lemma show_foo: "atoi32 (show_int (foo i)) = foo i" "atoi32 (show_int (bar i)) = bar i"
  using to_int32_range by (simp_all add: foo_def bar_def atoi32_show_int)

context environment
begin

text \<open>The variables a loop has set so far, and those no loop has set.\<close>

definition holds :: "string \<Rightarrow> (int \<Rightarrow> cint) \<Rightarrow> int \<Rightarrow> 'w \<Rightarrow> bool" where
  "holds key f n w \<longleftrightarrow> (\<forall>i. 0 \<le> i \<longrightarrow> i < n \<longrightarrow> look w (key @ show_int i) = Some (show_int (f i)))"

definition clear :: "int \<Rightarrow> 'w \<Rightarrow> bool" where
  "clear n w \<longleftrightarrow> (\<forall>i\<ge>n. look w (''env'' @ show_int i) = None)"

lemma putenv_round:
  assumes "0 \<le> j" "holds ''ENV'' foo j w \<and> clear 0 w"
  shows "outcome (put_env j ()) e w = Returned (Inr ()) \<and>
    holds ''ENV'' foo (j + 1) (final_env (put_env j ()) e w) \<and> clear 0 (final_env (put_env j ()) e w)"
proof -
  have "CHR ''='' \<notin> set (''ENV'' @ show_int j)" using no_eq by simp
  from putenv [OF this, of w "show_int (foo j)"] obtain r w' where
    "e w (Sys (Putenv ((''ENV'' @ show_int j) @ ''='' @ show_int (foo j)))) = (Some r, w')"
    "look w' = (look w)(''ENV'' @ show_int j \<mapsto> show_int (foo j))" by blast
  then show ?thesis
    using assms by (auto simp: put_env_def holds_def clear_def show_int_inj)
qed

lemma set_round:
  assumes "0 \<le> j" "holds ''env'' bar j w \<and> clear j w"
  shows "outcome (set_env j ()) e w = Returned (Inr ()) \<and>
    holds ''env'' bar (j + 1) (final_env (set_env j ()) e w) \<and> clear (j + 1) (final_env (set_env j ()) e w)"
proof -
  have "CHR ''='' \<notin> set (''env'' @ show_int j)" using no_eq by simp
  from setenv [OF this, of w "show_int (bar j)" 0] obtain r w' where
    "e w (Sys (Setenv (''env'' @ show_int j) (show_int (bar j)) 0)) = (Some r, w')" "rv r = 0"
    "look w' = (look w)(''env'' @ show_int j \<mapsto> show_int (bar j))" using assms(2) by (auto simp: clear_def)
  then show ?thesis
    using assms by (auto simp: set_env_def chk_def holds_def clear_def show_int_inj)
qed

lemma get_round:
  assumes "0 \<le> j" "j < n" "holds key f n w \<and> clear c w" "\<And>i. atoi32 (show_int (f i)) = f i"
  shows "outcome (get_env key f j ()) e w = Returned (Inr ()) \<and>
    holds key f n (final_env (get_env key f j ()) e w) \<and> clear c (final_env (get_env key f j ()) e w)"
proof -
  obtain r w' where "e w (Sys (Getenv (key @ show_int j))) = (Some r, w')" "strv r = Some (show_int (f j))" "look w' = look w"
    using getenv [of w "key @ show_int j"] assms(1-3) by (auto simp: holds_def)
  then show ?thesis using assms(3,4) by (simp add: get_env_def chkv_def holds_def clear_def)
qed

lemma get_loop:
  assumes "holds key f (int n) w \<and> clear c w" "\<And>i. atoi32 (show_int (f i)) = f i"
  shows "outcome (for_range 0 n (get_env key f) ()) e w = Returned (Inr ())"
    "clear c (final_env (for_range 0 n (get_env key f) ()) e w)"
proof -
  note L = for_range_runs_inv [where i = 0 and n = n and st = "\<lambda>_. ()" and body = "get_env key f" and e = e
      and W = "\<lambda>_ w. holds key f (int n) w \<and> clear c w"]
  show "outcome (for_range 0 n (get_env key f) ()) e w = Returned (Inr ())"
    by (rule L(1)) (use assms get_round [of _ "int n" key f _ c] in simp_all)
  have "holds key f (int n) (final_env (for_range 0 n (get_env key f) ()) e w) \<and>
      clear c (final_env (for_range 0 n (get_env key f) ()) e w)"
    by (rule L(2)) (use assms get_round [of _ "int n" key f _ c] in simp_all)
  then show "clear c (final_env (for_range 0 n (get_env key f) ()) e w)" ..
qed

lemma environ_runs:
  assumes "clear 0 w"
  shows "outcome (environ_main argv) e w = Returned 0"
proof -
  define n where "n = nat (niters_arg argv (Suc 0) ENVIRON_NITERS)"
  let ?p = "for_range 0 n put_env ()" and ?q = "for_range 0 n (get_env ''ENV'' foo) ()"
  let ?s = "for_range 0 n set_env ()" and ?t = "for_range 0 n (get_env ''env'' bar) ()"
  have "holds ''ENV'' foo 0 w" by (simp add: holds_def)
  then have p: "outcome ?p e w = Returned (Inr ())" "holds ''ENV'' foo (int n) (final_env ?p e w)" "clear 0 (final_env ?p e w)"
    using for_range_runs_inv [where i = 0 and n = n and st = "\<lambda>_. ()" and body = put_env and e = e and w = w
        and W = "\<lambda>j w. holds ''ENV'' foo j w \<and> clear 0 w"] putenv_round assms by simp_all
  note q = get_loop [where key = "''ENV''" and f = foo, OF _ show_foo(1)]
  have s: "outcome ?s e w = Returned (Inr ())" "holds ''env'' bar (int n) (final_env ?s e w)" "clear (int n) (final_env ?s e w)"
    if "clear 0 w" for w
    using for_range_runs_inv [where i = 0 and n = n and st = "\<lambda>_. ()" and body = set_env and e = e and w = w
        and W = "\<lambda>j w. holds ''env'' bar j w \<and> clear j w"] set_round that by (simp_all add: holds_def)
  note t = get_loop [where key = "''env''" and f = bar, OF _ show_foo(2)]
  have r: "outcome ?q e (final_env ?p e w) = Returned (Inr ())" "clear 0 (final_env ?q e (final_env ?p e w))"
    using q [of n "final_env ?p e w" 0] p(2,3) by simp_all
  have "outcome ?t e (final_env ?s e (final_env ?q e (final_env ?p e w))) = Returned (Inr ())"
    using t(1) [of n _ "int n"] s(2,3) [OF r(2)] by simp
  then show ?thesis
    using p(1) r(1) s(1) [OF r(2)] by (simp add: environ_main_def Let_def outcome_finE flip: n_def)
qed

end

section \<open>A concrete environment\<close>

definition map_env :: "(string \<Rightarrow> string option) env" where
  "map_env m c = (case c of
       Sys (Getenv k) \<Rightarrow> (Some (ok\<lparr>strv := m k\<rparr>), m)
     | Sys (Putenv s) \<Rightarrow>
         (Some ok, m(takeWhile (\<lambda>c. c \<noteq> CHR ''='') s \<mapsto> tl (dropWhile (\<lambda>c. c \<noteq> CHR ''='') s)))
     | Sys (Setenv k v ov) \<Rightarrow> (Some ok, if ov \<noteq> 0 \<or> m k = None then m(k \<mapsto> v) else m)
     | _ \<Rightarrow> (Some ok, m))"

interpretation map_env: environment map_env "\<lambda>m. m"
proof
  fix k v :: string and m :: "string \<Rightarrow> string option"
  assume k: "CHR ''='' \<notin> set k"
  then have "takeWhile (\<lambda>c. c \<noteq> CHR ''='') (k @ ''='' @ v) = k"
    "dropWhile (\<lambda>c. c \<noteq> CHR ''='') (k @ ''='' @ v) = ''='' @ v"
    by (subst takeWhile_append2 dropWhile_append2; auto)+
  then show "\<exists>r w'. map_env m (Sys (Putenv (k @ ''='' @ v))) = (Some r, w') \<and> w' = m(k \<mapsto> v)"
    by (simp add: map_env_def)
qed (auto simp: map_env_def)

text \<open>C14: what is put into the environment is found there: unless variables of the names it sets exist
already, environ returns 0, for any number of iterations (the values wrap around as ints do).\<close>

theorem environ_roundtrip:
  assumes "environment e look" "\<And>i. 0 \<le> i \<Longrightarrow> look w (''env'' @ show_int i) = None"
  shows "outcome (environ_main argv) e w = Returned 0"
  using assms(2) environment.environ_runs [OF assms(1), of w argv] unfolding environment.clear_def [OF assms(1)] by blast

lemma environ_roundtrip_witness:
  "outcome (environ_main [''environ'', ''7'']) map_env (\<lambda>k. if k = ''PATH'' then Some ''/bin'' else None) = Returned 0"
  by (rule environ_roundtrip [OF map_env.environment_axioms]) simp

end
