(* ===== verification/AuxTests.thy ===== *)
theory AuxTests
  imports Args
begin

text \<open>
  \<open>basics/pip_aux.c\<close>: the root hands each task a number of its own by the auxiliary pointer of
  \<open>pip_spawn_from_func\<close>, the task looks whether it is the number for its PiP ID. The locale
  \<open>aux_tasks\<close> is the library's contract: a task started with \<open>user_func\<close> runs it and sees its ID and
  its pointer, and \<open>pip_wait\<close> reports how it ended. So the two halves of the program are run together.
\<close>

section \<open>The program\<close>

text \<open>\<open>junk\<close> is what uninitialised local variables hold; of a pointer, what it points to.\<close>

definition user_func :: "int \<Rightarrow> int prog" where
  "user_func junk =
     chk (Pip (Pip_get_pipid True)) (\<lambda>r. rv r \<noteq> 0) (Ret EXIT_FAIL) (\<lambda>r. let pipid = stored (o1 r) junk in
     chk (Pip Pip_get_aux) (\<lambda>r. rv r \<noteq> 0) (Ret EXIT_FAIL) (\<lambda>r. let aux = stored (o1 r) junk in
     Ret (if aux \<noteq> to_int32 (pipid * 100) then 1 else 0)))"

definition aux_values :: "int \<Rightarrow> int list" where
  "aux_values ntasks = map (\<lambda>i. to_int32 (i * 100)) [0..ntasks - 1]"

definition aux_spawn :: "pip_h \<Rightarrow> string \<Rightarrow> int \<Rightarrow> int list \<Rightarrow> int \<Rightarrow> unit \<Rightarrow> (int + unit) prog" where
  "aux_spawn h prog arg aux i u =
     (let pipid = i in
      chk (Pip (Pip_task_spawn (Some (From_func prog ''user_func'' arg (aux ! nat i))) (CPUCORE_ASIS h) (Some pipid)))
        (\<lambda>r. rv r \<noteq> 0) (Ret (Inl EXIT_FAIL)) (\<lambda>_. Ret (Inr ())))"

definition aux_wait :: "int \<Rightarrow> int \<Rightarrow> (int + int) prog" where
  "aux_wait i status =
     chk (Pip (Pip_wait i True)) (\<lambda>r. rv r \<noteq> 0) (Ret (Inl EXIT_FAIL)) (\<lambda>r. let status = stored (o1 r) status in
       if WIFEXITED status then
         let extval = WEXITSTATUS status in
         chkv (c_bool (extval \<noteq> 0)) (\<lambda>v. v \<noteq> 0) (Ret (Inl EXIT_FAIL)) (Ret (Inr status))
       else chkv 1 (\<lambda>v. v \<noteq> 0) (Ret (Inl EXIT_UNRESOLVED)) (Ret (Inr status)))"

definition pip_aux_main :: "pip_h \<Rightarrow> int \<Rightarrow> string list \<Rightarrow> int prog" where
  "pip_aux_main h arg argv =
     finE (ntasks_guard (NTASKS h) argv) (\<lambda>ntasks.
     chk (Pip (Pip_init False (Some ntasks) False 0)) (\<lambda>r. rv r \<noteq> 0) (Ret EXIT_FAIL) (\<lambda>r.
     let ntasks = stored (o2 r) ntasks in
     chk (Sys (Malloc (4 * ntasks))) (\<lambda>r. rv r = 0) (Ret EXIT_FAIL) (\<lambda>_. let aux = aux_values ntasks in
     finE (for_range 0 (nat ntasks) (aux_spawn h (argv ! 0) arg aux) ()) (\<lambda>_.
     finE (for_range 0 (nat ntasks) aux_wait 0) (\<lambda>_.
     chk (Pip Pip_fin) (\<lambda>r. rv r \<noteq> 0) (Ret EXIT_FAIL) (\<lambda>_.
     Call (Sys Free) (\<lambda>_. Ret EXIT_PASS)))))))"

section \<open>Tasks that run a function\<close>

text \<open>A task with ID \<open>p\<close> and an auxiliary pointer to \<open>aux\<close>, and the status word of its end.\<close>

definition task_view :: "int \<Rightarrow> int \<Rightarrow> unit env" where
  "task_view p aux = reply (\<lambda>c. case c of
       Pip (Pip_get_pipid _) \<Rightarrow> ok\<lparr>o1 := Some p\<rparr> | Pip Pip_get_aux \<Rightarrow> ok\<lparr>o1 := Some aux\<rparr> | _ \<Rightarrow> ok)"

definition end_status :: "int prog \<Rightarrow> int \<Rightarrow> int \<Rightarrow> status" where
  "end_status f p aux = (case outcome f (task_view p aux) () of
       Returned v \<Rightarrow> exited v | Halted (Exit v) \<Rightarrow> exited v | Halted (Uexit v) \<Rightarrow> exited v
     | Halted (Fault s) \<Rightarrow> signaled s | NoReturn _ \<Rightarrow> signaled SIGABRT)"

locale aux_tasks =
  fixes e :: "'w env" and table :: "'w \<Rightarrow> int \<Rightarrow> int option" and junk :: int
  assumes spawn: "\<exists>r w'. e w (Pip (Pip_task_spawn (Some (From_func prog ''user_func'' arg aux)) core (Some p))) = (Some r, w')
      \<and> rv r = 0 \<and> table w' = (table w)(p \<mapsto> aux)"
    and wait: "table w p = Some aux \<Longrightarrow> \<exists>r w'. e w (Pip (Pip_wait p True)) = (Some r, w')
      \<and> rv r = 0 \<and> o1 r = Some (end_status (user_func junk) p aux) \<and> table w' = table w"
    and init: "\<exists>r w'. e w (Pip (Pip_init False n False 0)) = (Some r, w') \<and> rv r = 0"
    and fin: "\<exists>r w'. e w (Pip Pip_fin) = (Some r, w') \<and> rv r = 0"
    and malloc: "\<exists>r w'. e w (Sys (Malloc s)) = (Some r, w') \<and> rv r \<noteq> 0"
    and comes_back: "\<exists>r w'. e w (Sys c) = (Some r, w')"

lemma user_func_ends: "end_status (user_func junk) p aux = exited (if aux \<noteq> to_int32 (p * 100) then 1 else 0)"
  by (simp add: end_status_def user_func_def task_view_def chk_def)

lemma aux_values_nth: "0 \<le> i \<Longrightarrow> i < n \<Longrightarrow> aux_values n ! nat i = to_int32 (i * 100)"
  by (simp add: aux_values_def nth_upto)

context aux_tasks
begin

definition served :: "int \<Rightarrow> 'w \<Rightarrow> bool" where
  "served n w \<longleftrightarrow> (\<forall>p. 0 \<le> p \<and> p < n \<longrightarrow> table w p = Some (to_int32 (p * 100)))"

lemma spawn_round:
  assumes "0 \<le> j" "j < n" "served j w"
  shows "outcome (aux_spawn h prog arg (aux_values n) j ()) e w = Returned (Inr ()) \<and>
    served (j + 1) (final_env (aux_spawn h prog arg (aux_values n) j ()) e w)"
  using spawn [of w prog arg "to_int32 (j * 100)" "CPUCORE_ASIS h" j] assms
  by (auto simp: aux_spawn_def chk_def aux_values_nth served_def)

lemma wait_round:
  assumes "0 \<le> j" "j < n" "served n w"
  shows "outcome (aux_wait j s) e w = Returned (Inr (exited 0)) \<and> served n (final_env (aux_wait j s) e w)"
  using wait [of w j "to_int32 (j * 100)"] assms
  by (auto simp: aux_wait_def chk_def chkv_def served_def user_func_ends)

lemma wait_loop:
  assumes "served (int n) w"
  shows "\<exists>s. outcome (for_range 0 n aux_wait 0) e w = Returned (Inr s)"
  using for_range_runs_inv(1) [where i = 0 and n = n and st = "\<lambda>j. if j = 0 then 0 else exited 0" and body = aux_wait
      and e = e and w = w and W = "\<lambda>j. served (int n)"] wait_round [of _ "int n"] assms by simp

lemma spawn_loop:
  "outcome (for_range 0 n (aux_spawn h prog arg (aux_values (int n))) ()) e w = Returned (Inr ())"
  "served (int n) (final_env (for_range 0 n (aux_spawn h prog arg (aux_values (int n))) ()) e w)"
proof -
  have "served 0 w" by (auto simp: served_def)
  then show "outcome (for_range 0 n (aux_spawn h prog arg (aux_values (int n))) ()) e w = Returned (Inr ())"
    "served (int n) (final_env (for_range 0 n (aux_spawn h prog arg (aux_values (int n))) ()) e w)"
    using for_range_runs_inv [where i = 0 and n = n and st = "\<lambda>_. ()" and body = "aux_spawn h prog arg (aux_values (int n))"
        and e = e and w = w and W = served] spawn_round [of _ "int n"] by simp_all
qed

lemma aux_runs:
  "outcome (pip_aux_main h arg argv) e w = Returned EXIT_PASS \<or>
   outcome (ntasks_guard (NTASKS h) argv) e w = Returned (Inl EXIT_UNTESTED)"
proof -
  have "\<exists>v. outcome (ntasks_guard (NTASKS h) argv) e w = Returned v \<and> (v = Inl EXIT_UNTESTED \<or> (\<exists>m. v = Inr m))" 
    using comes_back [of w "Getenv ''NTASKS''"] by (auto simp: ntasks_guard_def Let_def split: option.splits)
  then obtain v where v: "outcome (ntasks_guard (NTASKS h) argv) e w = Returned v"
    "v = Inl EXIT_UNTESTED \<or> (\<exists>m. v = Inr m)" by blast
  have "outcome (pip_aux_main h arg argv) e w = Returned EXIT_PASS" if m: "v = Inr m" for m
  proof -
    let ?w0 = "final_env (ntasks_guard (NTASKS h) argv) e w"
    obtain r w1 where 1: "e ?w0 (Pip (Pip_init False (Some m) False 0)) = (Some r, w1)" "rv r = 0" using init by blast
    let ?n = "stored (o2 r) m"
    obtain r2 w2 where 2: "e w1 (Sys (Malloc (4 * ?n))) = (Some r2, w2)" "rv r2 \<noteq> 0" using malloc by blast
    let ?sp = "for_range 0 (nat ?n) (aux_spawn h (argv ! 0) arg (aux_values (int (nat ?n)))) ()"
    have aux: "aux_values ?n = aux_values (int (nat ?n))" by (cases "0 \<le> ?n") (simp_all add: aux_values_def)
    obtain s where s: "outcome (for_range 0 (nat ?n) aux_wait 0) e (final_env ?sp e w2) = Returned (Inr s)"
      using wait_loop spawn_loop(2) by blast
    let ?w4 = "final_env (for_range 0 (nat ?n) aux_wait 0) e (final_env ?sp e w2)"
    obtain r5 w5 where 5: "e ?w4 (Pip Pip_fin) = (Some r5, w5)" "rv r5 = 0" using fin by blast
    obtain r6 w6 where 6: "e w5 (Sys Free) = (Some r6, w6)" using comes_back by blast
    show ?thesis
      using v(1) m 1 2 5 6 s spawn_loop(1) [of "nat ?n" h "argv ! 0" arg w2]
      by (simp add: pip_aux_main_def outcome_finE chk_def Let_def aux)
  qed
  then show ?thesis using v by blast
qed

end

section \<open>A concrete library\<close>

definition table_env :: "(int \<Rightarrow> int option) env" where
  "table_env w c = (case c of
       Pip (Pip_task_spawn (Some (From_func _ _ _ aux)) _ (Some p)) \<Rightarrow> (Some ok, w(p \<mapsto> aux))
     | Pip (Pip_wait p _) \<Rightarrow>
         (Some (case w p of None \<Rightarrow> ok\<lparr>rv := ECHILD\<rparr> | Some aux \<Rightarrow> ok\<lparr>o1 := Some (end_status (user_func 0) p aux)\<rparr>), w)
     | Sys (Malloc _) \<Rightarrow> (Some (ok\<lparr>rv := 4096\<rparr>), w)
     | Sys (Getenv _) \<Rightarrow> (Some (ok\<lparr>strv := None\<rparr>), w)
     | _ \<Rightarrow> (Some ok, w))"

interpretation table_env: aux_tasks table_env "\<lambda>w. w" 0
  by unfold_locales (auto simp: table_env_def split: sys_call.split)

text \<open>C16: what a task finds at its auxiliary pointer is what the root put there for it: with a library
that starts, runs and reports tasks as documented, \<open>pip\_aux\<close> returns EXIT\_PASS, for every number of tasks
that passes its check.\<close>

theorem aux_roundtrip:
  assumes "aux_tasks e table junk"
  shows "outcome (pip_aux_main h arg argv) e w = Returned EXIT_PASS \<or>
    outcome (ntasks_guard (NTASKS h) argv) e w = Returned (Inl EXIT_UNTESTED)"
  by (rule aux_tasks.aux_runs [OF assms])

lemma aux_roundtrip_witness:
  "outcome (pip_aux_main h_sample 0 [''pip_aux'', ''5'']) table_env (\<lambda>_. None) = Returned EXIT_PASS"
  using aux_roundtrip [OF table_env.aux_tasks_axioms, of h_sample 0 "[''pip_aux'', ''5'']" "\<lambda>_. None"]
  by (simp add: ntasks_guard_def arg_int_def NTASKS_def h_sample_def strtol_eval table_env_def)

end
