(* ===== verification/LifeTests.thy ===== *)
theory LifeTests
  imports ApiTests KillTests
begin

text \<open>
  Tests of how the library and its tasks begin and end: \<open>basics/pip_fin.c\<close>, \<open>basics/spawn_pie.c\<close>,
  \<open>basics/pip_exit.c\<close> and \<open>basics/pip_abort.c\<close>. The first two decide exactly: they pass if and only if
  the library answers as they expect, call by call. \<open>pip_abort\<close> forks; its half that waits passes if the
  other was killed by SIGABRT, and that half never passes by itself.
\<close>

section \<open>pip\_fin and pip\_exit\<close>

definition pip_fin_task :: "int prog" where
  "pip_fin_task = chk (Pip Pip_fin) nz failed (\<lambda>_. Ret 0)"

definition pip_fin_main :: "pip_h \<Rightarrow> int \<Rightarrow> string list \<Rightarrow> int prog" where
  "pip_fin_main h junk argv =
     chk (Pip Pip_fin) (\<lambda>r. rv r \<noteq> EPERM) failed (\<lambda>_.
     chk (Pip (Pip_init True (Some 1) False 0)) nz failed (\<lambda>r. let pipid = stored (o1 r) junk in
     if pipid = PIPID_ROOT h then
       chk (task_spawn h (Some (From_func (argv ! 0) ''task_main'' 0 0)) 0) nz failed (\<lambda>_.
       chk (Pip Pip_fin) (\<lambda>r. rv r \<noteq> EBUSY) failed (\<lambda>_.
       chk (Pip (Pip_wait 0 False)) nz failed (\<lambda>_.
       chk (Pip Pip_fin) nz failed (\<lambda>_.
       chk (Pip Pip_fin) (\<lambda>r. rv r \<noteq> EPERM) failed (\<lambda>_. Ret EXIT_PASS)))))
     else Ret EXIT_PASS))"

definition pip_exit_main :: "int prog" where
  "pip_exit_main =
     chk (Pip (Pip_init False (Some 1) False 0)) nz failed (\<lambda>_.
     Call (Pip (Pip_exit EXIT_PASS)) (\<lambda>_. chkv 1 (\<lambda>v. v \<noteq> 0) failed (Ret 0)))"

text \<open>The programs \<open>exit.c\<close> and \<open>return.c\<close>, which other tests run.\<close>

definition exit_main :: "int prog" where "exit_main = Halt (Exit 0)"

definition return_main :: "int prog" where "return_main = Ret 0"

section \<open>spawn\_pie\<close>

text \<open>Linux: ELIBEXEC, ELIBBAD, EACCES, ENOENT.\<close>

definition ELIBEXEC :: int where "ELIBEXEC = 83"
definition ELIBBAD :: int where "ELIBBAD = 80"
definition EACCES :: int where "EACCES = 13"
definition ENOENT :: int where "ENOENT = 2"

definition wait_termination :: "int \<Rightarrow> int prog" where
  "wait_termination junk =
     Call (Pip (Pip_wait_any False True)) (\<lambda>r. let err = rv r; status = stored (o2 r) junk in
       Ret (if err \<noteq> 0 then - err else if WIFEXITED status then WEXITSTATUS status
            else if WIFSIGNALED status then - 9999 else err))"

definition chk_termination :: "int \<Rightarrow> (int + unit) prog" where
  "chk_termination junk = bind (wait_termination junk) (\<lambda>v.
     chkv v (\<lambda>v. v \<noteq> 0) (Ret (Inl EXIT_FAIL)) (Ret (Inr ())))"

text \<open>
  One program: the spawn may answer one of \<open>codes\<close>; one that is spawned is waited for (the code writes
  this out for each program, without the wait where 0 is not among the codes).
\<close>

definition pie_case :: "pip_h \<Rightarrow> int \<Rightarrow> string \<Rightarrow> int list \<Rightarrow> (int + unit) prog" where
  "pie_case h junk nargv codes =
     chk (Pip (Pip_spawn (Some nargv) (CPUCORE_ASIS h) None None)) (\<lambda>r. rv r \<notin> set codes) (Ret (Inl EXIT_FAIL)) (\<lambda>r.
       if rv r = 0 then chk_termination junk else Ret (Inr ()))"

definition pie_fin :: "int prog" where
  "pie_fin = chk (Pip Pip_fin) nz failed (\<lambda>_. Ret EXIT_PASS)"

definition spawn_pie_main :: "pip_h \<Rightarrow> int \<Rightarrow> int prog" where
  "spawn_pie_main h junk =
     Call (Sys (Lib ''chdir'' [])) (\<lambda>_.
     chk (Pip (Pip_init False (Some 1) False 0)) nz failed (\<lambda>_.
     finE (seqE (pie_case h junk ''./prog-noexec'' [EACCES]) (\<lambda>_.
           seqE (pie_case h junk ''./prog-nopie'' [ELIBEXEC, 0]) (\<lambda>_.
           seqE (pie_case h junk ''./prog-nordynamic'' (if VERSION_MINOR h < 4 then [ENOEXEC] else [0])) (\<lambda>_.
           seqE (pie_case h junk ''prog-pie'' [ENOENT, 0]) (\<lambda>_.
           seqE (if VERSION_MAJOR h > 1 then
                   seqE (pie_case h junk ''./prog-nopthread'' [ELIBBAD, 0]) (\<lambda>_.
                   pie_case h junk ''./prog-nopipcc'' [0])
                 else Ret (Inr ())) (\<lambda>_.
           pie_case h junk ''./prog-pipcc'' [0])))))) (\<lambda>_. pie_fin)))"

text \<open>The answers the program accepts, as a function of the calls and answers.\<close>

definition pie_codes :: "pip_h \<Rightarrow> (string \<times> int list) list" where
  "pie_codes h =
     [(''./prog-noexec'', [EACCES]), (''./prog-nopie'', [ELIBEXEC, 0]),
      (''./prog-nordynamic'', if VERSION_MINOR h < 4 then [ENOEXEC] else [0]), (''prog-pie'', [ENOENT, 0])] @
     (if VERSION_MAJOR h > 1 then [(''./prog-nopthread'', [ELIBBAD, 0]), (''./prog-nopipcc'', [0])] else []) @
     [(''./prog-pipcc'', [0])]"

text \<open>A wait that ends with status 0, or a status that is neither that of an exit nor of a signal.\<close>

definition good_end :: "int \<Rightarrow> resp \<Rightarrow> bool" where
  "good_end junk r \<longleftrightarrow> rv r = 0 \<and> (let s = stored (o2 r) junk in if WIFEXITED s then WEXITSTATUS s = 0 else \<not> WIFSIGNALED s)"

fun accepts :: "pip_h \<Rightarrow> int \<Rightarrow> (string \<times> int list) list \<Rightarrow> trace \<Rightarrow> bool" where
  "accepts h junk [] t = (case t of [(c, r)] \<Rightarrow> c = Pip Pip_fin \<and> rv r = 0 | _ \<Rightarrow> False)"
| "accepts h junk ((p, codes) # ps) [] = False"
| "accepts h junk ((p, codes) # ps) ((c, r) # t) =
     (c = Pip (Pip_spawn (Some p) (CPUCORE_ASIS h) None None) \<and> rv r \<in> set codes \<and>
      (if rv r = 0 then
         (case t of [] \<Rightarrow> False
          | (d, s) # u \<Rightarrow> d = Pip (Pip_wait_any False True) \<and> good_end junk s \<and> accepts h junk ps u)
       else accepts h junk ps t))"

primrec pie_cases :: "pip_h \<Rightarrow> int \<Rightarrow> (string \<times> int list) list \<Rightarrow> (int + unit) prog" where
  "pie_cases h junk [] = Ret (Inr ())"
| "pie_cases h junk (pc # ps) = seqE (pie_case h junk (fst pc) (snd pc)) (\<lambda>_. pie_cases h junk ps)"

lemma seqE_Ret: "seqE p (\<lambda>_. Ret (Inr ())) = (p :: ('a + unit) prog)"
  unfolding seqE_def by (subst (2) bind_Ret [symmetric], rule arg_cong [where f = "bind p"]) (auto split: sum.splits)

lemma spawn_pie_cases:
  "spawn_pie_main h junk =
     Call (Sys (Lib ''chdir'' [])) (\<lambda>_.
     chk (Pip (Pip_init False (Some 1) False 0)) nz failed (\<lambda>_.
     finE (pie_cases h junk (pie_codes h)) (\<lambda>_. pie_fin)))"
  by (simp add: spawn_pie_main_def pie_codes_def seqE_assoc seqE_Ret)

lemma fail_pass: "EXIT_FAIL \<noteq> EXIT_PASS" "EXIT_PASS \<noteq> EXIT_FAIL" "EXIT_UNTESTED \<noteq> EXIT_PASS"
  by (simp_all add: exit_defs)

lemma pie_cases_decide:
  assumes "total e"
  shows "outcome (finE (pie_cases h junk ps) (\<lambda>_. pie_fin)) e w = Returned EXIT_PASS \<longleftrightarrow>
    accepts h junk ps (trace (finE (pie_cases h junk ps) (\<lambda>_. pie_fin)) e w)"
proof (induction ps arbitrary: w)
  case Nil
  show ?case
    by (simp add: pie_fin_def chk_def total_simps [OF assms] exit_defs del: outcome_simps(3) trace_simps(3))
next
  case (Cons pc ps)
  obtain p codes where pc: "pc = (p, codes)" by force
  show ?case
    by (simp add: pc finE_seqE pie_case_def chk_termination_def wait_termination_def finE_chk chk_def chkv_def
        total_simps [OF assms] Cons.IH fail_pass good_end_def Let_def del: outcome_simps(3) trace_simps(3))
qed

text \<open>The calls of \<open>pip\_fin\<close>, in their order, and what each has to return.\<close>

definition returns_of :: "trace \<Rightarrow> (call \<times> int) list" where
  "returns_of t = map (\<lambda>(c, r). (c, rv r)) t"

definition fin_accepts :: "pip_h \<Rightarrow> int \<Rightarrow> string list \<Rightarrow> trace \<Rightarrow> bool" where
  "fin_accepts h junk argv t \<longleftrightarrow> returns_of t =
     [(Pip Pip_fin, EPERM), (Pip (Pip_init True (Some 1) False 0), 0)] @
     (if stored (o1 (snd (t ! 1))) junk = PIPID_ROOT h then
        [(task_spawn h (Some (From_func (argv ! 0) ''task_main'' 0 0)) 0, 0), (Pip Pip_fin, EBUSY),
         (Pip (Pip_wait 0 False), 0), (Pip Pip_fin, 0), (Pip Pip_fin, EPERM)]
      else [])"

lemma pip_fin_decides:
  assumes "total e"
  shows "outcome (pip_fin_main h junk argv) e w = Returned EXIT_PASS \<longleftrightarrow>
    fin_accepts h junk argv (trace (pip_fin_main h junk argv) e w)"
  by (simp add: pip_fin_main_def chk_def total_simps [OF assms] fail_pass fin_accepts_def returns_of_def Let_def
      del: outcome_simps(3) trace_simps(3))

lemma pip_fin_task_decides:
  assumes "total e"
  shows "outcome pip_fin_task e w = Returned 0 \<longleftrightarrow> returns_of (trace pip_fin_task e w) = [(Pip Pip_fin, 0)]"
  by (simp add: pip_fin_task_def chk_def total_simps [OF assms] returns_of_def exit_defs
      del: outcome_simps(3) trace_simps(3))

definition pie_accepts :: "pip_h \<Rightarrow> int \<Rightarrow> trace \<Rightarrow> bool" where
  "pie_accepts h junk t \<longleftrightarrow> (case t of
     (c, _) # (i, r) # t' \<Rightarrow> c = Sys (Lib ''chdir'' []) \<and> i = Pip (Pip_init False (Some 1) False 0) \<and> rv r = 0 \<and>
       accepts h junk (pie_codes h) t'
   | _ \<Rightarrow> False)"

lemma spawn_pie_decides:
  assumes "total e"
  shows "outcome (spawn_pie_main h junk) e w = Returned EXIT_PASS \<longleftrightarrow>
    pie_accepts h junk (trace (spawn_pie_main h junk) e w)"
  by (simp add: spawn_pie_cases chk_def total_simps [OF assms] fail_pass pie_cases_decide [OF assms] pie_accepts_def
      del: outcome_simps(3) trace_simps(3))

text \<open>C17: two tests decide exactly: with callees that come back, \<open>pip\_fin\<close> passes if and only if its calls
are \<open>pip\_fin\<close>, refused with EPERM, \<open>pip\_init\<close> and in the root then the spawn of its task, \<open>pip\_fin\<close>, refused
with EBUSY while the task lives, \<open>pip\_wait\<close> of the task, \<open>pip\_fin\<close>, accepted, and \<open>pip\_fin\<close>, refused with EPERM;
its task returns 0 if and only if its one call \<open>pip\_fin\<close> is accepted; and \<open>spawn\_pie\<close> passes if and only if each
program is refused or accepted as listed and each accepted one is waited for and ends with 0.\<close>

theorem life_tests_decide:
  assumes "total e"
  shows "(outcome (pip_fin_main h junk argv) e w = Returned EXIT_PASS \<longleftrightarrow>
      fin_accepts h junk argv (trace (pip_fin_main h junk argv) e w)) \<and>
    (outcome pip_fin_task e w = Returned 0 \<longleftrightarrow> returns_of (trace pip_fin_task e w) = [(Pip Pip_fin, 0)]) \<and>
    (outcome (spawn_pie_main h junk) e w = Returned EXIT_PASS \<longleftrightarrow>
      pie_accepts h junk (trace (spawn_pie_main h junk) e w))"
  using pip_fin_decides [OF assms] pip_fin_task_decides [OF assms] spawn_pie_decides [OF assms] by blast

text \<open>A library as it is documented, as a state machine: None is uninitialised, Some k has k live tasks.\<close>

definition fin_env :: "nat option env" where
  "fin_env s c = (case c of
       Pip (Pip_init _ _ _ _) \<Rightarrow> (Some (ok\<lparr>o1 := Some (- 1)\<rparr>), Some 0)
     | Pip (Pip_task_spawn _ _ _) \<Rightarrow> (Some ok, map_option Suc s)
     | Pip (Pip_wait _ _) \<Rightarrow> (Some ok, map_option (\<lambda>k. k - 1) s)
     | Pip Pip_fin \<Rightarrow> (case s of None \<Rightarrow> (Some (ok\<lparr>rv := EPERM\<rparr>), s)
         | Some k \<Rightarrow> if k > 0 then (Some (ok\<lparr>rv := EBUSY\<rparr>), s) else (Some ok, None))
     | _ \<Rightarrow> (Some ok, s))"

lemma fin_env_total: "total fin_env"
  by (auto simp: total_def fin_env_def split: call.split pip_call.split option.split)

definition pie_env :: "call \<Rightarrow> resp" where
  "pie_env c = (case c of
       Pip (Pip_spawn (Some p) _ _ _) \<Rightarrow>
         ok\<lparr>rv := if p = ''./prog-noexec'' then EACCES else if p = ''./prog-nopie'' then ELIBEXEC else 0\<rparr>
     | Pip (Pip_wait_any _ _) \<Rightarrow> ok\<lparr>o2 := Some (exited 0)\<rparr>
     | _ \<Rightarrow> ok)"

lemma life_tests_decide_witness:
  "fin_accepts h_sample 0 [''pip_fin''] (trace (pip_fin_main h_sample 0 [''pip_fin'']) fin_env None) \<and>
   pie_accepts (h_sample\<lparr>VERSION_MAJOR := 3, VERSION_MINOR := 4\<rparr>) 0
     (trace (spawn_pie_main (h_sample\<lparr>VERSION_MAJOR := 3, VERSION_MINOR := 4\<rparr>) 0) (reply pie_env) ())"
proof -
  have "outcome (pip_fin_main h_sample 0 [''pip_fin'']) fin_env None = Returned EXIT_PASS"
    by (simp add: pip_fin_main_def chk_def fin_env_def h_sample_def)
  moreover have "outcome (spawn_pie_main (h_sample\<lparr>VERSION_MAJOR := 3, VERSION_MINOR := 4\<rparr>) 0) (reply pie_env) () =
      Returned EXIT_PASS"
    by (simp add: spawn_pie_main_def pie_case_def chk_termination_def wait_termination_def pie_fin_def pie_env_def
        h_sample_def EACCES_def ELIBEXEC_def Let_def prog_simps)
  moreover have "total (reply pie_env)" by (simp add: total_def)
  ultimately show ?thesis
    using life_tests_decide [OF fin_env_total] life_tests_decide [of "reply pie_env"] by blast
qed

section \<open>pip\_abort\<close>

text \<open>\<open>abort\_status\<close> is the check of one task's end; a main returns None when the fuel of a loop is used up.\<close>

definition abort_arg :: "string list \<Rightarrow> int" where
  "abort_arg argv = arg_int argv 2 0"

abbreviation fail_none :: "(int option + 'a) prog" where "fail_none \<equiv> Ret (Inl (Some EXIT_FAIL))"

definition abort_check :: "int \<Rightarrow> int \<Rightarrow> status \<Rightarrow> (int option + unit) prog" where
  "abort_check target pipid status =
     (if target < 0 then
        chkv (c_bool (WIFEXITED status \<and> WEXITSTATUS status = 0)) (\<lambda>v. v = 0) fail_none
          (Call (Pip Pip_abort) (\<lambda>_. Ret (Inr ())))
      else if pipid = target then
        chkv (c_bool (WIFSIGNALED status \<and> WTERMSIG status = SIGABRT)) (\<lambda>v. v = 0) fail_none (Ret (Inr ()))
      else
        chkv (c_bool (WIFEXITED status \<and> WEXITSTATUS status = 0)) (\<lambda>v. v = 0) fail_none (Ret (Inr ())))"

text \<open>\<open>do { ... } while( rv != ECHILD )\<close>: the state holds \<open>pipid\<close> and \<open>status\<close>.\<close>

definition abort_wait_body :: "int \<Rightarrow> int \<times> status \<Rightarrow> (int \<times> status + (int option + unit)) prog" where
  "abort_wait_body target s =
     Call (Pip (Pip_wait_any True True)) (\<lambda>r. let pipid = stored (o1 r) (fst s); status = stored (o2 r) (snd s) in
       bind (if rv r = 0 then abort_check target pipid status else Ret (Inr ())) (\<lambda>x. case x of
         Inl v \<Rightarrow> Ret (Inr (Inl v))
       | Inr _ \<Rightarrow> Ret (if rv r \<noteq> ECHILD then Inl (pipid, status) else Inr (Inr ()))))"

definition sleep_body :: "unit \<Rightarrow> (unit + int option) prog" where
  "sleep_body u = Call (Sys (Sleep 1)) (\<lambda>_. Ret (Inl u))"

definition abort_root :: "pip_h \<Rightarrow> nat \<Rightarrow> int \<Rightarrow> string \<Rightarrow> int \<Rightarrow> int \<Rightarrow> int option prog" where
  "abort_root h fuel junk prog ntasks target =
     chk (Pip (Pip_init True (Some ntasks) True 0)) nz (Ret (Some EXIT_FAIL)) (\<lambda>r.
     let pipid = stored (o1 r) 0; ntasks = stored (o2 r) ntasks in
     chk (Mem (Barrier_init (ntasks + 1))) nz (Ret (Some EXIT_FAIL)) (\<lambda>_.
     finE (for_range 0 (nat ntasks) (spawn_self h prog (Some EXIT_FAIL)) ()) (\<lambda>_.
     pbar (Ret (Some EXIT_FAIL))
      (bind (loop fuel (abort_wait_body target) (if 0 < ntasks then ntasks - 1 else pipid, junk)) (\<lambda>x. case x of
         None \<Rightarrow> Ret None
       | Some (Inl v) \<Rightarrow> Ret v
       | Some (Inr _) \<Rightarrow> bind (loop fuel sleep_body ()) (\<lambda>y. Ret (case y of None \<Rightarrow> None | Some v \<Rightarrow> v)))))))"

definition abort_wait_child :: "int \<Rightarrow> status \<Rightarrow> (status + status) prog" where
  "abort_wait_child pid status =
     Call (Sys Wait) (\<lambda>r. let status = stored (o1 r) status in
       Ret (if rv r = pid then Inr status else Inl status))"

definition abort_parent :: "nat \<Rightarrow> int \<Rightarrow> int \<Rightarrow> int option prog" where
  "abort_parent fuel junk pid =
     bind (loop fuel (abort_wait_child pid) junk) (\<lambda>x. case x of
       None \<Rightarrow> Ret None
     | Some status \<Rightarrow>
         chkv (c_bool (WIFSIGNALED status \<and> WTERMSIG status = SIGABRT)) (\<lambda>v. v = 0) (Ret (Some EXIT_FAIL))
           (Ret (Some EXIT_PASS)))"

definition abort_task :: "int \<Rightarrow> int \<Rightarrow> int option prog" where
  "abort_task ntasks target =
     chk (Pip (Pip_init True (Some ntasks) True 0)) nz (Ret (Some EXIT_FAIL)) (\<lambda>r.
     let pipid = stored (o1 r) 0; ntasks = stored (o2 r) ntasks in
     pbar (Ret (Some EXIT_FAIL))
      (finE (if pipid = target \<or> target \<ge> ntasks then
               Call (Pip Pip_abort) (\<lambda>_. chkv 1 (\<lambda>v. v \<noteq> 0) fail_none (Ret (Inr ())))
             else Ret (Inr ())) (\<lambda>_.
       chk (Pip Pip_fin) nz (Ret (Some EXIT_FAIL)) (\<lambda>_. Ret (Some EXIT_PASS)))))"

definition pip_abort_main :: "pip_h \<Rightarrow> nat \<Rightarrow> int \<Rightarrow> string list \<Rightarrow> int option prog" where
  "pip_abort_main h fuel junk argv =
     bind (ntasks_guard (NTASKS h) argv) (\<lambda>x. case x of
       Inl v \<Rightarrow> Ret (Some v)
     | Inr ntasks \<Rightarrow> let target = abort_arg argv in
       Call (Pip Pip_is_initialized) (\<lambda>r.
         if rv r = 0 then
           Call (Sys Fork) (\<lambda>r. let pid = rv r in
             if pid = 0 then abort_root h fuel junk (argv ! 0) ntasks target
             else if pid < 0 then chkv (c_bool (pid < 0)) (\<lambda>v. v \<noteq> 0) (Ret (Some EXIT_UNTESTED)) (Ret (Some EXIT_PASS))
             else abort_parent fuel junk pid)
         else abort_task ntasks target))"

text \<open>A wait that reports a process stores its status.\<close>

definition wait_stores :: "call \<Rightarrow> resp \<Rightarrow> bool" where
  "wait_stores c r \<longleftrightarrow> (c = Sys Wait \<longrightarrow> rv r > 0 \<longrightarrow> o1 r \<noteq> None)"

definition child_aborted :: "trace \<Rightarrow> bool" where
  "child_aborted t \<longleftrightarrow> (\<exists>f r s. (Sys Fork, f) \<in> set t \<and> 0 < rv f \<and> (Sys Wait, r) \<in> set t \<and> rv r = rv f \<and>
     o1 r = Some s \<and> WIFSIGNALED s \<and> WTERMSIG s = SIGABRT)"

definition task_finished :: "trace \<Rightarrow> bool" where
  "task_finished t \<longleftrightarrow> (\<exists>r. (Pip Pip_fin, r) \<in> set t \<and> rv r = 0) \<and> Pip Pip_abort \<notin> fst ` set t \<and> Sys Fork \<notin> fst ` set t"

lemma abort_check_wpt: "wpt R (\<lambda>t x. case x of Inl v \<Rightarrow> v = Some EXIT_FAIL | Inr _ \<Rightarrow> True) t (abort_check target pipid status)"
  by (simp add: abort_check_def wpt_simps)

lemma abort_wait_wpt:
  "wpt R (\<lambda>t x. case x of Inr (Inl v) \<Rightarrow> v = Some EXIT_FAIL | _ \<Rightarrow> True) t (abort_wait_body target s)"
  unfolding abort_wait_body_def Let_def
  by (auto simp: wpt_bind intro!: wpt_mono [OF abort_check_wpt] split: sum.splits)

lemma abort_root_wpt: "wpt R (\<lambda>t v. v \<noteq> Some EXIT_PASS) t (abort_root h fuel junk prog ntasks target)"
proof -
  have spawns: "wpt R (\<lambda>t x. case x of Inl v \<Rightarrow> v = Some EXIT_FAIL | Inr _ \<Rightarrow> True) t
      (for_range 0 n (spawn_self h prog (Some EXIT_FAIL)) ())" for n t
    by (rule wpt_for_range [where I = "\<lambda>_ _ _. True"]) (simp_all add: spawn_self_def wpt_simps)
  have sleeps: "wpt R (\<lambda>t x. x = None) t (loop fuel sleep_body ())" for t
    by (rule wpt_loop [where I = "\<lambda>_ _. True"]) (simp_all add: sleep_body_def)
  have waits: "wpt R (\<lambda>t x. case x of Some (Inl v) \<Rightarrow> v = Some EXIT_FAIL | _ \<Rightarrow> True) t
      (loop fuel (abort_wait_body target) s)" for t s
    by (rule wpt_loop [where I = "\<lambda>_ _. True"]) (auto intro: wpt_mono [OF abort_wait_wpt] split: sum.splits)
  show ?thesis
    unfolding abort_root_def pbar_def Let_def
    by (auto simp: wpt_chk wpt_finE wpt_bind fail_pass intro!: wpt_mono [OF spawns] wpt_mono [OF waits]
        wpt_mono [OF sleeps] split: sum.splits option.splits)
qed

lemma abort_parent_wpt:
  assumes "0 < pid"
  shows "wpt wait_stores (\<lambda>t v. v = Some EXIT_PASS \<longrightarrow> (\<exists>r s. (Sys Wait, r) \<in> set t \<and> rv r = pid \<and>
      o1 r = Some s \<and> WIFSIGNALED s \<and> WTERMSIG s = SIGABRT) \<and> set t0 \<subseteq> set t) t0 (abort_parent fuel junk pid)"
proof -
  have "wpt wait_stores (\<lambda>t x. \<forall>s. x = Some s \<longrightarrow> (\<exists>r. (Sys Wait, r) \<in> set t \<and> rv r = pid \<and> o1 r = Some s) \<and> set t0 \<subseteq> set t)
      t0 (loop fuel (abort_wait_child pid) junk)"
    by (rule wpt_loop [where I = "\<lambda>t _. set t0 \<subseteq> set t"])
      (use assms in \<open>auto simp: abort_wait_child_def Let_def wait_stores_def\<close>)
  then show ?thesis
    unfolding abort_parent_def wpt_bind
    by (rule wpt_mono) (simp add: wpt_chkv fail_pass split: option.splits, blast)
qed

lemma abort_task_wpt:
  assumes "Pip Pip_abort \<notin> fst ` set t" "Sys Fork \<notin> fst ` set t"
  shows "wpt R (\<lambda>t v. v = Some EXIT_PASS \<longrightarrow> task_finished t) t (abort_task ntasks target)"
  unfolding abort_task_def pbar_def Let_def
  using assms by (auto simp: wpt_simps fail_pass task_finished_def)

lemma pip_abort_wpt:
  "wpt wait_stores (\<lambda>t v. v = Some EXIT_PASS \<longrightarrow> child_aborted t \<or> task_finished t) [] (pip_abort_main h fuel junk argv)"
proof -
  have parent: "wpt wait_stores (\<lambda>t v. v = Some EXIT_PASS \<longrightarrow> child_aborted t \<or> task_finished t) t (abort_parent fuel junk (rv f))"
    if "0 < rv f" "(Sys Fork, f) \<in> set t" for t f
    by (rule wpt_mono [OF abort_parent_wpt [OF that(1)]]) (use that in \<open>auto simp: child_aborted_def\<close>)
  have root: "wpt wait_stores (\<lambda>t v. v = Some EXIT_PASS \<longrightarrow> child_aborted t \<or> task_finished t) t
      (abort_root h fuel junk prog n target)" for t prog n target
    by (rule wpt_mono [OF abort_root_wpt]) simp
  show ?thesis
    unfolding pip_abort_main_def ntasks_guard_def Let_def
    by (auto simp: wpt_simps fail_pass root parent intro!: wpt_mono [OF abort_task_wpt] split: option.splits)
qed

text \<open>C33: a passed \<open>pip\_abort\<close> is either the waiting half of the test, and then the forked half was killed by
SIGABRT, or a task that was not to abort and has finished; the forked half itself never passes.\<close>

theorem pip_abort_sound:
  assumes "answers wait_stores e" "outcome (pip_abort_main h fuel junk argv) e w = Returned (Some EXIT_PASS)"
  shows "(child_aborted (trace (pip_abort_main h fuel junk argv) e w) \<or>
      task_finished (trace (pip_abort_main h fuel junk argv) e w)) \<and>
    outcome (abort_root h fuel junk prog ntasks target) e' w' \<noteq> Returned (Some EXIT_PASS)"
  using wpt_outcome [OF pip_abort_wpt assms] wpt_outcome [OF abort_root_wpt answers_any, of h fuel junk prog ntasks target e' w']
  by blast

lemma pip_abort_sound_witness:
  "child_aborted (trace (pip_abort_main h_sample 2 0 [''pip_abort''])
     (reply (\<lambda>c. case c of Sys Fork \<Rightarrow> ok\<lparr>rv := 7\<rparr> | Sys Wait \<Rightarrow> ok\<lparr>rv := 7, o1 := Some (signaled SIGABRT)\<rparr> | _ \<Rightarrow> ok)) ())"
proof -
  let ?e = "reply (\<lambda>c. case c of Sys Fork \<Rightarrow> ok\<lparr>rv := 7\<rparr> | Sys Wait \<Rightarrow> ok\<lparr>rv := 7, o1 := Some (signaled SIGABRT)\<rparr> | _ \<Rightarrow> ok)"
  have a: "answers wait_stores ?e" by (auto simp: answers_def wait_stores_def)
  have b: "outcome (pip_abort_main h_sample 2 0 [''pip_abort'']) ?e () = Returned (Some EXIT_PASS)"
    by (simp add: pip_abort_main_def ntasks_guard_def arg_int_def NTASKS_def h_sample_def abort_parent_def
        abort_wait_child_def chkv_def prog_simps SIGABRT_def Let_def)
  show ?thesis
    using pip_abort_sound [OF a b, of _ _ _ ?e "()", THEN conjunct1]
    by (auto simp: task_finished_def pip_abort_main_def ntasks_guard_def arg_int_def NTASKS_def h_sample_def Let_def)
qed

end
