(* ===== verification/Places.thy ===== *)
theory Places
  imports Relay Segments
begin

text \<open>
  Systems whose tasks are described by places: \<open>at i p\<close> is what task \<open>i\<close> has left to do at place \<open>p\<close>, and
  \<open>J\<close> relates the places of all tasks to the shared state. It is enough that every call and every release of
  the barrier leads to places again, with a smaller rank, and that only at the goal nothing can move; then
  every interleaving ends, and it ends at the goal. A task that only makes calls without an effect is on
  its way to a place, without each point of the way being a place of its own.
\<close>

section \<open>Ways\<close>

text \<open>\<open>ways idle i d p q\<close>: after \<open>d\<close> calls that neither see nor change the shared state, \<open>p\<close> has become \<open>q\<close>.\<close>

primrec ways :: "(tid \<Rightarrow> call \<Rightarrow> resp option) \<Rightarrow> tid \<Rightarrow> nat \<Rightarrow> 'a prog \<Rightarrow> 'a prog \<Rightarrow> bool" where
  "ways idle i 0 p q \<longleftrightarrow> p = q"
| "ways idle i (Suc d) p q \<longleftrightarrow>
     (\<exists>c k r. p = Call c k \<and> \<not> is_bar c \<and> idle i c = Some r \<and> ways idle i d (k r) q)"

lemma ways_append: "ways idle i a p q \<Longrightarrow> ways idle i b q s \<Longrightarrow> ways idle i (a + b) p s"
  by (induction a arbitrary: p) auto

lemma ways_Call:
  "\<not> is_bar c \<Longrightarrow> idle i c = Some r \<Longrightarrow> ways idle i d (k r) q \<Longrightarrow> ways idle i (Suc d) (Call c k) q"
  by simp

text \<open>A loop each round of which is one such call.\<close>

lemma ways_for:
  assumes "\<And>j (f :: unit \<Rightarrow> 'a prog). ways idle i 1 (finE (body j ()) f) (f ())"
  shows "ways idle i n (finE (for_range lo n body ()) g) (g ())"
proof (induction n arbitrary: lo)
  case (Suc n)
  show ?case
    using ways_append [OF assms [of lo "\<lambda>_. finE (for_range (lo + 1) n body ()) g"] Suc.IH [of "lo + 1"]]
    by (simp add: finE_seqE)
qed simp

lemma ways_step:
  assumes "idle_calls sem idle" "ways idle i (Suc d) (Call c k) q" "sem i c w = Some (r, w')"
  shows "w' = w \<and> ways idle i d (k r) q"
proof -
  obtain r' where "idle i c = Some r'" "ways idle i d (k r') q" using assms(2) by auto
  then show ?thesis using idle_callsD [OF assms(1), of i c r' w] assms(3) by simp
qed

lemma ways_can:
  assumes "idle_calls sem idle" "ways idle i (Suc d) p q"
  shows "\<exists>c k x. p = Call c k \<and> \<not> is_bar c \<and> sem i c w = Some x"
proof -
  obtain c k r where "p = Call c k" "\<not> is_bar c" "idle i c = Some r" using assms(2) by auto
  then show ?thesis using idle_callsD [OF assms(1), of i c r w] by blast
qed

section \<open>Systems of places\<close>

text \<open>What the tasks contribute to a number, when one of them goes to another place.\<close>

lemma sum_upd:
  fixes f :: "tid \<Rightarrow> 'p \<Rightarrow> int"
  assumes "i < m"
  shows "(\<Sum>j<m. f j ((pl(i := q)) j)) = (\<Sum>j<m. f j (pl j)) - f i (pl i) + f i q"
proof -
  have "(\<Sum>j\<in>{..<m} - {i}. f j ((pl(i := q)) j)) = (\<Sum>j\<in>{..<m} - {i}. f j (pl j))" by (rule sum.cong) auto
  then show ?thesis
    using assms sum.remove [OF finite_lessThan, of i m "\<lambda>j. f j (pl j)"]
      sum.remove [OF finite_lessThan, of i m "\<lambda>j. f j ((pl(i := q)) j)"] by simp
qed

locale place_system = barrier n rel good
  for n :: nat and rel :: release and good :: "int \<Rightarrow> bool" +
  fixes sem :: "'w sem" and at :: "tid \<Rightarrow> 'p \<Rightarrow> 'a prog" and J :: "(tid \<Rightarrow> 'p) \<Rightarrow> 'w \<Rightarrow> bool"
    and rk :: "tid \<Rightarrow> 'p \<Rightarrow> nat" and goal :: "(tid \<Rightarrow> 'p) \<Rightarrow> 'w \<Rightarrow> bool"
  assumes place_call: "J pl w \<Longrightarrow> i < n \<Longrightarrow> at i (pl i) = Call c k \<Longrightarrow> \<not> is_bar c \<Longrightarrow> sem i c w = Some (r, w') \<Longrightarrow>
      \<exists>q. k r = at i q \<and> rk i q < rk i (pl i) \<and> J (pl(i := q)) w'"
    and place_release: "J pl w \<Longrightarrow> (\<forall>i<n. at_bar (at i (pl i)) \<and> good (rvs i)) \<Longrightarrow>
      \<exists>q. (\<forall>i<n. resume (at i (pl i)) (rvs i) = at i (q i) \<and> rk i (q i) < rk i (pl i)) \<and> J q w"
    and place_live: "J pl w \<Longrightarrow> goal pl w \<or> (\<forall>i<n. at_bar (at i (pl i))) \<or>
      (\<exists>i<n. \<exists>c k x. at i (pl i) = Call c k \<and> \<not> is_bar c \<and> sem i c w = Some x)"
begin

definition sinv :: "nat \<Rightarrow> ('a, 'w) config \<Rightarrow> bool" where
  "sinv k c \<longleftrightarrow> (\<exists>pl. (\<forall>i<n. fst c i = at i (pl i)) \<and> J pl (snd c) \<and> k = (\<Sum>i<n. rk i (pl i)))"

lemma sinv_begin: "J pl w \<Longrightarrow> (\<And>i. i < n \<Longrightarrow> P i = at i (pl i)) \<Longrightarrow> sinv (\<Sum>i<n. rk i (pl i)) (P, w)"
  by (auto simp: sinv_def)

lemma sinv_local:
  assumes "sinv k (P, w)" "i < n" "P i = Call c f" "\<not> is_bar c" "sem i c w = Some (r, w')"
  shows "\<exists>k'<k. sinv k' (P(i := f r), w')"
proof -
  obtain pl where pl: "\<And>j. j < n \<Longrightarrow> P j = at j (pl j)" "J pl w" "k = (\<Sum>j<n. rk j (pl j))"
    using assms(1) by (auto simp: sinv_def)
  obtain q where q: "f r = at i q" "rk i q < rk i (pl i)" "J (pl(i := q)) w'"
    using place_call [OF pl(2) assms(2) _ assms(4,5), of f] assms(3) pl(1) [OF assms(2)] by auto
  have "(\<Sum>j<n. rk j ((pl(i := q)) j)) < k"
    unfolding pl(3) using assms(2) q(2) by (intro sum_strict_mono_ex1) (auto intro!: bexI [of _ i] simp: le_less)
  moreover have "(P(i := f r)) j = at j ((pl(i := q)) j)" if "j < n" for j using pl(1) [OF that] q(1) by simp
  ultimately show ?thesis using q(3) sinv_begin [of "pl(i := q)" w' "P(i := f r)"] by blast
qed

lemma sinv_sync:
  assumes "sinv k (P, w)" "A \<subseteq> {i. i < n \<and> at_bar (P i)}" "rel A rvs"
  shows "\<exists>k'<k. sinv k' (\<lambda>i. if i \<in> A then resume (P i) (rvs i) else P i, w)"
proof -
  note S = sync_all [OF assms(2,3)]
  obtain pl where pl: "\<And>j. j < n \<Longrightarrow> P j = at j (pl j)" "J pl w" "k = (\<Sum>j<n. rk j (pl j))"
    using assms(1) by (auto simp: sinv_def)
  obtain q where q: "\<And>i. i < n \<Longrightarrow> resume (at i (pl i)) (rvs i) = at i (q i)" "J q w"
    "\<And>i. i < n \<Longrightarrow> rk i (q i) < rk i (pl i)"
    using place_release [OF pl(2), of rvs] S(2,3) pl(1) by auto
  have "(\<Sum>j<n. rk j (q j)) < k" unfolding pl(3) using participants q(3) by (intro sum_strict_mono) auto
  moreover have "sinv (\<Sum>j<n. rk j (q j)) (\<lambda>i. if i \<in> A then resume (P i) (rvs i) else P i, w)"
    by (rule sinv_begin) (use q S(1) pl(1) in auto)
  ultimately show ?thesis by blast
qed

lemma sinv_live:
  assumes "sinv k (P, w)"
  shows "(\<exists>pl. (\<forall>i<n. P i = at i (pl i)) \<and> J pl w \<and> goal pl w) \<or> (\<exists>c'. step n sem rel (P, w) c')"
proof -
  obtain pl where pl: "\<And>j. j < n \<Longrightarrow> P j = at j (pl j)" "J pl w" using assms by (auto simp: sinv_def)
  from place_live [OF pl(2)] show ?thesis
  proof (elim disjE exE conjE)
    assume "\<forall>i<n. at_bar (at i (pl i))"
    then show ?thesis using all_at_barrier [of P sem w] pl(1) by simp
  next
    fix i c k x assume "i < n" "at i (pl i) = Call c k" "\<not> is_bar c" "sem i c w = Some x"
    then show ?thesis using step.local [of i n P c k sem w "fst x" "snd x" rel] pl(1) [of i] by auto
  qed (use pl in blast)
qed

end

sublocale place_system \<subseteq> phased "step n sem rel" "\<lambda>p k c. sinv k c" 0
    "\<lambda>c. \<exists>pl. (\<forall>i<n. fst c i = at i (pl i)) \<and> J pl (snd c) \<and> goal pl (snd c)"
proof
  fix p k c c' assume I: "sinv k c" and st: "step n sem rel c c'"
  from st show "(\<exists>k'<k. sinv k' c') \<or> (p < 0 \<and> (\<exists>k'. sinv k' c'))"
  proof (cases rule: step.cases)
    case (local i P f g w r w')
    then show ?thesis using sinv_local [of k P w i f g r w'] I by simp
  next
    case (sync A P rvs w)
    then show ?thesis using sinv_sync [OF _ sync(3,4), of k w] I by simp
  qed
next
  fix p k c assume "sinv k c"
  then show "(\<exists>pl. (\<forall>i<n. fst c i = at i (pl i)) \<and> J pl (snd c) \<and> goal pl (snd c)) \<or> (\<exists>c'. step n sem rel c c')"
    using sinv_live [of k "fst c" "snd c"] by simp
qed

context place_system
begin

lemma places_terminate: "J pl w \<Longrightarrow> (\<And>i. i < n \<Longrightarrow> P i = at i (pl i)) \<Longrightarrow>
    Wellfounded.accp (\<lambda>x y. step n sem rel y x) (P, w)"
  by (rule terminates_from [OF le_refl sinv_begin])

lemma places_end:
  assumes "J pl w" "\<And>i. i < n \<Longrightarrow> P i = at i (pl i)" "steps n sem rel (P, w) c" "\<not> (\<exists>c'. step n sem rel c c')"
  obtains pl' where "\<And>i. i < n \<Longrightarrow> fst c i = at i (pl' i)" "J pl' (snd c)" "goal pl' (snd c)"
  using ends [OF le_refl sinv_begin [OF assms(1,2)] assms(3,4)] that by blast

lemma places_reach:
  assumes "J pl w" "\<And>i. i < n \<Longrightarrow> P i = at i (pl i)" "steps n sem rel (P, w) c"
  obtains pl' where "\<And>i. i < n \<Longrightarrow> fst c i = at i (pl' i)" "J pl' (snd c)"
  using reaches [OF le_refl sinv_begin [OF assms(1,2)] assms(3)] that by (auto simp: sinv_def)

end

end
