(* ===== verification/SpinTests.thy ===== *)
theory SpinTests
  imports AtomicTests Places
begin

text \<open>
  \<open>porting/spinlock.c\<close>: threads add to and subtract from a shared count, first without a lock and then
  each time under a spin lock. The threads interleave freely; a thread that does not get the lock tries
  again, at most \<open>fuel\<close> times in the model. With the lock no addition is lost; the part without the lock
  makes the test depend on the schedule.
\<close>

section \<open>The program\<close>

definition SPIN_NITERS :: nat where "SPIN_NITERS = 1000 * 1000"

abbreviation spin_trylock :: call where "spin_trylock \<equiv> Sys (Lib ''pip_spin_trylock'' [])"
abbreviation spin_unlock :: call where "spin_unlock \<equiv> Sys (Lib ''pip_spin_unlock'' [])"
abbreviation spin_init :: call where "spin_init \<equiv> Sys (Lib ''pip_spin_init'' [])"

text \<open>\<open>count += inc\<close> on the volatile variable, and the checked \<open>pthread\_yield\<close>.\<close>

definition add_count :: "int \<Rightarrow> 'a prog \<Rightarrow> 'a prog" where
  "add_count inc k = Call (Mem (Load ''count'')) (\<lambda>r. Call (Mem (Store ''count'' (to_int32 (rv r + inc)))) (\<lambda>_. k))"

definition yield :: "'a prog \<Rightarrow> 'a prog" where
  "yield k = chk (Sys (Lib ''pthread_yield'' [])) nz exit_fail (\<lambda>_. k)"

definition nolock_round :: "int \<Rightarrow> unit \<Rightarrow> ('e + unit) prog" where
  "nolock_round inc u = add_count inc (yield (add_count (- inc) (Ret (Inr ()))))"

definition spin_body :: "unit \<Rightarrow> (unit + unit) prog" where
  "spin_body u = yield (Call spin_trylock (\<lambda>r. Ret (if rv r = 0 then Inl () else Inr ())))"

definition acquire :: "nat \<Rightarrow> int \<Rightarrow> (int \<Rightarrow> (int option + int) prog) \<Rightarrow> (int option + int) prog" where
  "acquire fuel ncols k =
     Call spin_trylock (\<lambda>r.
       if rv r = 0 then bind (loop fuel spin_body ()) (\<lambda>y. case y of None \<Rightarrow> Ret (Inl None) | Some _ \<Rightarrow> k (ncols + 1))
       else k ncols)"

definition lock_round :: "nat \<Rightarrow> int \<Rightarrow> int \<Rightarrow> (int option + int) prog" where
  "lock_round fuel inc ncols =
     acquire fuel ncols (\<lambda>ncols. add_count inc (Call spin_unlock (\<lambda>_.
     acquire fuel ncols (\<lambda>ncols. add_count (- inc) (Call spin_unlock (\<lambda>_. Ret (Inr ncols)))))))"

definition spin_thread :: "nat \<Rightarrow> int \<Rightarrow> int \<Rightarrow> int option prog" where
  "spin_thread fuel nthreads num =
     chkv (c_bool (num < 0 \<or> num > nthreads)) (\<lambda>v. v \<noteq> 0) exit_fail
     (pbar exit_fail (let inc = num + 10 in
      finE (for_range 0 SPIN_NITERS (\<lambda>_. nolock_round inc) ()) (\<lambda>_.
      pbar exit_fail (pbar exit_fail
       (finE (for_range 0 SPIN_NITERS (\<lambda>_. lock_round fuel inc) 0) (\<lambda>ncols.
        pbar exit_fail
         (finE (for_range 0 (nat nthreads) (thread_print num ncols (int SPIN_NITERS)) ()) (\<lambda>_. Ret (Some 0)))))))))"

definition spin_main :: "string list \<Rightarrow> int option prog" where
  "spin_main argv =
     (let nthreads = nthreads_arg argv in
      Call spin_init (\<lambda>_.
      chk (Mem (Barrier_init (nthreads + 1))) nz (Ret (Some EXIT_FAIL)) (\<lambda>_.
      finE (create_threads (Some EXIT_FAIL) nthreads) (\<lambda>_.
      Call (Mem (Store ''count'' 0)) (\<lambda>_.
      pbar exit_fail (pbar exit_fail
       (finE (if nthreads > 1 then
                Call (Mem (Load ''count'')) (\<lambda>r. chkv (c_bool (rv r = 0)) (\<lambda>v. v \<noteq> 0) (Ret (Inl (Some EXIT_FAIL))) (Ret (Inr ())))
              else Ret (Inr ())) (\<lambda>_.
        Call (Mem (Store ''count'' 0)) (\<lambda>_.
        pbar exit_fail (pbar exit_fail
         (Call (Mem (Load ''count'')) (\<lambda>r. let c = rv r in
          finE (for_range 0 (nat nthreads) (\<lambda>_ _. pbar exit_fail (Ret (Inr ()))) ()) (\<lambda>_.
          finE (join_threads (Some EXIT_FAIL) nthreads) (\<lambda>_.
          chkv (c_bool (c \<noteq> 0)) (\<lambda>v. v \<noteq> 0) (Ret (Some EXIT_FAIL)) (Ret (Some 0))))))))))))))))"

section \<open>The lock and the count\<close>

record spin_state =
  lockh :: "tid option"
  scount :: int

definition spin_sem :: "spin_state sem" where
  "spin_sem i c w = (case c of
       Mem (Load _) \<Rightarrow> Some (ok\<lparr>rv := scount w\<rparr>, w)
     | Mem (Store _ v) \<Rightarrow> Some (ok, w\<lparr>scount := v\<rparr>)
     | Sys (Lib f _) \<Rightarrow>
         if f = ''pip_spin_trylock'' then
           (if lockh w = None then Some (ok\<lparr>rv := 1\<rparr>, w\<lparr>lockh := Some i\<rparr>) else Some (ok, w))
         else if f = ''pip_spin_unlock'' \<or> f = ''pip_spin_init'' then Some (ok, w\<lparr>lockh := None\<rparr>)
         else Some (ok, w)
     | _ \<Rightarrow> Some (ok, w))"

definition spin_idle :: "tid \<Rightarrow> call \<Rightarrow> resp option" where
  "spin_idle i c = (case c of
       Mem (Barrier_init _) \<Rightarrow> Some ok
     | Sys (Lib f _) \<Rightarrow>
         if f \<in> {''pip_spin_trylock'', ''pip_spin_unlock'', ''pip_spin_init''} then None else Some ok
     | _ \<Rightarrow> None)"

lemma spin_idle: "idle_calls spin_sem spin_idle"
  by (auto simp: idle_calls_def spin_idle_def spin_sem_def split: call.splits sys_call.splits mem_call.splits if_splits)

lemma spin_sem_simps [simp]:
  "spin_sem i (Mem (Load v)) w = Some (ok\<lparr>rv := scount w\<rparr>, w)"
  "spin_sem i (Mem (Store v x)) w = Some (ok, w\<lparr>scount := x\<rparr>)"
  "spin_sem i spin_trylock w = (if lockh w = None then Some (ok\<lparr>rv := 1\<rparr>, w\<lparr>lockh := Some i\<rparr>) else Some (ok, w))"
  "spin_sem i spin_unlock w = Some (ok, w\<lparr>lockh := None\<rparr>)"
  "spin_sem i spin_init w = Some (ok, w\<lparr>lockh := None\<rparr>)"
  "spin_sem i (Sys (Lib ''pthread_yield'' a)) w = Some (ok, w)"
  "spin_sem i (Sys (Print_fle x)) w = Some (ok, w)"
  by (simp_all add: spin_sem_def)

lemma spin_idle_simps [simp]:
  "spin_idle i (Mem (Barrier_init x)) = Some ok" "spin_idle i (Sys (Lib ''pthread_create'' a)) = Some ok"
  "spin_idle i (Sys (Lib ''pthread_join'' a)) = Some ok" "spin_idle i (Sys (Lib ''printf'' a)) = Some ok"
  "spin_idle i (Sys (Lib ''fflush'' a)) = Some ok"
  by (simp_all add: spin_idle_def)

section \<open>What a thread has left\<close>

definition tprints :: "nat \<Rightarrow> nat \<Rightarrow> int \<Rightarrow> nat \<Rightarrow> int option prog" where
  "tprints m i x q =
     finE (for_range (int q) (m - q) (thread_print (int i) x (int SPIN_NITERS)) ()) (\<lambda>_. Ret (Some 0))"

definition lloop :: "nat \<Rightarrow> nat \<Rightarrow> nat \<Rightarrow> nat \<Rightarrow> int \<Rightarrow> int option prog" where
  "lloop m F i k x = finE (for_range 0 k (\<lambda>_. lock_round F (int i + 10)) x) (\<lambda>x. pbar exit_fail (tprints m i x 0))"

definition lhalf :: "nat \<Rightarrow> nat \<Rightarrow> nat \<Rightarrow> nat \<Rightarrow> int \<Rightarrow> int option prog" where
  "lhalf m F i k x =
     finE (acquire F x (\<lambda>x. add_count (- (int i + 10)) (Call spin_unlock (\<lambda>_. Ret (Inr x))))) (lloop m F i k)"

text \<open>With \<open>j\<close> half rounds to go; an even half round subtracts. \<open>unl\<close>, \<open>sto\<close>, \<open>lod\<close>: in the critical section.\<close>

definition half :: "nat \<Rightarrow> nat \<Rightarrow> nat \<Rightarrow> nat \<Rightarrow> int \<Rightarrow> int option prog" where
  "half m F i j x = (if even j then lloop m F i (j div 2) x else lhalf m F i (j div 2) x)"

definition delta :: "nat \<Rightarrow> nat \<Rightarrow> int" where
  "delta i j = (if odd j then int i + 10 else - (int i + 10))"

definition unl :: "nat \<Rightarrow> nat \<Rightarrow> nat \<Rightarrow> nat \<Rightarrow> int \<Rightarrow> int option prog" where
  "unl m F i j x = Call spin_unlock (\<lambda>_. half m F i j x)"

definition sto :: "nat \<Rightarrow> nat \<Rightarrow> nat \<Rightarrow> nat \<Rightarrow> int \<Rightarrow> int \<Rightarrow> int option prog" where
  "sto m F i j x v = Call (Mem (Store ''count'' (to_int32 (v + delta i j)))) (\<lambda>_. unl m F i j x)"

definition lod :: "nat \<Rightarrow> nat \<Rightarrow> nat \<Rightarrow> nat \<Rightarrow> int \<Rightarrow> int option prog" where
  "lod m F i j x = Call (Mem (Load ''count'')) (\<lambda>r. sto m F i j x (rv r))"

definition spinning :: "nat \<Rightarrow> int option prog \<Rightarrow> int option prog" where
  "spinning f p = bind (loop f spin_body ()) (\<lambda>y. case y of None \<Rightarrow> Ret None | Some _ \<Rightarrow> p)"

definition trying :: "nat \<Rightarrow> int option prog \<Rightarrow> int option prog" where
  "trying f p = Call spin_trylock (\<lambda>r. if rv r = 0 then spinning f p else p)"

lemma spinning_simps: "spinning 0 p = Ret None" "spinning (Suc f) p = yield (trying f p)"
  by (auto simp: spinning_def trying_def spin_body_def yield_def chk_def fun_eq_iff)

lemma acquire_then:
  "finE (acquire F x k) g = Call spin_trylock (\<lambda>r. if rv r = 0 then spinning F (finE (k (x + 1)) g) else finE (k x) g)"
proof -
  have "finE (bind (loop F spin_body ()) (\<lambda>y. case y of None \<Rightarrow> Ret (Inl None) | Some _ \<Rightarrow> k (x + 1))) g =
      spinning F (finE (k (x + 1)) g)"
    unfolding finE_def spinning_def bind_assoc
    by (rule arg_cong [where f = "bind (loop F spin_body ())"]) (auto split: option.splits)
  then show ?thesis by (simp add: acquire_def if_distrib [of "\<lambda>p. finE p g"] cong: if_cong)
qed

lemma half_simps:
  "half m F i 0 x = pbar exit_fail (tprints m i x 0)"
  "half m F i (Suc j) x = Call spin_trylock (\<lambda>r. if rv r = 0 then spinning F (lod m F i j (x + 1)) else lod m F i j x)"
proof -
  show "half m F i 0 x = pbar exit_fail (tprints m i x 0)" by (simp add: half_def lloop_def)
  have l: "lhalf m F i k x = finE (acquire F x (\<lambda>x. add_count (- (int i + 10)) (Call spin_unlock (\<lambda>_. Ret (Inr x))))) (lloop m F i k)"
    for k x by (simp add: lhalf_def)
  have r: "lloop m F i (Suc k) x = finE (acquire F x (\<lambda>x. add_count (int i + 10) (Call spin_unlock (\<lambda>_.
      acquire F x (\<lambda>x. add_count (- (int i + 10)) (Call spin_unlock (\<lambda>_. Ret (Inr x)))))))) (lloop m F i k)" for k x
    using for_range_const [of 1 k "lock_round F (int i + 10)" _ 0]
    by (simp add: lloop_def [abs_def] finE_seqE lock_round_def)
  show "half m F i (Suc j) x = Call spin_trylock (\<lambda>r. if rv r = 0 then spinning F (lod m F i j (x + 1)) else lod m F i j x)"
  proof (cases "even j")
    case True
    then show ?thesis
      by (simp add: half_def l acquire_then lod_def sto_def unl_def delta_def add_count_def cong: if_cong)
  next
    case False
    then obtain k where k: "j = Suc (2 * k)" using oddE by fastforce
    then show ?thesis
      by (simp add: half_def r acquire_then lod_def sto_def unl_def delta_def add_count_def lhalf_def cong: if_cong)
  qed
qed

definition nl :: "nat \<Rightarrow> nat \<Rightarrow> nat \<Rightarrow> nat \<Rightarrow> int option prog" where
  "nl m F i k = finE (for_range 0 k (\<lambda>_. nolock_round (int i + 10)) ()) (\<lambda>_.
     pbar exit_fail (pbar exit_fail (half m F i (2 * SPIN_NITERS) 0)))"

definition nc :: "nat \<Rightarrow> nat \<Rightarrow> nat \<Rightarrow> nat \<Rightarrow> int \<Rightarrow> int option prog" where
  "nc m F i k v = Call (Mem (Store ''count'' (to_int32 (v + - (int i + 10))))) (\<lambda>_. nl m F i k)"

definition nb :: "nat \<Rightarrow> nat \<Rightarrow> nat \<Rightarrow> nat \<Rightarrow> int option prog" where
  "nb m F i k = Call (Mem (Load ''count'')) (\<lambda>r. nc m F i k (rv r))"

definition na :: "nat \<Rightarrow> nat \<Rightarrow> nat \<Rightarrow> nat \<Rightarrow> int \<Rightarrow> int option prog" where
  "na m F i k v = Call (Mem (Store ''count'' (to_int32 (v + (int i + 10))))) (\<lambda>_. yield (nb m F i k))"

lemma nl_simps:
  "nl m F i 0 = pbar exit_fail (pbar exit_fail (half m F i (2 * SPIN_NITERS) 0))"
  "nl m F i (Suc k) = Call (Mem (Load ''count'')) (\<lambda>r. na m F i k (rv r))"
proof -
  show "nl m F i (Suc k) = Call (Mem (Load ''count'')) (\<lambda>r. na m F i k (rv r))"
    using for_range_const [of 1 k "nolock_round (int i + 10) :: unit \<Rightarrow> (int option + unit) prog" "()" 0]
    by (simp add: nl_def finE_seqE nolock_round_def add_count_def yield_def na_def nb_def nc_def finE_chk)
qed (simp add: nl_def)

lemma thread_start: "i < m \<Longrightarrow> spin_thread F (int m) (int i) = pbar exit_fail (nl m F i SPIN_NITERS)"
  by (simp add: spin_thread_def chkv_def nl_def half_def lloop_def tprints_def Let_def)

lemma finE_pbar: "finE (pbar exit_fail p) f = pbar exit_fail (finE p f)"
  by (simp add: pbar_def finE_chk)

lemma tprints_simps:
  "tprints m i x m = Ret (Some 0)"
  "q < m \<Longrightarrow> q \<noteq> i \<Longrightarrow> tprints m i x q = pbar exit_fail (tprints m i x (Suc q))"
  "q < m \<Longrightarrow> q = i \<Longrightarrow> tprints m i x q =
     Call (Sys (Lib ''printf'' [int i, x, int SPIN_NITERS])) (\<lambda>_. Call (Sys (Lib ''fflush'' [])) (\<lambda>_.
       pbar exit_fail (tprints m i x (Suc q))))"
proof -
  show "q < m \<Longrightarrow> q \<noteq> i \<Longrightarrow> tprints m i x q = pbar exit_fail (tprints m i x (Suc q))"
    "q < m \<Longrightarrow> q = i \<Longrightarrow> tprints m i x q =
     Call (Sys (Lib ''printf'' [int i, x, int SPIN_NITERS])) (\<lambda>_. Call (Sys (Lib ''fflush'' [])) (\<lambda>_.
       pbar exit_fail (tprints m i x (Suc q))))" if q: "q < m"
  proof -
    obtain d where d: "m - q = Suc d" "m - Suc q = d" using q by (cases "m - q") auto
    show "q \<noteq> i \<Longrightarrow> tprints m i x q = pbar exit_fail (tprints m i x (Suc q))"
      by (simp add: tprints_def d thread_print_def finE_seqE finE_pbar Let_def add.commute)
    show "q = i \<Longrightarrow> tprints m i x q =
       Call (Sys (Lib ''printf'' [int i, x, int SPIN_NITERS])) (\<lambda>_. Call (Sys (Lib ''fflush'' [])) (\<lambda>_.
         pbar exit_fail (tprints m i x (Suc q))))"
      unfolding tprints_def d by (simp add: thread_print_def finE_seqE finE_pbar Let_def add.commute)
  qed
qed (simp add: tprints_def)

section \<open>What main has left\<close>

definition mjoin :: "nat \<Rightarrow> int \<Rightarrow> int option prog" where
  "mjoin m c = finE (join_threads (Some EXIT_FAIL) (int m)) (\<lambda>_.
     chkv (c_bool (c \<noteq> 0)) (\<lambda>v. v \<noteq> 0) (Ret (Some EXIT_FAIL)) (Ret (Some 0)))"

definition mbars :: "nat \<Rightarrow> int \<Rightarrow> nat \<Rightarrow> int option prog" where
  "mbars m c q = finE (for_range (int q) (m - q) (\<lambda>_ _. pbar exit_fail (Ret (Inr ()))) ()) (\<lambda>_. mjoin m c)"

definition mlast :: "nat \<Rightarrow> int option prog" where
  "mlast m = Call (Mem (Load ''count'')) (\<lambda>r. mbars m (rv r) 0)"

definition mzero :: "nat \<Rightarrow> int option prog" where
  "mzero m = Call (Mem (Store ''count'' 0)) (\<lambda>_. pbar exit_fail (pbar exit_fail (mlast m)))"

definition mcheck :: "nat \<Rightarrow> int option prog" where
  "mcheck m = (if 1 < m then Call (Mem (Load ''count'')) (\<lambda>r.
     chkv (c_bool (rv r = 0)) (\<lambda>v. v \<noteq> 0) (Ret (Some EXIT_FAIL)) (mzero m)) else mzero m)"

definition mset :: "nat \<Rightarrow> int option prog" where
  "mset m = Call (Mem (Store ''count'' 0)) (\<lambda>_. pbar exit_fail (pbar exit_fail (mcheck m)))"

definition mcreate :: "nat \<Rightarrow> int option prog" where
  "mcreate m = chk (Mem (Barrier_init (int m + 1))) nz (Ret (Some EXIT_FAIL)) (\<lambda>_.
     finE (create_threads (Some EXIT_FAIL) (int m)) (\<lambda>_. mset m))"

lemma mbars_simps: "mbars m c m = mjoin m c" "q < m \<Longrightarrow> mbars m c q = pbar exit_fail (mbars m c (Suc q))"
proof -
  assume "q < m"
  then have "m - q = Suc (m - Suc q)" by simp
  then show "mbars m c q = pbar exit_fail (mbars m c (Suc q))"
    by (simp add: mbars_def finE_seqE finE_pbar add.commute)
qed (simp add: mbars_def)

lemma main_start: "nthreads_arg argv = int m \<Longrightarrow> spin_main argv = Call spin_init (\<lambda>_. mcreate m)"
  by (simp add: spin_main_def mcreate_def mset_def mcheck_def mzero_def mlast_def mbars_def mjoin_def chkv_def Let_def
      if_distrib [of "\<lambda>p. finE p f" for f] cong: if_cong)

lemma create_way: "ways spin_idle i (Suc m) (mcreate m) (mset m)"
  using ways_for [of spin_idle i "\<lambda>j (_ :: unit). chk (Sys (Lib ''pthread_create'' [j])) nz (Ret (Inl (Some EXIT_FAIL))) (\<lambda>_. Ret (Inr ()))"
      m 0 "\<lambda>_. mset m"]
  by (simp add: mcreate_def create_threads_def chk_def)

lemma join_way: "ways spin_idle i m (mjoin m 0) (Ret (Some 0))"
  using ways_for [of spin_idle i "\<lambda>j (_ :: unit). chk (Sys (Lib ''pthread_join'' [j])) nz (Ret (Inl (Some EXIT_FAIL))) (\<lambda>_. Ret (Inr ()))"
      m 0 "\<lambda>_. chkv (c_bool ((0::int) \<noteq> 0)) (\<lambda>v. v \<noteq> 0) (Ret (Some EXIT_FAIL)) (Ret (Some 0))"]
  by (simp add: mjoin_def join_threads_def chk_def chkv_def)

section \<open>The places\<close>

text \<open>
  Of a thread: \<open>T1\<close> to \<open>T3\<close> and \<open>Half 0\<close> are barriers, \<open>Nl\<close> to \<open>Nc\<close> the loop without the lock, \<open>Half j\<close> has
  \<open>j\<close> half rounds to go, \<open>Out j\<close> has used up its fuel. Of main: \<open>M1\<close> to \<open>M4\<close> are barriers.
\<close>

datatype splace = T1 | Nl nat | Na nat int | Ny nat | Nb nat | Nc nat int | T3
  | Half nat int | Spin nat nat int | Try nat nat int | Ld nat int | St nat int int | Ul nat int | Out nat
  | Pr nat int | Done
  | MI | MS | M1 | M2 | MC | MF | MX | MZ | M3 | M4 | ME | MP nat | MD
  | Way nat "int option prog" splace

fun spat :: "nat \<Rightarrow> nat \<Rightarrow> tid \<Rightarrow> splace \<Rightarrow> int option prog" where
  "spat m F i T1 = pbar exit_fail (nl m F i SPIN_NITERS)"
| "spat m F i (Nl k) = nl m F i k"
| "spat m F i (Na k v) = na m F i k v"
| "spat m F i (Ny k) = yield (nb m F i k)"
| "spat m F i (Nb k) = nb m F i k"
| "spat m F i (Nc k v) = nc m F i k v"
| "spat m F i T3 = pbar exit_fail (half m F i (2 * SPIN_NITERS) 0)"
| "spat m F i (Half j x) = half m F i j x"
| "spat m F i (Spin f j x) = yield (trying f (lod m F i j x))"
| "spat m F i (Try f j x) = trying f (lod m F i j x)"
| "spat m F i (Ld j x) = lod m F i j x"
| "spat m F i (St j x v) = sto m F i j x v"
| "spat m F i (Ul j x) = unl m F i j x"
| "spat m F i (Out j) = Ret None"
| "spat m F i (Pr q x) = pbar exit_fail (tprints m i x (Suc q))"
| "spat m F i Done = Ret (Some 0)"
| "spat m F i MI = Call spin_init (\<lambda>_. mcreate m)"
| "spat m F i MS = mset m"
| "spat m F i M1 = pbar exit_fail (pbar exit_fail (mcheck m))"
| "spat m F i M2 = pbar exit_fail (mcheck m)"
| "spat m F i MC = mcheck m"
| "spat m F i MF = Call (Sys (Print_fle 1)) (\<lambda>_. Ret (Some EXIT_FAIL))"
| "spat m F i MX = Ret (Some EXIT_FAIL)"
| "spat m F i MZ = mzero m"
| "spat m F i M3 = pbar exit_fail (pbar exit_fail (mlast m))"
| "spat m F i M4 = pbar exit_fail (mlast m)"
| "spat m F i ME = mlast m"
| "spat m F i (MP q) = pbar exit_fail (mbars m 0 (Suc q))"
| "spat m F i MD = Ret (Some 0)"
| "spat m F i (Way d p pl) = p"

text \<open>The barriers passed: 4 and more are the barriers the threads print between.\<close>

fun stg :: "nat \<Rightarrow> splace \<Rightarrow> nat" where
  "stg m (Pr q x) = 4 + q"
| "stg m Done = 4 + m"
| "stg m (MP q) = 4 + q"
| "stg m MD = 4 + m"
| "stg m (Way d p pl) = stg m pl"
| "stg m pl = (if pl \<in> {T1, MI, MS, M1} then 0 else if pl \<in> {T3, MC, MF, MX, MZ, M3} then 2
     else if pl = ME then 4 else if pl = M2 then 1 else if pl = M4 then 3
     else case pl of Nl k \<Rightarrow> 1 | Na k v \<Rightarrow> 1 | Ny k \<Rightarrow> 1 | Nb k \<Rightarrow> 1 | Nc k v \<Rightarrow> 1 | _ \<Rightarrow> 3)"

fun of_main :: "splace \<Rightarrow> bool" where
  "of_main (MP q) = True"
| "of_main (Way d p pl) = of_main pl"
| "of_main pl = (pl \<in> {MI, MS, M1, M2, MC, MF, MX, MZ, M3, M4, ME, MD})"

fun spok :: "nat \<Rightarrow> nat \<Rightarrow> tid \<Rightarrow> splace \<Rightarrow> bool" where
  "spok m F i (Pr q x) = (q < m)"
| "spok m F i (MP q) = (q < m)"
| "spok m F i (Way d p pl) = (0 < d \<and> ways spin_idle i d p (spat m F i pl) \<and>
     (pl = MS \<or> pl = MD \<or> (\<exists>q x. pl = Pr q x \<and> q < m)))"
| "spok m F i pl = (pl \<in> {MC, MF, MX} \<longrightarrow> 1 < m)"

fun srk :: "nat \<Rightarrow> nat \<Rightarrow> splace \<Rightarrow> nat" where
  "srk m F (Pr q x) = 3 * (m - q)"
| "srk m F (Half j x) = 3 * m + 3 + j * (2 * F + 6)"
| "srk m F (Ul j x) = 3 * m + 4 + j * (2 * F + 6)"
| "srk m F (St j x v) = 3 * m + 5 + j * (2 * F + 6)"
| "srk m F (Ld j x) = 3 * m + 6 + j * (2 * F + 6)"
| "srk m F (Try f j x) = 3 * m + 7 + 2 * f + j * (2 * F + 6)"
| "srk m F (Spin f j x) = 3 * m + 8 + 2 * f + j * (2 * F + 6)"
| "srk m F T3 = 3 * m + 4 + 2 * SPIN_NITERS * (2 * F + 6)"
| "srk m F (Nl k) = 3 * m + 5 + 2 * SPIN_NITERS * (2 * F + 6) + 6 * k"
| "srk m F (Nc k v) = 3 * m + 6 + 2 * SPIN_NITERS * (2 * F + 6) + 6 * k"
| "srk m F (Nb k) = 3 * m + 7 + 2 * SPIN_NITERS * (2 * F + 6) + 6 * k"
| "srk m F (Ny k) = 3 * m + 8 + 2 * SPIN_NITERS * (2 * F + 6) + 6 * k"
| "srk m F (Na k v) = 3 * m + 9 + 2 * SPIN_NITERS * (2 * F + 6) + 6 * k"
| "srk m F T1 = 3 * m + 6 + 2 * SPIN_NITERS * (2 * F + 6) + 6 * SPIN_NITERS"
| "srk m F (MP q) = m + 2 + (m - q)"
| "srk m F ME = 2 * m + 4"
| "srk m F M4 = 2 * m + 5"
| "srk m F M3 = 2 * m + 6"
| "srk m F MZ = 2 * m + 7"
| "srk m F MC = 2 * m + 8"
| "srk m F M2 = 2 * m + 9"
| "srk m F M1 = 2 * m + 10"
| "srk m F MS = 2 * m + 11"
| "srk m F MI = 3 * m + 13"
| "srk m F MF = 1"
| "srk m F (Way d p pl) = d + srk m F pl"
| "srk m F _ = 0"

text \<open>Who holds the lock, and what of a thread's additions is in the count.\<close>

fun inside_lock :: "splace \<Rightarrow> bool" where
  "inside_lock (Ld j x) = True"
| "inside_lock (St j x v) = True"
| "inside_lock (Ul j x) = True"
| "inside_lock _ = False"

fun owes :: "tid \<Rightarrow> splace \<Rightarrow> int" where
  "owes i (Half j x) = (if odd j then int i + 10 else 0)"
| "owes i (Ul j x) = (if odd j then int i + 10 else 0)"
| "owes i (St j x v) = (if even j then int i + 10 else 0)"
| "owes i (Ld j x) = (if even j then int i + 10 else 0)"
| "owes i (Try f j x) = (if even j then int i + 10 else 0)"
| "owes i (Spin f j x) = (if even j then int i + 10 else 0)"
| "owes i (Out j) = (if even j then int i + 10 else 0)"
| "owes i _ = 0"

definition locked_inv :: "nat \<Rightarrow> (tid \<Rightarrow> splace) \<Rightarrow> spin_state \<Rightarrow> bool" where
  "locked_inv m pl w \<longleftrightarrow>
     (\<forall>i<m. (inside_lock (pl i) \<longleftrightarrow> lockh w = Some i) \<and> (\<forall>j x v. pl i = St j x v \<longrightarrow> v = scount w)) \<and>
     (\<forall>i. lockh w = Some i \<longrightarrow> i < m) \<and> scount w = to_int32 (\<Sum>i<m. owes i (pl i))"

definition stage_inv :: "nat \<Rightarrow> nat \<Rightarrow> (tid \<Rightarrow> splace) \<Rightarrow> spin_state \<Rightarrow> bool" where
  "stage_inv m s pl w \<longleftrightarrow>
     (if s = 3 then locked_inv m pl w
      else if s < 3 then lockh w = None \<and> (pl m = M3 \<longrightarrow> scount w = 0) else scount w = 0)"

definition spin_inv :: "nat \<Rightarrow> nat \<Rightarrow> (tid \<Rightarrow> splace) \<Rightarrow> spin_state \<Rightarrow> bool" where
  "spin_inv m F pl w \<longleftrightarrow>
     (\<exists>s. (\<forall>i\<le>m. stg m (pl i) = s \<and> spok m F i (pl i) \<and> (of_main (pl i) \<longleftrightarrow> i = m)) \<and> stage_inv m s pl w)"

lemmas leave_defs = nc_def nb_def na_def unl_def sto_def lod_def trying_def mset_def mcheck_def mzero_def mlast_def

text \<open>The place after a printing barrier, and main's.\<close>

definition tnext :: "nat \<Rightarrow> nat \<Rightarrow> tid \<Rightarrow> int \<Rightarrow> nat \<Rightarrow> splace" where
  "tnext m F i x q = (if q < m then if q = i then Way 2 (tprints m i x q) (Pr q x) else Pr q x else Done)"

definition mnext :: "nat \<Rightarrow> nat \<Rightarrow> splace" where
  "mnext m q = (if q < m then MP q else Way m (mjoin m 0) MD)"

lemma tnext: "q \<le> m \<Longrightarrow> i < m \<Longrightarrow> spat m F i (tnext m F i x q) = tprints m i x q \<and> stg m (tnext m F i x q) = 4 + q \<and>
    spok m F i (tnext m F i x q) \<and> \<not> of_main (tnext m F i x q) \<and> srk m F (tnext m F i x q) < 3 * (m - q) + 3"
  by (auto simp: tnext_def tprints_simps numeral_2_eq_2 le_less)

lemma mnext: "q \<le> m \<Longrightarrow> 0 < m \<Longrightarrow> spat m F m (mnext m q) = mbars m 0 q \<and> stg m (mnext m q) = 4 + q \<and>
    spok m F m (mnext m q) \<and> of_main (mnext m q) \<and> srk m F (mnext m q) < m + 3 + (m - q)"
  using join_way [of m m] by (auto simp: mnext_def mbars_simps le_less)

lemma at_bar_spat:
  assumes "at_bar (spat m F i pl)" "spok m F i pl"
  shows "pl \<in> {T1, T3, M1, M2, M3, M4} \<or> pl = Nl 0 \<or> (\<exists>x. pl = Half 0 x) \<or> (\<exists>q x. pl = Pr q x) \<or> (\<exists>q. pl = MP q)"
proof (cases pl)
  case (Nl k)
  then show ?thesis using assms by (cases k) (auto simp: nl_simps leave_defs)
next
  case (Half j x)
  then show ?thesis using assms by (cases j) (auto simp: half_simps)
next
  case (Way d p q)
  then show ?thesis using assms by (cases d) auto
qed (use assms in \<open>auto simp: leave_defs yield_def chk_def chkv_def split: if_splits\<close>)

lemma main_locked: "stg m p = 3 \<Longrightarrow> of_main p \<Longrightarrow> spok m F i p \<Longrightarrow> p = M4"
  by (cases p) (auto split: if_splits)

section \<open>Calls\<close>

lemma locked_upd:
  assumes I: "locked_inv m pl w" and i: "i < m" and o: "owes i q = owes i (pl i) + d"
    and c: "scount w' = to_int32 (scount w + d)" and h: "inside_lock q \<longleftrightarrow> lockh w' = Some i"
    and oth: "\<And>j. j \<noteq> i \<Longrightarrow> lockh w' = Some j \<longleftrightarrow> lockh w = Some j"
    and v: "\<And>j x v. q = St j x v \<Longrightarrow> v = scount w'" and d: "d \<noteq> 0 \<Longrightarrow> lockh w = Some i"
  shows "locked_inv m (pl(i := q)) w'"
proof -
  have s: "scount w = to_int32 (\<Sum>j<m. owes j (pl j))" using I by (simp add: locked_inv_def)
  have "scount w' = to_int32 (\<Sum>j<m. owes j ((pl(i := q)) j))"
    unfolding c s sum_upd [OF i] o by (simp add: to_int32_def mod_simps algebra_simps)
  moreover have "x3 = scount w'" if "j < m" "j \<noteq> i" "pl j = St x1 x2 x3" for j x1 x2 x3
  proof -
    have "lockh w = Some j" "x3 = scount w" using I that by (auto simp: locked_inv_def)
    then show ?thesis using d that(2) c s by (cases "d = 0") (auto simp: to_int32_def)
  qed
  moreover have "j < m" if "lockh w' = Some j" for j using that oth I i by (cases "j = i") (auto simp: locked_inv_def)
  ultimately show ?thesis using I h oth v unfolding locked_inv_def by auto
qed

lemma spin_move:
  assumes "spin_inv m F pl w" "i \<le> m" "stg m q = stg m (pl i)" "spok m F i q" "of_main q \<longleftrightarrow> of_main (pl i)"
    and "stage_inv m (stg m (pl i)) pl w \<Longrightarrow> stage_inv m (stg m (pl i)) (pl(i := q)) w'"
  shows "spin_inv m F (pl(i := q)) w'"
proof -
  obtain s where s: "\<And>j. j \<le> m \<Longrightarrow> stg m (pl j) = s \<and> spok m F j (pl j) \<and> (of_main (pl j) \<longleftrightarrow> j = m)" "stage_inv m s pl w"
    using assms(1) by (auto simp: spin_inv_def)
  then show ?thesis using assms(2-6) unfolding spin_inv_def by (intro exI [of _ s]) auto
qed

lemma locked_call:
  assumes I: "locked_inv m pl w" and i: "i < m" and c: "spat m F i (pl i) = Call c k" "\<not> is_bar c"
    and r: "spin_sem i c w = Some (r, w')" and st: "stg m (pl i) = 3" "\<not> of_main (pl i)" "spok m F i (pl i)"
  shows "\<exists>q. k r = spat m F i q \<and> srk m F q < srk m F (pl i) \<and> stg m q = 3 \<and> \<not> of_main q \<and> spok m F i q \<and>
    locked_inv m (pl(i := q)) w'"
proof -
  have h: "inside_lock (pl i) \<longleftrightarrow> lockh w = Some i" "\<And>j x v. pl i = St j x v \<Longrightarrow> v = scount w"
    using I i by (auto simp: locked_inv_def)
  have same: "to_int32 (scount w + 0) = scount w" using I by (simp add: locked_inv_def to_int32_def)
  have fail: "\<exists>q. spinning f (lod m F i j x) = spat m F i q \<and> srk m F q < srk m F (pl i) \<and> stg m q = 3 \<and> \<not> of_main q \<and>
      spok m F i q \<and> locked_inv m (pl(i := q)) w"
    if "owes i (pl i) = (if even j then int i + 10 else 0)" "3 * m + 6 + 2 * f + j * (2 * F + 6) < srk m F (pl i)" "lockh w \<noteq> Some i"
    for f j x
  proof (cases f)
    case 0
    then have "locked_inv m (pl(i := Out j)) w" using that same by (intro locked_upd [OF I i, of _ 0]) auto
    then show ?thesis using 0 that(2) by (intro exI [of _ "Out j"]) (simp add: spinning_simps)
  next
    case (Suc g)
    then have "locked_inv m (pl(i := Spin g j x)) w" using that same by (intro locked_upd [OF I i, of _ 0]) auto
    then show ?thesis using Suc that(2) by (intro exI [of _ "Spin g j x"]) (simp add: spinning_simps)
  qed
  have got: "locked_inv m (pl(i := Ld j x)) (w\<lparr>lockh := Some i\<rparr>)"
    if "owes i (pl i) = (if even j then int i + 10 else 0)" "lockh w = None" for j x
    using that same by (intro locked_upd [OF I i, of _ 0]) auto
  show ?thesis
  proof (cases "pl i")
    case (Half j x)
    then obtain l where l: "j = Suc l" using c by (cases j) (auto simp: half_simps pbar_def chk_def)
    then show ?thesis
    proof (cases "lockh w")
      case None
      then show ?thesis using got [of l x] c r Half l by (intro exI [of _ "Ld l x"]) (auto simp: half_simps)
    next
      case (Some a)
      then show ?thesis using fail [of l F "x + 1"] c r Half l h by (auto simp: half_simps)
    qed
  next
    case (Spin f j x)
    have "locked_inv m (pl(i := Try f j x)) w" using Spin h same by (intro locked_upd [OF I i, of _ 0]) auto
    then show ?thesis using c r Spin by (intro exI [of _ "Try f j x"]) (auto simp: yield_def chk_def)
  next
    case (Try f j x)
    then show ?thesis
    proof (cases "lockh w")
      case None
      then show ?thesis using got [of j x] c r Try by (intro exI [of _ "Ld j x"]) (auto simp: trying_def)
    next
      case (Some a)
      then show ?thesis using fail [of j f x] c r Try h by (auto simp: trying_def)
    qed
  next
    case (Ld j x)
    have "locked_inv m (pl(i := St j x (scount w))) w" using Ld h same by (intro locked_upd [OF I i, of _ 0]) auto
    then show ?thesis using c r Ld by (intro exI [of _ "St j x (scount w)"]) (auto simp: lod_def)
  next
    case (St j x v)
    have "locked_inv m (pl(i := Ul j x)) (w\<lparr>scount := to_int32 (scount w + delta i j)\<rparr>)"
      using St h by (intro locked_upd [OF I i, of _ "delta i j"]) (auto simp: delta_def)
    then show ?thesis using c r St h(2) by (intro exI [of _ "Ul j x"]) (auto simp: sto_def)
  next
    case (Ul j x)
    have "locked_inv m (pl(i := Half j x)) (w\<lparr>lockh := None\<rparr>)"
      using Ul h same by (intro locked_upd [OF I i, of _ 0]) auto
    then show ?thesis using c r Ul by (intro exI [of _ "Half j x"]) (auto simp: unl_def)
  next
    case (Way d p q)
    then show ?thesis using st by auto
  qed (use st c in auto)
qed

lemma low_call:
  assumes I: "lockh w = None" "pl m = M3 \<Longrightarrow> scount w = 0" "stg m (pl m) = stg m (pl i)" and i: "i \<le> m" and c: "spat m F i (pl i) = Call c k" "\<not> is_bar c"
    and r: "spin_sem i c w = Some (r, w')" and st: "stg m (pl i) < 3" "of_main (pl i) \<longleftrightarrow> i = m" "spok m F i (pl i)"
  shows "\<exists>q. k r = spat m F i q \<and> srk m F q < srk m F (pl i) \<and> stg m q = stg m (pl i) \<and> (of_main q \<longleftrightarrow> i = m) \<and> spok m F i q \<and>
    lockh w' = None \<and> ((pl(i := q)) m = M3 \<longrightarrow> scount w' = 0)"
proof (cases "pl i")
  case (Nl k')
  then obtain l where "k' = Suc l" using c by (cases k') (auto simp: nl_simps pbar_def chk_def)
  then show ?thesis using c r Nl st I by (intro exI [of _ "Na l (scount w)"]) (auto simp: nl_simps)
next
  case (Na k' v)
  then show ?thesis using c r st I by (intro exI [of _ "Ny k'"]) (auto simp: na_def)
next
  case (Ny k')
  then show ?thesis using c r st I by (intro exI [of _ "Nb k'"]) (auto simp: yield_def chk_def)
next
  case (Nb k')
  then show ?thesis using c r st I by (intro exI [of _ "Nc k' (scount w)"]) (auto simp: nb_def)
next
  case (Nc k' v)
  then show ?thesis using c r st I by (intro exI [of _ "Nl k'"]) (auto simp: nc_def)
next
  case MI
  then show ?thesis using c r st I create_way [of m m] by (intro exI [of _ "Way (Suc m) (mcreate m) MS"]) auto
next
  case MS
  then show ?thesis using c r st I by (intro exI [of _ M1]) (auto simp: mset_def)
next
  case MC
  then show ?thesis
    using c r st I by (intro exI [of _ "if scount w = 0 then MF else MZ"]) (auto simp: mcheck_def chkv_def split: if_splits)
next
  case MF
  then show ?thesis using c r st I by (intro exI [of _ MX]) auto
next
  case MZ
  then show ?thesis using c r st I by (intro exI [of _ M3]) (auto simp: mzero_def)
next
  case (Way d p q)
  then obtain e where d: "d = Suc e" "q = MS" using st(1,3) by (cases d) auto
  have "w' = w \<and> ways spin_idle i e (k r) (mset m)"
    using ways_step [OF spin_idle, of i e c k "mset m" w r w'] st(3) c(1) Way d r by auto
  then show ?thesis
    using Way d I st by (intro exI [of _ "if e = 0 then MS else Way e (k r) MS"]) (auto simp del: ways.simps(2))
qed (use c st in \<open>auto simp: pbar_def chk_def split: if_splits\<close>)

lemma high_call:
  assumes I: "scount w = 0" and i: "i \<le> m" "0 < m" and c: "spat m F i (pl i) = Call c k" "\<not> is_bar c"
    and r: "spin_sem i c w = Some (r, w')" and st: "3 < stg m (pl i)" "of_main (pl i) \<longleftrightarrow> i = m" "spok m F i (pl i)"
  shows "\<exists>q. k r = spat m F i q \<and> srk m F q < srk m F (pl i) \<and> stg m q = stg m (pl i) \<and> (of_main q \<longleftrightarrow> i = m) \<and> spok m F i q \<and>
    scount w' = 0"
proof (cases "pl i")
  case ME
  then show ?thesis using c r st I mnext [of 0 m F] i(2) by (intro exI [of _ "mnext m 0"]) (auto simp: mlast_def)
next
  case (Way d p q)
  then obtain e where d: "d = Suc e" using st(3) by (cases d) auto
  have "w' = w \<and> ways spin_idle i e (k r) (spat m F i q)"
    using ways_step [OF spin_idle, of i e c k "spat m F i q" w r w'] st(3) c(1) Way d r by auto
  then show ?thesis
    using Way d I st by (intro exI [of _ "if e = 0 then q else Way e (k r) q"]) (auto simp del: ways.simps(2))
next
  case (Pr q x)
  then show ?thesis using c by (auto simp: pbar_def chk_def)
next
  case (MP q)
  then show ?thesis using c by (auto simp: pbar_def chk_def)
qed (use c st in \<open>auto split: if_splits\<close>)

lemma spin_call:
  assumes I: "spin_inv m F pl w" and i: "i < Suc m" "0 < m" and c: "spat m F i (pl i) = Call c k" "\<not> is_bar c"
    and r: "spin_sem i c w = Some (r, w')"
  shows "\<exists>q. k r = spat m F i q \<and> srk m F q < srk m F (pl i) \<and> spin_inv m F (pl(i := q)) w'"
proof -
  let ?s = "stg m (pl i)"
  have im: "i \<le> m" using i by simp
  have P: "spok m F i (pl i)" "of_main (pl i) \<longleftrightarrow> i = m" "stg m (pl m) = ?s" and S: "stage_inv m ?s pl w"
    using I im by (auto simp: spin_inv_def)
  consider (low) "?s < 3" | (locked) "?s = 3" | (high) "3 < ?s" by linarith
  then show ?thesis
  proof cases
    case low
    then have L: "lockh w = None" "pl m = M3 \<Longrightarrow> scount w = 0" using S by (auto simp: stage_inv_def)
    from low_call [where pl = pl and i = i, OF L P(3) im c r low P(2,1)] obtain q where q: "k r = spat m F i q" "srk m F q < srk m F (pl i)"
      "stg m q = ?s" "of_main q \<longleftrightarrow> i = m" "spok m F i q" "lockh w' = None" "(pl(i := q)) m = M3 \<longrightarrow> scount w' = 0" by blast
    have "spin_inv m F (pl(i := q)) w'"
      using q P low by (intro spin_move [OF I im]) (simp_all add: stage_inv_def)
    then show ?thesis using q by blast
  next
    case locked
    have "i < m"
    proof (rule ccontr)
      assume "\<not> i < m"
      then have "i = m" using im by simp
      then have "pl i = M4" using main_locked [OF locked _ P(1)] P(2) by simp
      then show False using c by (auto simp: pbar_def chk_def)
    qed
    have L: "locked_inv m pl w" using S locked by (simp add: stage_inv_def)
    have nm: "\<not> of_main (pl i)" using P(2) \<open>i < m\<close> by simp
    from locked_call [where pl = pl and i = i, OF L \<open>i < m\<close> c r locked nm P(1)] obtain q where q: "k r = spat m F i q"
      "srk m F q < srk m F (pl i)" "stg m q = 3" "\<not> of_main q" "spok m F i q" "locked_inv m (pl(i := q)) w'" by blast
    have "spin_inv m F (pl(i := q)) w'"
      using q nm locked by (intro spin_move [OF I im]) (simp_all add: stage_inv_def)
    then show ?thesis using q by blast
  next
    case high
    then have L: "scount w = 0" using S by (simp add: stage_inv_def)
    from high_call [where pl = pl and i = i, OF L im i(2) c r high P(2,1)] obtain q where q: "k r = spat m F i q" "srk m F q < srk m F (pl i)"
      "stg m q = ?s" "of_main q \<longleftrightarrow> i = m" "spok m F i q" "scount w' = 0" by blast
    have "spin_inv m F (pl(i := q)) w'"
      using q P high by (intro spin_move [OF I im]) (simp_all add: stage_inv_def)
    then show ?thesis using q by blast
  qed
qed

section \<open>Releases of the barrier\<close>

definition past :: "nat \<Rightarrow> nat \<Rightarrow> tid \<Rightarrow> splace \<Rightarrow> splace" where
  "past m F i pl = (case pl of
       T1 \<Rightarrow> Nl SPIN_NITERS | Nl _ \<Rightarrow> T3 | T3 \<Rightarrow> Half (2 * SPIN_NITERS) 0 | Half _ x \<Rightarrow> tnext m F i x 0
     | Pr q x \<Rightarrow> tnext m F i x (Suc q) | M1 \<Rightarrow> M2 | M2 \<Rightarrow> (if 1 < m then MC else MZ) | M3 \<Rightarrow> M4 | M4 \<Rightarrow> ME
     | MP q \<Rightarrow> mnext m (Suc q) | p \<Rightarrow> p)"

lemma past:
  assumes "at_bar (spat m F i pl)" "spok m F i pl" "of_main pl \<longleftrightarrow> i = m" "i \<le> m" "0 < m" "pthread_good v"
  shows "resume (spat m F i pl) v = spat m F i (past m F i pl) \<and> srk m F (past m F i pl) < srk m F pl \<and>
    stg m (past m F i pl) = Suc (stg m pl) \<and> spok m F i (past m F i pl) \<and> (of_main (past m F i pl) \<longleftrightarrow> i = m)"
  using at_bar_spat [OF assms(1,2)]
proof (elim disjE exE insertE)
  fix x assume "pl = Half 0 x"
  then show ?thesis using assms tnext [of 0 m i F x] by (auto simp: past_def half_simps pbar_simps)
next
  fix q x assume "pl = Pr q x"
  then show ?thesis using assms tnext [of "Suc q" m i F x] by (auto simp: past_def pbar_simps)
next
  fix q assume q: "pl = MP q"
  then have "i = m" "q < m" using assms(2,3) by simp_all
  then show ?thesis using assms q mnext [of "Suc q" m F] by (auto simp: past_def pbar_simps)
qed (use assms in \<open>auto simp: past_def nl_simps pbar_simps mcheck_def split: if_splits\<close>)

lemma spin_release:
  assumes I: "spin_inv m F pl w" and m: "0 < m"
    and A: "\<forall>i<Suc m. at_bar (spat m F i (pl i)) \<and> pthread_good (rvs i)"
  shows "\<exists>q. (\<forall>i<Suc m. resume (spat m F i (pl i)) (rvs i) = spat m F i (q i) \<and> srk m F (q i) < srk m F (pl i)) \<and> spin_inv m F q w"
proof -
  obtain s where s: "\<And>i. i \<le> m \<Longrightarrow> stg m (pl i) = s" "\<And>i. i \<le> m \<Longrightarrow> spok m F i (pl i)"
    "\<And>i. i \<le> m \<Longrightarrow> of_main (pl i) \<longleftrightarrow> i = m" "stage_inv m s pl w" using I by (auto simp: spin_inv_def)
  let ?q = "\<lambda>i. past m F i (pl i)"
  note P = past [OF _ s(2,3) _ m]
  have bar: "at_bar (spat m F i (pl i))" if "i \<le> m" for i using A that by simp
  have R: "resume (spat m F i (pl i)) (rvs i) = spat m F i (?q i)" "srk m F (?q i) < srk m F (pl i)"
    "stg m (?q i) = Suc s" "spok m F i (?q i)" "of_main (?q i) \<longleftrightarrow> i = m" if "i \<le> m" for i
    using P [of i "rvs i"] A s(1) that by simp_all
  have "stage_inv m (Suc s) ?q w"
  proof -
    consider (low) "s < 2" | (begins) "s = 2" | (over) "s = 3" | (high) "3 < s" by linarith
    then show ?thesis
    proof cases
      case low
      then have "past m F m (pl m) \<noteq> M3"
        using at_bar_spat [OF bar [OF le_refl] s(2) [OF le_refl]] s(1-3) [of m] by (auto simp: past_def split: if_splits)
      then show ?thesis using low s(4) by (simp add: stage_inv_def)
    next
      case begins
      have "?q i = Half (2 * SPIN_NITERS) 0" if "i < m" for i
        using at_bar_spat [OF bar [of i] s(2) [of i]] s(1-3) [of i] begins that by (auto simp: past_def split: if_splits)
      moreover have "pl m = M3"
        using at_bar_spat [OF bar [OF le_refl] s(2) [OF le_refl]] s(1-3) [of m] begins by (auto split: if_splits)
      ultimately show ?thesis using begins s(4) by (auto simp: stage_inv_def locked_inv_def to_int32_def)
    next
      case over
      have "\<exists>x. pl i = Half 0 x" if "i < m" for i
        using at_bar_spat [OF bar [of i] s(2) [of i]] s(1-3) [of i] over that by (auto split: if_splits)
      then have "owes i (pl i) = 0" if "i < m" for i using that by fastforce
      then have "(\<Sum>i<m. owes i (pl i)) = 0" by simp
      then show ?thesis using over s(4) by (simp add: stage_inv_def locked_inv_def to_int32_def)
    next
      case high
      then show ?thesis using s(4) by (simp add: stage_inv_def)
    qed
  qed
  then have "spin_inv m F ?q w" unfolding spin_inv_def using R(3-5) by blast
  then show ?thesis using R(1,2) by (intro exI [of _ ?q]) auto
qed

section \<open>The end\<close>

definition spin_goal :: "nat \<Rightarrow> (tid \<Rightarrow> splace) \<Rightarrow> spin_state \<Rightarrow> bool" where
  "spin_goal m pl w \<longleftrightarrow> (\<forall>i<m. pl i = Done) \<and> pl m = MD \<and> scount w = 0 \<or> pl m = MX \<or> (\<exists>i<m. \<exists>j. pl i = Out j)"

lemma can_call:
  assumes "spok m F i pl" "\<not> at_bar (spat m F i pl)" "pl \<notin> {Done, MX, MD}" "\<And>j. pl \<noteq> Out j"
  shows "\<exists>c k x. spat m F i pl = Call c k \<and> \<not> is_bar c \<and> spin_sem i c w = Some x"
proof (cases pl)
  case (Nl k)
  then show ?thesis using assms by (cases k) (auto simp: nl_simps pbar_simps)
next
  case (Half j x)
  then show ?thesis using assms by (cases j) (auto simp: half_simps pbar_simps)
next
  case (Way d p q)
  then obtain e where d: "d = Suc e" using assms(1) by (cases d) auto
  show ?thesis using ways_can [OF spin_idle, of i e p "spat m F i q" w] assms(1) Way d by auto
qed (use assms in \<open>auto simp: leave_defs yield_def chk_def pbar_simps\<close>)

lemma spin_live:
  assumes I: "spin_inv m F pl w" and m: "0 < m"
  shows "spin_goal m pl w \<or> (\<forall>i<Suc m. at_bar (spat m F i (pl i))) \<or>
    (\<exists>i<Suc m. \<exists>c k x. spat m F i (pl i) = Call c k \<and> \<not> is_bar c \<and> spin_sem i c w = Some x)"
proof (rule ccontr)
  assume N: "\<not> ?thesis"
  obtain s where s: "\<And>i. i \<le> m \<Longrightarrow> stg m (pl i) = s" "\<And>i. i \<le> m \<Longrightarrow> spok m F i (pl i)"
    "\<And>i. i \<le> m \<Longrightarrow> of_main (pl i) \<longleftrightarrow> i = m" "stage_inv m s pl w" using I by (auto simp: spin_inv_def)
  have stuck: "pl i \<in> {Done, MX, MD} \<or> (\<exists>j. pl i = Out j) \<or> at_bar (spat m F i (pl i))" if "i \<le> m" for i
    using can_call [OF s(2) [OF that], of w] N that by (meson le_imp_less_Suc)
  then obtain i where i: "i \<le> m" "pl i \<in> {Done, MX, MD} \<or> (\<exists>j. pl i = Out j)" using N by (meson less_Suc_eq_le)
  moreover have "\<not> (\<exists>j. pl i = Out j)" using N i s(3) [of i] by (cases "i = m") (auto simp: spin_goal_def)
  moreover have "pl i \<noteq> MX" using N i s(3) [of i] by (cases "i = m") (auto simp: spin_goal_def)
  ultimately have st: "s = 4 + m" using s(1) [of i] by auto
  have "pl j = Done" if "j < m" for j
    using stuck [of j] at_bar_spat [of m F j "pl j"] s(1-3) [of j] st that by (auto split: if_splits)
  moreover have "pl m = MD"
    using stuck [of m] at_bar_spat [of m F m "pl m"] s(1-3) [of m] st m by (auto split: if_splits)
  ultimately show False using N s(4) st by (simp add: spin_goal_def stage_inv_def)
qed

lemma spin_places:
  assumes "barrier (Suc m) rel pthread_good" "0 < m"
  shows "place_system (Suc m) rel pthread_good spin_sem (spat m F) (spin_inv m F) (\<lambda>_. srk m F) (spin_goal m)"
proof (intro place_system.intro assms(1), unfold_locales)
  fix pl w i c k r w'
  assume "spin_inv m F pl w" "i < Suc m" "spat m F i (pl i) = Call c k" "\<not> is_bar c" "spin_sem i c w = Some (r, w')"
  then show "\<exists>q. k r = spat m F i q \<and> srk m F q < srk m F (pl i) \<and> spin_inv m F (pl(i := q)) w'"
    using spin_call assms(2) by blast
qed (use spin_release spin_live assms(2) in blast)+

interpretation spin: place_system "Suc (Suc k)" "pthread_release (Suc (Suc k))" pthread_good spin_sem "spat (Suc k) F"
    "spin_inv (Suc k) F" "\<lambda>_. srk (Suc k) F" "spin_goal (Suc k)" for k F
  by (rule spin_places [OF pthread_barrier]) simp_all

definition spin_progs :: "nat \<Rightarrow> string list \<Rightarrow> nat \<Rightarrow> tid \<Rightarrow> int option prog" where
  "spin_progs F argv m i = (if i = m then spin_main argv else spin_thread F (int m) (int i))"

definition spin_start :: spin_state where "spin_start = \<lparr>lockh = None, scount = 0\<rparr>"

definition first_places :: "nat \<Rightarrow> tid \<Rightarrow> splace" where
  "first_places m i = (if i = m then MI else T1)"

lemma spin_begins:
  assumes "nthreads_arg argv = int m"
  shows "spin_inv m F (first_places m) spin_start"
    "i < Suc m \<Longrightarrow> spin_progs F argv m i = spat m F i (first_places m i)"
proof -
  show "spin_inv m F (first_places m) spin_start"
    unfolding spin_inv_def by (rule exI [of _ 0]) (simp add: stage_inv_def spin_start_def first_places_def)
  show "spin_progs F argv m i = spat m F i (first_places m i)" if "i < Suc m"
    using that main_start [OF assms] thread_start [of i m F] by (simp add: spin_progs_def first_places_def)
qed

lemma main_failed:
  assumes I: "spin_inv m F pl w" and x: "pl m = MX" and i: "i < m"
  shows "1 < m \<and> spat m F i (pl i) = pbar exit_fail (half m F i (2 * SPIN_NITERS) 0)"
proof -
  obtain s where s: "\<And>i. i \<le> m \<Longrightarrow> stg m (pl i) = s" "\<And>i. i \<le> m \<Longrightarrow> spok m F i (pl i)"
    "\<And>i. i \<le> m \<Longrightarrow> of_main (pl i) \<longleftrightarrow> i = m" using I unfolding spin_inv_def by blast
  have "s = 2" "1 < m" using s(1,2) [of m] x by simp_all
  moreover have "stg m (pl i) = s" "\<not> of_main (pl i)" "spok m F i (pl i)" using s [of i] i by simp_all
  ultimately have "pl i = T3" by (cases "pl i") (auto split: if_splits)
  then show ?thesis using \<open>1 < m\<close> by simp
qed

lemma spin_terminates:
  assumes "barrier (Suc m) rel pthread_good" "nthreads_arg argv = int m" "0 < m"
  shows "Wellfounded.accp (\<lambda>x y. step (Suc m) spin_sem rel y x) (spin_progs F argv m, spin_start)"
  by (rule place_system.places_terminate [where pl = "first_places m", OF spin_places [OF assms(1,3)]])
    (use spin_begins [OF assms(2)] in simp_all)

text \<open>C7: the spin lock test: however the threads interleave, every run ends; and where it ends no thread holds
the others up: all of them and main have returned with a count of 0, unless a thread has given up on the lock (its
fuel is used up), or main has failed at its check of the part without the lock, before any thread has tried the lock.\<close>

theorem spin_correct:
  assumes "barrier (Suc m) rel pthread_good" "nthreads_arg argv = int m" "0 < m"
    and "steps (Suc m) spin_sem rel (spin_progs F argv m, spin_start) c" "\<not> (\<exists>c'. step (Suc m) spin_sem rel c c')"
  shows "Wellfounded.accp (\<lambda>x y. step (Suc m) spin_sem rel y x) (spin_progs F argv m, spin_start) \<and>
    (finished (Suc m) (\<lambda>_. Some 0) c \<and> scount (snd c) = 0 \<or> (\<exists>i<m. fst c i = Ret None) \<or>
     1 < m \<and> fst c m = Ret (Some EXIT_FAIL) \<and> (\<forall>i<m. fst c i = pbar exit_fail (half m F i (2 * SPIN_NITERS) 0)))"
proof -
  note P = spin_places [OF assms(1,3), of F] and B = spin_begins [OF assms(2)]
  note T = spin_terminates [OF assms(1-3), of F]
  obtain pl where pl: "\<And>i. i < Suc m \<Longrightarrow> fst c i = spat m F i (pl i)" "spin_inv m F pl (snd c)" "spin_goal m pl (snd c)"
    by (rule place_system.places_end [where pl = "first_places m", OF P _ _ assms(4,5)]) (use B in simp_all)
  from pl(3) consider "\<forall>i<m. pl i = Done" "pl m = MD" "scount (snd c) = 0" | "pl m = MX" | i j where "i < m" "pl i = Out j"
    unfolding spin_goal_def by blast
  then show ?thesis
  proof cases
    case 1
    then have "fst c i = Ret (Some 0)" if "i < Suc m" for i using pl(1) [OF that] that by (cases "i = m") auto
    then show ?thesis using T 1(3) by (simp add: finished_def)
  next
    case 2
    then show ?thesis using T pl(1) main_failed [OF pl(2) 2] assms(3) by auto
  next
    case 3
    then show ?thesis using T pl(1) [of i] by auto
  qed
qed

definition spin_argv :: "string list" where "spin_argv = [''spinlock'', ''3'']"

lemma spin_correct_witness:
  "\<exists>c. steps (Suc 3) spin_sem (pthread_release (Suc 3)) (spin_progs 5 spin_argv 3, spin_start) c \<and>
     (finished (Suc 3) (\<lambda>_. Some 0) c \<and> scount (snd c) = 0 \<or> (\<exists>i<3. fst c i = Ret None) \<or> fst c 3 = Ret (Some EXIT_FAIL))"
proof -
  have bar: "barrier (Suc 3) (pthread_release (Suc 3)) pthread_good" by (rule pthread_barrier) simp
  have a: "nthreads_arg spin_argv = int 3"
    by (simp add: nthreads_arg_def spin_argv_def strtol_eval Let_def NTHREADS_def)
  obtain c where c: "steps (Suc 3) spin_sem (pthread_release (Suc 3)) (spin_progs 5 spin_argv 3, spin_start) c"
    "\<not> (\<exists>c'. step (Suc 3) spin_sem (pthread_release (Suc 3)) c c')"
    using ends_somewhere [OF spin_terminates [OF bar a, of 5]] by auto
  from spin_correct [OF bar a zero_less_numeral c] c(1) show ?thesis by blast
qed

end
