(* ===== verification/PthreadMutex.thy ===== *)
theory PthreadMutex
  imports MutexTests PthreadTests Places
begin

text \<open>
  \<open>pthread/pthread_mutex.c\<close>: the root and its tasks meet at a barrier, and each of them adds one to a shared
  count 1000 times, in a critical section; the root then waits for the tasks and looks at the count.
\<close>

section \<open>The program\<close>

definition NTIMES :: nat where "NTIMES = 1000"

text \<open>A failed check ends the root with a return and a task with \<open>exit\<close>: \<open>out\<close>.\<close>

definition add_round :: "(int + unit) prog \<Rightarrow> unit \<Rightarrow> (int + unit) prog" where
  "add_round out u =
     chk (Mem Mutex_lock) nz out (\<lambda>_. incr (chk (Mem Mutex_unlock) nz out (\<lambda>_. Ret (Inr ()))))"

definition ntasks_or_one :: "string list \<Rightarrow> cint" where
  "ntasks_or_one argv = (if length argv > 1 then (let n = atoi32 (argv ! 1) in if n = 0 then 1 else n) else 1)"

definition wait_each :: "int \<Rightarrow> unit \<Rightarrow> (int + unit) prog" where
  "wait_each i u = chk (Pip (Pip_wait i False)) nz (Ret (Inl EXIT_FAIL)) (\<lambda>_. Ret (Inr ()))"

definition pmutex_report :: "int \<Rightarrow> int prog" where
  "pmutex_report ntasks =
     (let all = to_int32 (int NTIMES * (ntasks + 1)) in
      Call (Mem (Load ''count'')) (\<lambda>r. Call (Sys (Lib ''printf'' [rv r, all, ntasks])) (\<lambda>_.
      Call (Mem (Load ''count'')) (\<lambda>r. chkv (c_bool (rv r \<noteq> all)) (\<lambda>v. v \<noteq> 0) (Ret EXIT_FAIL) (leave 0)))))"

definition pmutex_root :: "pip_h \<Rightarrow> string \<Rightarrow> int \<Rightarrow> int prog" where
  "pmutex_root h prog ntasks =
     Call (Sys (Lib ''printf'' [])) (\<lambda>_.
     chk (Mem (Barrier_init (ntasks + 1))) nz (Ret EXIT_FAIL) (\<lambda>_.
     chk (Mem Mutex_init) nz (Ret EXIT_FAIL) (\<lambda>_.
     Call (Mem (Store ''count'' 0)) (\<lambda>_.
     finE (for_range 0 (nat ntasks) (spawn_self h prog EXIT_FAIL) ()) (\<lambda>_.
     pbar (Ret EXIT_FAIL)
      (finE (for_range 0 NTIMES (\<lambda>_. add_round (Ret (Inl EXIT_FAIL))) ()) (\<lambda>_.
       finE (for_range 0 (nat ntasks) wait_each ()) (\<lambda>_. pmutex_report ntasks))))))))"

definition pmutex_task :: "int prog" where
  "pmutex_task = pbar (Ret EXIT_FAIL) (finE (for_range 0 NTIMES (\<lambda>_. add_round exit_fail) ()) (\<lambda>_. leave 0))"

definition pmutex_main :: "pip_h \<Rightarrow> string list \<Rightarrow> int prog" where
  "pmutex_main h argv =
     (let ntasks = ntasks_or_one argv in
      chk (Pip (Pip_init True (Some ntasks) True 0)) nz (Ret EXIT_FAIL) (\<lambda>r.
        let pipid = stored (o1 r) 999; ntasks = stored (o2 r) ntasks in
        if pipid = PIPID_ROOT h then pmutex_root h (argv ! 0) ntasks else pmutex_task))"

section \<open>The library\<close>

text \<open>
  Participant \<open>m\<close> is the root. A mutex is granted to one at a time, and \<open>pip\_wait\<close> comes back when the
  task it waits for has called \<open>pip\_fin\<close>, after which it returns.
\<close>

record pm_state =
  mowner :: "tid option"
  mcount :: int
  ended :: "tid set"

definition pm_sem :: "pip_h \<Rightarrow> nat \<Rightarrow> pm_state sem" where
  "pm_sem h m i c w = (case c of
       Mem Mutex_lock \<Rightarrow> if mowner w = None then Some (ok, w\<lparr>mowner := Some i\<rparr>) else None
     | Mem Mutex_unlock \<Rightarrow>
         if mowner w = Some i then Some (ok, w\<lparr>mowner := None\<rparr>) else Some (ok\<lparr>rv := EPERM\<rparr>, w)
     | Mem Mutex_init \<Rightarrow> Some (ok, w\<lparr>mowner := None\<rparr>)
     | Mem (Load _) \<Rightarrow> Some (ok\<lparr>rv := mcount w\<rparr>, w)
     | Mem (Store _ v) \<Rightarrow> Some (ok, w\<lparr>mcount := v\<rparr>)
     | Pip (Pip_init _ _ _ _) \<Rightarrow> Some (ok\<lparr>o1 := Some (if i = m then PIPID_ROOT h else int i), o2 := (if i = m then None else Some (int m))\<rparr>, w)
     | Pip (Pip_wait j _) \<Rightarrow> if nat j \<in> ended w then Some (ok, w) else None
     | Pip Pip_fin \<Rightarrow> Some (ok, w\<lparr>ended := insert i (ended w)\<rparr>)
     | _ \<Rightarrow> Some (ok, w))"

lemma pm_sem_simps [simp]:
  "pm_sem h m i (Mem Mutex_lock) w = (if mowner w = None then Some (ok, w\<lparr>mowner := Some i\<rparr>) else None)"
  "pm_sem h m i (Mem Mutex_unlock) w =
     (if mowner w = Some i then Some (ok, w\<lparr>mowner := None\<rparr>) else Some (ok\<lparr>rv := EPERM\<rparr>, w))"
  "pm_sem h m i (Mem Mutex_init) w = Some (ok, w\<lparr>mowner := None\<rparr>)"
  "pm_sem h m i (Mem (Load v)) w = Some (ok\<lparr>rv := mcount w\<rparr>, w)"
  "pm_sem h m i (Mem (Store v x)) w = Some (ok, w\<lparr>mcount := x\<rparr>)"
  "pm_sem h m i (Pip (Pip_init a b d e)) w =
     Some (ok\<lparr>o1 := Some (if i = m then PIPID_ROOT h else int i), o2 := (if i = m then None else Some (int m))\<rparr>, w)"
  "pm_sem h m i (Pip (Pip_wait j s)) w = (if nat j \<in> ended w then Some (ok, w) else None)"
  "pm_sem h m i (Pip Pip_fin) w = Some (ok, w\<lparr>ended := insert i (ended w)\<rparr>)"
  "pm_sem h m i (Sys c) w = Some (ok, w)"
  by (simp_all add: pm_sem_def)

definition pm_idle :: "tid \<Rightarrow> call \<Rightarrow> resp option" where
  "pm_idle i c = (case c of
       Sys _ \<Rightarrow> Some ok | Mem (Barrier_init _) \<Rightarrow> Some ok | Pip (Pip_spawn _ _ _ _) \<Rightarrow> Some ok | _ \<Rightarrow> None)"

lemma pm_idle: "idle_calls (pm_sem h m) pm_idle"
  by (auto simp: idle_calls_def pm_idle_def pm_sem_def split: call.splits pip_call.splits mem_call.splits)

section \<open>The places\<close>

text \<open>
  \<open>Init\<close>: before \<open>pip\_init\<close>; \<open>RM\<close>, \<open>RS\<close>: the root initialises the mutex, the count; \<open>Bar\<close>: at the barrier; \<open>To k\<close>:
  with \<open>k\<close> rounds to go; \<open>RW j\<close>: the root waits for task \<open>j\<close>; \<open>RP\<close>, \<open>RL\<close>: it reports; \<open>Off\<close>: at \<open>pip\_fin\<close>.
\<close>

datatype mplace = Init | RM | RS | Bar | To nat | In nat | Read nat int | Wrote nat | RW nat | RP int | RL | Off | Over
  | Via nat "int prog" mplace

definition mout :: "nat \<Rightarrow> tid \<Rightarrow> (int + unit) prog" where
  "mout m i = (if i = m then Ret (Inl EXIT_FAIL) else exit_fail)"

definition waits :: "nat \<Rightarrow> nat \<Rightarrow> int prog" where
  "waits m j = finE (for_range (int j) (m - j) wait_each ()) (\<lambda>_. pmutex_report (int m))"

definition rounds_from :: "nat \<Rightarrow> tid \<Rightarrow> nat \<Rightarrow> int prog" where
  "rounds_from m i k =
     finE (for_range 0 k (\<lambda>_. add_round (mout m i)) ()) (\<lambda>_. if i = m then waits m 0 else leave 0)"

definition mfail :: "nat \<Rightarrow> tid \<Rightarrow> int prog" where
  "mfail m i = (if i = m then Ret EXIT_FAIL else exit_fail)"

definition unlock_then :: "nat \<Rightarrow> tid \<Rightarrow> nat \<Rightarrow> int prog" where
  "unlock_then m i k = chk (Mem Mutex_unlock) nz (mfail m i) (\<lambda>_. rounds_from m i k)"

definition prepare :: "pip_h \<Rightarrow> string \<Rightarrow> nat \<Rightarrow> int prog" where
  "prepare h prog m =
     Call (Mem (Store ''count'' 0)) (\<lambda>_.
     finE (for_range 0 m (spawn_self h prog EXIT_FAIL) ()) (\<lambda>_. pbar (Ret EXIT_FAIL) (rounds_from m m NTIMES)))"

definition last_look :: "nat \<Rightarrow> int prog" where
  "last_look m = Call (Mem (Load ''count'')) (\<lambda>r.
     chkv (c_bool (rv r \<noteq> to_int32 (int NTIMES * (int m + 1)))) (\<lambda>v. v \<noteq> 0) (Ret EXIT_FAIL) (leave 0))"

fun mat :: "pip_h \<Rightarrow> string list \<Rightarrow> nat \<Rightarrow> tid \<Rightarrow> mplace \<Rightarrow> int prog" where
  "mat h argv m i Init = pmutex_main h argv"
| "mat h argv m i RM = chk (Mem Mutex_init) nz (Ret EXIT_FAIL) (\<lambda>_. prepare h (argv ! 0) m)"
| "mat h argv m i RS = prepare h (argv ! 0) m"
| "mat h argv m i Bar = pbar (Ret EXIT_FAIL) (rounds_from m i NTIMES)"
| "mat h argv m i (To k) = rounds_from m i k"
| "mat h argv m i (In k) = Call (Mem (Load ''count'')) (\<lambda>r.
     Call (Mem (Store ''count'' (to_int32 (rv r + 1)))) (\<lambda>_. unlock_then m i k))"
| "mat h argv m i (Read k v) = Call (Mem (Store ''count'' (to_int32 (v + 1)))) (\<lambda>_. unlock_then m i k)"
| "mat h argv m i (Wrote k) = unlock_then m i k"
| "mat h argv m i (RW j) = waits m j"
| "mat h argv m i (RP v) = Call (Sys (Lib ''printf'' [v, to_int32 (int NTIMES * (int m + 1)), int m])) (\<lambda>_. last_look m)"
| "mat h argv m i RL = last_look m"
| "mat h argv m i Off = leave 0"
| "mat h argv m i Over = Ret 0"
| "mat h argv m i (Via d p pl) = p"

lemma rounds_simps:
  "rounds_from m i 0 = (if i = m then waits m 0 else leave 0)"
  "rounds_from m i (Suc k) = chk (Mem Mutex_lock) nz (mfail m i) (\<lambda>_. mat h argv m i (In k))"
proof -
  have "finE (mout m i) f = mfail m i" for f :: "unit \<Rightarrow> int prog" by (simp add: mout_def mfail_def)
  then show "rounds_from m i (Suc k) = chk (Mem Mutex_lock) nz (mfail m i) (\<lambda>_. mat h argv m i (In k))"
    using for_range_const [of 1 k "add_round (mout m i)" _ 0]
    by (simp add: rounds_from_def add_round_def finE_seqE finE_chk incr_def unlock_then_def)
qed (simp add: rounds_from_def)

lemma waits_simps:
  "waits m m = pmutex_report (int m)"
  "j < m \<Longrightarrow> waits m j = chk (Pip (Pip_wait (int j) False)) nz (Ret EXIT_FAIL) (\<lambda>_. waits m (Suc j))"
proof -
  assume "j < m"
  then have "m - j = Suc (m - Suc j)" by simp
  then show "waits m j = chk (Pip (Pip_wait (int j) False)) nz (Ret EXIT_FAIL) (\<lambda>_. waits m (Suc j))"
    by (simp add: waits_def wait_each_def finE_seqE finE_chk add.commute)
qed (simp add: waits_def)

lemma report_start: "pmutex_report (int m) = Call (Mem (Load ''count'')) (\<lambda>r. mat h argv m i (RP (rv r)))"
  by (simp add: pmutex_report_def last_look_def Let_def)

lemma prepare_start: "prepare h prog m = Call (Mem (Store ''count'' 0)) (\<lambda>_.
    finE (for_range 0 m (spawn_self h prog EXIT_FAIL) ()) (\<lambda>_. mat h argv m m Bar))"
  by (simp add: prepare_def)

lemma root_start: "pmutex_root h (argv ! 0) (int m) =
    Call (Sys (Lib ''printf'' [])) (\<lambda>_. chk (Mem (Barrier_init (int m + 1))) nz (Ret EXIT_FAIL) (\<lambda>_. mat h argv m m RM))"
  by (simp add: pmutex_root_def prepare_def rounds_from_def mout_def waits_def)

lemma task_start: "i < m \<Longrightarrow> pmutex_task = mat h argv m i Bar"
  by (simp add: pmutex_task_def rounds_from_def mout_def)

lemma spawn_way: "ways pm_idle i m (finE (for_range 0 m (spawn_self h prog EXIT_FAIL) ()) (\<lambda>_. p)) p"
  using ways_for [of pm_idle i "spawn_self h prog EXIT_FAIL" m 0 "\<lambda>_. p"]
  by (simp add: spawn_self_def chk_def pm_idle_def)

lemma root_way: "ways pm_idle i 2 (pmutex_root h (argv ! 0) (int m)) (mat h argv m m RM)"
  by (simp add: root_start chk_def pm_idle_def numeral_2_eq_2)

section \<open>The invariant\<close>

fun early :: "mplace \<Rightarrow> bool" where
  "early (Via d p pl) = True"
| "early pl = (pl \<in> {Init, RM, RS, Bar})"

fun mok :: "pip_h \<Rightarrow> string list \<Rightarrow> nat \<Rightarrow> tid \<Rightarrow> mplace \<Rightarrow> bool" where
  "mok h argv m i (Via d p pl) = (i = m \<and> 0 < d \<and> ways pm_idle i d p (mat h argv m i pl) \<and> pl \<in> {RM, Bar})"
| "mok h argv m i (To k) = (0 < k \<and> k \<le> NTIMES)"
| "mok h argv m i (In k) = (k < NTIMES)"
| "mok h argv m i (Read k v) = (k < NTIMES)"
| "mok h argv m i (Wrote k) = (k < NTIMES)"
| "mok h argv m i (RW j) = (i = m \<and> j \<le> m)"
| "mok h argv m i pl = (pl \<in> {RM, RS, RL} \<or> (\<exists>v. pl = RP v) \<longrightarrow> i = m)"

fun holds :: "mplace \<Rightarrow> bool" where
  "holds (In k) = True"
| "holds (Read k v) = True"
| "holds (Wrote k) = True"
| "holds _ = False"

fun incremented :: "mplace \<Rightarrow> int" where
  "incremented (To k) = int NTIMES - int k"
| "incremented (In k) = int NTIMES - int k - 1"
| "incremented (Read k v) = int NTIMES - int k - 1"
| "incremented (Wrote k) = int NTIMES - int k"
| "incremented _ = int NTIMES"

text \<open>For how many tasks the root has waited.\<close>

fun waited :: "nat \<Rightarrow> mplace \<Rightarrow> nat" where
  "waited m (RW j) = j"
| "waited m (RP v) = m"
| "waited m RL = m"
| "waited m pl = (if pl = Off \<or> pl = Over then m else 0)"

definition rounds_ok :: "nat \<Rightarrow> (tid \<Rightarrow> mplace) \<Rightarrow> pm_state \<Rightarrow> bool" where
  "rounds_ok m pl w \<longleftrightarrow>
     (\<forall>i\<le>m. \<not> early (pl i) \<and> (holds (pl i) \<longleftrightarrow> mowner w = Some i) \<and> (\<forall>k v. pl i = Read k v \<longrightarrow> v = mcount w) \<and>
       (pl i = Over \<longleftrightarrow> i \<in> ended w)) \<and>
     (\<forall>i. mowner w = Some i \<longrightarrow> i \<le> m) \<and> mcount w = to_int32 (\<Sum>i<Suc m. incremented (pl i)) \<and>
     (\<forall>i<waited m (pl m). pl i = Over)"

definition early_ok :: "nat \<Rightarrow> (tid \<Rightarrow> mplace) \<Rightarrow> pm_state \<Rightarrow> bool" where
  "early_ok m pl w \<longleftrightarrow> (\<forall>i\<le>m. early (pl i)) \<and> mowner w = None \<and> ended w = {} \<and>
     (pl m = Bar \<or> (\<exists>d p. pl m = Via d p Bar) \<longrightarrow> mcount w = 0)"

definition pm_inv :: "pip_h \<Rightarrow> string list \<Rightarrow> nat \<Rightarrow> (tid \<Rightarrow> mplace) \<Rightarrow> pm_state \<Rightarrow> bool" where
  "pm_inv h argv m pl w \<longleftrightarrow> (\<forall>i\<le>m. mok h argv m i (pl i)) \<and> (early_ok m pl w \<or> rounds_ok m pl w)"

fun mrk :: "nat \<Rightarrow> mplace \<Rightarrow> nat" where
  "mrk m (Via d p pl) = d + mrk m pl"
| "mrk m (To k) = m + 6 + 4 * k"
| "mrk m (In k) = m + 9 + 4 * k"
| "mrk m (Read k v) = m + 8 + 4 * k"
| "mrk m (Wrote k) = m + 7 + 4 * k"
| "mrk m (RW j) = 5 + (m - j)"
| "mrk m (RP v) = 4"
| "mrk m RL = 3"
| "mrk m Off = 2"
| "mrk m Over = 0"
| "mrk m Bar = m + 7 + 4 * NTIMES"
| "mrk m RS = 2 * m + 8 + 4 * NTIMES"
| "mrk m RM = 2 * m + 9 + 4 * NTIMES"
| "mrk m Init = 2 * m + 12 + 4 * NTIMES"

definition after_round :: "nat \<Rightarrow> tid \<Rightarrow> nat \<Rightarrow> mplace" where
  "after_round m i k = (if 0 < k then To k else if i = m then RW 0 else Off)"

lemma after_round: "mat h argv m i (after_round m i k) = rounds_from m i k"
  by (simp add: after_round_def rounds_simps(1))

section \<open>Calls\<close>

lemma rounds_upd:
  assumes I: "rounds_ok m pl w" and i: "i \<le> m" and q: "\<not> early q" "holds q \<longleftrightarrow> mowner w' = Some i"
    and own: "\<And>j. j \<noteq> i \<Longrightarrow> mowner w' = Some j \<longleftrightarrow> mowner w = Some j" and rd: "\<And>k v. q = Read k v \<Longrightarrow> v = mcount w'"
    and c: "mcount w' = to_int32 (mcount w + (incremented q - incremented (pl i)))" "mcount w' \<noteq> mcount w \<Longrightarrow> mowner w = Some i"
    and e: "q = Over \<longleftrightarrow> i \<in> ended w'" "\<And>j. j \<noteq> i \<Longrightarrow> j \<in> ended w' \<longleftrightarrow> j \<in> ended w" "pl i \<noteq> Over"
    and v: "i = m \<Longrightarrow> waited m q \<le> m \<and> (\<forall>j<waited m q. pl j = Over)"
  shows "rounds_ok m (pl(i := q)) w'"
proof -
  have old: "\<And>j. j \<le> m \<Longrightarrow> \<not> early (pl j)" "\<And>j. j \<le> m \<Longrightarrow> holds (pl j) \<longleftrightarrow> mowner w = Some j"
    "\<And>j k v. j \<le> m \<Longrightarrow> pl j = Read k v \<Longrightarrow> v = mcount w" "\<And>j. j \<le> m \<Longrightarrow> pl j = Over \<longleftrightarrow> j \<in> ended w"
    "\<And>j. mowner w = Some j \<Longrightarrow> j \<le> m" "mcount w = to_int32 (\<Sum>i<Suc m. incremented (pl i))"
    "\<And>j. j < waited m (pl m) \<Longrightarrow> pl j = Over"
    using I by (auto simp: rounds_ok_def)
  have upd: "(\<Sum>j<Suc m. incremented ((pl(i := q)) j)) =
      (\<Sum>j<Suc m. incremented (pl j)) + (incremented q - incremented (pl i))"
    using sum_upd [of i "Suc m" "\<lambda>_. incremented" pl q] i by linarith
  have sum: "mcount w' = to_int32 (\<Sum>j<Suc m. incremented ((pl(i := q)) j))"
    unfolding upd c(1) old(6) by (rule to_int32_add)
  have read: "v = mcount w'" if "j \<le> m" "(pl(i := q)) j = Read k v" for j k v
  proof (cases "j = i")
    case False
    then have "v = mcount w" "mowner w \<noteq> Some i" using that old(3) [of j k v] old(2) [of j] by auto
    then show ?thesis using c(2) by metis
  qed (use that rd in simp)
  have wt: "(pl(i := q)) j = Over" if j: "j < waited m ((pl(i := q)) m)" for j
  proof (cases "i = m")
    case True
    then show ?thesis using v j by auto
  next
    case False
    then have "pl j = Over" using j old(7) by simp
    then show ?thesis using e(3) by auto
  qed
  have own': "mowner w' = Some j \<Longrightarrow> j \<le> m" for j using own [of j] old(5) [of j] i by (cases "j = i") auto
  have each: "\<not> early ((pl(i := q)) j)" "holds ((pl(i := q)) j) \<longleftrightarrow> mowner w' = Some j" "(pl(i := q)) j = Over \<longleftrightarrow> j \<in> ended w'"
    if "j \<le> m" for j
    using q own [of j] old(1,2,4) [OF that] e(1) e(2) [of j] by (cases "j = i"; simp)+
  show ?thesis unfolding rounds_ok_def using sum read wt own' each by blast
qed

lemma rounds_call:
  assumes I: "rounds_ok m pl w" and i: "i \<le> m" and ok: "mok h argv m i (pl i)"
    and c: "mat h argv m i (pl i) = Call c k" "\<not> is_bar c" and r: "pm_sem h m i c w = Some (r, w')"
  shows "\<exists>q. k r = mat h argv m i q \<and> mrk m q < mrk m (pl i) \<and> mok h argv m i q \<and> rounds_ok m (pl(i := q)) w'"
proof -
  have h: "holds (pl i) \<longleftrightarrow> mowner w = Some i" "\<not> early (pl i)" "\<And>k v. pl i = Read k v \<Longrightarrow> v = mcount w"
    "pl i = Over \<longleftrightarrow> i \<in> ended w" "\<And>j. j \<le> m \<Longrightarrow> pl j = Over \<longleftrightarrow> j \<in> ended w" "\<And>j. j < waited m (pl m) \<Longrightarrow> pl j = Over"
    using I i by (auto simp: rounds_ok_def)
  have same: "to_int32 (mcount w) = mcount w" using I by (auto simp: rounds_ok_def to_int32_def)
  note U = rounds_upd [OF I i]
  show ?thesis
  proof (cases "pl i")
    case (To j)
    then obtain l where l: "j = Suc l" using ok by (cases j) auto
    have "rounds_ok m (pl(i := In l)) (w\<lparr>mowner := Some i\<rparr>)" if "mowner w = None"
      by (rule U) (use To l h that same in auto)
    then show ?thesis
      using c r To l ok by (intro exI [of _ "In l"]) (auto simp: rounds_simps(2) [of _ _ _ h argv] chk_def split: if_splits)
  next
    case (In j)
    have "rounds_ok m (pl(i := Read j (mcount w))) w" by (rule U) (use In h same in auto)
    then show ?thesis using c r In ok by (intro exI [of _ "Read j (mcount w)"]) auto
  next
    case (Read j v)
    have "rounds_ok m (pl(i := Wrote j)) (w\<lparr>mcount := to_int32 (v + 1)\<rparr>)"
      by (rule U) (use Read h in auto)
    then show ?thesis using c r Read ok by (intro exI [of _ "Wrote j"]) auto
  next
    case (Wrote j)
    have "rounds_ok m (pl(i := after_round m i j)) (w\<lparr>mowner := None\<rparr>)"
      by (rule U) (use Wrote h same in \<open>auto simp: after_round_def split: if_splits\<close>)
    then show ?thesis using c r Wrote h ok
      by (intro exI [of _ "after_round m i j"])
        (auto simp: unlock_then_def chk_def after_round after_round_def rounds_simps(1))
  next
    case (RW j)
    then have j: "i = m" "j \<le> m" using ok by auto
    show ?thesis
    proof (cases "j = m")
      case True
      have "rounds_ok m (pl(i := RP (mcount w))) w" by (rule U) (use RW j True h same in auto)
      then show ?thesis using c r RW j True
        by (intro exI [of _ "RP (mcount w)"]) (auto simp: waits_simps report_start [of _ h argv i])
    next
      case False
      then have "j < m" using j by simp
      then have "rounds_ok m (pl(i := RW (Suc j))) w" if "j \<in> ended w"
        by (intro U) (use RW j False h(1-4) h(5) [of j] h(6) same that in \<open>auto simp: less_Suc_eq\<close>)
      then show ?thesis using c r RW j \<open>j < m\<close>
        by (intro exI [of _ "RW (Suc j)"]) (auto simp: waits_simps(2) chk_def split: if_splits)
    qed
  next
    case (RP v)
    have "rounds_ok m (pl(i := RL)) w" by (rule U) (use RP ok h(1-4,6) same in auto)
    then show ?thesis using c r RP ok by (intro exI [of _ RL]) auto
  next
    case RL
    then have j: "i = m" using ok by auto
    have "(\<Sum>i<Suc m. incremented (pl i)) = int NTIMES * (int m + 1)"
    proof -
      have "incremented (pl j) = int NTIMES" if "j < Suc m" for j
        using h(6) [of j] RL j that by (cases "j = m") auto
      then show ?thesis by simp
    qed
    then have all: "mcount w = to_int32 (int NTIMES * (int m + 1))" using I by (simp add: rounds_ok_def)
    have "rounds_ok m (pl(i := Off)) w" by (rule U) (use RL j h same in auto)
    then show ?thesis using c r RL j all by (intro exI [of _ Off]) (auto simp: last_look_def chkv_def)
  next
    case Off
    have "rounds_ok m (pl(i := Over)) (w\<lparr>ended := insert i (ended w)\<rparr>)" by (rule U) (use Off h same in auto)
    then show ?thesis using c r Off by (intro exI [of _ Over]) (auto simp: leave_def chk_def)
  qed (use h c in auto)
qed

lemma early_call:
  assumes I: "early_ok m pl w" and i: "i \<le> m" and ok: "mok h argv m i (pl i)" and h: "\<And>j. j < m \<Longrightarrow> PIPID_ROOT h \<noteq> int j"
    and a: "ntasks_or_one argv = int m"
    and c: "mat h argv m i (pl i) = Call c k" "\<not> is_bar c" and r: "pm_sem h m i c w = Some (r, w')"
  shows "\<exists>q. k r = mat h argv m i q \<and> mrk m q < mrk m (pl i) \<and> mok h argv m i q \<and> early_ok m (pl(i := q)) w'"
proof (cases "pl i")
  case Init
  let ?q = "if i = m then Via 2 (pmutex_root h (argv ! 0) (int m)) RM else Bar"
  have "k r = (if i = m then pmutex_root h (argv ! 0) (int m) else pmutex_task)"
    using c r Init a h [of i] i by (auto simp: pmutex_main_def chk_def Let_def)
  then show ?thesis
    using r Init I c i root_way [of m h argv] task_start [of i m h argv]
    by (intro exI [of _ ?q]) (auto simp: early_ok_def pmutex_main_def chk_def Let_def)
next
  case RM
  then show ?thesis using c r I ok by (intro exI [of _ RS]) (auto simp: early_ok_def chk_def)
next
  case RS
  let ?p = "finE (for_range 0 m (spawn_self h (argv ! 0) EXIT_FAIL) ()) (\<lambda>_. mat h argv m m Bar)"
  show ?thesis using c r I ok RS spawn_way [of m m h "argv ! 0" "mat h argv m m Bar"]
    by (intro exI [of _ "if m = 0 then Bar else Via m ?p Bar"]) (auto simp: early_ok_def prepare_start [of _ _ _ argv])
next
  case (Via d p q)
  then obtain e where d: "d = Suc e" using ok by (cases d) auto
  have "w' = w \<and> ways pm_idle i e (k r) (mat h argv m i q)"
    using ways_step [OF pm_idle, of i e c k "mat h argv m i q" h m w r w'] ok c(1) Via d r by auto
  then show ?thesis using Via d ok I
    by (intro exI [of _ "if e = 0 then q else Via e (k r) q"]) (auto simp: early_ok_def simp del: ways.simps(2))
qed (use I i c in \<open>auto simp: early_ok_def pbar_def chk_def\<close>)

lemma pm_call:
  assumes I: "pm_inv h argv m pl w" and i: "i < Suc m" and h: "\<And>j. j < m \<Longrightarrow> PIPID_ROOT h \<noteq> int j"
    and a: "ntasks_or_one argv = int m"
    and c: "mat h argv m i (pl i) = Call c k" "\<not> is_bar c" and r: "pm_sem h m i c w = Some (r, w')"
  shows "\<exists>q. k r = mat h argv m i q \<and> mrk m q < mrk m (pl i) \<and> pm_inv h argv m (pl(i := q)) w'"
proof -
  have im: "i \<le> m" and ok: "mok h argv m i (pl i)" using I i by (auto simp: pm_inv_def)
  obtain q where "k r = mat h argv m i q" "mrk m q < mrk m (pl i)" "mok h argv m i q"
    "early_ok m (pl(i := q)) w' \<or> rounds_ok m (pl(i := q)) w'"
    using I early_call [where pl = pl and i = i, OF _ im ok h a c r] rounds_call [where pl = pl and i = i, OF _ im ok c r] unfolding pm_inv_def by blast
  moreover have "\<forall>j\<le>m. mok h argv m j ((pl(i := q)) j)" using I calculation(3) by (simp add: pm_inv_def)
  ultimately show ?thesis unfolding pm_inv_def by blast
qed

section \<open>The barrier, and the end\<close>

lemma bar_early:
  assumes "mok h argv m i pl" "at_bar (mat h argv m i pl)"
  shows "pl = Bar"
proof (cases pl)
  case (To k)
  then obtain l where "k = Suc l" using assms by (cases k) auto
  then show ?thesis using assms To by (auto simp: rounds_simps(2) [of _ _ _ h argv] chk_def)
next
  case (RW j)
  then show ?thesis using assms by (cases "j = m") (auto simp: waits_simps chk_def pmutex_report_def Let_def)
next
  case (Via d p q)
  then show ?thesis using assms by (cases d) auto
qed (use assms in \<open>auto simp: pmutex_main_def Let_def chk_def prepare_def unlock_then_def last_look_def leave_def\<close>)

lemma NTIMES_pos: "0 < NTIMES"
  by (simp add: NTIMES_def)

lemma pm_release:
  assumes I: "pm_inv h argv m pl w" and A: "\<forall>i<Suc m. at_bar (mat h argv m i (pl i)) \<and> pthread_good (rvs i)"
  shows "\<exists>q. (\<forall>i<Suc m. resume (mat h argv m i (pl i)) (rvs i) = mat h argv m i (q i) \<and> mrk m (q i) < mrk m (pl i)) \<and>
    pm_inv h argv m q w"
proof -
  have bar: "pl i = Bar" if "i \<le> m" for i using bar_early [of h argv m i "pl i"] I A that by (simp add: pm_inv_def)
  then have w: "mowner w = None" "ended w = {}" "mcount w = 0"
    using I bar [of m] by (auto simp: pm_inv_def early_ok_def rounds_ok_def)
  have "rounds_ok m (\<lambda>_. To NTIMES) w" unfolding rounds_ok_def w by (simp add: to_int32_id)
  then have "pm_inv h argv m (\<lambda>_. To NTIMES) w" using NTIMES_pos by (simp add: pm_inv_def)
  moreover have "resume (mat h argv m i (pl i)) (rvs i) = mat h argv m i (To NTIMES) \<and> mrk m (To NTIMES) < mrk m (pl i)"
    if "i < Suc m" for i using bar [of i] A that by (simp add: pbar_simps)
  ultimately show ?thesis by (intro exI [of _ "\<lambda>_. To NTIMES"]) simp
qed

definition pm_goal :: "nat \<Rightarrow> (tid \<Rightarrow> mplace) \<Rightarrow> pm_state \<Rightarrow> bool" where
  "pm_goal m pl w \<longleftrightarrow> (\<forall>i\<le>m. pl i = Over) \<and> mcount w = to_int32 (int NTIMES * (int m + 1))"

lemma pm_can:
  assumes "mok h argv m i pl" "pl \<noteq> Bar" "pl \<noteq> Over" "\<And>k. pl = To k \<Longrightarrow> mowner w = None"
    "\<And>j. pl = RW j \<Longrightarrow> j < m \<Longrightarrow> j \<in> ended w"
  shows "\<exists>c k x. mat h argv m i pl = Call c k \<and> \<not> is_bar c \<and> pm_sem h m i c w = Some x"
proof (cases pl)
  case (To k)
  then obtain l where "k = Suc l" using assms by (cases k) auto
  then show ?thesis using assms(4) To by (auto simp: rounds_simps(2) [of _ _ _ h argv] chk_def)
next
  case (RW j)
  show ?thesis using assms(1,5) RW by (cases "j = m") (auto simp: waits_simps chk_def pmutex_report_def Let_def)
next
  case (Via d p q)
  then obtain e where d: "d = Suc e" using assms(1) by (cases d) auto
  show ?thesis using ways_can [OF pm_idle, of i e p "mat h argv m i q" h m w] assms(1) Via d by auto
next
  case (Wrote k)
  then show ?thesis by (auto simp: unlock_then_def chk_def)
qed (use assms in \<open>auto simp: pmutex_main_def Let_def chk_def prepare_def last_look_def leave_def\<close>)

lemma pm_live:
  assumes I: "pm_inv h argv m pl w"
  shows "pm_goal m pl w \<or> (\<forall>i<Suc m. at_bar (mat h argv m i (pl i))) \<or>
    (\<exists>i<Suc m. \<exists>c k x. mat h argv m i (pl i) = Call c k \<and> \<not> is_bar c \<and> pm_sem h m i c w = Some x)"
proof (rule ccontr)
  assume N: "\<not> ?thesis"
  have ok: "mok h argv m i (pl i)" if "i \<le> m" for i using I that by (simp add: pm_inv_def)
  have stuck: "pl i = Bar \<or> pl i = Over \<or> (\<exists>k. pl i = To k \<and> mowner w \<noteq> None) \<or> (\<exists>j<m. pl i = RW j \<and> j \<notin> ended w)"
    if "i \<le> m" for i
  proof (rule ccontr)
    assume "\<not> ?thesis"
    then have "\<exists>c k x. mat h argv m i (pl i) = Call c k \<and> \<not> is_bar c \<and> pm_sem h m i c w = Some x"
      by (intro pm_can [OF ok [OF that]]) auto
    then show False using N that by (metis le_imp_less_Suc)
  qed
  from I show False unfolding pm_inv_def
  proof (elim conjE disjE)
    assume E: "early_ok m pl w"
    then have "pl i = Bar" if "i \<le> m" for i using stuck [OF that] that by (auto simp: early_ok_def)
    then show False using N by (simp add: pbar_simps)
  next
    assume R: "rounds_ok m pl w"
    then have ne: "pl i \<noteq> Bar" if "i \<le> m" for i using that by (auto simp: rounds_ok_def)
    have free: "mowner w = None"
    proof (rule ccontr)
      assume "mowner w \<noteq> None"
      then obtain i where i: "mowner w = Some i" "i \<le> m" "holds (pl i)" using R unfolding rounds_ok_def by blast
      then show False using stuck [OF i(2)] R by (auto simp: rounds_ok_def)
    qed
    have over: "pl i = Over" if i: "i < m" for i
      using stuck [of i] free ok [of i] ne [of i] i by auto
    have "\<forall>j<m. j \<in> ended w" using over R by (auto simp: rounds_ok_def)
    then have "pl m = Over" using stuck [of m] free ne [of m] by auto
    with over have all: "pl i = Over" if "i \<le> m" for i using that by (cases "i = m") auto
    then have "(\<Sum>i<Suc m. incremented (pl i)) = int NTIMES * (int m + 1)" by simp
    then have "mcount w = to_int32 (int NTIMES * (int m + 1))" using R unfolding rounds_ok_def by simp
    then show False using N all by (simp add: pm_goal_def)
  qed
qed

lemma pm_places:
  assumes "barrier (Suc m) rel pthread_good" "\<And>j. j < m \<Longrightarrow> PIPID_ROOT h \<noteq> int j" "ntasks_or_one argv = int m"
  shows "place_system (Suc m) rel pthread_good (pm_sem h m) (mat h argv m) (pm_inv h argv m) (\<lambda>_. mrk m) (pm_goal m)"
proof (intro place_system.intro assms(1), unfold_locales)
  fix pl w i c k r w'
  assume "pm_inv h argv m pl w" "i < Suc m" "mat h argv m i (pl i) = Call c k" "\<not> is_bar c" "pm_sem h m i c w = Some (r, w')"
  then show "\<exists>q. k r = mat h argv m i q \<and> mrk m q < mrk m (pl i) \<and> pm_inv h argv m (pl(i := q)) w'"
    using pm_call [where pl = pl and i = i] assms(2,3) by blast
qed (use pm_release pm_live in blast)+

definition pm_start :: pm_state where "pm_start = \<lparr>mowner = None, mcount = 0, ended = {}\<rparr>"

lemma pm_begins: "pm_inv h argv m (\<lambda>_. Init) pm_start"
  by (simp add: pm_inv_def early_ok_def pm_start_def)

text \<open>C8: the mutex test with a root and its tasks: whatever the interleaving, every run ends, and it ends with the
root and all tasks returning 0 and a count of 1000 for each of them: no increment is lost, and the root's check
comes after the last one.\<close>

theorem pthread_mutex_correct:
  assumes "barrier (Suc m) rel pthread_good" "\<And>j. j < m \<Longrightarrow> PIPID_ROOT h \<noteq> int j" "ntasks_or_one argv = int m"
    and "steps (Suc m) (pm_sem h m) rel (\<lambda>_. pmutex_main h argv, pm_start) c" "\<not> (\<exists>c'. step (Suc m) (pm_sem h m) rel c c')"
  shows "Wellfounded.accp (\<lambda>x y. step (Suc m) (pm_sem h m) rel y x) (\<lambda>_. pmutex_main h argv, pm_start) \<and>
    finished (Suc m) (\<lambda>_. 0) c \<and> mcount (snd c) = to_int32 (1000 * (int m + 1))"
proof -
  note P = pm_places [OF assms(1-3)]
  have T: "Wellfounded.accp (\<lambda>x y. step (Suc m) (pm_sem h m) rel y x) (\<lambda>_. pmutex_main h argv, pm_start)"
    by (rule place_system.places_terminate [OF P pm_begins]) simp_all
  obtain pl where "\<And>i. i < Suc m \<Longrightarrow> fst c i = mat h argv m i (pl i)" "pm_goal m pl (snd c)"
    by (rule place_system.places_end [OF P pm_begins _ assms(4,5)]) simp_all
  then show ?thesis using T by (simp add: pm_goal_def finished_def NTIMES_def)
qed

lemma pthread_mutex_correct_witness:
  "\<exists>c. steps (Suc 1) (pm_sem h_sample 1) (pthread_release (Suc 1)) (\<lambda>_. pmutex_main h_sample [''x''], pm_start) c \<and>
     finished (Suc 1) (\<lambda>_. 0) c \<and> mcount (snd c) = 2000"
proof -
  have bar: "barrier (Suc 1) (pthread_release (Suc 1)) pthread_good" by (rule pthread_barrier) simp
  have a: "ntasks_or_one [''x''] = int 1" by (simp add: ntasks_or_one_def)
  have h: "PIPID_ROOT h_sample \<noteq> int j" if "j < 1" for j by (simp add: h_sample_def)
  note P = pm_places [OF bar h a]
  obtain c where c: "steps (Suc 1) (pm_sem h_sample 1) (pthread_release (Suc 1)) (\<lambda>_. pmutex_main h_sample [''x''], pm_start) c"
    "\<not> (\<exists>c'. step (Suc 1) (pm_sem h_sample 1) (pthread_release (Suc 1)) c c')"
    using ends_somewhere [OF place_system.places_terminate [OF P pm_begins refl]] by auto
  from pthread_mutex_correct [OF bar h a c] c(1) show ?thesis by (intro exI [of _ c]) (simp add: to_int32_id)
qed

end
