(* ===== verification/PageFault.thy ===== *)
theory PageFault
  imports PthreadMutex
begin

text \<open>
  \<open>compat/pagefault.c\<close>: the root and every task map a page each, put its address into a shared array and,
  between two barriers, write to all the pages. A write to a page that is not mapped, or through an entry
  that is not set, has no answer in the model.
\<close>

section \<open>The program\<close>

definition MAP_FAILED :: int where "MAP_FAILED = - 1"

definition map_page :: "int prog \<Rightarrow> int \<Rightarrow> int \<Rightarrow> (int \<Rightarrow> int prog) \<Rightarrow> int prog" where
  "map_page out pgsz slot k =
     Call (Sys (Lib ''mmap'' [pgsz])) (\<lambda>r. let addr = rv r in
     chkv (c_bool (addr = MAP_FAILED)) (\<lambda>v. v \<noteq> 0) out
      (Call (Sys (Lib ''maps='' [slot, addr])) (\<lambda>_. k addr)))"

text \<open>\<open>*((int*)(maps[i])) = 0\<close>.\<close>

definition touch :: "int \<Rightarrow> unit \<Rightarrow> (int + unit) prog" where
  "touch i u = Call (Sys (Lib ''maps'' [i])) (\<lambda>r. Call (Sys (Lib ''write'' [rv r, 0])) (\<lambda>_. Ret (Inr ())))"

definition unmap :: "int \<Rightarrow> int \<Rightarrow> int prog" where
  "unmap addr pgsz = chk (Sys (Lib ''munmap'' [addr, pgsz])) nz (Ret EXIT_FAIL) (\<lambda>_. leave 0)"

definition fault_root :: "pip_h \<Rightarrow> string \<Rightarrow> int \<Rightarrow> int \<Rightarrow> int prog" where
  "fault_root h prog pgsz ntasks =
     map_page (Ret EXIT_FAIL) pgsz ntasks (\<lambda>addr.
     chk (Pip (Pip_barrier_init (ntasks + 1))) nz (Ret EXIT_FAIL) (\<lambda>_.
     finE (for_range 0 (nat ntasks) (spawn_self h prog EXIT_FAIL) ()) (\<lambda>_.
     bar_wait (Ret EXIT_FAIL)
      (finE (for_range 0 (nat (ntasks + 1)) touch ()) (\<lambda>_.
       bar_wait (Ret EXIT_FAIL)
        (finE (for_range 0 (nat ntasks) wait_each ()) (\<lambda>_. unmap addr pgsz)))))))"

definition fault_task :: "int \<Rightarrow> int \<Rightarrow> int \<Rightarrow> int prog" where
  "fault_task pgsz ntasks pipid =
     map_page (Ret EXIT_FAIL) pgsz pipid (\<lambda>addr.
     bar_wait (Ret EXIT_FAIL)
      (finE (for_range pipid (nat (ntasks + 1 - pipid)) touch ()) (\<lambda>_.
       finE (for_range 0 (nat pipid) touch ()) (\<lambda>_.
       bar_wait (Ret EXIT_FAIL) (unmap addr pgsz)))))"

definition pagefault_main :: "pip_h \<Rightarrow> string list \<Rightarrow> int prog" where
  "pagefault_main h argv =
     Call (Sys (Lib ''sysconf'' [])) (\<lambda>pgsz.
     finE (ntasks_guard (NTASKS h) argv) (\<lambda>ntasks.
     chk (Pip (Pip_init True (Some ntasks) True 0)) nz (Ret EXIT_FAIL) (\<lambda>r.
       let pipid = stored (o1 r) 0; ntasks = stored (o2 r) ntasks in
       if pipid = PIPID_ROOT h then fault_root h (argv ! 0) (rv pgsz) ntasks
       else fault_task (rv pgsz) ntasks pipid)))"

section \<open>The library and the memory\<close>

text \<open>\<open>mmap\<close> gives participant \<open>i\<close> the page \<open>page i\<close>; the root is participant \<open>m\<close>.\<close>

record pages =
  maps :: "int \<Rightarrow> int option"
  mapped :: "int set"
  gone :: "tid set"

definition page :: "tid \<Rightarrow> int" where "page i = 4096 * (int i + 1)"

definition pf_sem :: "pip_h \<Rightarrow> nat \<Rightarrow> pages sem" where
  "pf_sem h m i c w = (case c of
       Sys (Lib f a) \<Rightarrow>
         if f = ''mmap'' then Some (ok\<lparr>rv := page i\<rparr>, w\<lparr>mapped := insert (page i) (mapped w)\<rparr>)
         else if f = ''munmap'' then Some (ok, w\<lparr>mapped := mapped w - {hd a}\<rparr>)
         else if f = ''maps='' then Some (ok, w\<lparr>maps := (maps w)(hd a \<mapsto> a ! 1)\<rparr>)
         else if f = ''maps'' then map_option (\<lambda>x. (ok\<lparr>rv := x\<rparr>, w)) (maps w (hd a))
         else if f = ''sysconf'' then Some (ok\<lparr>rv := 4096\<rparr>, w)
         else if f = ''write'' then (if hd a \<in> mapped w then Some (ok, w) else None)
         else Some (ok, w)
     | Pip (Pip_init _ _ _ _) \<Rightarrow>
         Some (ok\<lparr>o1 := Some (if i = m then PIPID_ROOT h else int i), o2 := (if i = m then None else Some (int m))\<rparr>, w)
     | Pip (Pip_wait j _) \<Rightarrow> if nat j \<in> gone w then Some (ok, w) else None
     | Pip Pip_fin \<Rightarrow> Some (ok, w\<lparr>gone := insert i (gone w)\<rparr>)
     | _ \<Rightarrow> Some (ok, w))"

definition pf_idle :: "pip_h \<Rightarrow> nat \<Rightarrow> tid \<Rightarrow> call \<Rightarrow> resp option" where
  "pf_idle h m i c = (case c of
       Sys (Lib f a) \<Rightarrow> if f = ''sysconf'' then Some (ok\<lparr>rv := 4096\<rparr>) else None
     | Sys _ \<Rightarrow> Some ok
     | Pip (Pip_init _ _ _ _) \<Rightarrow>
         Some (ok\<lparr>o1 := Some (if i = m then PIPID_ROOT h else int i), o2 := (if i = m then None else Some (int m))\<rparr>)
     | Pip (Pip_spawn _ _ _ _) \<Rightarrow> Some ok
     | Pip (Pip_barrier_init _) \<Rightarrow> Some ok
     | _ \<Rightarrow> None)"

lemma pf_idle: "idle_calls (pf_sem h m) (pf_idle h m)"
  by (auto simp: idle_calls_def pf_idle_def pf_sem_def split: call.splits pip_call.splits sys_call.splits if_splits)

lemma pf_sem_simps [simp]:
  "pf_sem h m i (Sys (Lib ''mmap'' a)) w = Some (ok\<lparr>rv := page i\<rparr>, w\<lparr>mapped := insert (page i) (mapped w)\<rparr>)"
  "pf_sem h m i (Sys (Lib ''munmap'' [x, y])) w = Some (ok, w\<lparr>mapped := mapped w - {x}\<rparr>)"
  "pf_sem h m i (Sys (Lib ''maps='' [x, y])) w = Some (ok, w\<lparr>maps := (maps w)(x \<mapsto> y)\<rparr>)"
  "pf_sem h m i (Sys (Lib ''maps'' [x])) w = map_option (\<lambda>x. (ok\<lparr>rv := x\<rparr>, w)) (maps w x)"
  "pf_sem h m i (Sys (Lib ''write'' [x, y])) w = (if x \<in> mapped w then Some (ok, w) else None)"
  "pf_sem h m i (Pip (Pip_wait j s)) w = (if nat j \<in> gone w then Some (ok, w) else None)"
  "pf_sem h m i (Pip Pip_fin) w = Some (ok, w\<lparr>gone := insert i (gone w)\<rparr>)"
  by (simp_all add: pf_sem_def)

section \<open>The places\<close>

primrec touching :: "int list \<Rightarrow> int prog \<Rightarrow> int prog" where
  "touching [] p = p"
| "touching (x # xs) p = Call (Sys (Lib ''maps'' [x])) (\<lambda>r. Call (Sys (Lib ''write'' [rv r, 0])) (\<lambda>_. touching xs p))"

lemma touching_append: "touching (xs @ ys) p = touching xs (touching ys p)"
  by (induction xs) simp_all

lemma touching_range: "finE (for_range lo k touch ()) (\<lambda>_. p) = touching (map (\<lambda>j. lo + int j) [0..<k]) p"
proof (induction k arbitrary: lo)
  case (Suc k)
  have "map (\<lambda>j. lo + int j) [0..<Suc k] = lo # map (\<lambda>j. lo + 1 + int j) [0..<k]"
    unfolding map_upt_Suc by (simp add: add.assoc)
  then show ?case using Suc.IH [of "lo + 1"] by (simp add: touch_def finE_seqE)
qed simp

datatype fplace = Map | Put | Wait1 | Touch "int list" | Poke int "int list" | Wt nat | Unmap | Fin | End
  | On_way nat "int prog" fplace

text \<open>The entries in the order participant \<open>i\<close> touches them.\<close>

definition order :: "nat \<Rightarrow> tid \<Rightarrow> int list" where
  "order m i = (if i = m then map int [0..<Suc m]
     else map (\<lambda>j. int i + int j) [0..<Suc m - i] @ map int [0..<i])"

definition fwaits :: "nat \<Rightarrow> nat \<Rightarrow> int prog" where
  "fwaits m j = finE (for_range (int j) (m - j) wait_each ()) (\<lambda>_. unmap (page m) 4096)"

definition second :: "nat \<Rightarrow> tid \<Rightarrow> int prog" where
  "second m i = bar_wait (Ret EXIT_FAIL) (if i = m then fwaits m 0 else unmap (page i) 4096)"

definition arrive :: "nat \<Rightarrow> tid \<Rightarrow> int prog" where
  "arrive m i = bar_wait (Ret EXIT_FAIL) (touching (order m i) (second m i))"

definition publish :: "pip_h \<Rightarrow> string \<Rightarrow> nat \<Rightarrow> tid \<Rightarrow> int prog" where
  "publish h prog m i =
     (if i = m then chk (Pip (Pip_barrier_init (int m + 1))) nz (Ret EXIT_FAIL) (\<lambda>_.
        finE (for_range 0 m (spawn_self h prog EXIT_FAIL) ()) (\<lambda>_. arrive m m))
      else arrive m i)"

fun fat :: "pip_h \<Rightarrow> string list \<Rightarrow> nat \<Rightarrow> tid \<Rightarrow> fplace \<Rightarrow> int prog" where
  "fat h argv m i Map = (if i = m then fault_root h (argv ! 0) 4096 (int m) else fault_task 4096 (int m) (int i))"
| "fat h argv m i Put = Call (Sys (Lib ''maps='' [int i, page i])) (\<lambda>_. publish h (argv ! 0) m i)"
| "fat h argv m i Wait1 = arrive m i"
| "fat h argv m i (Touch xs) = touching xs (second m i)"
| "fat h argv m i (Poke x xs) = Call (Sys (Lib ''write'' [x, 0])) (\<lambda>_. touching xs (second m i))"
| "fat h argv m i (Wt j) = fwaits m j"
| "fat h argv m i Unmap = unmap (page i) 4096"
| "fat h argv m i Fin = leave 0"
| "fat h argv m i End = Ret 0"
| "fat h argv m i (On_way d p pl) = p"

lemma map_start: "i \<le> m \<Longrightarrow> fat h argv m i Map = Call (Sys (Lib ''mmap'' [4096])) (\<lambda>r. let addr = rv r in
    chkv (c_bool (addr = MAP_FAILED)) (\<lambda>v. v \<noteq> 0) (Ret EXIT_FAIL)
     (Call (Sys (Lib ''maps='' [int i, addr])) (\<lambda>_.
       if i = m then chk (Pip (Pip_barrier_init (int m + 1))) nz (Ret EXIT_FAIL) (\<lambda>_.
         finE (for_range 0 m (spawn_self h (argv ! 0) EXIT_FAIL) ()) (\<lambda>_.
         bar_wait (Ret EXIT_FAIL) (touching (order m i) (bar_wait (Ret EXIT_FAIL)
           (finE (for_range 0 m wait_each ()) (\<lambda>_. unmap addr 4096))))))
       else bar_wait (Ret EXIT_FAIL) (touching (order m i) (bar_wait (Ret EXIT_FAIL) (unmap addr 4096))))))"
proof -
  have "nat (int m + 1) = Suc m" "nat (int m + 1 - int i) = Suc m - i" by linarith+
  then show ?thesis
    by (simp add: fault_root_def fault_task_def map_page_def touching_range touching_append order_def Let_def
        del: for_range.simps(2) upt_Suc)
qed

lemma fwaits_simps:
  "fwaits m m = unmap (page m) 4096"
  "j < m \<Longrightarrow> fwaits m j = chk (Pip (Pip_wait (int j) False)) nz (Ret EXIT_FAIL) (\<lambda>_. fwaits m (Suc j))"
proof -
  assume "j < m"
  then have "m - j = Suc (m - Suc j)" by simp
  then show "fwaits m j = chk (Pip (Pip_wait (int j) False)) nz (Ret EXIT_FAIL) (\<lambda>_. fwaits m (Suc j))"
    by (simp add: fwaits_def wait_each_def finE_seqE finE_chk add.commute)
qed (simp add: fwaits_def)

lemma publish_start: "publish h prog m i =
    (if i = m then chk (Pip (Pip_barrier_init (int m + 1))) nz (Ret EXIT_FAIL) (\<lambda>_.
        finE (for_range 0 m (spawn_self h prog EXIT_FAIL) ()) (\<lambda>_.
        bar_wait (Ret EXIT_FAIL) (touching (order m i) (bar_wait (Ret EXIT_FAIL)
           (finE (for_range 0 m wait_each ()) (\<lambda>_. unmap (page i) 4096))))))
      else bar_wait (Ret EXIT_FAIL) (touching (order m i) (bar_wait (Ret EXIT_FAIL) (unmap (page i) 4096))))"
  by (simp add: publish_def arrive_def second_def fwaits_def)

lemma page_simps [simp]: "page i \<noteq> MAP_FAILED" "page i = page j \<longleftrightarrow> i = j"
  by (simp_all add: page_def MAP_FAILED_def)

lemma order_set: "i \<le> m \<Longrightarrow> set (order m i) \<subseteq> int ` {..m}"
proof
  fix x assume "i \<le> m" "x \<in> set (order m i)"
  then obtain j where "x = int j" "j \<le> m" by (auto simp: order_def split: if_splits simp flip: of_nat_add)
  then show "x \<in> int ` {..m}" by simp
qed

lemma order_length: "i \<le> m \<Longrightarrow> length (order m i) = Suc m"
  by (auto simp: order_def)

section \<open>The invariant\<close>

fun fstage :: "fplace \<Rightarrow> nat" where
  "fstage (On_way d p pl) = fstage pl"
| "fstage (Touch xs) = 1"
| "fstage (Poke x xs) = 1"
| "fstage pl = (if pl \<in> {Map, Put, Wait1} then 0 else 2)"

text \<open>How far the participant has come with its page: 1 when it is mapped, 2 when its entry is set.\<close>

fun shown :: "fplace \<Rightarrow> nat" where
  "shown (On_way d p pl) = shown pl"
| "shown pl = (if pl = Map then 0 else if pl = Put then 1 else 2)"

fun fok :: "pip_h \<Rightarrow> string list \<Rightarrow> nat \<Rightarrow> tid \<Rightarrow> fplace \<Rightarrow> bool" where
  "fok h argv m i (On_way d p pl) = (0 < d \<and> ways (pf_idle h m) i d p (fat h argv m i pl) \<and> (pl = Map \<or> pl = Wait1 \<and> i = m))"
| "fok h argv m i (Touch xs) = (set xs \<subseteq> int ` {..m})"
| "fok h argv m i (Poke x xs) = (x \<in> page ` {..m} \<and> set xs \<subseteq> int ` {..m})"
| "fok h argv m i (Wt j) = (i = m \<and> j < m)"
| "fok h argv m i pl = True"

definition pages_ok :: "nat \<Rightarrow> nat \<Rightarrow> (tid \<Rightarrow> fplace) \<Rightarrow> pages \<Rightarrow> bool" where
  "pages_ok m s pl w \<longleftrightarrow>
     (s < 2 \<longrightarrow> gone w = {} \<and> (\<forall>i\<le>m. (1 \<le> shown (pl i) \<longrightarrow> page i \<in> mapped w) \<and>
        (2 \<le> shown (pl i) \<longrightarrow> maps w (int i) = Some (page i)))) \<and>
     (s = 2 \<longrightarrow> (\<forall>i\<le>m. pl i = End \<longleftrightarrow> i \<in> gone w))"

definition pf_inv :: "pip_h \<Rightarrow> string list \<Rightarrow> nat \<Rightarrow> (tid \<Rightarrow> fplace) \<Rightarrow> pages \<Rightarrow> bool" where
  "pf_inv h argv m pl w \<longleftrightarrow> (\<exists>s. (\<forall>i\<le>m. fstage (pl i) = s \<and> fok h argv m i (pl i)) \<and> pages_ok m s pl w)"

fun frk :: "nat \<Rightarrow> fplace \<Rightarrow> nat" where
  "frk m (On_way d p pl) = d + frk m pl"
| "frk m Map = 4 * m + 10"
| "frk m Put = 4 * m + 9"
| "frk m Wait1 = 3 * m + 7"
| "frk m (Touch xs) = m + 4 + 2 * length xs"
| "frk m (Poke x xs) = m + 5 + 2 * length xs"
| "frk m (Wt j) = 3 + (m - j)"
| "frk m Unmap = 2"
| "frk m Fin = 1"
| "frk m End = 0"

definition next_wait :: "nat \<Rightarrow> nat \<Rightarrow> fplace" where
  "next_wait m j = (if j < m then Wt j else Unmap)"

lemma next_wait: "j \<le> m \<Longrightarrow> fat h argv m m (next_wait m j) = fwaits m j \<and> fok h argv m m (next_wait m j) \<and>
    fstage (next_wait m j) = 2 \<and> frk m (next_wait m j) \<le> 3 + (m - j) \<and> next_wait m j \<noteq> End"
  by (auto simp: next_wait_def fwaits_simps le_less)

lemma pub_way: "ways (pf_idle h m) m (Suc m) (publish h prog m m) (arrive m m)"
  using ways_for [of "pf_idle h m" m "spawn_self h prog EXIT_FAIL" m 0 "\<lambda>_. arrive m m"]
  by (simp add: publish_def spawn_self_def chk_def pf_idle_def)

text \<open>One participant goes on within its stage; \<open>w'\<close> says of the others what \<open>w\<close> said.\<close>

lemma pf_move:
  assumes I: "pf_inv h argv m pl w" and i: "i \<le> m" and q: "fstage q = fstage (pl i)" "fok h argv m i q"
    and low: "fstage q < 2 \<Longrightarrow> gone w' = gone w \<and> (1 \<le> shown q \<longrightarrow> page i \<in> mapped w') \<and>
        (2 \<le> shown q \<longrightarrow> maps w' (int i) = Some (page i)) \<and> mapped w \<subseteq> mapped w' \<and> (\<forall>j. j \<noteq> i \<longrightarrow> maps w' (int j) = maps w (int j))"
    and high: "fstage q = 2 \<Longrightarrow> (q = End \<longleftrightarrow> i \<in> gone w') \<and> (\<forall>j. j \<noteq> i \<longrightarrow> (j \<in> gone w' \<longleftrightarrow> j \<in> gone w))"
  shows "pf_inv h argv m (pl(i := q)) w'"
proof -
  obtain s where s: "\<And>j. j \<le> m \<Longrightarrow> fstage (pl j) = s \<and> fok h argv m j (pl j)" "pages_ok m s pl w"
    using I by (auto simp: pf_inv_def)
  have qs: "fstage q = s" using q(1) s(1) [OF i] by simp
  have "pages_ok m s (pl(i := q)) w'"
    using s(2) low high unfolding pages_ok_def qs by (auto simp: subset_iff)
  then show ?thesis unfolding pf_inv_def using s(1) q(2) qs by (intro exI [of _ s]) simp
qed

lemma pf_entries:
  assumes "pf_inv h argv m pl w" "i \<le> m" "fstage (pl i) = 1" "j \<le> m"
  shows "maps w (int j) = Some (page j)" "page j \<in> mapped w"
proof -
  obtain s where s: "\<And>j. j \<le> m \<Longrightarrow> fstage (pl j) = s" "pages_ok m s pl w"
    using assms(1) unfolding pf_inv_def by blast
  have "s = 1" using s(1) [OF assms(2)] assms(3) by simp
  then have "2 \<le> shown (pl j)" if "fok h argv m j (pl j)"
    using s(1) [OF assms(4)] that by (cases "pl j") (auto split: if_splits)
  moreover have "fok h argv m j (pl j)" using assms(1,4) by (auto simp: pf_inv_def)
  ultimately have "2 \<le> shown (pl j)" by blast
  then show "maps w (int j) = Some (page j)" "page j \<in> mapped w"
    using s(2) \<open>s = 1\<close> assms(4) by (auto simp: pages_ok_def)
qed

lemma bar_wait_call: "bar_wait a k = Call c f \<Longrightarrow> is_bar c"
  by (auto simp: bar_wait_def chk_def)

lemma pf_call:
  assumes I: "pf_inv h argv m pl w" and i: "i < Suc m"
    and c: "fat h argv m i (pl i) = Call c k" "\<not> is_bar c" and r: "pf_sem h m i c w = Some (r, w')"
  shows "\<exists>q. k r = fat h argv m i q \<and> frk m q < frk m (pl i) \<and> pf_inv h argv m (pl(i := q)) w'"
proof -
  have im: "i \<le> m" using i by simp
  then have ok: "fok h argv m i (pl i)" using I by (auto simp: pf_inv_def)
  note M = pf_move [OF I im]
  show ?thesis
  proof (cases "pl i")
    case Map
    have k: "k r = fat h argv m i Put" "w' = w\<lparr>mapped := insert (page i) (mapped w)\<rparr>"
      using c r Map map_start [OF im, of h argv] by (auto simp: chkv_def Let_def publish_start)
    have "pf_inv h argv m (pl(i := Put)) w'" by (rule M) (use Map k(2) in auto)
    then show ?thesis using k(1) Map by (intro exI [of _ Put]) simp
  next
    case Put
    let ?q = "if i = m then On_way (Suc m) (publish h (argv ! 0) m m) Wait1 else Wait1"
    have k: "k r = fat h argv m i ?q" "w' = w\<lparr>maps := (maps w)(int i \<mapsto> page i)\<rparr>"
      using c r Put by (auto simp: publish_def)
    have "page i \<in> mapped w" using I im Put by (auto simp: pf_inv_def pages_ok_def)
    then have "pf_inv h argv m (pl(i := ?q)) w'"
      by (intro M) (use Put k(2) im pub_way [of h m "argv ! 0"] in \<open>auto simp del: ways.simps(2)\<close>)
    then show ?thesis using k(1) Put by (intro exI [of _ ?q]) auto
  next
    case (Touch xs)
    then obtain x ys where xs: "xs = x # ys" using c by (cases xs) (auto simp: second_def bar_wait_call)
    then obtain j where j: "x = int j" "j \<le> m" using ok Touch by auto
    have k: "k r = fat h argv m i (Poke (page j) ys)" "w' = w"
      using c r Touch xs j pf_entries [OF I im, of j] by auto
    have "pf_inv h argv m (pl(i := Poke (page j) ys)) w'"
      by (rule M) (use Touch xs j k(2) ok pf_entries [OF I im, of i] im in auto)
    then show ?thesis using k(1) Touch xs by (intro exI [of _ "Poke (page j) ys"]) simp
  next
    case (Poke x xs)
    have k: "k r = fat h argv m i (Touch xs)" "w' = w" using c r Poke by (auto split: if_splits)
    have "pf_inv h argv m (pl(i := Touch xs)) w'"
      by (rule M) (use Poke k(2) ok pf_entries [OF I im, of i] im in auto)
    then show ?thesis using k(1) Poke by (intro exI [of _ "Touch xs"]) simp
  next
    case (Wt j)
    then have j: "i = m" "j < m" using ok by auto
    have k: "k r = fat h argv m i (next_wait m (Suc j))" "w' = w"
      using c r Wt j next_wait [of "Suc j" m h argv] by (auto simp: fwaits_simps(2) chk_def split: if_splits)
    have "m \<notin> gone w" using I Wt j(1) by (auto simp: pf_inv_def pages_ok_def)
    then have "pf_inv h argv m (pl(i := next_wait m (Suc j))) w'"
      by (intro M) (use Wt k(2) j next_wait [of "Suc j" m h argv] in auto)
    then show ?thesis using k(1) Wt j next_wait [of "Suc j" m h argv] by (intro exI [of _ "next_wait m (Suc j)"]) auto
  next
    case Unmap
    have k: "k r = fat h argv m i Fin" "w' = w\<lparr>mapped := mapped w - {page i}\<rparr>"
      using c r Unmap by (auto simp: unmap_def chk_def)
    have "i \<notin> gone w" using I im Unmap by (auto simp: pf_inv_def pages_ok_def)
    then have "pf_inv h argv m (pl(i := Fin)) w'" by (intro M) (use Unmap k(2) in auto)
    then show ?thesis using k(1) Unmap by (intro exI [of _ Fin]) simp
  next
    case Fin
    have k: "k r = fat h argv m i End" "w' = w\<lparr>gone := insert i (gone w)\<rparr>"
      using c r Fin by (auto simp: leave_def chk_def)
    have "pf_inv h argv m (pl(i := End)) w'" by (rule M) (use Fin k(2) in auto)
    then show ?thesis using k(1) Fin by (intro exI [of _ End]) simp
  next
    case (On_way d p q)
    then obtain e where d: "d = Suc e" using ok by (cases d) auto
    let ?q = "if e = 0 then q else On_way e (k r) q"
    have k: "w' = w" "ways (pf_idle h m) i e (k r) (fat h argv m i q)"
      using ways_step [OF pf_idle, of h m i e c k "fat h argv m i q" w r w'] ok c(1) On_way d r by auto
    have "page i \<in> mapped w \<and> maps w (int i) = Some (page i)" if "q = Wait1"
      using I im On_way that by (auto simp: pf_inv_def pages_ok_def)
    then have "pf_inv h argv m (pl(i := ?q)) w'"
      by (intro M) (use On_way d ok k in \<open>auto simp del: ways.simps(2)\<close>)
    then show ?thesis using On_way d k(2) by (intro exI [of _ ?q]) auto
  qed (use c in \<open>auto simp: arrive_def bar_wait_call\<close>)
qed

section \<open>The barriers, and the end\<close>

lemma fat_bar:
  assumes "fok h argv m i pl" "i \<le> m" "at_bar (fat h argv m i pl)"
  shows "pl = Wait1 \<or> pl = Touch []"
proof (cases pl)
  case (Touch xs)
  then show ?thesis using assms by (cases xs) simp_all
next
  case (Wt j)
  then show ?thesis using assms by (auto simp: fwaits_simps(2) chk_def)
next
  case (On_way d p q)
  then show ?thesis using assms by (cases d) auto
next
  case Map
  then show ?thesis using assms map_start [OF assms(2), of h argv] by (simp del: fat.simps(1))
qed (use assms in \<open>auto simp: unmap_def leave_def chk_def\<close>)

definition freed :: "nat \<Rightarrow> tid \<Rightarrow> fplace \<Rightarrow> fplace" where
  "freed m i pl = (if pl = Wait1 then Touch (order m i) else if i = m then next_wait m 0 else Unmap)"

lemma freed:
  assumes "pl = Wait1 \<or> pl = Touch []" "i \<le> m"
  shows "resume (fat h argv m i pl) 0 = fat h argv m i (freed m i pl)" "frk m (freed m i pl) < frk m pl"
    "fstage (freed m i pl) = Suc (fstage pl)" "fok h argv m i (freed m i pl)" "freed m i pl \<noteq> End"
    "shown pl = 2"
  using assms next_wait [of 0 m h argv] order_set [OF assms(2)]
  by (auto simp: freed_def arrive_def second_def bar_wait_def chk_def order_length)

lemma pf_release:
  assumes I: "pf_inv h argv m pl w" and A: "\<forall>i<Suc m. at_bar (fat h argv m i (pl i)) \<and> rvs i = 0"
  shows "\<exists>q. (\<forall>i<Suc m. resume (fat h argv m i (pl i)) (rvs i) = fat h argv m i (q i) \<and> frk m (q i) < frk m (pl i)) \<and>
    pf_inv h argv m q w"
proof -
  obtain s where s: "\<And>j. j \<le> m \<Longrightarrow> fstage (pl j) = s \<and> fok h argv m j (pl j)" "pages_ok m s pl w"
    using I by (auto simp: pf_inv_def)
  have bar: "pl i = Wait1 \<or> pl i = Touch []" if "i \<le> m" for i using fat_bar [of h argv m i "pl i"] s(1) [OF that] A that by simp
  note F = freed [OF bar]
  have "s < 2" using bar [of m] s(1) [of m] by auto
  then have "pages_ok m (Suc s) (\<lambda>i. freed m i (pl i)) w"
    using s(2) F(5,6) unfolding pages_ok_def by simp
  then have "pf_inv h argv m (\<lambda>i. freed m i (pl i)) w"
    unfolding pf_inv_def using F(3,4) s(1) by (intro exI [of _ "Suc s"]) simp
  then show ?thesis using F(1,2) A by (intro exI [of _ "\<lambda>i. freed m i (pl i)"]) simp
qed

lemma pf_can:
  assumes I: "pf_inv h argv m pl w" and i: "i \<le> m" and n: "pl i \<notin> {Wait1, Touch [], End}"
    and wt: "\<And>j. pl i = Wt j \<Longrightarrow> j \<in> gone w"
  shows "\<exists>c k x. fat h argv m i (pl i) = Call c k \<and> \<not> is_bar c \<and> pf_sem h m i c w = Some x"
proof -
  have ok: "fok h argv m i (pl i)" using I i by (auto simp: pf_inv_def)
  show ?thesis
  proof (cases "pl i")
    case Map
    then show ?thesis using map_start [OF i, of h argv] by (simp del: fat.simps(1))
  next
    case (Touch xs)
    then obtain x ys where xs: "xs = x # ys" using n by (cases xs) auto
    then obtain j where "x = int j" "j \<le> m" using ok Touch by auto
    then show ?thesis using Touch xs pf_entries(1) [OF I i, of j] by simp
  next
    case (Poke x xs)
    then obtain j where "x = page j" "j \<le> m" using ok by auto
    then show ?thesis using Poke pf_entries(2) [OF I i, of j] by simp
  next
    case (Wt j)
    then show ?thesis using ok wt by (auto simp: fwaits_simps(2) chk_def)
  next
    case (On_way d p q)
    then obtain e where d: "d = Suc e" using ok by (cases d) auto
    show ?thesis using ways_can [OF pf_idle, of h m i e p "fat h argv m i q" w] ok On_way d by auto
  qed (use n in \<open>auto simp: unmap_def leave_def chk_def\<close>)
qed

lemma pf_live:
  assumes I: "pf_inv h argv m pl w"
  shows "(\<forall>i\<le>m. pl i = End) \<or> (\<forall>i<Suc m. at_bar (fat h argv m i (pl i))) \<or>
    (\<exists>i<Suc m. \<exists>c k x. fat h argv m i (pl i) = Call c k \<and> \<not> is_bar c \<and> pf_sem h m i c w = Some x)"
proof (rule ccontr)
  assume N: "\<not> ?thesis"
  obtain s where s: "\<And>j. j \<le> m \<Longrightarrow> fstage (pl j) = s \<and> fok h argv m j (pl j)" "pages_ok m s pl w"
    using I by (auto simp: pf_inv_def)
  have stuck: "pl i \<in> {Wait1, Touch [], End} \<or> (\<exists>j. pl i = Wt j \<and> j \<notin> gone w)" if "i \<le> m" for i
    using pf_can [OF I that] N that by (meson le_imp_less_Suc)
  show False
  proof (cases "s < 2")
    case True
    then have "at_bar (fat h argv m i (pl i))" if "i \<le> m" for i
      using stuck [OF that] s(1) [OF that] by (auto simp: arrive_def second_def bar_wait_bars)
    then show False using N by simp
  next
    case False
    have high: "pl i = End \<or> (\<exists>j. pl i = Wt j \<and> j \<notin> gone w)" if "i \<le> m" for i
      using stuck [OF that] s(1) [OF that] False by auto
    from high [OF le_refl] have "fstage (pl m) = 2" by (elim disjE exE conjE) simp_all
    then have "s = 2" using s(1) [OF le_refl] by simp
    have "pl i = End" if "i < m" for i using high [of i] s(1) [of i] that by auto
    then have "\<forall>j<m. j \<in> gone w" using s(2) \<open>s = 2\<close> by (auto simp: pages_ok_def)
    then have "pl m = End" using high [of m] s(1) [of m] by auto
    with \<open>\<And>i. i < m \<Longrightarrow> pl i = End\<close> have "\<forall>i\<le>m. pl i = End" by (auto simp: le_less)
    then show False using N by blast
  qed
qed

lemma pf_places:
  assumes "barrier (Suc m) rel (\<lambda>v. v = 0)"
  shows "place_system (Suc m) rel (\<lambda>v. v = 0) (pf_sem h m) (fat h argv m) (pf_inv h argv m) (\<lambda>_. frk m)
    (\<lambda>pl w. \<forall>i\<le>m. pl i = End)"
proof (intro place_system.intro assms, unfold_locales)
  fix pl w i c k r w'
  assume "pf_inv h argv m pl w" "i < Suc m" "fat h argv m i (pl i) = Call c k" "\<not> is_bar c" "pf_sem h m i c w = Some (r, w')"
  then show "\<exists>q. k r = fat h argv m i q \<and> frk m q < frk m (pl i) \<and> pf_inv h argv m (pl(i := q)) w'"
    using pf_call [where pl = pl and i = i] by blast
qed (use pf_release pf_live in blast)+

lemma write_mapped:
  assumes I: "pf_inv h argv m pl w" and i: "i \<le> m" and c: "fat h argv m i (pl i) = Call (Sys (Lib ''write'' [x, v])) k"
  shows "x \<in> mapped w"
proof -
  have ok: "fok h argv m i (pl i)" using I i by (auto simp: pf_inv_def)
  show ?thesis
  proof (cases "pl i")
    case Map
    then show ?thesis using c map_start [OF i, of h argv] by (simp del: fat.simps(1))
  next
    case (Touch xs)
    then show ?thesis using c by (cases xs) (auto simp: second_def bar_wait_def chk_def)
  next
    case (Poke y xs)
    then obtain j where "y = page j" "j \<le> m" using ok by auto
    then show ?thesis using c Poke pf_entries(2) [OF I i, of j] by simp
  next
    case (Wt j)
    then show ?thesis using ok c by (auto simp: fwaits_simps(2) chk_def)
  next
    case (On_way d p q)
    then show ?thesis using ok c by (cases d) (auto simp: pf_idle_def)
  qed (use c in \<open>auto simp: unmap_def leave_def chk_def arrive_def bar_wait_def\<close>)
qed

definition pf_start :: pages where "pf_start = \<lparr>maps = \<lambda>_. None, mapped = {}, gone = {}\<rparr>"

definition pf_args :: "pip_h \<Rightarrow> string list \<Rightarrow> nat \<Rightarrow> bool" where
  "pf_args h argv m \<longleftrightarrow> 0 < m \<and> arg_int argv 1 0 = int m \<and> int m \<le> NTASKS h \<and> PIPID_ROOT h < 0"

lemma main_way: "pf_args h argv m \<Longrightarrow> i \<le> m \<Longrightarrow> ways (pf_idle h m) i 3 (pagefault_main h argv) (fat h argv m i Map)"
  by (auto simp: pf_args_def pagefault_main_def ntasks_guard_def numeral_3_eq_3 pf_idle_def chk_def Let_def)

definition first_place :: "pip_h \<Rightarrow> string list \<Rightarrow> tid \<Rightarrow> fplace" where
  "first_place h argv i = On_way 3 (pagefault_main h argv) Map"

lemma pf_begins:
  assumes "pf_args h argv m"
  shows "pf_inv h argv m (first_place h argv) pf_start" "pagefault_main h argv = fat h argv m i (first_place h argv i)"
proof -
  show "pf_inv h argv m (first_place h argv) pf_start" unfolding pf_inv_def
    using main_way [OF assms] by (intro exI [of _ 0]) (simp add: first_place_def pages_ok_def pf_start_def del: fat.simps(1))
qed (simp add: first_place_def)

lemma pf_terminates:
  assumes "barrier (Suc m) rel (\<lambda>v. v = 0)" "pf_args h argv m"
  shows "Wellfounded.accp (\<lambda>x y. step (Suc m) (pf_sem h m) rel y x) (\<lambda>_. pagefault_main h argv, pf_start)"
  by (rule place_system.places_terminate [OF pf_places [OF assms(1)] pf_begins [OF assms(2)]])

text \<open>C11: in the page fault test no task ever writes to a page that is not mapped, in whatever order the tasks
publish, touch and unmap their pages: a page is written to only between the barriers, and only unmapped after the
second; and every run ends, with the root and all tasks returning 0.\<close>

theorem pagefault_safe:
  assumes "barrier (Suc m) rel (\<lambda>v. v = 0)" "pf_args h argv m"
    and "steps (Suc m) (pf_sem h m) rel (\<lambda>_. pagefault_main h argv, pf_start) c"
  shows "(\<forall>i\<le>m. \<forall>x v k. fst c i = Call (Sys (Lib ''write'' [x, v])) k \<longrightarrow> x \<in> mapped (snd c)) \<and>
    Wellfounded.accp (\<lambda>x y. step (Suc m) (pf_sem h m) rel y x) (\<lambda>_. pagefault_main h argv, pf_start) \<and>
    (\<not> (\<exists>c'. step (Suc m) (pf_sem h m) rel c c') \<longrightarrow> finished (Suc m) (\<lambda>_. 0) c)"
proof -
  note P = pf_places [OF assms(1), of h argv] and B = pf_begins [OF assms(2)]
  note 1 = pf_terminates [OF assms(1,2)]
  obtain pl where pl: "\<And>i. i < Suc m \<Longrightarrow> fst c i = fat h argv m i (pl i)" "pf_inv h argv m pl (snd c)"
    by (rule place_system.places_reach [OF P B assms(3)]) (rule that)
  have 2: "x \<in> mapped (snd c)" if "i \<le> m" "fst c i = Call (Sys (Lib ''write'' [x, v])) k" for i x v k
    by (rule write_mapped [OF pl(2) that(1), of x v k]) (use pl(1) [of i] that in simp)
  have 3: "finished (Suc m) (\<lambda>_. 0) c" if stuck: "\<not> (\<exists>c'. step (Suc m) (pf_sem h m) rel c c')"
  proof -
    obtain q where "\<And>i. i < Suc m \<Longrightarrow> fst c i = fat h argv m i (q i)" "\<forall>i\<le>m. q i = End"
      by (rule place_system.places_end [OF P B assms(3) stuck]) (rule that)
    then show ?thesis by (simp add: finished_def)
  qed
  show ?thesis using 1 2 3 by blast
qed

lemma pagefault_safe_witness:
  "\<exists>c. steps (Suc 2) (pf_sem h_sample 2) (all_release (Suc 2)) (\<lambda>_. pagefault_main h_sample [''pagefault'', ''2''], pf_start) c \<and>
     finished (Suc 2) (\<lambda>_. 0) c"
proof -
  have bar: "barrier (Suc 2) (all_release (Suc 2)) (\<lambda>v. v = 0)" by (rule all_release_barrier) simp
  have a: "pf_args h_sample [''pagefault'', ''2''] 2"
    by (simp add: pf_args_def arg_int_def h_sample_def NTASKS_def strtol_eval)
  obtain c where c: "steps (Suc 2) (pf_sem h_sample 2) (all_release (Suc 2)) (\<lambda>_. pagefault_main h_sample [''pagefault'', ''2''], pf_start) c"
    "\<not> (\<exists>c'. step (Suc 2) (pf_sem h_sample 2) (all_release (Suc 2)) c c')"
    using ends_somewhere [OF pf_terminates [OF bar a]] by auto
  from pagefault_safe [OF bar a c(1)] c show ?thesis by (intro exI [of _ c]) simp
qed

end
