(* ===== verification/ApiLoops.thy ===== *)
theory ApiLoops
  imports AtomicTests InitTests Plans
begin

text \<open>
  Tests that make calls of the PiP library or the system again and again and check every answer:
  \<open>blt/pip_yield.c\<close>, \<open>blt/migrate.c\<close>, \<open>blt/pip_couple.c\<close>, \<open>pthread/pthread.c\<close>, \<open>pthread/pthread_exit.c\<close>,
  \<open>compat/sigchld.c\<close>, \<open>compat/sid.c\<close>, \<open>compat/getaddrinfo.c\<close> and five shorter ones of \<open>compat\<close>. Each of the thirteen
  decides a plan: the list of its calls, every round of its loops included, and of the answers it takes.
\<close>

abbreviation lib :: "string \<Rightarrow> int list \<Rightarrow> call" where "lib f a \<equiv> Sys (Lib f a)"

text \<open>\<open>RV!=0 \&\& RV!=EINTR\<close>.\<close>

abbreviation not_yielded :: "resp \<Rightarrow> bool" where "not_yielded r \<equiv> rv r \<noteq> 0 \<and> rv r \<noteq> EINTR"

section \<open>blt: pip\_yield, migrate, pip\_couple\<close>

definition YIELD_NITERS :: int where "YIELD_NITERS = 1000"

definition pip_yield_main :: "string list \<Rightarrow> int prog" where
  "pip_yield_main argv =
     (let niters = niters_arg argv 1 YIELD_NITERS in
      chk (Pip (Pip_init False None False 0)) nz (Ret EXIT_FAIL) (\<lambda>_.
      finE (for_range 0 (nat niters)
              (\<lambda>_ _. chk (Pip Pip_yield) not_yielded (Ret (Inl EXIT_FAIL)) (\<lambda>_. Ret (Inr ()))) ()) (\<lambda>_.
      chk (Pip Pip_fin) nz (Ret EXIT_FAIL) (\<lambda>_. Ret 0))))"

text \<open>A status collected by the root: \<open>CHECK( WEXITSTATUS( status ), RV, ... )\<close> or \<open>Task is signaled\<close>.\<close>

definition wait_passed :: "int \<Rightarrow> unit \<Rightarrow> (int + unit) prog" where
  "wait_passed i u =
     chk (Pip (Pip_wait_any False True)) nz (Ret (Inl EXIT_FAIL)) (\<lambda>r. let status = stored (o2 r) 0 in
       if WIFEXITED status then chkv (WEXITSTATUS status) (\<lambda>v. v \<noteq> 0) (Ret (Inl EXIT_FAIL)) (Ret (Inr ()))
       else chkv 1 (\<lambda>v. v \<noteq> 0) (Ret (Inl EXIT_UNRESOLVED)) (Ret (Inr ())))"

definition LOOP_NITERS :: int where "LOOP_NITERS = 100"

text \<open>The queue index \<open>-1\<close> is the NULL that is passed for the task queue.\<close>

definition migrate_spawn :: "int \<Rightarrow> unit \<Rightarrow> (int + unit) prog" where
  "migrate_spawn i u =
     chk (Pip (Pip_blt_spawn (c_rem i 10) True i (- 1))) nz (Ret (Inl EXIT_FAIL)) (\<lambda>_. Ret (Inr ()))"

definition migrate_main :: "pip_h \<Rightarrow> string list \<Rightarrow> int prog" where
  "migrate_main h argv =
     finE (ntasks_guard (NTASKS h) argv) (\<lambda>ntasks. let niters = niters_arg argv 2 LOOP_NITERS in
     chk (Pip (Pip_init True (Some ntasks) True 0)) nz (Ret EXIT_FAIL) (\<lambda>r.
     let pipid = stored (o1 r) 0; ntasks = stored (o2 r) ntasks; out = Ret (Inl EXIT_FAIL) in
     finE (if pipid = PIPID_ROOT h then
             chk (Pip (Pip_barrier_init ntasks)) nz out (\<lambda>_.
             Call (lib ''pip_spawn_from_main'' []) (\<lambda>_.
             seqE (for_range 0 (nat ntasks) migrate_spawn ()) (\<lambda>_.
             for_range 0 (nat ntasks) wait_passed ())))
           else
             let nxt = (if pipid = ntasks - 1 then 0 else pipid + 1) in
             chk (lib ''pip_get_task_from_pipid'' [nxt]) nz out (\<lambda>r. let task = stored (o1 r) 0 in
             bar_wait out
              (seqE (for_range 0 (nat niters) (\<lambda>_ _. chk (lib ''pip_migrate'' [task]) nz out (\<lambda>_. Ret (Inr ()))) ()) (\<lambda>_.
               bar_wait out (Ret (Inr ())))))) (\<lambda>_.
     chk (Pip Pip_fin) nz (Ret EXIT_FAIL) (\<lambda>_. Ret 0))))"

definition couple_ntasks :: "pip_h \<Rightarrow> string list \<Rightarrow> int" where
  "couple_ntasks h argv =
     (let ntasks = arg_int argv 1 0;
          ntasks = (if ntasks \<le> 0 then NTASKS h - 1 else ntasks);
          ntasks = (if ntasks \<ge> NTASKS h then NTASKS h - 1 else ntasks) in
      ntasks + 1)"

text \<open>The loops \<open>while(1)\<close> over the queue, and \<open>while( ( err = pip\_yield() ) == 0 )\<close>.\<close>

definition dequeue_body :: "unit \<Rightarrow> (unit + int) prog" where
  "dequeue_body u = Call (lib ''pip_task_queue_dequeue'' []) (\<lambda>r.
     if rv r \<noteq> 0 then Ret (Inr (rv r)) else Call (Pip Pip_yield) (\<lambda>_. Ret (Inl ())))"

definition yield_body :: "unit \<Rightarrow> (unit + int) prog" where
  "yield_body u = Call (Pip Pip_yield) (\<lambda>r. Ret (if rv r = 0 then Inl () else Inr (rv r)))"

definition collect_round :: "nat \<Rightarrow> int \<Rightarrow> unit \<Rightarrow> (int option + unit) prog" where
  "collect_round fuel i u =
     bind (loop fuel dequeue_body ()) (\<lambda>t. case t of None \<Rightarrow> Ret (Inl None)
       | Some task \<Rightarrow> Call (lib ''pip_task_queue_enqueue'' [task]) (\<lambda>_. Ret (Inr ())))"

definition couple_last :: "pip_h \<Rightarrow> nat \<Rightarrow> int \<Rightarrow> int \<Rightarrow> (int option + unit) prog" where
  "couple_last h fuel ntasks niters =
     (let out = Ret (Inl (Some EXIT_FAIL)) in
      Call (lib ''pip_task_queue_init'' []) (\<lambda>_.
      chk (lib ''pip_get_task_by_pipid'' [PIPID_MYSELF h]) nz out (\<lambda>r. let task = stored (o1 r) 0 in
      Call (lib ''pip_task_self'' []) (\<lambda>r. chkv (c_bool (rv r \<noteq> task)) (\<lambda>v. v \<noteq> 0) out
      (seqE (for_range 0 (nat (ntasks - 1)) (collect_round fuel) ()) (\<lambda>_.
       chk (lib ''pip_dequeue_and_resume_N'' [task]) nz out (\<lambda>_.
       for_range 0 (nat niters) (\<lambda>_ _. bind (loop fuel yield_body ()) (\<lambda>x. case x of None \<Rightarrow> Ret (Inl None)
         | Some err \<Rightarrow> chkv (c_bool (err \<noteq> EINTR)) (\<lambda>v. v \<noteq> 0) out (Ret (Inr ())))) ())))))))"

definition couple_task :: "int \<Rightarrow> (int option + unit) prog" where
  "couple_task niters =
     (let out = Ret (Inl (Some EXIT_FAIL)) in
      chk (lib ''pip_suspend_and_enqueue'' []) nz out (\<lambda>_.
      for_range 0 (nat niters) (\<lambda>_ _.
        chk (lib ''pip_couple'' []) nz out (\<lambda>_. chk (lib ''pip_decouple'' []) nz out (\<lambda>_. Ret (Inr ())))) ()))"

definition couple_spawn :: "pip_h \<Rightarrow> int \<Rightarrow> unit \<Rightarrow> (int option + unit) prog" where
  "couple_spawn h i u =
     chk (Pip (Pip_blt_spawn (CPUCORE_ASIS h) True i (- 1))) nz (Ret (Inl (Some EXIT_FAIL))) (\<lambda>_. Ret (Inr ()))"

definition couple_wait :: "int \<Rightarrow> unit \<Rightarrow> (int option + unit) prog" where
  "couple_wait i u = bind (wait_passed i u) (\<lambda>x. case x of Inl v \<Rightarrow> Ret (Inl (Some v)) | Inr _ \<Rightarrow> Ret (Inr ()))"

definition couple_run :: "pip_h \<Rightarrow> nat \<Rightarrow> int \<Rightarrow> int \<Rightarrow> int option prog" where
  "couple_run h fuel ntasks niters =
     Call (lib ''pip_spawn_from_main'' []) (\<lambda>_.
     chk (Pip (Pip_init True (Some ntasks) True 0)) nz (Ret (Some EXIT_FAIL)) (\<lambda>r.
     let pipid = stored (o1 r) 0; ntasks = stored (o2 r) ntasks; out = Ret (Inl (Some EXIT_FAIL)) in
     finE (if pipid = PIPID_ROOT h then
             chk (lib ''pip_task_queue_init'' []) nz out (\<lambda>_.
             chk (Pip (Pip_barrier_init ntasks)) nz out (\<lambda>_.
             seqE (for_range 0 (nat ntasks) (couple_spawn h) ()) (\<lambda>_. for_range 0 (nat ntasks) couple_wait ())))
           else seqE (if pipid < ntasks - 1 then couple_task niters else couple_last h fuel ntasks niters) (\<lambda>_.
             bar_wait out (Ret (Inr ())))) (\<lambda>_.
     chk (Pip Pip_fin) nz (Ret (Some EXIT_FAIL)) (\<lambda>_. Ret (Some 0)))))"

definition pip_couple_main :: "pip_h \<Rightarrow> nat \<Rightarrow> string list \<Rightarrow> int option prog" where
  "pip_couple_main h fuel argv =
     (let ntasks = couple_ntasks h argv in
      Call (Sys (Getenv ''NTASKS'')) (\<lambda>r.
        if (case strv r of Some env \<Rightarrow> ntasks > atoi32 env | None \<Rightarrow> False) then Ret (Some EXIT_UNTESTED)
        else couple_run h fuel ntasks (niters_arg argv 2 LOOP_NITERS)))"

section \<open>pthread: pthread, pthread\_exit\<close>

definition PT_NTHREADS :: int where "PT_NTHREADS = 10"
definition PT_NITERS :: int where "PT_NITERS = 10"

definition thread_rounds :: "int \<Rightarrow> int \<Rightarrow> (int + unit) prog" where
  "thread_rounds nthreads niters =
     for_range 0 (nat niters) (\<lambda>_ _. seqE (create_threads EXIT_FAIL nthreads) (\<lambda>_. join_threads EXIT_FAIL nthreads)) ()"

text \<open>What the threads run: the one returns NULL, the other ends itself.\<close>

definition pthread_thread :: "int prog" where "pthread_thread = Ret 0"

definition pthread_exit_thread :: "int prog" where
  "pthread_exit_thread = Call (lib ''pthread_exit'' [0]) (\<lambda>_. Ret 0)"

definition pthread_main :: "string list \<Rightarrow> int prog" where
  "pthread_main argv =
     (let nthreads = arg_int argv 1 0;
          nthreads = (if nthreads \<le> 0 then PT_NTHREADS else nthreads);
          nthreads = (if nthreads > PT_NTHREADS then PT_NTHREADS else nthreads);
          niters = niters_arg argv 2 PT_NITERS in
      chk (Pip (Pip_get_pipid True)) nz (Ret EXIT_FAIL) (\<lambda>r. let pipid = stored (o1 r) 0 in
      chk (Pip Pip_get_ntasks) nz (Ret EXIT_FAIL) (\<lambda>r. let ntasks = stored (o1 r) 0 in
      finE (if pipid = 0 then
              chk (Pip (Pip_barrier_init ntasks)) nz (Ret (Inl EXIT_FAIL)) (\<lambda>_.
              chk (Pip (Pip_named_export ''barrier'')) nz (Ret (Inl EXIT_FAIL)) (\<lambda>_. Ret (Inr ())))
            else chk (Pip (Pip_named_import 0 ''barrier'')) nz (Ret (Inl EXIT_FAIL)) (\<lambda>_. Ret (Inr ()))) (\<lambda>_.
      bar_wait (Ret EXIT_FAIL) (finE (thread_rounds nthreads niters) (\<lambda>_. Ret 0))))))"

definition pthread_exit_main :: "string list \<Rightarrow> int prog" where
  "pthread_exit_main argv =
     (let nthreads = arg_int argv 1 0;
          nthreads = (if nthreads = 0 then PT_NTHREADS else nthreads);
          nthreads = (if nthreads > PT_NTHREADS then PT_NTHREADS else nthreads);
          niters = niters_arg argv 2 PT_NITERS in
      finE (thread_rounds nthreads niters) (\<lambda>_. Ret 0))"

section \<open>compat: sigchld and sid\<close>

definition SIGCHLD :: int where "SIGCHLD = 17"

definition sigchld_handler :: "unit prog" where
  "sigchld_handler = Call (Mem (Load ''count_sigchld'')) (\<lambda>r.
     Call (Mem (Store ''count_sigchld'' (to_int32 (rv r + 1)))) (\<lambda>_. Ret ()))"

definition sigchld_round :: "pip_h \<Rightarrow> string \<Rightarrow> int \<Rightarrow> unit \<Rightarrow> (int + unit) prog" where
  "sigchld_round h prog i u =
     chk (Pip (Pip_spawn (Some prog) (CPUCORE_ASIS h) (Some i) None)) nz (Ret (Inl EXIT_FAIL)) (\<lambda>_.
     chk (Pip (Pip_wait_any False False)) nz (Ret (Inl EXIT_FAIL)) (\<lambda>_. Ret (Inr ())))"

definition sigchld_root :: "pip_h \<Rightarrow> string \<Rightarrow> int \<Rightarrow> (int + unit) prog" where
  "sigchld_root h prog ntasks =
     (let out = Ret (Inl EXIT_FAIL) in
      chk (lib ''sigemptyset'' []) nz out (\<lambda>_.
      chk (lib ''sigaddset'' [SIGCHLD]) nz out (\<lambda>_.
      chk (Sys (Sigaction SIGCHLD ''sigchld_handler'')) nz out (\<lambda>_.
      seqE (for_range 0 (nat ntasks) (sigchld_round h prog) ()) (\<lambda>_.
      Call (Mem (Load ''count_sigchld'')) (\<lambda>r. Call (lib ''printf'' [rv r, ntasks]) (\<lambda>_.
      Call (Mem (Load ''count_sigchld'')) (\<lambda>r.
        chkv (c_bool (rv r \<noteq> ntasks)) (\<lambda>v. v \<noteq> 0) out (Ret (Inr ()))))))))))"

text \<open>A task leaves with \<open>pip\_exit\<close>; the check that follows is there for a \<open>pip\_exit\<close> that returns.\<close>

definition sigchld_main :: "pip_h \<Rightarrow> string list \<Rightarrow> int prog" where
  "sigchld_main h argv =
     finE (ntasks_guard (NTASKS h) argv) (\<lambda>ntasks.
     chk (Pip (Pip_init True (Some ntasks) False 0)) nz (Ret EXIT_FAIL) (\<lambda>r.
     let pipid = stored (o1 r) 0; ntasks = stored (o2 r) ntasks; out = Ret (Inl EXIT_FAIL) in
     finE (if pipid = PIPID_ROOT h then sigchld_root h (argv ! 0) ntasks
           else chk (Pip Pip_fin) nz out (\<lambda>_. Call (Pip (Pip_exit 0)) (\<lambda>_.
             chkv 1 (\<lambda>v. v \<noteq> 0) out (Ret (Inr ()))))) (\<lambda>_.
     chk (Pip Pip_fin) nz (Ret EXIT_FAIL) (\<lambda>_. Ret 0))))"

definition sid_spawn :: "string \<Rightarrow> int \<Rightarrow> unit \<Rightarrow> (int + unit) prog" where
  "sid_spawn prog i u =
     chk (Pip (Pip_spawn (Some prog) i (Some i) None)) nz (Ret (Inl EXIT_FAIL)) (\<lambda>_. Ret (Inr ()))"

definition sid_wait :: "int \<Rightarrow> unit \<Rightarrow> (int + unit) prog" where
  "sid_wait i u = chk (Pip (Pip_wait i False)) nz (Ret (Inl EXIT_FAIL)) (\<lambda>_. Ret (Inr ()))"

definition sid_root :: "string \<Rightarrow> int \<Rightarrow> int \<Rightarrow> (int + unit) prog" where
  "sid_root prog pid ntasks =
     chk (lib ''setsid'' []) (\<lambda>r. rv r < 0) (Ret (Inl EXIT_FAIL)) (\<lambda>r. let sid_new = rv r in
     seqE (for_range 0 (nat ntasks) (sid_spawn prog) ()) (\<lambda>_.
     seqE (for_range 0 (nat ntasks) sid_wait ()) (\<lambda>_.
     Call (lib ''getsid'' [pid]) (\<lambda>r.
       chkv (c_bool (sid_new = rv r)) (\<lambda>v. v \<noteq> 0) (Ret (Inl EXIT_FAIL)) (Ret (Inr ()))))))"

definition check_sid :: "pip_h \<Rightarrow> pip_modes \<Rightarrow> string list \<Rightarrow> int prog" where
  "check_sid h k argv =
     finE (ntasks_guard (NTASKS h) argv) (\<lambda>ntasks.
     Call (lib ''getpid'' []) (\<lambda>r. let pid = rv r in
     chk (lib ''getsid'' [pid]) (\<lambda>r. rv r < 0) (Ret EXIT_FAIL) (\<lambda>_.
     chk (Pip (Pip_init True (Some ntasks) False (MODE_PROCESS k))) nz (Ret EXIT_FAIL) (\<lambda>r.
     let pipid = stored (o1 r) 0; ntasks = stored (o2 r) ntasks in
     finE (if pipid = PIPID_ROOT h then sid_root (argv ! 0) pid ntasks
           else chk (lib ''setsid'' []) (\<lambda>r. rv r < 0) (Ret (Inl EXIT_FAIL)) (\<lambda>_. Ret (Inr ()))) (\<lambda>_.
     chk (Pip Pip_fin) nz (Ret EXIT_FAIL) (\<lambda>_. Ret 0))))))"

text \<open>\<open>main\<close>: a session leader forks first; \<open>junk\<close> is the uninitialised status.\<close>

definition sid_main :: "pip_h \<Rightarrow> pip_modes \<Rightarrow> status \<Rightarrow> string list \<Rightarrow> int prog" where
  "sid_main h k junk argv =
     Call (lib ''getpid'' []) (\<lambda>r. let pid = rv r in
     chk (lib ''getsid'' [pid]) (\<lambda>r. rv r < 0) (Ret EXIT_FAIL) (\<lambda>r. let sid = rv r in
     if sid \<noteq> pid then Call (Sys (Printf ''fork'')) (\<lambda>_. check_sid h k argv)
     else Call (Sys Fork) (\<lambda>r.
       if rv r = 0 then bind (check_sid h k argv) (\<lambda>v. Halt (Exit v))
       else Call (Sys Wait) (\<lambda>r. let status = stored (o1 r) junk in
         if WIFEXITED status then Ret (WEXITSTATUS status)
         else chkv 1 (\<lambda>v. v \<noteq> 0) (Ret EXIT_UNRESOLVED) (Ret 0)))))"

section \<open>compat: names, hosts and libraries\<close>

definition GAI_NITERS :: int where "GAI_NITERS = 100"

definition HOSTNAMELEN :: int where "HOSTNAMELEN = 256"

definition my_getaddrinfo :: "(int \<Rightarrow> int prog) \<Rightarrow> string \<Rightarrow> int prog" where
  "my_getaddrinfo k host =
     Call (lib (''getaddrinfo '' @ host) []) (\<lambda>r.
       if rv r = 0 \<and> stored (o1 r) 0 \<noteq> 0 then Call (lib ''freeaddrinfo'' [stored (o1 r) 0]) (\<lambda>_. k (rv r)) else k (rv r))"

definition gai_test :: "int prog \<Rightarrow> int prog" where
  "gai_test p =
     chk (lib ''gethostname'' [HOSTNAMELEN]) nz exit_fail (\<lambda>r.
     my_getaddrinfo (\<lambda>v. chkv v (\<lambda>v. v \<noteq> 0) exit_fail
      (my_getaddrinfo (\<lambda>v. chkv v (\<lambda>v. v \<noteq> 0) exit_fail p) ''127.0.0.1'')) (case strv r of Some s \<Rightarrow> s | None \<Rightarrow> []))"

primrec gai_rounds :: "nat \<Rightarrow> int prog" where
  "gai_rounds 0 = Ret 0"
| "gai_rounds (Suc n) = gai_test (gai_rounds n)"

definition gai_import :: "int \<Rightarrow> unit \<Rightarrow> (int + unit) prog" where
  "gai_import i u = chk (Pip (Pip_named_import i ''sync'')) nz exit_fail (\<lambda>_. Ret (Inr ()))"

definition getaddrinfo_main :: "string list \<Rightarrow> int prog" where
  "getaddrinfo_main argv =
     (let niters = arg_int argv 1 0; niters = (if niters = 0 then GAI_NITERS else niters) in
      chk (Pip (Pip_get_pipid True)) nz exit_fail (\<lambda>r. let pipid = stored (o1 r) 0 in
      chk (Pip Pip_get_ntasks) nz exit_fail (\<lambda>r. let ntasks = stored (o1 r) 0 in
      if pipid = 0 then
        finE (for_range 1 (nat (ntasks - 1)) gai_import ()) (\<lambda>_.
        chk (Pip (Pip_named_export ''done'')) nz exit_fail (\<lambda>_. gai_rounds (nat niters)))
      else
        chk (Pip (Pip_named_export ''sync'')) nz exit_fail (\<lambda>_.
        chk (Pip (Pip_named_import 0 ''done'')) nz exit_fail (\<lambda>_. gai_rounds (nat niters))))))"

definition gethostname_main :: "int prog" where
  "gethostname_main =
     finE (for_range 0 1000 (\<lambda>_ _. chk (lib ''gethostname'' [HOSTNAMELEN]) nz (Ret (Inl EXIT_FAIL)) (\<lambda>_. Ret (Inr ()))) ())
       (\<lambda>_. Ret 0)"

definition gethostbyname_main :: "int prog" where
  "gethostbyname_main =
     (let look = (\<lambda>name k. chk (lib (''gethostbyname '' @ name) []) (\<lambda>r. rv r = 0) (Ret EXIT_FAIL) (\<lambda>_. k)) in
      look ''127.0.0.1'' (look ''localhost'' (look ''localhost.localdomain'' (Ret 0))))"

definition get_nprocs_main :: "int prog" where
  "get_nprocs_main =
     chk (lib ''get_nprocs'' []) (\<lambda>r. rv r \<le> 0) (Ret EXIT_FAIL) (\<lambda>r. let np = rv r in
     finE (for_range 0 (10 * 1000) (\<lambda>_ _.
       chk (lib ''get_nprocs'' []) (\<lambda>r. rv r \<le> 0) (Ret (Inl EXIT_FAIL)) (\<lambda>r. let n = rv r in
       chkv 1 (\<lambda>_. n \<noteq> np) (Ret (Inl EXIT_FAIL)) (Ret (Inr ())))) ()) (\<lambda>_. Ret 0))"

definition system_main :: "string list \<Rightarrow> int prog" where
  "system_main argv =
     (let command = (if length argv > 1 then argv ! 1 else ''hostname'') in
      chk (Sys (System command)) nz (Ret EXIT_FAIL) (\<lambda>_. Ret 0))"

definition pip_dlopen_main :: "int prog" where
  "pip_dlopen_main =
     chk (Pip (Pip_init False None False 0)) nz (Ret EXIT_FAIL) (\<lambda>_.
     chk (lib ''pip_dlopen'' []) (\<lambda>r. rv r = 0) (Ret EXIT_FAIL) (\<lambda>r.
     chk (lib ''pip_dlsym'' [rv r]) (\<lambda>r. rv r = 0) (Ret EXIT_FAIL) (\<lambda>r.
     chk (lib ''foo'' [rv r]) nz (Ret EXIT_FAIL) (\<lambda>_. Ret 0))))"

section \<open>The plans of blt and pthread\<close>

abbreviation finished_plan :: plan where "finished_plan \<equiv> each [(Pip Pip_fin, returns 0)] Done"

abbreviation met :: "call \<times> (resp \<Rightarrow> bool)" where "met \<equiv> (Pip Pip_barrier_wait, returns 0)"

definition yielded :: "resp \<Rightarrow> bool" where "yielded r \<longleftrightarrow> rv r = 0 \<or> rv r = EINTR"

definition yield_plan :: "string list \<Rightarrow> plan" where
  "yield_plan argv =
     each ([(Pip (Pip_init False None False 0), returns 0)] @
           replicate (nat (niters_arg argv 1 YIELD_NITERS)) (Pip Pip_yield, yielded)) finished_plan"

text \<open>A task was collected that had exited with 0.\<close>

definition exited_well :: "resp \<Rightarrow> bool" where
  "exited_well r \<longleftrightarrow> rv r = 0 \<and> WIFEXITED (stored (o2 r) 0) \<and> WEXITSTATUS (stored (o2 r) 0) = 0"

abbreviation collected_all :: "int \<Rightarrow> duties" where
  "collected_all n \<equiv> replicate (nat n) (Pip (Pip_wait_any False True), exited_well)"

definition migrate_root_plan :: "int \<Rightarrow> plan" where
  "migrate_root_plan n =
     each ([(Pip (Pip_barrier_init n), returns 0), (lib ''pip_spawn_from_main'' [], any_return)] @
       map (\<lambda>i. (Pip (Pip_blt_spawn (c_rem i 10) True i (- 1)), returns 0)) [0..n - 1] @ collected_all n) finished_plan"

definition migrate_task_plan :: "int \<Rightarrow> int \<Rightarrow> int \<Rightarrow> plan" where
  "migrate_task_plan me n niters =
     Expect (lib ''pip_get_task_from_pipid'' [if me = n - 1 then 0 else me + 1]) (returns 0) (\<lambda>r.
     each ([met] @ replicate (nat niters) (lib ''pip_migrate'' [stored (o1 r) 0], returns 0) @ [met]) finished_plan)"

definition migrate_plan :: "pip_h \<Rightarrow> string list \<Rightarrow> plan" where
  "migrate_plan h argv =
     (let m = asked_ntasks (NTASKS h) argv in
      Expect (Sys (Getenv ''NTASKS'')) (within (NTASKS h) argv) (\<lambda>_.
      Expect (Pip (Pip_init True (Some m) True 0)) (returns 0) (\<lambda>r.
        if stored (o1 r) 0 = PIPID_ROOT h then migrate_root_plan (stored (o2 r) m)
        else migrate_task_plan (stored (o1 r) 0) (stored (o2 r) m) (niters_arg argv 2 LOOP_NITERS))))"

text \<open>The polling loops of \<open>pip\_couple\<close>; when their fuel is used up the test has not passed.\<close>

primrec dequeue_plan :: "nat \<Rightarrow> (int \<Rightarrow> plan) \<Rightarrow> plan" where
  "dequeue_plan 0 s = Reject"
| "dequeue_plan (Suc f) s = Expect (lib ''pip_task_queue_dequeue'' []) any_return (\<lambda>r.
     if rv r \<noteq> 0 then s (rv r) else Expect (Pip Pip_yield) any_return (\<lambda>_. dequeue_plan f s))"

primrec requeue_plan :: "nat \<Rightarrow> nat \<Rightarrow> plan \<Rightarrow> plan" where
  "requeue_plan fuel 0 s = s"
| "requeue_plan fuel (Suc n) s = dequeue_plan fuel (\<lambda>task.
     Expect (lib ''pip_task_queue_enqueue'' [task]) any_return (\<lambda>_. requeue_plan fuel n s))"

primrec until_alone_plan :: "nat \<Rightarrow> plan \<Rightarrow> plan" where
  "until_alone_plan 0 s = Reject"
| "until_alone_plan (Suc f) s = Expect (Pip Pip_yield) any_return (\<lambda>r.
     if rv r = 0 then until_alone_plan f s else if rv r = EINTR then s else Reject)"

definition couple_last_plan :: "pip_h \<Rightarrow> nat \<Rightarrow> int \<Rightarrow> int \<Rightarrow> plan" where
  "couple_last_plan h fuel n niters =
     Expect (lib ''pip_task_queue_init'' []) any_return (\<lambda>_.
     Expect (lib ''pip_get_task_by_pipid'' [PIPID_MYSELF h]) (returns 0) (\<lambda>r. let task = stored (o1 r) 0 in
     Expect (lib ''pip_task_self'' []) (returns task) (\<lambda>_.
     requeue_plan fuel (nat (n - 1))
      (Expect (lib ''pip_dequeue_and_resume_N'' [task]) (returns 0) (\<lambda>_.
       (until_alone_plan fuel ^^ nat niters) (each [met] finished_plan))))))"

definition couple_task_plan :: "int \<Rightarrow> plan" where
  "couple_task_plan niters =
     each ([(lib ''pip_suspend_and_enqueue'' [], returns 0)] @
       concat (replicate (nat niters) [(lib ''pip_couple'' [], returns 0), (lib ''pip_decouple'' [], returns 0)]) @ [met])
     finished_plan"

definition couple_root_plan :: "pip_h \<Rightarrow> int \<Rightarrow> plan" where
  "couple_root_plan h n =
     each ([(lib ''pip_task_queue_init'' [], returns 0), (Pip (Pip_barrier_init n), returns 0)] @
       map (\<lambda>i. (Pip (Pip_blt_spawn (CPUCORE_ASIS h) True i (- 1)), returns 0)) [0..n - 1] @ collected_all n) finished_plan"

definition couple_plan :: "pip_h \<Rightarrow> nat \<Rightarrow> string list \<Rightarrow> plan" where
  "couple_plan h fuel argv =
     (let m = couple_ntasks h argv; niters = niters_arg argv 2 LOOP_NITERS in
      Expect (Sys (Getenv ''NTASKS'')) (\<lambda>r. case strv r of Some env \<Rightarrow> m \<le> atoi32 env | None \<Rightarrow> True) (\<lambda>_.
      Expect (lib ''pip_spawn_from_main'' []) any_return (\<lambda>_.
      Expect (Pip (Pip_init True (Some m) True 0)) (returns 0) (\<lambda>r. let me = stored (o1 r) 0; n = stored (o2 r) m in
        if me = PIPID_ROOT h then couple_root_plan h n
        else if me < n - 1 then couple_task_plan niters else couple_last_plan h fuel n niters))))"

text \<open>All threads are created, then all are joined, \<open>niters\<close> times.\<close>

definition thread_duties :: "int \<Rightarrow> int \<Rightarrow> duties" where
  "thread_duties nthreads niters = concat (replicate (nat niters)
     (map (\<lambda>i. (lib ''pthread_create'' [i], returns 0)) [0..nthreads - 1] @
      map (\<lambda>i. (lib ''pthread_join'' [i], returns 0)) [0..nthreads - 1]))"

definition pthread_plan :: "string list \<Rightarrow> plan" where
  "pthread_plan argv =
     (let n = arg_int argv 1 0; nthreads = (if n \<le> 0 then PT_NTHREADS else min n PT_NTHREADS) in
      Expect (Pip (Pip_get_pipid True)) (returns 0) (\<lambda>me. Expect (Pip Pip_get_ntasks) (returns 0) (\<lambda>nt.
      each ((if stored (o1 me) 0 = 0 then
               [(Pip (Pip_barrier_init (stored (o1 nt) 0)), returns 0), (Pip (Pip_named_export ''barrier''), returns 0)]
             else [(Pip (Pip_named_import 0 ''barrier''), returns 0)]) @
            [met] @ thread_duties nthreads (niters_arg argv 2 PT_NITERS)) Done)))"

definition pthread_exit_plan :: "string list \<Rightarrow> plan" where
  "pthread_exit_plan argv =
     (let n = arg_int argv 1 0; nthreads = (if n = 0 then PT_NTHREADS else min n PT_NTHREADS) in
      each (thread_duties nthreads (niters_arg argv 2 PT_NITERS)) Done)"

section \<open>The plans of compat\<close>

definition sigchld_root_plan :: "pip_h \<Rightarrow> string \<Rightarrow> int \<Rightarrow> plan" where
  "sigchld_root_plan h prog n =
     each ([(lib ''sigemptyset'' [], returns 0), (lib ''sigaddset'' [SIGCHLD], returns 0),
            (Sys (Sigaction SIGCHLD ''sigchld_handler''), returns 0)] @
       concat (map (\<lambda>i. [(Pip (Pip_spawn (Some prog) (CPUCORE_ASIS h) (Some i) None), returns 0),
                        (Pip (Pip_wait_any False False), returns 0)]) [0..n - 1]))
     (Expect (Mem (Load ''count_sigchld'')) any_return (\<lambda>r.
      each [(lib ''printf'' [rv r, n], any_return), (Mem (Load ''count_sigchld''), returns n)] finished_plan))"

text \<open>A task leaves by \<open>pip\_exit\<close> or fails.\<close>

definition sigchld_plan :: "pip_h \<Rightarrow> string list \<Rightarrow> plan" where
  "sigchld_plan h argv =
     (let m = asked_ntasks (NTASKS h) argv in
      Expect (Sys (Getenv ''NTASKS'')) (within (NTASKS h) argv) (\<lambda>_.
      Expect (Pip (Pip_init True (Some m) False 0)) (returns 0) (\<lambda>r.
        if stored (o1 r) 0 = PIPID_ROOT h then sigchld_root_plan h (argv ! 0) (stored (o2 r) m) else Reject)))"

text \<open>The root makes a session of its own; it passes if \<open>getsid\<close> then gives another one, as the code compares the two.\<close>

definition sid_root_plan :: "string \<Rightarrow> int \<Rightarrow> int \<Rightarrow> plan" where
  "sid_root_plan prog pid n =
     Expect (lib ''setsid'' []) (\<lambda>r. 0 \<le> rv r) (\<lambda>new.
     each (map (\<lambda>i. (Pip (Pip_spawn (Some prog) i (Some i) None), returns 0)) [0..n - 1] @
           map (\<lambda>i. (Pip (Pip_wait i False), returns 0)) [0..n - 1] @
           [(lib ''getsid'' [pid], \<lambda>r. rv r \<noteq> rv new)]) finished_plan)"

definition check_sid_plan :: "pip_h \<Rightarrow> pip_modes \<Rightarrow> string list \<Rightarrow> plan" where
  "check_sid_plan h k argv =
     (let m = asked_ntasks (NTASKS h) argv in
      Expect (Sys (Getenv ''NTASKS'')) (within (NTASKS h) argv) (\<lambda>_.
      Expect (lib ''getpid'' []) any_return (\<lambda>pid.
      Expect (lib ''getsid'' [rv pid]) (\<lambda>r. 0 \<le> rv r) (\<lambda>_.
      Expect (Pip (Pip_init True (Some m) False (MODE_PROCESS k))) (returns 0) (\<lambda>r.
        if stored (o1 r) 0 = PIPID_ROOT h then sid_root_plan (argv ! 0) (rv pid) (stored (o2 r) m)
        else each [(lib ''setsid'' [], \<lambda>r. 0 \<le> rv r)] finished_plan)))))"

text \<open>A session leader leaves the test to its child and returns the child's exit code.\<close>

definition sid_plan :: "pip_h \<Rightarrow> pip_modes \<Rightarrow> status \<Rightarrow> string list \<Rightarrow> plan" where
  "sid_plan h k junk argv =
     Expect (lib ''getpid'' []) any_return (\<lambda>pid.
     Expect (lib ''getsid'' [rv pid]) (\<lambda>r. 0 \<le> rv r) (\<lambda>sid.
       if rv sid \<noteq> rv pid then Expect (Sys (Printf ''fork'')) any_return (\<lambda>_. check_sid_plan h k argv)
       else Expect (Sys Fork) (\<lambda>r. rv r \<noteq> 0) (\<lambda>_.
         each [(Sys Wait, \<lambda>r. WIFEXITED (stored (o1 r) junk) \<and> WEXITSTATUS (stored (o1 r) junk) = 0)] Done)))"

definition lookup_plan :: "string \<Rightarrow> plan \<Rightarrow> plan" where
  "lookup_plan host s = Expect (lib (''getaddrinfo '' @ host) []) (returns 0) (\<lambda>r. let res = stored (o1 r) 0 in
     if res \<noteq> 0 then each [(lib ''freeaddrinfo'' [res], any_return)] s else s)"

primrec gai_plan :: "nat \<Rightarrow> plan" where
  "gai_plan 0 = Done"
| "gai_plan (Suc n) = Expect (lib ''gethostname'' [HOSTNAMELEN]) (returns 0) (\<lambda>r.
     lookup_plan (case strv r of Some s \<Rightarrow> s | None \<Rightarrow> []) (lookup_plan ''127.0.0.1'' (gai_plan n)))"

definition getaddrinfo_plan :: "string list \<Rightarrow> plan" where
  "getaddrinfo_plan argv =
     (let n = arg_int argv 1 0; niters = (if n = 0 then GAI_NITERS else n) in
      Expect (Pip (Pip_get_pipid True)) (returns 0) (\<lambda>me. Expect (Pip Pip_get_ntasks) (returns 0) (\<lambda>nt.
      each (if stored (o1 me) 0 = 0 then
              map (\<lambda>i. (Pip (Pip_named_import i ''sync''), returns 0)) [1..stored (o1 nt) 0 - 1] @
              [(Pip (Pip_named_export ''done''), returns 0)]
            else [(Pip (Pip_named_export ''sync''), returns 0), (Pip (Pip_named_import 0 ''done''), returns 0)])
      (gai_plan (nat niters)))))"

definition gethostbyname_plan :: plan where
  "gethostbyname_plan = each (map (\<lambda>name. (lib (''gethostbyname '' @ name) [], \<lambda>r. rv r \<noteq> 0))
     [''127.0.0.1'', ''localhost'', ''localhost.localdomain'']) Done"

text \<open>The number of processors is positive and always the same.\<close>

definition get_nprocs_plan :: plan where
  "get_nprocs_plan = Expect (lib ''get_nprocs'' []) (\<lambda>r. 0 < rv r) (\<lambda>np.
     each (replicate (10 * 1000) (lib ''get_nprocs'' [], returns (rv np))) Done)"

definition pip_dlopen_plan :: plan where
  "pip_dlopen_plan =
     each [(Pip (Pip_init False None False 0), returns 0)]
     (Expect (lib ''pip_dlopen'' []) (\<lambda>r. rv r \<noteq> 0) (\<lambda>handle.
      Expect (lib ''pip_dlsym'' [rv handle]) (\<lambda>r. rv r \<noteq> 0) (\<lambda>func.
      each [(lib ''foo'' [rv func], returns 0)] Done)))"

section \<open>The programs decide their plans\<close>

abbreviation bad :: "int \<Rightarrow> bool" where "bad v \<equiv> v \<noteq> 0"

lemma runs_bar_wait:
  "runs R Q a Reject \<Longrightarrow> runs R Q k s \<Longrightarrow> runs R Q (bar_wait a k) (Expect (Pip Pip_barrier_wait) (returns 0) (\<lambda>_. s))"
  by (simp add: bar_wait_def chk_def returns_def)

lemma round_runs:
  assumes "\<And>r. P r \<longleftrightarrow> \<not> b r" "B ex"
  shows "runs R (goes_on B (\<lambda>_ s'. s' = s)) (chk c b (Ret (Inl ex)) (\<lambda>_. Ret (Inr ()))) (each [(c, P)] s)"
  using assms by (simp add: chk_def)

lemma finished_runs:
  "decides R 0 (chk (Pip Pip_fin) nz (Ret EXIT_FAIL) (\<lambda>_. Ret 0)) finished_plan"
  by (simp add: chk_def returns_def exit_defs)

lemma wait_passed_runs: "runs R (goes_on bad (\<lambda>_ s'. s' = s)) (wait_passed i u) (each [(Pip (Pip_wait_any False True), exited_well)] s)"
  by (auto simp: wait_passed_def chk_def chkv_def exited_well_def exit_defs Let_def)

lemma yield_decides: "decides R 0 (pip_yield_main argv) (yield_plan argv)"
  unfolding pip_yield_main_def yield_plan_def Let_def each_append
  by (auto simp: returns_def yielded_def exit_defs chk_def
      intro!: runs_chk [unfolded chk_def] runs_finE runs_repeat_one)

lemma exit_nz: "EXIT_FAIL \<noteq> 0" "EXIT_UNTESTED \<noteq> 0" "EXIT_UNRESOLVED \<noteq> 0"
  by (simp_all add: exit_defs)

lemma runs_finE_if:
  "(b \<Longrightarrow> runs R Q (finE p k) s) \<Longrightarrow> (\<not> b \<Longrightarrow> runs R Q (finE q k) t) \<Longrightarrow>
   runs R Q (finE (if b then p else q) k) (if b then s else t)"
  by simp

lemmas plan_simps = returns_def exited_well_def exit_defs chk_def chkv_def

lemma migrate_parts_run:
  "decides R 0 (finE (chk (Pip (Pip_barrier_init n)) nz (Ret (Inl EXIT_FAIL)) (\<lambda>_.
       Call (lib ''pip_spawn_from_main'' []) (\<lambda>_.
       seqE (for_range 0 (nat n) migrate_spawn ()) (\<lambda>_. for_range 0 (nat n) wait_passed ()))))
     (\<lambda>_. chk (Pip Pip_fin) nz (Ret EXIT_FAIL) (\<lambda>_. Ret 0))) (migrate_root_plan n)"
  "decides R 0 (finE (chk (lib ''pip_get_task_from_pipid'' [if me = n - 1 then 0 else me + 1]) nz (Ret (Inl EXIT_FAIL)) (\<lambda>r.
       let task = stored (o1 r) 0 in
       bar_wait (Ret (Inl EXIT_FAIL))
        (seqE (for_range 0 (nat niters) (\<lambda>_ _. chk (lib ''pip_migrate'' [task]) nz (Ret (Inl EXIT_FAIL)) (\<lambda>_. Ret (Inr ()))) ())
          (\<lambda>_. bar_wait (Ret (Inl EXIT_FAIL)) (Ret (Inr ()))))))
     (\<lambda>_. chk (Pip Pip_fin) nz (Ret EXIT_FAIL) (\<lambda>_. Ret 0))) (migrate_task_plan me n niters)"
  unfolding migrate_root_plan_def migrate_task_plan_def each_append each.simps fst_conv snd_conv Let_def
  by (intro runs_finE runs_chk runs_any runs_seqE runs_bar_wait runs_count_one runs_repeat_one round_runs wait_passed_runs
      finished_runs; simp add: returns_def exit_defs migrate_spawn_def round_runs)+

lemma migrate_decides: "decides R 0 (migrate_main h argv) (migrate_plan h argv)"
  unfolding migrate_main_def migrate_plan_def Let_def
  by (intro runs_finE runs_guard; simp add: exit_nz;
      intro runs_chk runs_finE_if migrate_parts_run [unfolded Let_def]; simp add: returns_def exit_nz)

lemma threads_run:
  assumes "Q () s"
  shows "runs R (goes_on bad Q) (thread_rounds nthreads niters) (each (thread_duties nthreads niters) s)"
  unfolding thread_rounds_def thread_duties_def create_threads_def join_threads_def
  by (intro runs_repeat runs_seqE runs_count_one round_runs; simp add: each_append returns_def exit_defs assms;
      intro runs_seqE runs_count_one round_runs; simp add: returns_def)

lemma pthread_decides: "decides R 0 (pthread_main argv) (pthread_plan argv)"
  unfolding pthread_main_def pthread_plan_def Let_def each_append
  by (auto simp: returns_def exit_defs min_def chk_def bar_wait_def threads_run
      intro!: runs_chk [unfolded chk_def] runs_finE threads_run)

lemma pthread_exit_decides: "decides R 0 (pthread_exit_main argv) (pthread_exit_plan argv)"
  unfolding pthread_exit_main_def pthread_exit_plan_def Let_def
  by (auto simp: min_def intro!: runs_finE threads_run)

lemma sigchld_root_runs:
  "decides R 0 (finE (sigchld_root h prog n) (\<lambda>_. chk (Pip Pip_fin) nz (Ret EXIT_FAIL) (\<lambda>_. Ret 0))) (sigchld_root_plan h prog n)"
  unfolding sigchld_root_def sigchld_root_plan_def each_append each.simps fst_conv snd_conv Let_def
  by (intro runs_finE runs_chk runs_any runs_seqE runs_count finished_runs;
      simp add: returns_def exit_defs sigchld_round_def chk_def chkv_def)

lemma sigchld_decides: "decides R 0 (sigchld_main h argv) (sigchld_plan h argv)"
  unfolding sigchld_main_def sigchld_plan_def Let_def
  by (intro runs_finE runs_guard; simp add: exit_nz;
      intro runs_chk runs_finE_if sigchld_root_runs; simp add: returns_def exit_nz chk_def chkv_def)


lemma sid_root_runs:
  "decides R 0 (finE (sid_root prog pid n) (\<lambda>_. chk (Pip Pip_fin) nz (Ret EXIT_FAIL) (\<lambda>_. Ret 0))) (sid_root_plan prog pid n)"
  unfolding sid_root_def sid_root_plan_def each_append each.simps fst_conv snd_conv Let_def
  by (intro runs_finE runs_chk runs_seqE runs_count_one;
      auto simp: returns_def exit_nz sid_spawn_def sid_wait_def chk_def chkv_def)

lemma check_sid_decides: "decides R 0 (check_sid h k argv) (check_sid_plan h k argv)"
  unfolding check_sid_def check_sid_plan_def Let_def
  by (intro runs_finE runs_guard; simp add: exit_nz;
      intro allI impI runs_chk runs_any runs_finE_if sid_root_runs; auto simp: returns_def exit_nz chk_def)

lemma sid_decides: "decides R 0 (sid_main h k junk argv) (sid_plan h k junk argv)"
proof -
  have halt: "decides R 0 (bind (check_sid h k argv) (\<lambda>v. Halt (Exit v))) Reject"
    unfolding runs_bind by (rule runs_mono [where Q = "\<lambda>_ s. s = Reject"]) (auto intro: runs_Reject)
  show ?thesis
    unfolding sid_main_def sid_plan_def Let_def
    by (auto simp: chk_def chkv_def exit_nz halt check_sid_decides)
qed

lemma lookup_runs:
  assumes "decides R 0 p s"
  shows "decides R 0 (my_getaddrinfo (\<lambda>v. chkv v (\<lambda>v. v \<noteq> 0) exit_fail p) host) (lookup_plan host s)"
  using assms by (simp add: my_getaddrinfo_def lookup_plan_def chkv_def returns_def Let_def)

lemma gai_runs: "decides R 0 (gai_rounds n) (gai_plan n)"
proof (induction n)
  case (Suc n)
  show ?case unfolding gai_rounds.simps gai_plan.simps gai_test_def
    by (intro runs_chk lookup_runs Suc.IH) (simp_all add: returns_def)
qed simp

lemma getaddrinfo_decides: "decides R 0 (getaddrinfo_main argv) (getaddrinfo_plan argv)"
proof -
  have imports': "runs R (goes_on bad Q) (for_range 1 (nat (n - 1)) gai_import ())
      (each (map (\<lambda>i. (Pip (Pip_named_import i ''sync''), returns 0)) [1..n - 1]) s)" if "Q () s" for n Q s
  proof -
    have up: "[1..1 + int (nat (n - 1)) - 1] = [1..n - 1]" by (cases "1 \<le> n") simp_all
    show ?thesis
      using runs_for_range [of 1 "nat (n - 1)" R bad gai_import "\<lambda>i. [(Pip (Pip_named_import i ''sync''), returns 0)]" Q s "()"]
        that unfolding up by (simp add: gai_import_def chk_def returns_def)
  qed
  show ?thesis
    unfolding getaddrinfo_main_def getaddrinfo_plan_def Let_def
    by (auto simp: each_append chk_def returns_def exit_nz intro!: runs_finE imports' gai_runs)
qed

lemma gethostname_decides:
  "decides R 0 gethostname_main (each (replicate 1000 (lib ''gethostname'' [HOSTNAMELEN], returns 0)) Done)"
  unfolding gethostname_main_def
  by (intro runs_finE runs_repeat_one round_runs) (simp_all add: returns_def exit_nz)

lemma get_nprocs_decides: "decides R 0 get_nprocs_main get_nprocs_plan"
  unfolding get_nprocs_main_def get_nprocs_plan_def Let_def
  by (intro runs_chk runs_finE runs_repeat_one) (auto simp: chk_def chkv_def returns_def exit_nz)

lemma names_decide:
  "decides R 0 gethostbyname_main gethostbyname_plan"
  "decides R 0 (system_main argv) (each [(Sys (System (if length argv > 1 then argv ! 1 else ''hostname'')), returns 0)] Done)"
  "decides R 0 pip_dlopen_main pip_dlopen_plan"
  by (simp_all add: gethostbyname_main_def gethostbyname_plan_def system_main_def pip_dlopen_main_def pip_dlopen_plan_def
      chk_def returns_def exit_nz Let_def)

abbreviation badc :: "int option \<Rightarrow> bool" where "badc v \<equiv> v \<noteq> Some 0"

lemma dequeue_runs:
  assumes "\<And>task. runs R Q (f (Some task)) (s task)" "runs R Q (f None) Reject"
  shows "runs R Q (bind (loop fuel dequeue_body ()) f) (dequeue_plan fuel s)"
proof (induction fuel)
  case (Suc fuel)
  then show ?case using assms(1) by (auto simp: dequeue_body_def)
qed (use assms in simp)

lemma collect_round_runs:
  "Q () s \<Longrightarrow> runs R (goes_on badc Q) (collect_round fuel i u)
     (dequeue_plan fuel (\<lambda>task. Expect (lib ''pip_task_queue_enqueue'' [task]) any_return (\<lambda>_. s)))"
  unfolding collect_round_def by (rule dequeue_runs) simp_all

lemma requeue_runs:
  assumes "Q () s"
  shows "runs R (goes_on badc Q) (for_range i n (collect_round fuel) ()) (requeue_plan fuel n s)"
proof (induction n arbitrary: i)
  case (Suc n)
  show ?case unfolding for_range.simps requeue_plan.simps
    by (intro runs_seqE collect_round_runs Suc.IH)
qed (use assms in simp)

lemma alone_runs:
  assumes "runs R Q (f (Some EINTR)) s" "\<And>err. err \<noteq> EINTR \<Longrightarrow> runs R Q (f (Some err)) Reject" "runs R Q (f None) Reject"
  shows "runs R Q (bind (loop fuel yield_body ()) f) (until_alone_plan fuel s)"
proof (induction fuel)
  case (Suc fuel)
  then show ?case using assms by (auto simp: yield_body_def)
qed (use assms in simp)

lemma alone_round_runs:
  "Q () s \<Longrightarrow> runs R (goes_on badc Q) (bind (loop fuel yield_body ()) (\<lambda>x. case x of None \<Rightarrow> Ret (Inl None)
      | Some err \<Rightarrow> chkv (c_bool (err \<noteq> EINTR)) (\<lambda>v. v \<noteq> 0) (Ret (Inl (Some EXIT_FAIL))) (Ret (Inr ()))))
    (until_alone_plan fuel s)"
  by (rule alone_runs) (simp_all add: chkv_def exit_nz)

lemma alone_rounds_run:
  assumes "Q () s"
  shows "runs R (goes_on badc Q) (for_range i n (\<lambda>_ _. bind (loop fuel yield_body ()) (\<lambda>x. case x of
      None \<Rightarrow> Ret (Inl None) | Some err \<Rightarrow> chkv (c_bool (err \<noteq> EINTR)) (\<lambda>v. v \<noteq> 0) (Ret (Inl (Some EXIT_FAIL))) (Ret (Inr ())))) ())
    ((until_alone_plan fuel ^^ n) s)"
proof (induction n arbitrary: i)
  case (Suc n)
  show ?case unfolding for_range.simps funpow.simps comp_def
    by (intro runs_seqE alone_round_runs Suc.IH)
qed (use assms in simp)

lemma couple_wait_runs:
  "runs R (goes_on badc (\<lambda>_ s'. s' = s)) (couple_wait i u) (each [(Pip (Pip_wait_any False True), exited_well)] s)"
  by (auto simp: couple_wait_def wait_passed_def chk_def chkv_def exited_well_def exit_nz Let_def)

lemma couple_fin:
  "decides R (Some 0) (chk (Pip Pip_fin) nz (Ret (Some EXIT_FAIL)) (\<lambda>_. Ret (Some 0))) finished_plan"
  by (simp add: chk_def returns_def exit_nz)

lemma couple_task_runs:
  assumes "Q () s"
  shows "runs R (goes_on badc Q) (seqE (couple_task niters) (\<lambda>_. bar_wait (Ret (Inl (Some EXIT_FAIL))) (Ret (Inr ()))))
    (each ([(lib ''pip_suspend_and_enqueue'' [], returns 0)] @
       concat (replicate (nat niters) [(lib ''pip_couple'' [], returns 0), (lib ''pip_decouple'' [], returns 0)]) @ [met]) s)"
  unfolding couple_task_def Let_def each_append each.simps fst_conv snd_conv
  by (intro runs_seqE runs_chk runs_repeat; use assms in \<open>auto simp: chk_def returns_def exit_nz bar_wait_def\<close>)

lemma runs_compare:
  "runs R Q a Reject \<Longrightarrow> runs R Q k s \<Longrightarrow>
   runs R Q (Call c (\<lambda>r. chkv (c_bool (rv r \<noteq> v)) (\<lambda>v. v \<noteq> 0) a k)) (Expect c (returns v) (\<lambda>_. s))"
  by (simp add: chkv_def returns_def)

lemma couple_last_runs:
  assumes "\<And>s'. s' = s \<Longrightarrow> Q () s'"
  shows "runs R (goes_on badc Q) (couple_last h fuel n niters)
    (Expect (lib ''pip_task_queue_init'' []) any_return (\<lambda>_.
     Expect (lib ''pip_get_task_by_pipid'' [PIPID_MYSELF h]) (returns 0) (\<lambda>r. let task = stored (o1 r) 0 in
     Expect (lib ''pip_task_self'' []) (returns task) (\<lambda>_.
     requeue_plan fuel (nat (n - 1))
      (Expect (lib ''pip_dequeue_and_resume_N'' [task]) (returns 0) (\<lambda>_. (until_alone_plan fuel ^^ nat niters) s))))))"
  unfolding couple_last_def Let_def
  by (intro runs_any runs_chk runs_compare runs_seqE requeue_runs alone_rounds_run)
    (simp_all add: assms exit_nz returns_def)

lemma couple_last_decides:
  "decides R (Some 0) (finE (seqE (couple_last h fuel n niters) (\<lambda>_. bar_wait (Ret (Inl (Some EXIT_FAIL))) (Ret (Inr ()))))
     (\<lambda>_. chk (Pip Pip_fin) nz (Ret (Some EXIT_FAIL)) (\<lambda>_. Ret (Some 0)))) (couple_last_plan h fuel n niters)"
  unfolding couple_last_plan_def
  by (intro runs_finE runs_seqE couple_last_runs) (simp add: bar_wait_def chk_def returns_def exit_nz)

lemma couple_task_decides:
  "decides R (Some 0) (finE (seqE (couple_task niters) (\<lambda>_. bar_wait (Ret (Inl (Some EXIT_FAIL))) (Ret (Inr ()))))
     (\<lambda>_. chk (Pip Pip_fin) nz (Ret (Some EXIT_FAIL)) (\<lambda>_. Ret (Some 0)))) (couple_task_plan niters)"
  unfolding couple_task_plan_def by (intro runs_finE couple_task_runs couple_fin)

lemma couple_root_decides:
  "decides R (Some 0) (finE (chk (lib ''pip_task_queue_init'' []) nz (Ret (Inl (Some EXIT_FAIL))) (\<lambda>_.
       chk (Pip (Pip_barrier_init n)) nz (Ret (Inl (Some EXIT_FAIL))) (\<lambda>_.
       seqE (for_range 0 (nat n) (couple_spawn h) ()) (\<lambda>_. for_range 0 (nat n) couple_wait ()))))
     (\<lambda>_. chk (Pip Pip_fin) nz (Ret (Some EXIT_FAIL)) (\<lambda>_. Ret (Some 0)))) (couple_root_plan h n)"
  unfolding couple_root_plan_def each_append each.simps fst_conv snd_conv
  by (intro runs_finE runs_chk runs_seqE runs_count_one runs_repeat_one couple_wait_runs couple_fin;
      simp add: returns_def exit_nz couple_spawn_def chk_def)

lemma couple_decides: "decides R (Some 0) (pip_couple_main h fuel argv) (couple_plan h fuel argv)"
proof -
  have run: "decides R (Some 0) (couple_run h fuel m niters) (Expect (lib ''pip_spawn_from_main'' []) any_return (\<lambda>_.
      Expect (Pip (Pip_init True (Some m) True 0)) (returns 0) (\<lambda>r.
        if stored (o1 r) 0 = PIPID_ROOT h then couple_root_plan h (stored (o2 r) m)
        else if stored (o1 r) 0 < stored (o2 r) m - 1 then couple_task_plan niters
        else couple_last_plan h fuel (stored (o2 r) m) niters)))" for m niters
    unfolding couple_run_def Let_def
    by (intro runs_any runs_chk runs_finE_if couple_root_decides)
      (auto simp: exit_nz returns_def couple_task_decides couple_last_decides)
  show ?thesis
    unfolding pip_couple_main_def couple_plan_def Let_def
    by (auto simp: exit_nz not_less run split: option.splits)
qed

text \<open>The programs with their plans; \<open>pip\_couple\<close>, whose result is an option, is stated beside them.\<close>

definition loop_plans :: "pip_h \<Rightarrow> pip_modes \<Rightarrow> status \<Rightarrow> string list \<Rightarrow> (int prog \<times> plan) list" where
  "loop_plans h k junk argv =
     [(pip_yield_main argv, yield_plan argv), (migrate_main h argv, migrate_plan h argv),
      (pthread_main argv, pthread_plan argv), (pthread_exit_main argv, pthread_exit_plan argv),
      (sigchld_main h argv, sigchld_plan h argv), (sid_main h k junk argv, sid_plan h k junk argv),
      (getaddrinfo_main argv, getaddrinfo_plan argv),
      (gethostname_main, each (replicate 1000 (lib ''gethostname'' [HOSTNAMELEN], returns 0)) Done),
      (gethostbyname_main, gethostbyname_plan), (get_nprocs_main, get_nprocs_plan),
      (system_main argv, each [(Sys (System (if length argv > 1 then argv ! 1 else ''hostname'')), returns 0)] Done),
      (pip_dlopen_main, pip_dlopen_plan)]"

lemma loop_plans_decided: "(p, s) \<in> set (loop_plans h k junk argv) \<Longrightarrow> decides any_answer 0 p s"
  using yield_decides migrate_decides pthread_decides pthread_exit_decides sigchld_decides sid_decides
    getaddrinfo_decides gethostname_decides get_nprocs_decides names_decide
  unfolding loop_plans_def by (auto simp del: replicate.simps)

text \<open>C32: each of thirteen tests of repeated calls (the twelve of \<open>loop\_plans\<close> and \<open>pip\_couple\<close>) returns 0 if and only
if its calls are exactly those of its plan, as often and in the order the plan says, and every answer is one the plan takes:
so many yields, migrations, couplings, rounds of creating and joining all threads, spawns with their waits, lookups. In \<open>sid\<close>
the root is then in another session than the one it has made (as the code compares the two), in \<open>sigchld\<close> the count of
signals is the number of tasks, in \<open>get\_nprocs\<close> the number of processors never changes.\<close>

theorem loop_tests_decide:
  assumes "(p, s) \<in> set (loop_plans h k junk argv)"
  shows "(outcome p e w = Returned 0 \<longleftrightarrow> follows s (trace p e w)) \<and>
    (outcome (pip_couple_main h fuel argv) e w = Returned (Some 0) \<longleftrightarrow>
      follows (couple_plan h fuel argv) (trace (pip_couple_main h fuel argv) e w))"
  by (intro conjI decides_iff [OF loop_plans_decided [OF assms] answers_any] decides_iff [OF couple_decides answers_any])

text \<open>A session of the root with one task, whose two calls of \<open>getsid\<close> differ from what \<open>setsid\<close> gave.\<close>

definition sid_answers :: "call \<Rightarrow> resp" where
  "sid_answers c = (case c of
       Sys (Lib f a) \<Rightarrow> ok\<lparr>rv := if f = ''getpid'' then 7 else if f = ''getsid'' then 3 else 7\<rparr>
     | Pip (Pip_init _ _ _ _) \<Rightarrow> ok\<lparr>o1 := Some (- 1), o2 := Some 1\<rparr>
     | _ \<Rightarrow> ok)"

lemma loop_tests_decide_witness:
  "follows (sid_plan h_sample k_sample 0 [''sid'', ''1'']) (trace (sid_main h_sample k_sample 0 [''sid'', ''1'']) (reply sid_answers) ())"
proof -
  have run: "outcome (sid_main h_sample k_sample 0 [''sid'', ''1'']) (reply sid_answers) () = Returned 0"
    by (simp add: sid_main_def check_sid_def sid_root_def sid_spawn_def sid_wait_def ntasks_guard_def arg_int_def
        strtol_eval sid_answers_def h_sample_def NTASKS_def Let_def prog_simps)
  have pair: "(sid_main h_sample k_sample 0 [''sid'', ''1''], sid_plan h_sample k_sample 0 [''sid'', ''1'']) \<in>
      set (loop_plans h_sample k_sample 0 [''sid'', ''1''])"
    by (simp add: loop_plans_def del: replicate.simps)
  show ?thesis by (rule iffD1 [OF loop_tests_decide [OF pair, THEN conjunct1] run])
qed

end
