(* ===== verification/Programs.thy ===== *)
theory Programs
  imports ApiLoops
begin

text \<open>
  Programs that other tests run, and probes of the platform: \<open>bin/abc.c\<close> and \<open>prog/abc.c\<close> (the same text), the
  programs of \<open>pipcc\<close>, \<open>utils/dlmopen\_count.c\<close>, \<open>utils/clone\_check.c\<close>, \<open>compat/const\_destruct.c\<close>,
  \<open>compat/getpwnam.c\<close> and \<open>compat/malloc.c\<close>.
\<close>

section \<open>abc\<close>

text \<open>
  \<open>argv[i]\<close> as the program finds it: a string, the NULL at \<open>argv[argc]\<close>, or something outside the array. A string
  function that is given NULL or that reads outside the array faults; \<open>printf\<close> shows a NULL.
\<close>

datatype arg = Str string | Null | Outside

definition arg_at :: "string list \<Rightarrow> int \<Rightarrow> arg" where
  "arg_at argv i =
     (if i < 0 \<or> int (length argv) < i then Outside else if i = int (length argv) then Null else Str (argv ! nat i))"

definition strtol_arg :: "arg \<Rightarrow> (int \<Rightarrow> int prog) \<Rightarrow> int prog" where
  "strtol_arg a k = (case a of Str s \<Rightarrow> k (atoi32 s) | _ \<Rightarrow> Halt (Fault SIGSEGV))"

text \<open>With PIP defined; \<open>pipid0\<close> is the uninitialised \<open>pipid\<close>.\<close>

definition abc_main :: "int \<Rightarrow> string list \<Rightarrow> int prog" where
  "abc_main pipid0 argv =
     (let argc = int (length argv) in
      if argc > 2 then
        Call (Pip (Pip_init True (Some (- 1)) False 0)) (\<lambda>r. let pipid = stored (o1 r) pipid0; ntasks = stored (o2 r) (- 1) in
        if rv r \<noteq> 0 then Call (Sys (Printf ''Invoke this program by using piprun'')) (\<lambda>_. Ret 1)
        else strtol_arg (arg_at argv 1) (\<lambda>prevn.
        if pipid < prevn then Call (Sys (Printf ''Illegal argument(s)'')) (\<lambda>_. Ret 9)
        else if argc < pipid - prevn + 2 then Call (Sys (Printf ''PIPID list is short'')) (\<lambda>_. Ret 9)
        else strtol_arg (arg_at argv (pipid - prevn + 2)) (\<lambda>num.
          Call (lib ''printf'' [pipid, argc, ntasks]) (\<lambda>_.
          if num \<noteq> pipid then
            (if arg_at argv (pipid + 1) = Outside then Halt (Fault SIGSEGV)
             else Call (lib ''printf'' [pipid, num]) (\<lambda>_. Ret 9))
          else Call (lib ''printf'' [pipid]) (\<lambda>_. Ret 0)))))
      else Call (lib ''printf'' []) (\<lambda>_. Ret 0))"

text \<open>C31: \<open>abc\<close> tests its number of arguments against one less than it reads: with exactly \<open>pipid - prevn + 2\<close> of them
the list counts as long enough, and the PiP ID is read from the NULL that ends \<open>argv\<close>; with more, the ID read is
the argument at that place.\<close>

theorem abc_reads_past:
  assumes "length argv > 2" "e w (Pip (Pip_init True (Some (- 1)) False 0)) = (Some r, w')" "rv r = 0" "o1 r = Some pipid"
    and "prevn = atoi32 (argv ! 1)" "prevn \<le> pipid" "total e"
  shows "outcome (abc_main p0 argv) e w =
     (if int (length argv) < pipid - prevn + 2 then Returned 9
      else if int (length argv) = pipid - prevn + 2 then Halted (Fault SIGSEGV)
      else if atoi32 (argv ! nat (pipid - prevn + 2)) = pipid then Returned 0
      else if int (length argv) < pipid + 1 \<or> pipid + 1 < 0 then Halted (Fault SIGSEGV) else Returned 9)"
proof -
  have 1: "strtol_arg (arg_at argv 1) k = k prevn" for k
    using assms(1,5) by (auto simp: strtol_arg_def arg_at_def)
  let ?n = "pipid - prevn + 2"
  let ?rd = "strtol_arg (arg_at argv ?n) (\<lambda>num. Call (lib ''printf'' [pipid, int (length argv), stored (o2 r) (- 1)]) (\<lambda>_.
      if num \<noteq> pipid then (if arg_at argv (pipid + 1) = Outside then Halt (Fault SIGSEGV)
        else Call (lib ''printf'' [pipid, num]) (\<lambda>_. Ret 9))
      else Call (lib ''printf'' [pipid]) (\<lambda>_. Ret 0)))"
  have run: "outcome (abc_main p0 argv) e w =
      outcome (if int (length argv) < ?n then Call (Sys (Printf ''PIPID list is short'')) (\<lambda>_. Ret 9) else ?rd) e w'"
    using assms(1-4,6) unfolding abc_main_def Let_def 1 by (simp cong: if_cong)
  note T = total_simps [OF assms(7)]
  consider "int (length argv) < ?n" | "int (length argv) = ?n" | "?n < int (length argv)" by linarith
  then show ?thesis
  proof cases
    case 1
    then show ?thesis by (simp add: run T del: outcome_simps(3))
  next
    case 2
    then have "arg_at argv ?n = Null" using assms(6) by (simp add: arg_at_def)
    then show ?thesis using 2 by (simp add: run strtol_arg_def)
  next
    case 3
    then have "arg_at argv ?n = Str (argv ! nat ?n)" using assms(6) by (simp add: arg_at_def)
    moreover have "arg_at argv (pipid + 1) = Outside \<longleftrightarrow> int (length argv) < pipid + 1 \<or> pipid + 1 < 0"
      by (auto simp: arg_at_def)
    ultimately show ?thesis using 3 by (simp add: run strtol_arg_def T del: outcome_simps(3))
  qed
qed

definition e_abc :: "unit env" where
  "e_abc = reply (\<lambda>c. case c of Pip (Pip_init _ _ _ _) \<Rightarrow> ok\<lparr>o1 := Some 1\<rparr> | _ \<Rightarrow> ok)"

lemma abc_reads_past_witness: "outcome (abc_main 0 [''abc'', ''0'', ''1'']) e_abc () = Halted (Fault SIGSEGV)"
proof -
  have "total e_abc" by (simp add: total_def e_abc_def)
  moreover have "(0 :: int) = atoi32 ([''abc'', ''0'', ''1''] ! 1)" by (simp add: strtol_eval)
  ultimately show ?thesis
    using abc_reads_past [of "[''abc'', ''0'', ''1'']" e_abc "()" "ok\<lparr>o1 := Some 1\<rparr>" "()" 1 0 0] by (simp add: e_abc_def)
qed

section \<open>The examples of pipcc\<close>

text \<open>\<open>hello.c\<close>, \<open>root.c\<close> and \<open>task.c\<close>; none of them looks at what the library returns, but for \<open>pip\_spawn\<close> in \<open>root.c\<close>.\<close>

definition hello_main :: "pip_h \<Rightarrow> string \<Rightarrow> int prog" where
  "hello_main h prog =
     Call (Pip (Pip_init True (Some 4) False 0)) (\<lambda>r. let pipid = stored (o1 r) 0 in
     bind (if pipid = PIPID_ROOT h then
             Call (lib ''printf'' []) (\<lambda>_.
             Call (Pip (Pip_spawn (Some prog) (CPUCORE_ASIS h) (Some (PIPID_ANY h)) None)) (\<lambda>r.
             Call (Pip (Pip_wait (stored (o1 r) (PIPID_ANY h)) False)) (\<lambda>_. Ret ())))
           else Call (lib ''printf'' [pipid]) (\<lambda>_. Ret ())) (\<lambda>_.
     Call (Pip Pip_fin) (\<lambda>_. Ret 0)))"

definition task_main :: "int \<Rightarrow> int \<Rightarrow> int prog" where
  "task_main pipid0 ntasks0 =
     Call (Pip (Pip_init True (Some ntasks0) False 0)) (\<lambda>r.
     Call (lib ''printf'' [stored (o1 r) pipid0]) (\<lambda>_. Call (Pip Pip_fin) (\<lambda>_. Ret 0)))"

definition ROOT_NTASKS :: int where "ROOT_NTASKS = 10"

text \<open>The loop that spawns: the state is \<open>(i, pipid, err)\<close>.\<close>

definition root_spawn :: "pip_h \<Rightarrow> int \<Rightarrow> int \<times> int \<times> int \<Rightarrow> (int \<times> int \<times> int + int \<times> int \<times> int) prog" where
  "root_spawn h j s =
     Call (Pip (Pip_spawn (Some ''./task'') (CPUCORE_ASIS h) (Some (PIPID_ANY h)) None)) (\<lambda>r.
       let pipid = stored (o1 r) (PIPID_ANY h); err = to_int32 (rv r) in
       Ret (if err \<noteq> 0 then Inl (j, pipid, err) else Inr (j + 1, pipid, err)))"

definition root_wait :: "int \<Rightarrow> int \<Rightarrow> unit \<Rightarrow> (int + unit) prog" where
  "root_wait pipid j u = Call (Pip (Pip_wait pipid False)) (\<lambda>_. Ret (Inr ()))"

definition root_main :: "pip_h \<Rightarrow> int prog" where
  "root_main h =
     Call (Sys (Getenv ''NTASKS'')) (\<lambda>r.
     let ntasks = (case strv r of None \<Rightarrow> ROOT_NTASKS
           | Some env \<Rightarrow> let ntenv = atoi32 env in if ROOT_NTASKS > ntenv then ntenv else ROOT_NTASKS) in
     Call (Pip (Pip_init True (Some ntasks) False 0)) (\<lambda>r.
     bind (for_range 0 (nat ROOT_NTASKS) (root_spawn h) (0, stored (o1 r) 0, 0)) (\<lambda>x.
     case (case x of Inl s \<Rightarrow> s | Inr s \<Rightarrow> s) of (i, pipid, err) \<Rightarrow>
     finE (for_range 0 (nat i) (root_wait pipid) ()) (\<lambda>_.
     Call (Pip Pip_fin) (\<lambda>_. Ret err)))))"

section \<open>dlmopen\_count and clone\_check\<close>

definition MAX_NS :: int where "MAX_NS = 1024"

text \<open>The options as \<open>getopt\<close> delivers them.\<close>

record count_opts =
  pip_mode :: bool
  verbose :: bool
  maxn :: int

definition count_init :: count_opts where
  "count_init = \<lparr>pip_mode = True, verbose = False, maxn = MAX_NS\<rparr>"

fun count_options :: "(char \<times> string) list \<Rightarrow> count_opts \<Rightarrow> ending + count_opts" where
  "count_options [] s = Inr s"
| "count_options ((c, optarg) # os) s =
     (if c = CHR ''p'' then count_options os (s\<lparr>pip_mode := True\<rparr>)
      else if c = CHR ''v'' then count_options os (s\<lparr>verbose := True\<rparr>)
      else if c = CHR ''m'' then count_options os (s\<lparr>maxn := atoi32 optarg\<rparr>)
      else Inl (Exit 2))"

definition count_body :: "string \<Rightarrow> count_opts \<Rightarrow> int \<Rightarrow> (int + int) prog" where
  "count_body path s n =
     Call (Sys (Dlmopen path)) (\<lambda>r.
       if rv r = 0 then (if verbose s then Call (Sys (Printf ''dlmopen()'')) (\<lambda>_. Ret (Inr n)) else Ret (Inr n))
       else if n + 1 \<ge> MAX_NS then Ret (Inr (n + 1)) else Ret (Inl (n + 1)))"

definition clamp_count :: "pip_h \<Rightarrow> count_opts \<Rightarrow> int \<Rightarrow> int" where
  "clamp_count h s n =
     (let n = (if pip_mode s \<and> n > NTASKS_MAX h then NTASKS_MAX h else n) in if n > maxn s then maxn s else n)"

definition dlmopen_count_main :: "pip_h \<Rightarrow> nat \<Rightarrow> string \<Rightarrow> string \<Rightarrow> (char \<times> string) list \<Rightarrow> int option prog" where
  "dlmopen_count_main h fuel cwd base opts =
     (case count_options opts count_init of
        Inl x \<Rightarrow> Call (Sys (Printf ''Usage: dlmopen_count [-p] [-v]'')) (\<lambda>_. Halt x)
      | Inr s \<Rightarrow>
          bind (loop fuel (count_body (cwd @ ''/'' @ base) s) 0) (\<lambda>x. case x of None \<Rightarrow> Ret None | Some n \<Rightarrow>
            let report = (let n = clamp_count h s n in
                  Call (Sys (Printf (show_int n))) (\<lambda>_. Ret (Some (if n = 0 then 1 else 0)))) in
            if verbose s then Call (lib ''fprintf'' [n, NTASKS_MAX h]) (\<lambda>_. report) else report))"

text \<open>\<open>clone\_check\<close>: \<open>flags\<close> stands for \<open>pip\_clone\_flags( 0 )\<close> without CLONE\_SETTLS.\<close>

definition clone_wait_body :: "int \<Rightarrow> unit \<Rightarrow> (unit + int) prog" where
  "clone_wait_body pid u = Call (Sys Wait) (\<lambda>r. Ret (if rv r = pid \<or> errno r \<noteq> EINTR then Inr (errno r) else Inl ()))"

definition clone_check_main :: "nat \<Rightarrow> int \<Rightarrow> int option prog" where
  "clone_check_main fuel flags =
     Call (lib ''clone'' [flags]) (\<lambda>r. if rv r < 0 then Ret (Some 1) else loop fuel (clone_wait_body (rv r)) ())"

text \<open>C30: \<open>dlmopen\_count\<close> always comes to an end, within 1024 name spaces, and the number it prints is none larger than
the limit of the option \<open>-m\<close>, the 1024 it counts to, and the number of tasks the library supports; the exit code is 1 exactly when it prints 0.\<close>

theorem dlmopen_count_bounded:
  assumes "nat MAX_NS < fuel" "count_options opts count_init = Inr s" "outcome (dlmopen_count_main h fuel cwd base opts) e w = Returned v"
  shows "\<exists>n. Sys (Printf (show_int n)) \<in> set (calls (dlmopen_count_main h fuel cwd base opts) e w) \<and>
    n \<le> maxn s \<and> n \<le> MAX_NS \<and> (pip_mode s \<longrightarrow> n \<le> NTASKS_MAX h) \<and> v = Some (if n = 0 then 1 else 0)"
proof -
  let ?Q = "\<lambda>(t :: trace) x. \<exists>n. Sys (Printf (show_int n)) \<in> fst ` set t \<and> n \<le> maxn s \<and> n \<le> MAX_NS \<and>
    (pip_mode s \<longrightarrow> n \<le> NTASKS_MAX h) \<and> x = Some (if n = 0 then 1 else 0)"
  have clamp: "clamp_count h s n \<le> maxn s" "n \<le> MAX_NS \<Longrightarrow> clamp_count h s n \<le> MAX_NS"
    "pip_mode s \<longrightarrow> clamp_count h s n \<le> NTASKS_MAX h" for n by (auto simp: clamp_count_def Let_def)
  have "wpt any_answer (\<lambda>t x. \<exists>k. x = Some k \<and> k \<le> MAX_NS) [] (loop fuel (count_body path s) 0)" for path
    by (rule wpt_loop_measure [where I = "\<lambda>t n. n < MAX_NS \<and> 0 \<le> n" and mu = "\<lambda>n. nat (MAX_NS - n)"])
      (use assms(1) in \<open>auto simp: count_body_def MAX_NS_def\<close>)
  then have "wpt any_answer ?Q [] (dlmopen_count_main h fuel cwd base opts)"
    unfolding dlmopen_count_main_def assms(2) sum.case wpt_bind
  proof (rule wpt_mono)
    fix t :: trace and x assume "\<exists>k. x = Some k \<and> k \<le> MAX_NS"
    then obtain k where k: "x = Some k" "k \<le> MAX_NS" by blast
    let ?n = "clamp_count h s k"
    have "?Q (t @ u @ [(Sys (Printf (show_int ?n)), r)]) (Some (if ?n = 0 then 1 else 0))" for u r
      using clamp k(2) by (intro exI [of _ ?n]) simp
    from this [of "[]"] this [of "[(lib ''fprintf'' [k, NTASKS_MAX h], r)]" for r]
    show "wpt any_answer ?Q t (case x of None \<Rightarrow> Ret None | Some n \<Rightarrow>
        let report = (let n = clamp_count h s n in
              Call (Sys (Printf (show_int n))) (\<lambda>_. Ret (Some (if n = 0 then 1 else 0)))) in
        if verbose s then Call (lib ''fprintf'' [n, NTASKS_MAX h]) (\<lambda>_. report) else report)"
      unfolding k(1) option.case Let_def by (simp del: split_paired_Ex)
  qed
  from wpt_outcome [OF this answers_any assms(3)] show ?thesis by (simp add: calls_def)
qed

lemma dlmopen_count_bounded_witness:
  "outcome (dlmopen_count_main h_sample 1025 ''/x'' ''prog'' []) (reply (\<lambda>_. ok)) () = Returned (Some 1) \<and>
   (\<exists>n. Sys (Printf (show_int n)) \<in> set (calls (dlmopen_count_main h_sample 1025 ''/x'' ''prog'' []) (reply (\<lambda>_. ok)) ()) \<and> n \<le> 300)"
proof -
  have run: "outcome (dlmopen_count_main h_sample 1025 ''/x'' ''prog'' []) (reply (\<lambda>_. ok)) () = Returned (Some 1)"
    by (simp add: dlmopen_count_main_def count_init_def count_body_def clamp_count_def h_sample_def MAX_NS_def prog_simps)
  from dlmopen_count_bounded [OF _ _ run, of count_init] show ?thesis
    using run by (auto simp: MAX_NS_def h_sample_def count_init_def)
qed

section \<open>compat: const\_destruct and getpwnam\<close>

definition ARRAY_SZ :: nat where "ARRAY_SZ = 10"

text \<open>The constructor leaves the global variables \<open>pipid\<close> and \<open>array\<close> behind; \<open>says\<close> is the report of each function.\<close>

definition says :: "int \<Rightarrow> 'a prog \<Rightarrow> 'a prog" where
  "says pipid k = Call (Pip Pip_is_initialized) (\<lambda>b. Call (lib ''pip_gettid'' []) (\<lambda>t.
     Call (lib ''fprintf'' [rv t, pipid, rv b]) (\<lambda>_. k)))"

definition init_func :: "(int \<times> int list) prog" where
  "init_func =
     Call (Sys (Getenv PIP_TEST_PIPID_ENV)) (\<lambda>r. case strv r of
       None \<Rightarrow> Call (Sys (Print_fle 0)) (\<lambda>_. Halt (Uexit EXIT_FAIL))
     | Some env \<Rightarrow> let pipid = atoi32 env in
         says pipid (Ret (pipid, map (\<lambda>i. to_int32 (int i + pipid)) [0..<ARRAY_SZ])))"

definition dest_func :: "int \<Rightarrow> unit prog" where "dest_func pipid = says pipid (Ret ())"

definition array_check :: "int \<Rightarrow> int list \<Rightarrow> int \<Rightarrow> unit \<Rightarrow> (int + unit) prog" where
  "array_check pipid arr i u =
     chkv (c_bool (arr ! nat i \<noteq> to_int32 (i + pipid))) (\<lambda>v. v \<noteq> 0) (Ret (Inl EXIT_FAIL)) (Ret (Inr ()))"

text \<open>\<open>main\<close> ends in \<open>pip\_exit( 0 )\<close>; its value, should that return, is the 0 that falls off the end.\<close>

definition const_main :: "int \<times> int list \<Rightarrow> int prog" where
  "const_main = (\<lambda>(pipid, arr).
     chk (Pip (Pip_get_pipid True)) nz (Ret EXIT_FAIL) (\<lambda>r.
     says (stored (o1 r) 0)
      (finE (for_range 0 ARRAY_SZ (array_check pipid arr) ()) (\<lambda>_. Call (Pip (Pip_exit 0)) (\<lambda>_. Ret 0)))))"

definition GETPW_NITERS :: int where "GETPW_NITERS = 10"

text \<open>\<open>passwd->pw\_uid\<close> of a user that \<open>getpwnam\<close> does not find; the name is part of the call.\<close>

definition getpwnam_round :: "string \<Rightarrow> int \<Rightarrow> unit \<Rightarrow> (int + unit) prog" where
  "getpwnam_round user i u =
     Call (lib (''getpwnam '' @ user) []) (\<lambda>r.
       if rv r = 0 then Halt (Fault SIGSEGV) else Call (lib ''printf'' [i, stored (o1 r) 0]) (\<lambda>_. Ret (Inr ())))"

definition getpwnam_main :: "string list \<Rightarrow> int prog" where
  "getpwnam_main argv =
     Call (Sys (Getenv ''USER'')) (\<lambda>r. case strv r of
       None \<Rightarrow> Halt (Fault SIGSEGV)
     | Some user \<Rightarrow> finE (for_range 0 (nat (niters_arg argv 1 GETPW_NITERS)) (getpwnam_round user) ()) (\<lambda>_. Ret 0))"

section \<open>compat: malloc\<close>

definition MALLOC_NITERS :: int where "MALLOC_NITERS = 10"
definition FREEMEM_THRESHOLD :: int where "FREEMEM_THRESHOLD = 400 * 1024 * 1024"
definition MALLOC_AVEMIN :: int where "MALLOC_AVEMIN = 1024"

text \<open>
  The sizes are computed in \<open>float\<close> and \<open>double\<close>: \<open>shrink\<close> is \<open>((float)fm) * (1.0-VARIATION)\<close>, \<open>lower\<close> and \<open>upper\<close>
  are \<open>((float)ave1)\<close> less and plus \<open>((float)ave1)*VARIATION\<close>, all converted back to \<open>size\_t\<close>.
\<close>

record sizes =
  shrink :: "int \<Rightarrow> int"
  lower :: "int \<Rightarrow> int"
  upper :: "int \<Rightarrow> int"

definition size64 :: "int \<Rightarrow> int" where "size64 x = x mod 2 ^ 64"

definition to_char :: "int \<Rightarrow> int" where "to_char x = (x + 128) mod 256 - 128"

definition unit_bytes :: "int \<Rightarrow> int" where
  "unit_bytes c =
     (if c = of_char (CHR ''g'') \<or> c = of_char (CHR ''G'') then 1024 * 1024 * 1024
      else if c = of_char (CHR ''m'') \<or> c = of_char (CHR ''M'') then 1024 * 1024
      else if c = of_char (CHR ''k'') \<or> c = of_char (CHR ''K'') then 1024 else 1)"

text \<open>The state is what \<open>name\<close>, \<open>fm\<close> and \<open>unit[0]\<close> hold.\<close>

definition freemem_body :: "string \<times> int \<times> int \<Rightarrow> (string \<times> int \<times> int + int) prog" where
  "freemem_body s = (case s of (name, fm, un) \<Rightarrow>
     Call (Sys Fscanf) (\<lambda>r.
       let name = (case strv r of Some n \<Rightarrow> n | None \<Rightarrow> name); fm = stored (o1 r) fm; un = stored (o2 r) un in
       if rv r \<noteq> 3 then Ret (Inr fm)
       else if name = ''MemFree:'' then Call (Sys Rewind) (\<lambda>_. Ret (Inr (fm * unit_bytes un)))
       else Ret (Inl (name, fm, un))))"

definition freemem :: "nat \<Rightarrow> int \<Rightarrow> (int \<times> int) option prog" where
  "freemem fuel fp =
     (let scan = (\<lambda>fp. bind (loop fuel freemem_body ([], 0, 0)) (\<lambda>x. Ret (map_option (\<lambda>fm. (fm, fp)) x))) in
      if fp = 0 then Call (Sys (Fopen ''/proc/meminfo'')) (\<lambda>r. if rv r = 0 then Ret (Some (- 1, 0)) else scan (rv r))
      else scan fp)"

definition fill :: "int \<Rightarrow> int \<Rightarrow> int \<Rightarrow> unit \<Rightarrow> (int + unit) prog" where
  "fill p pipid i u = Call (lib ''poke'' [p + i, to_char pipid]) (\<lambda>_. Ret (Inr ()))"

definition my_malloc :: "int \<Rightarrow> int \<Rightarrow> int \<Rightarrow> int prog" where
  "my_malloc mn mx pipid =
     Call (Sys Random) (\<lambda>r.
       if size64 (mx - mn) = 0 then Halt (Fault SIGFPE)
       else let sz = size64 (rv r) mod size64 (mx - mn) + mn in
         Call (Sys (Malloc sz)) (\<lambda>q.
           if rv q \<noteq> 0 then finE (for_range 0 (nat sz) (fill (rv q) pipid) ()) (\<lambda>_. Ret (rv q)) else Ret (rv q)))"

definition free_check :: "int \<Rightarrow> int \<Rightarrow> int \<Rightarrow> unit \<Rightarrow> (unit + unit) prog" where
  "free_check p pipid i u =
     Call (lib ''peek'' [p + i]) (\<lambda>r.
       if rv r \<noteq> to_char pipid then Call (Pip (Pip_exit EXIT_FAIL)) (\<lambda>_. Ret (Inr ())) else Ret (Inr ()))"

definition my_free :: "int \<Rightarrow> int \<Rightarrow> int \<Rightarrow> unit prog" where
  "my_free p mn pipid = bind (for_range 0 (nat mn) (free_check p pipid) ()) (\<lambda>_. Call (Sys Free) (\<lambda>_. Ret ()))"

definition malloc_round :: "pip_h \<Rightarrow> int \<Rightarrow> int \<Rightarrow> int \<Rightarrow> int \<Rightarrow> int \<Rightarrow> (int + int) prog" where
  "malloc_round h mn mx pipid i prev =
     seqE (if VERSION_MAJOR h > 1 then chk (Pip Pip_yield) not_yielded (Ret (Inl EXIT_FAIL)) (\<lambda>_. Ret (Inr ()))
           else Ret (Inr ())) (\<lambda>_.
     bind (my_malloc mn mx pipid) (\<lambda>p. chkv p (\<lambda>v. v = 0) (Ret (Inl EXIT_FAIL))
      (bind (my_free prev mn pipid) (\<lambda>_. Ret (Inr p)))))"

definition malloc_sized :: "pip_h \<Rightarrow> sizes \<Rightarrow> int \<Rightarrow> int \<Rightarrow> int \<Rightarrow> int prog" where
  "malloc_sized h z fp niters pipid =
     (let fm = shrink z FREEMEM_THRESHOLD;
          ave0 = drop_bit (nat pipid) fm; ave1 = (if ave0 < MALLOC_AVEMIN then MALLOC_AVEMIN else ave0);
          mn = lower z ave1; mx = upper z ave1; niters = to_int32 (niters * 2 ^ nat pipid) in
      Call (lib ''fprintf'' [pipid, ave1 div 1024, mn div 1024, mx div 1024, niters]) (\<lambda>_.
      bind (my_malloc mn mx pipid) (\<lambda>prev. chkv prev (\<lambda>v. v = 0) (Ret EXIT_FAIL)
       (finE (for_range 0 (nat niters) (malloc_round h mn mx pipid) prev) (\<lambda>prev.
        bind (if fp \<noteq> 0 then Call (Sys Fclose) (\<lambda>_. Ret ()) else Ret ()) (\<lambda>_.
        bind (my_free prev mn pipid) (\<lambda>_. Ret EXIT_PASS)))))))"

definition malloc_loop :: "pip_h \<Rightarrow> sizes \<Rightarrow> nat \<Rightarrow> int \<Rightarrow> int \<Rightarrow> int option prog" where
  "malloc_loop h z fuel niters pipid =
     bind (freemem fuel 0) (\<lambda>x. case x of None \<Rightarrow> Ret None | Some (fm, fp) \<Rightarrow>
       let fmall = size64 fm in
       if fmall > 0 then bind (malloc_sized h z fp niters pipid) (\<lambda>v. Ret (Some v))
       else Call (lib ''fprintf'' []) (\<lambda>_. Ret (Some EXIT_UNTESTED)))"

definition malloc_main :: "pip_h \<Rightarrow> sizes \<Rightarrow> nat \<Rightarrow> string list \<Rightarrow> int option prog" where
  "malloc_main h z fuel argv =
     (let niters = niters_arg argv 1 MALLOC_NITERS in
      chk (Pip (Pip_init True (Some 0) False 0)) nz (Ret (Some EXIT_FAIL)) (\<lambda>r. let pipid = stored (o1 r) 0 in
      bind (malloc_loop h z fuel niters pipid) (\<lambda>x. case x of None \<Rightarrow> Ret None
        | Some v \<Rightarrow> chkv v (\<lambda>v. v \<noteq> 0) (Ret (Some v)) (Ret (Some EXIT_PASS)))))"

subsection \<open>What the test can see\<close>

text \<open>
  A memory of bytes, and a \<open>malloc\<close> that answers its \<open>n\<close>th call with \<open>addr n\<close>, whatever that is; \<open>/proc/meminfo\<close> reports
  \<open>free\<close> kilobytes.
\<close>

record bytes =
  cells :: "int \<Rightarrow> int"
  served :: nat

definition byte_env :: "int \<Rightarrow> int \<Rightarrow> (nat \<Rightarrow> int) \<Rightarrow> (nat \<Rightarrow> int) \<Rightarrow> bytes env" where
  "byte_env pipid free addr rnd w c = (case c of
       Sys (Fopen _) \<Rightarrow> (Some (ok\<lparr>rv := 1\<rparr>), w)
     | Sys Fscanf \<Rightarrow> (Some (ok\<lparr>rv := 3, o1 := Some free, o2 := Some (of_char CHR ''k''), strv := Some ''MemFree:''\<rparr>), w)
     | Sys Random \<Rightarrow> (Some (ok\<lparr>rv := rnd (served w)\<rparr>), w)
     | Sys (Malloc n) \<Rightarrow> (Some (ok\<lparr>rv := addr (served w)\<rparr>), w\<lparr>served := Suc (served w)\<rparr>)
     | Sys (Lib f a) \<Rightarrow>
         if f = ''poke'' then (Some ok, w\<lparr>cells := (cells w)(hd a := a ! 1)\<rparr>)
         else if f = ''peek'' then (Some (ok\<lparr>rv := cells w (hd a)\<rparr>), w) else (Some ok, w)
     | Pip (Pip_init _ _ _ _) \<Rightarrow> (Some (ok\<lparr>o1 := Some pipid\<rparr>), w)
     | _ \<Rightarrow> (Some ok, w))"

lemma byte_env_simps [simp]:
  "byte_env pid fr addr rnd w (Sys (Fopen s)) = (Some (ok\<lparr>rv := 1\<rparr>), w)"
  "byte_env pid fr addr rnd w (Sys Fscanf) =
     (Some (ok\<lparr>rv := 3, o1 := Some fr, o2 := Some (of_char CHR ''k''), strv := Some ''MemFree:''\<rparr>), w)"
  "byte_env pid fr addr rnd w (Sys Random) = (Some (ok\<lparr>rv := rnd (served w)\<rparr>), w)"
  "byte_env pid fr addr rnd w (Sys (Malloc n)) = (Some (ok\<lparr>rv := addr (served w)\<rparr>), w\<lparr>served := Suc (served w)\<rparr>)"
  "byte_env pid fr addr rnd w (lib ''poke'' [x, y]) = (Some ok, w\<lparr>cells := (cells w)(x := y)\<rparr>)"
  "byte_env pid fr addr rnd w (lib ''peek'' [x]) = (Some (ok\<lparr>rv := cells w x\<rparr>), w)"
  "byte_env pid fr addr rnd w (lib ''fprintf'' a) = (Some ok, w)"
  "byte_env pid fr addr rnd w (Pip (Pip_init a1 a2 a3 a4)) = (Some (ok\<lparr>o1 := Some pid\<rparr>), w)"
  "byte_env pid fr addr rnd w (Pip Pip_yield) = (Some ok, w)"
  "byte_env pid fr addr rnd w (Sys Free) = (Some ok, w)" "byte_env pid fr addr rnd w (Sys Fclose) = (Some ok, w)"
  "byte_env pid fr addr rnd w (Sys Rewind) = (Some ok, w)"
  by (simp_all add: byte_env_def)

definition filled :: "int \<Rightarrow> int \<Rightarrow> int \<Rightarrow> bytes \<Rightarrow> bool" where
  "filled pid n p w \<longleftrightarrow> (\<forall>i. 0 \<le> i \<and> i < n \<longrightarrow> cells w (p + i) = to_char pid)"

lemma fill_run:
  "outcome (for_range lo n (fill p pid) ()) (byte_env pid fr addr rnd) w = Returned (Inr ()) \<and>
   final_env (for_range lo n (fill p pid) ()) (byte_env pid fr addr rnd) w =
     w\<lparr>cells := \<lambda>a. if p + lo \<le> a \<and> a < p + lo + int n then to_char pid else cells w a\<rparr>"
proof (induction n arbitrary: lo w)
  case (Suc n)
  show ?case using Suc.IH [of "lo + 1"]
    by (auto simp: fill_def [of _ _ lo] fun_eq_iff intro!: arg_cong [where f = "\<lambda>f. w\<lparr>cells := f\<rparr>"])
next
  case 0
  have "(\<lambda>a. if p + lo \<le> a \<and> a < p + lo then to_char pid else cells w a) = cells w" by (rule ext) simp
  then show ?case by simp
qed

lemma free_run:
  assumes "\<And>i. lo \<le> i \<Longrightarrow> i < lo + int n \<Longrightarrow> cells w (p + i) = to_char pid"
  shows "outcome (for_range lo n (free_check p pid) ()) (byte_env pid fr addr rnd) w = Returned (Inr ()) \<and>
   final_env (for_range lo n (free_check p pid) ()) (byte_env pid fr addr rnd) w = w"
  using assms
proof (induction n arbitrary: lo)
  case (Suc n)
  have "cells w (p + lo) = to_char pid" using Suc.prems by simp
  moreover have "outcome (for_range (lo + 1) n (free_check p pid) ()) (byte_env pid fr addr rnd) w = Returned (Inr ()) \<and>
    final_env (for_range (lo + 1) n (free_check p pid) ()) (byte_env pid fr addr rnd) w = w"
    by (rule Suc.IH) (use Suc.prems in simp)
  ultimately show ?case by (simp add: free_check_def [of _ _ lo])
qed simp

lemma my_free_run:
  assumes "filled pid mn p w"
  shows "outcome (my_free p mn pid) (byte_env pid fr addr rnd) w = Returned () \<and>
    final_env (my_free p mn pid) (byte_env pid fr addr rnd) w = w"
proof -
  have "cells w (p + i) = to_char pid" if "0 \<le> i" "i < 0 + int (nat mn)" for i
    using assms that by (cases "0 \<le> mn") (simp_all add: filled_def)
  from free_run [where fr = fr and addr = addr and rnd = rnd and n = "nat mn", OF this] show ?thesis by (simp add: my_free_def run_parts)
qed

lemma my_malloc_run:
  assumes "size64 (mx - mn) \<noteq> 0" "addr (served w) \<noteq> 0"
  obtains w' where "outcome (my_malloc mn mx pid) (byte_env pid fr addr rnd) w = Returned (addr (served w))"
    "final_env (my_malloc mn mx pid) (byte_env pid fr addr rnd) w = w'" "filled pid mn (addr (served w)) w'"
    "\<And>n p. filled pid n p w \<Longrightarrow> filled pid n p w'"
proof -
  let ?sz = "size64 (rnd (served w)) mod size64 (mx - mn) + mn" and ?v = "w\<lparr>served := Suc (served w)\<rparr>"
  let ?w = "?v\<lparr>cells := \<lambda>a. if addr (served w) \<le> a \<and> a < addr (served w) + int (nat ?sz) then to_char pid else cells w a\<rparr>"
  have "mn \<le> ?sz" using assms(1) by (simp add: size64_def pos_mod_sign)
  then have "filled pid mn (addr (served w)) ?w" by (auto simp: filled_def)
  moreover have "filled pid n p w \<Longrightarrow> filled pid n p ?w" for n p by (auto simp: filled_def)
  moreover have "outcome (my_malloc mn mx pid) (byte_env pid fr addr rnd) w = Returned (addr (served w)) \<and>
      final_env (my_malloc mn mx pid) (byte_env pid fr addr rnd) w = ?w"
    using assms fill_run [of 0 "nat ?sz" "addr (served w)" pid fr addr rnd ?v]
    by (simp add: my_malloc_def finE_def run_parts Let_def cong: if_cong)
  ultimately show thesis using that [of ?w] by blast
qed

lemma malloc_rounds:
  assumes "size64 (mx - mn) \<noteq> 0" "\<And>n. addr n \<noteq> 0" "filled pid mn prev w"
  shows "\<exists>p. outcome (for_range lo n (malloc_round h mn mx pid) prev) (byte_env pid fr addr rnd) w = Returned (Inr p) \<and>
    filled pid mn p (final_env (for_range lo n (malloc_round h mn mx pid) prev) (byte_env pid fr addr rnd) w)"
  using assms(3)
proof (induction n arbitrary: lo prev w)
  case (Suc n)
  obtain w' where w': "outcome (my_malloc mn mx pid) (byte_env pid fr addr rnd) w = Returned (addr (served w))"
    "final_env (my_malloc mn mx pid) (byte_env pid fr addr rnd) w = w'" "filled pid mn (addr (served w)) w'"
    "\<And>n p. filled pid n p w \<Longrightarrow> filled pid n p w'"
    using my_malloc_run [OF assms(1), where addr = addr and w = w] assms(2) by blast
  note F = my_free_run [OF w'(4) [OF Suc.prems], of fr addr rnd]
  have "outcome (malloc_round h mn mx pid lo prev) (byte_env pid fr addr rnd) w = Returned (Inr (addr (served w))) \<and>
      final_env (malloc_round h mn mx pid lo prev) (byte_env pid fr addr rnd) w = w'"
    using w'(1,2) F assms(2) [of "served w"] by (simp add: malloc_round_def seqE_def chk_def chkv_def run_parts)
  then show ?case using Suc.IH [OF w'(3), of "lo + 1"] by (simp add: seqE_def run_parts)
qed simp

text \<open>C28: as far as one task is concerned the malloc test passes whatever addresses \<open>malloc\<close> returns, even the same one
twice: what is compared is the task's own byte, so only a write of another task is found. And it runs, with the sizes for 400 MB,
however little memory \<open>/proc/meminfo\<close> reports as free: the threshold is never compared with it.\<close>

theorem malloc_passes:
  assumes "0 < fr" "fr < 2 ^ 50" "0 < fuel" "\<And>n. addr n \<noteq> 0"
    and "\<And>x. size64 (upper z x - lower z x) \<noteq> 0"
  shows "outcome (malloc_main h z fuel argv) (byte_env pid fr addr rnd) w = Returned (Some EXIT_PASS)"
proof -
  let ?E = "byte_env pid fr addr rnd"
  obtain f where f: "fuel = Suc f" using assms(3) by (cases fuel) auto
  have "unit_bytes (of_char CHR ''k'') = 1024" by (simp add: unit_bytes_def)
  then have free: "outcome (freemem fuel 0) ?E w = Returned (Some (fr * 1024, 1)) \<and> final_env (freemem fuel 0) ?E w = w"
    by (simp add: freemem_def f freemem_body_def run_parts Let_def)
  have pos: "0 < size64 (fr * 1024)" using assms(1,2) by (simp add: size64_def)
  have sized: "outcome (malloc_sized h z 1 niters pid) ?E w = Returned EXIT_PASS" for niters
  proof -
    let ?fm = "shrink z FREEMEM_THRESHOLD"
    let ?a = "if drop_bit (nat pid) ?fm < MALLOC_AVEMIN then MALLOC_AVEMIN else drop_bit (nat pid) ?fm"
    let ?mn = "lower z ?a" and ?mx = "upper z ?a"
    obtain w' where w': "outcome (my_malloc ?mn ?mx pid) ?E w = Returned (addr (served w))"
      "final_env (my_malloc ?mn ?mx pid) ?E w = w'" "filled pid ?mn (addr (served w)) w'"
      using my_malloc_run [OF assms(5), where addr = addr and w = w] assms(4) by blast
    from malloc_rounds [where addr = addr and rnd = rnd and fr = fr and lo = 0 and h = h
        and n = "nat (to_int32 (niters * 2 ^ nat pid))", OF assms(5,4) w'(3)] obtain p where p:
      "outcome (for_range 0 (nat (to_int32 (niters * 2 ^ nat pid))) (malloc_round h ?mn ?mx pid) (addr (served w))) ?E w' = Returned (Inr p)"
      "filled pid ?mn p (final_env (for_range 0 (nat (to_int32 (niters * 2 ^ nat pid))) (malloc_round h ?mn ?mx pid) (addr (served w))) ?E w')"
      by blast
    show ?thesis using w' p my_free_run [OF p(2), of fr addr rnd] assms(4) [of "served w"]
      by (simp add: malloc_sized_def Let_def chkv_def finE_def run_parts)
  qed
  have "outcome (malloc_loop h z fuel niters pid) ?E w = Returned (Some EXIT_PASS)" for niters
    using free pos sized by (simp add: malloc_loop_def run_parts Let_def)
  then show ?thesis by (simp add: malloc_main_def chk_def chkv_def run_parts Let_def EXIT_PASS_def)
qed

definition plain_sizes :: sizes where
  "plain_sizes = \<lparr>shrink = \<lambda>x. x, lower = \<lambda>x. x, upper = \<lambda>x. x + 1\<rparr>"

lemma malloc_passes_witness:
  "outcome (malloc_main h_sample plain_sizes 1 [''malloc'']) (byte_env 0 1 (\<lambda>_. 8) (\<lambda>_. 5)) \<lparr>cells = \<lambda>_. 0, served = 0\<rparr> =
     Returned (Some EXIT_PASS)"
  by (rule malloc_passes) (simp_all add: plain_sizes_def size64_def)

end
