(* ===== verification/NameRing.thy ===== *)
theory NameRing
  imports PageFault ApiLoops
begin

text \<open>
  \<open>basics/pip_namexp.c\<close>: tasks pass the address of a variable of task 0 around a ring, by exporting it under a name
  and importing it from the neighbour, forward and backward in every round; each adds one to the variable.
  An import waits until the other task has exported the name.
\<close>

section \<open>The program\<close>

definition NX_NITERS :: int where "NX_NITERS = 100"
definition NX_MAGIC :: int where "NX_MAGIC = 314"

text \<open>
  The calls, with the name (its format string), the number that is printed into it, and the address; an import names
  the task that exports. \<open>load\<close> and \<open>store\<close> go through a pointer.
\<close>

definition export_fn :: "string \<Rightarrow> string" where "export_fn name = ''pip_named_export:'' @ name"
definition import_fn :: "string \<Rightarrow> string" where "import_fn name = ''pip_named_import:'' @ name"

abbreviation export_at :: "string \<Rightarrow> int \<Rightarrow> int \<Rightarrow> call" where
  "export_at name i p \<equiv> Sys (Lib (export_fn name) [i, p])"

abbreviation import_at :: "int \<Rightarrow> string \<Rightarrow> int \<Rightarrow> call" where
  "import_at j name i \<equiv> Sys (Lib (import_fn name) [j, i])"

abbreviation load_at :: "int \<Rightarrow> call" where "load_at p \<equiv> Sys (Lib ''load'' [p])"
abbreviation store_at :: "int \<Rightarrow> int \<Rightarrow> call" where "store_at p v \<equiv> Sys (Lib ''store'' [p, v])"

text \<open>\<open>self\<close> is the address of the task's own \<open>count\<close>; \<open>out\<close> the early return.\<close>

abbreviation out :: "(int + 'a) prog" where "out \<equiv> Ret (Inl EXIT_FAIL)"

definition nx_turn :: "int \<Rightarrow> int \<Rightarrow> int \<Rightarrow> string \<Rightarrow> int \<Rightarrow> int \<Rightarrow> (int \<Rightarrow> (int + int) prog) \<Rightarrow> (int + int) prog" where
  "nx_turn self ntasks peer name i cp k =
     Call (store_at self 1) (\<lambda>_.
     chk (export_at name i self) nz out (\<lambda>_.
     chk (import_at peer name i) nz out (\<lambda>r. let cp = stored (o1 r) cp in
     chkv (c_bool (cp \<noteq> self)) (\<lambda>v. v \<noteq> 0) out
      (Call (load_at cp) (\<lambda>r. chkv (c_bool (to_int32 (rv r) \<noteq> ntasks)) (\<lambda>v. v \<noteq> 0) out (k cp))))))"

definition nx_pass :: "int \<Rightarrow> string \<Rightarrow> int \<Rightarrow> int \<Rightarrow> (int \<Rightarrow> (int + int) prog) \<Rightarrow> (int + int) prog" where
  "nx_pass peer name i cp k =
     chk (import_at peer name i) nz out (\<lambda>r. let cp = stored (o1 r) cp in
     Call (load_at cp) (\<lambda>r. Call (store_at cp (to_int32 (rv r + 1))) (\<lambda>_.
     chk (export_at name i cp) nz out (\<lambda>_. k cp))))"

text \<open>The state of the loop is \<open>cp\<close> in task 0 and \<open>countp\<close> in the others.\<close>

definition nx_round :: "int \<Rightarrow> int \<Rightarrow> int \<Rightarrow> int \<Rightarrow> int \<Rightarrow> int \<Rightarrow> int \<Rightarrow> (int + int) prog" where
  "nx_round self ntasks pipid prev next i cp =
     (if pipid = 0 then
        nx_turn self ntasks prev ''forward:'' i cp (\<lambda>cp. nx_turn self ntasks next ''backward:'' i cp (\<lambda>cp. Ret (Inr cp)))
      else nx_pass prev ''forward:'' i cp (\<lambda>cp. nx_pass next ''backward:'' i cp (\<lambda>cp. Ret (Inr cp))))"

definition nx_self_test :: "pip_h \<Rightarrow> int \<Rightarrow> (int + int) prog" where
  "nx_self_test h self =
     Call (store_at self NX_MAGIC) (\<lambda>_.
     chk (import_at (PIPID_SELF h) ''must be failed'' 0) (\<lambda>r. rv r \<noteq> EDEADLK) out (\<lambda>r. let countp = stored (o1 r) self in
     chk (export_at ''must be found'' 0 countp) nz out (\<lambda>_.
     chk (import_at (PIPID_SELF h) ''must be found'' 0) nz out (\<lambda>r. let countp = stored (o1 r) countp in
     Call (load_at countp) (\<lambda>r. chkv (c_bool (to_int32 (rv r) \<noteq> NX_MAGIC)) (\<lambda>v. v \<noteq> 0) out (Ret (Inr countp)))))))"

text \<open>\<open>barr\<close> is the address of the barrier of task 0.\<close>

definition nx_barrier :: "int \<Rightarrow> int \<Rightarrow> int \<Rightarrow> (int + unit) prog" where
  "nx_barrier barr ntasks pipid =
     (if pipid = 0 then
        chk (Pip (Pip_barrier_init ntasks)) nz out (\<lambda>_. chk (export_at ''barrier'' 0 barr) nz out (\<lambda>_. Ret (Inr ())))
      else chk (import_at 0 ''barrier'' 0) nz out (\<lambda>_. Ret (Inr ())))"

definition nx_leave :: "int \<Rightarrow> int prog" where
  "nx_leave pipid =
     Call (lib ''fprintf'' [pipid]) (\<lambda>_. bar_wait (Ret EXIT_FAIL) (Call (lib ''fprintf'' [pipid]) (\<lambda>_. leave EXIT_PASS)))"

definition namexp_main :: "pip_h \<Rightarrow> int \<Rightarrow> int \<Rightarrow> int \<Rightarrow> int \<Rightarrow> string list \<Rightarrow> int prog" where
  "namexp_main h self barr cp0 ntasks0 argv =
     (let niters = niters_arg argv 1 NX_NITERS in
      chk (Pip (Pip_init True (Some ntasks0) False 0)) nz (Ret EXIT_FAIL) (\<lambda>r.
      let pipid = stored (o1 r) 0; ntasks = stored (o2 r) ntasks0 in
      chkv (c_bool (pipid = PIPID_ROOT h)) (\<lambda>v. v \<noteq> 0) (Ret EXIT_UNTESTED)
      (chkv (c_bool (ntasks < 2)) (\<lambda>v. v \<noteq> 0) (Ret EXIT_UNTESTED)
      (let prev = (if pipid = 0 then ntasks - 1 else pipid - 1);
           next = (if pipid = ntasks - 1 then 0 else pipid + 1) in
      finE (nx_self_test h self) (\<lambda>countp.
      finE (nx_barrier barr ntasks pipid) (\<lambda>_.
      bar_wait (Ret EXIT_FAIL)
       (finE (for_range 0 (nat niters) (nx_round self ntasks pipid prev next) (if pipid = 0 then cp0 else countp)) (\<lambda>_.
        nx_leave pipid))))))))"

section \<open>Exports and variables\<close>

text \<open>
  The variables by their address, and the exports by task, name and number. An import from oneself does not wait: it
  answers EDEADLK when there is no such export.
\<close>

record nx_state =
  vars :: "int \<Rightarrow> int"
  exps :: "tid \<Rightarrow> string \<Rightarrow> int \<Rightarrow> int option"

definition nx_sem :: "pip_h \<Rightarrow> nat \<Rightarrow> nx_state sem" where
  "nx_sem h n i c w = (case c of
       Sys (Lib f a) \<Rightarrow>
         if take 17 f = ''pip_named_export:'' then
           Some (ok, w\<lparr>exps := (exps w)(i := (exps w i)(drop 17 f := (exps w i (drop 17 f))(hd a \<mapsto> a ! 1)))\<rparr>)
         else if take 17 f = ''pip_named_import:'' then
           (if hd a = PIPID_SELF h then
              (case exps w i (drop 17 f) (a ! 1) of None \<Rightarrow> Some (ok\<lparr>rv := EDEADLK\<rparr>, w) | Some p \<Rightarrow> Some (ok\<lparr>o1 := Some p\<rparr>, w))
            else map_option (\<lambda>p. (ok\<lparr>o1 := Some p\<rparr>, w)) (exps w (nat (hd a)) (drop 17 f) (a ! 1)))
         else if f = ''load'' then Some (ok\<lparr>rv := vars w (hd a)\<rparr>, w)
         else if f = ''store'' then Some (ok, w\<lparr>vars := (vars w)(hd a := a ! 1)\<rparr>)
         else Some (ok, w)
     | Pip (Pip_init _ _ _ _) \<Rightarrow> Some (ok\<lparr>o1 := Some (int i), o2 := Some (int n)\<rparr>, w)
     | _ \<Rightarrow> Some (ok, w))"

text \<open>The operations on the exports.\<close>

definition put_exp :: "tid \<Rightarrow> string \<Rightarrow> int \<Rightarrow> int \<Rightarrow> nx_state \<Rightarrow> nx_state" where
  "put_exp i name k p w = w\<lparr>exps := (exps w)(i := (exps w i)(name := (exps w i name)(k \<mapsto> p)))\<rparr>"

lemma put_exp_simps [simp]:
  "exps (put_exp i name k p w) j nm l = (if i = j \<and> name = nm \<and> k = l then Some p else exps w j nm l)"
  "vars (put_exp i name k p w) = vars w"
  "j \<noteq> i \<Longrightarrow> exps (put_exp i name k p w) j = exps w j"
  by (auto simp: put_exp_def)

lemma nx_sem_simps [simp]:
  "nx_sem h n i (export_at name k p) w = Some (ok, put_exp i name k p w)"
  "nx_sem h n i (import_at j name k) w =
     (if j = PIPID_SELF h then
        (case exps w i name k of None \<Rightarrow> Some (ok\<lparr>rv := EDEADLK\<rparr>, w) | Some p \<Rightarrow> Some (ok\<lparr>o1 := Some p\<rparr>, w))
      else map_option (\<lambda>p. (ok\<lparr>o1 := Some p\<rparr>, w)) (exps w (nat j) name k))"
  "nx_sem h n i (load_at p) w = Some (ok\<lparr>rv := vars w p\<rparr>, w)"
  "nx_sem h n i (store_at p v) w = Some (ok, w\<lparr>vars := (vars w)(p := v)\<rparr>)"
  "nx_sem h n i (lib ''fprintf'' a) w = Some (ok, w)"
  "nx_sem h n i (Pip (Pip_init a1 a2 a3 a4)) w = Some (ok\<lparr>o1 := Some (int i), o2 := Some (int n)\<rparr>, w)"
  "nx_sem h n i (Pip (Pip_barrier_init x)) w = Some (ok, w)"
  "nx_sem h n i (Pip Pip_fin) w = Some (ok, w)"
  by (simp_all add: nx_sem_def put_exp_def export_fn_def import_fn_def)

section \<open>The halves of the rounds\<close>

text \<open>
  Half \<open>q\<close> of the \<open>2 * N\<close>: forward when \<open>q\<close> is even, backward when it is odd. The tasks \<open>1, ..., n - 1\<close> have the
  orders \<open>1, ..., n - 1\<close> in it, and task 0 is before the first and after the last: \<open>peer\<close> is whose export a task waits for.
\<close>

definition nm :: "nat \<Rightarrow> string" where "nm q = (if odd q then ''backward:'' else ''forward:'')"

definition ord :: "nat \<Rightarrow> nat \<Rightarrow> tid \<Rightarrow> nat" where "ord n q i = (if i = 0 then 0 else if odd q then n - i else i)"

definition tsk :: "nat \<Rightarrow> nat \<Rightarrow> nat \<Rightarrow> tid" where "tsk n q k = (if k = 0 then 0 else if odd q then n - k else k)"

definition peer :: "nat \<Rightarrow> nat \<Rightarrow> tid \<Rightarrow> tid" where
  "peer n q i = tsk n q (if i = 0 then n - 1 else ord n q i - 1)"

definition ad :: "tid \<Rightarrow> int" where "ad i = 8 * (int i + 1)"

lemma ad_inj [simp]: "ad i = ad j \<longleftrightarrow> i = j"
  by (simp add: ad_def)

text \<open>What is left of a half: of task 0, from its store, export, import and load on; of another, from its import, load, store and export on.\<close>

definition ask :: "int \<Rightarrow> int \<Rightarrow> string \<Rightarrow> int \<Rightarrow> int \<Rightarrow> (int \<Rightarrow> int prog) \<Rightarrow> int prog" where
  "ask self p name i cp k = chk (import_at p name i) nz (Ret EXIT_FAIL) (\<lambda>r. let cp = stored (o1 r) cp in
     chkv (c_bool (cp \<noteq> self)) (\<lambda>v. v \<noteq> 0) (Ret EXIT_FAIL) (k cp))"

definition compare :: "int \<Rightarrow> int \<Rightarrow> (int \<Rightarrow> int prog) \<Rightarrow> int prog" where
  "compare ntasks cp k = Call (load_at cp) (\<lambda>r. chkv (c_bool (to_int32 (rv r) \<noteq> ntasks)) (\<lambda>v. v \<noteq> 0) (Ret EXIT_FAIL) (k cp))"

definition hand_on :: "string \<Rightarrow> int \<Rightarrow> int \<Rightarrow> (int \<Rightarrow> int prog) \<Rightarrow> int prog" where
  "hand_on name i cp k = chk (export_at name i cp) nz (Ret EXIT_FAIL) (\<lambda>_. k cp)"

definition write_on :: "string \<Rightarrow> int \<Rightarrow> int \<Rightarrow> int \<Rightarrow> (int \<Rightarrow> int prog) \<Rightarrow> int prog" where
  "write_on name i cp v k = Call (store_at cp (to_int32 (v + 1))) (\<lambda>_. hand_on name i cp k)"

definition half0 :: "nat \<Rightarrow> nat \<Rightarrow> nat \<Rightarrow> int \<Rightarrow> (int \<Rightarrow> int prog) \<Rightarrow> int prog" where
  "half0 n q s x k =
     (let i = int (q div 2); self = ad 0; p = int (peer n q 0) in
      if s = 0 then Call (store_at self 1) (\<lambda>_. hand_on (nm q) i self (\<lambda>_. ask self p (nm q) i x (\<lambda>cp. compare (int n) cp k)))
      else if s = 1 then hand_on (nm q) i self (\<lambda>_. ask self p (nm q) i x (\<lambda>cp. compare (int n) cp k))
      else if s = 2 then ask self p (nm q) i x (\<lambda>cp. compare (int n) cp k)
      else compare (int n) x k)"

definition halfi :: "nat \<Rightarrow> nat \<Rightarrow> tid \<Rightarrow> nat \<Rightarrow> int \<Rightarrow> int \<Rightarrow> (int \<Rightarrow> int prog) \<Rightarrow> int prog" where
  "halfi n q t s x v k =
     (let i = int (q div 2); load = (\<lambda>cp. Call (load_at cp) (\<lambda>r. write_on (nm q) i cp (rv r) k)) in
      if s = 0 then chk (import_at (int (peer n q t)) (nm q) i) nz (Ret EXIT_FAIL) (\<lambda>r. load (stored (o1 r) x))
      else if s = 1 then load x
      else if s = 2 then write_on (nm q) i x v k
      else hand_on (nm q) i x k)"

definition hf :: "nat \<Rightarrow> tid \<Rightarrow> nat \<Rightarrow> nat \<Rightarrow> int \<Rightarrow> int \<Rightarrow> (int \<Rightarrow> int prog) \<Rightarrow> int prog" where
  "hf n t q s x v k = (if t = 0 then half0 n q s x k else halfi n q t s x v k)"

definition nrest :: "nat \<Rightarrow> nat \<Rightarrow> tid \<Rightarrow> nat \<Rightarrow> int \<Rightarrow> int prog" where
  "nrest n N t r x =
     finE (for_range (int r) (N - r) (nx_round (ad t) (int n) (int t)
        (if t = 0 then int n - 1 else int t - 1) (if int t = int n - 1 then 0 else int t + 1)) x) (\<lambda>_. nx_leave (int t))"

lemma finE_turn: "finE (nx_turn self nt p name i cp k) f =
    Call (store_at self 1) (\<lambda>_. hand_on name i self (\<lambda>_. ask self p name i cp (\<lambda>cp. compare nt cp (\<lambda>cp. finE (k cp) f))))"
  by (simp add: nx_turn_def hand_on_def ask_def compare_def finE_chk chkv_def Let_def if_distrib [of "\<lambda>p. finE p f"] cong: if_cong)

lemma finE_pass: "finE (nx_pass p name i cp k) f =
    chk (import_at p name i) nz (Ret EXIT_FAIL) (\<lambda>r. Call (load_at (stored (o1 r) cp)) (\<lambda>r'.
      write_on name i (stored (o1 r) cp) (rv r') (\<lambda>cp. finE (k cp) f)))"
  by (simp add: nx_pass_def hand_on_def write_on_def finE_chk Let_def)

lemma nrest_step:
  assumes "r < N" "t < n" "2 \<le> n"
  shows "nrest n N t r x = hf n t (2 * r) 0 x v (\<lambda>x. hf n t (Suc (2 * r)) 0 x v (nrest n N t (Suc r)))"
proof -
  have d: "N - r = Suc (N - Suc r)" using assms(1) by simp
  note simps = nrest_def [abs_def] d finE_seqE nx_round_def finE_turn finE_pass hf_def half0_def halfi_def nm_def Let_def add.commute
  show ?thesis
  proof (cases "t = 0")
    case True
    have "int (peer n (2 * r) 0) = int n - 1" "int (peer n (Suc (2 * r)) 0) = 1" "int n \<noteq> 1"
      using assms(3) by (auto simp: peer_def tsk_def of_nat_diff)
    then show ?thesis using True by (simp add: simps)
  next
    case False
    have "int (peer n (2 * r) t) = int t - 1"
      "int (peer n (Suc (2 * r)) t) = (if int t = int n - 1 then 0 else int t + 1)"
      using assms(2) False by (auto simp: peer_def tsk_def ord_def of_nat_diff)
    then show ?thesis using False by (simp add: simps)
  qed
qed

section \<open>The places\<close>

text \<open>
  The calls of the opening one by one (\<open>NI\<close> to \<open>NX\<close>), the first barrier \<open>NW\<close>; \<open>Tn q s x v\<close>: in half \<open>q\<close> with \<open>s\<close> of its
  four calls done, the pointer \<open>x\<close> and the number \<open>v\<close> just read; then the second barrier \<open>W2\<close> and the end.
\<close>

datatype xplace = NI | NA | NF | NE | NG | NL | NB | NX | NW | Tn nat nat int int | P1 | W2 | P2 | NQ | ND

definition ring :: "nat \<Rightarrow> nat \<Rightarrow> tid \<Rightarrow> nat \<Rightarrow> int \<Rightarrow> int prog" where
  "ring n N i q x =
     (if even q then nrest n N i (q div 2) x else hf n i q 0 x 0 (nrest n N i (Suc (q div 2))))"

definition sync :: "int \<Rightarrow> nat \<Rightarrow> nat \<Rightarrow> tid \<Rightarrow> int \<Rightarrow> int prog" where
  "sync cp0 n N i countp = bar_wait (Ret EXIT_FAIL) (ring n N i 0 (if i = 0 then cp0 else countp))"

definition open_bar :: "int \<Rightarrow> int \<Rightarrow> nat \<Rightarrow> nat \<Rightarrow> tid \<Rightarrow> int \<Rightarrow> int prog" where
  "open_bar barr cp0 n N i countp = finE (nx_barrier barr (int n) (int i)) (\<lambda>_. sync cp0 n N i countp)"

definition last_test :: "(int \<Rightarrow> int prog) \<Rightarrow> int \<Rightarrow> int prog" where
  "last_test k countp =
     Call (load_at countp) (\<lambda>r. chkv (c_bool (to_int32 (rv r) \<noteq> NX_MAGIC)) (\<lambda>v. v \<noteq> 0) (Ret EXIT_FAIL) (k countp))"

definition third_test :: "pip_h \<Rightarrow> (int \<Rightarrow> int prog) \<Rightarrow> int \<Rightarrow> int prog" where
  "third_test h k countp =
     chk (import_at (PIPID_SELF h) ''must be found'' 0) nz (Ret EXIT_FAIL) (\<lambda>r. last_test k (stored (o1 r) countp))"

definition second_test :: "pip_h \<Rightarrow> (int \<Rightarrow> int prog) \<Rightarrow> int \<Rightarrow> int prog" where
  "second_test h k countp = chk (export_at ''must be found'' 0 countp) nz (Ret EXIT_FAIL) (\<lambda>_. third_test h k countp)"

definition first_test :: "pip_h \<Rightarrow> (int \<Rightarrow> int prog) \<Rightarrow> int \<Rightarrow> int prog" where
  "first_test h k self =
     chk (import_at (PIPID_SELF h) ''must be failed'' 0) (\<lambda>r. rv r \<noteq> EDEADLK) (Ret EXIT_FAIL) (\<lambda>r. second_test h k (stored (o1 r) self))"

lemma finE_self_test: "finE (nx_self_test h self) k = Call (store_at self NX_MAGIC) (\<lambda>_. first_test h k self)"
  by (simp add: nx_self_test_def first_test_def second_test_def third_test_def last_test_def finE_chk chkv_def Let_def
      if_distrib [of "\<lambda>p. finE p k"] cong: if_cong)

record nx_args =
  xbarr :: int
  xcp :: int
  xnt :: int
  xargv :: "string list"

abbreviation rounds :: "nx_args \<Rightarrow> nat" where "rounds a \<equiv> nat (niters_arg (xargv a) 1 NX_NITERS)"

abbreviation opened :: "nx_args \<Rightarrow> nat \<Rightarrow> tid \<Rightarrow> int \<Rightarrow> int prog" where
  "opened a n i \<equiv> open_bar (xbarr a) (xcp a) n (rounds a) i"

fun xat :: "pip_h \<Rightarrow> nx_args \<Rightarrow> nat \<Rightarrow> tid \<Rightarrow> xplace \<Rightarrow> int prog" where
  "xat h a n i NI = namexp_main h (ad i) (xbarr a) (xcp a) (xnt a) (xargv a)"
| "xat h a n i NA = finE (nx_self_test h (ad i)) (opened a n i)"
| "xat h a n i NF = first_test h (opened a n i) (ad i)"
| "xat h a n i NE = second_test h (opened a n i) (ad i)"
| "xat h a n i NG = third_test h (opened a n i) (ad i)"
| "xat h a n i NL = last_test (opened a n i) (ad i)"
| "xat h a n i NB = opened a n i (ad i)"
| "xat h a n i NX = chk (export_at ''barrier'' 0 (xbarr a)) nz (Ret EXIT_FAIL) (\<lambda>_. sync (xcp a) n (rounds a) i (ad i))"
| "xat h a n i NW = sync (xcp a) n (rounds a) i (ad i)"
| "xat h a n i (Tn q s x v) = hf n i q s x v (ring n (rounds a) i (Suc q))"
| "xat h a n i P1 = nx_leave (int i)"
| "xat h a n i W2 = bar_wait (Ret EXIT_FAIL) (Call (lib ''fprintf'' [int i]) (\<lambda>_. leave EXIT_PASS))"
| "xat h a n i P2 = Call (lib ''fprintf'' [int i]) (\<lambda>_. leave EXIT_PASS)"
| "xat h a n i NQ = leave EXIT_PASS"
| "xat h a n i ND = Ret EXIT_PASS"

fun xrk :: "nat \<Rightarrow> xplace \<Rightarrow> nat" where
  "xrk N NI = 8 * N + 15" | "xrk N NA = 8 * N + 14" | "xrk N NF = 8 * N + 13" | "xrk N NE = 8 * N + 12"
| "xrk N NG = 8 * N + 11" | "xrk N NL = 8 * N + 10" | "xrk N NB = 8 * N + 9" | "xrk N NX = 8 * N + 8" | "xrk N NW = 8 * N + 7"
| "xrk N (Tn q s x v) = 6 + 4 * (2 * N - q) - s"
| "xrk N P1 = 6" | "xrk N W2 = 5" | "xrk N P2 = 4" | "xrk N NQ = 3" | "xrk N ND = 0"

lemma hf_start: "hf n t q 0 x v k = hf n t q 0 x v' k"
  by (simp add: hf_def half0_def halfi_def)

lemma ring_step:
  assumes "q < 2 * N" "i < n" "2 \<le> n"
  shows "ring n N i q x = hf n i q 0 x v (ring n N i (Suc q))"
proof (cases "even q")
  case True
  then have "ring n N i (Suc q) = (\<lambda>x. hf n i (Suc q) 0 x v (nrest n N i (Suc (q div 2))))"
    by (auto simp: ring_def [abs_def] hf_start [of n i "Suc q" _ 0 _ v])
  then show ?thesis using True assms nrest_step [of "q div 2" N i n x v] by (auto simp: ring_def)
next
  case False
  then have "ring n N i (Suc q) = nrest n N i (Suc (q div 2))" by (simp add: ring_def [abs_def])
  then show ?thesis using False by (simp add: ring_def hf_start [of n i q x 0 _ v])
qed

lemma ring_end: "ring n N i (2 * N) x = nx_leave (int i)"
  by (simp add: ring_def nrest_def)

text \<open>Where a task goes that has done half \<open>q\<close>.\<close>

definition half_done :: "nat \<Rightarrow> nat \<Rightarrow> int \<Rightarrow> xplace" where
  "half_done N q x = (if Suc q < 2 * N then Tn (Suc q) 0 x 0 else P1)"

lemma half_done:
  assumes "q < 2 * rounds a" "i < n" "2 \<le> n"
  shows "ring n (rounds a) i (Suc q) x = xat h a n i (half_done (rounds a) q x)"
proof (cases "Suc q < 2 * rounds a")
  case True
  then show ?thesis using assms ring_step [of "Suc q" "rounds a" i n x 0] by (simp add: half_done_def)
next
  case False
  then have "Suc q = 2 * rounds a" using assms(1) by simp
  then show ?thesis using ring_end [of n "rounds a" i x] by (simp add: half_done_def)
qed

section \<open>The opening\<close>

fun starting :: "xplace \<Rightarrow> bool" where
  "starting (Tn q s x v) = False"
| "starting pl = (pl \<notin> {P1, W2, P2, NQ, ND})"

definition nx_pre :: "nat \<Rightarrow> (tid \<Rightarrow> xplace) \<Rightarrow> nx_state \<Rightarrow> bool" where
  "nx_pre n pl w \<longleftrightarrow> (\<forall>i<n. starting (pl i) \<and> (pl i = NX \<longrightarrow> i = 0) \<and>
     (pl i \<in> {NF, NE, NG, NL} \<longrightarrow> vars w (ad i) = NX_MAGIC) \<and> (pl i = NG \<longrightarrow> exps w i ''must be found'' 0 = Some (ad i)) \<and>
     exps w i ''must be failed'' 0 = None \<and> (\<forall>q. exps w i (nm q) (int (q div 2)) = None)) \<and>
     (pl 0 = NW \<longrightarrow> exps w 0 ''barrier'' 0 \<noteq> None)"

lemma nm_other [simp]: "nm q \<noteq> ''must be found''" "nm q \<noteq> ''must be failed''" "nm q \<noteq> ''barrier''"
  "''must be found'' \<noteq> nm q" "''must be failed'' \<noteq> nm q" "''barrier'' \<noteq> nm q"
  by (simp_all add: nm_def)

text \<open>What one task at a time has to keep: what \<open>nx\_pre\<close> says of it, and what the others rely on.\<close>

lemma pre_move:
  assumes "nx_pre n pl w" "i < n" "starting q" "q = NX \<Longrightarrow> i = 0"
    "q \<in> {NF, NE, NG, NL} \<Longrightarrow> vars w' (ad i) = NX_MAGIC" "q = NG \<Longrightarrow> exps w' i ''must be found'' 0 = Some (ad i)"
    "\<And>j. j \<noteq> i \<Longrightarrow> vars w' (ad j) = vars w (ad j)" "\<And>j. j \<noteq> i \<Longrightarrow> exps w' j = exps w j"
    "exps w' i ''must be failed'' 0 = None" "\<And>r. exps w' i (nm r) (int (r div 2)) = None"
    "i = 0 \<Longrightarrow> q = NW \<Longrightarrow> exps w' 0 ''barrier'' 0 \<noteq> None"
  shows "nx_pre n (pl(i := q)) w'"
  using assms unfolding nx_pre_def by (cases "i = 0") auto

lemma EDEADLK_simps [simp]: "EDEADLK \<noteq> 0"
  by (simp add: EDEADLK_def)

lemma namexp_start:
  assumes "\<And>j. j < n \<Longrightarrow> PIPID_ROOT h \<noteq> int j" "i < n" "2 \<le> n"
  shows "namexp_main h (ad i) (xbarr a) (xcp a) (xnt a) (xargv a) =
    chk (Pip (Pip_init True (Some (xnt a)) False 0)) nz (Ret EXIT_FAIL) (\<lambda>r.
      let pipid = stored (o1 r) 0; ntasks = stored (o2 r) (xnt a) in
      chkv (c_bool (pipid = PIPID_ROOT h)) (\<lambda>v. v \<noteq> 0) (Ret EXIT_UNTESTED)
      (chkv (c_bool (ntasks < 2)) (\<lambda>v. v \<noteq> 0) (Ret EXIT_UNTESTED)
      (finE (nx_self_test h (ad i)) (\<lambda>countp. finE (nx_barrier (xbarr a) ntasks pipid) (\<lambda>_.
        bar_wait (Ret EXIT_FAIL)
         (finE (for_range 0 (rounds a) (nx_round (ad i) ntasks pipid (if pipid = 0 then ntasks - 1 else pipid - 1)
             (if pipid = ntasks - 1 then 0 else pipid + 1)) (if pipid = 0 then xcp a else countp)) (\<lambda>_. nx_leave pipid)))))))"
  by (simp add: namexp_main_def Let_def)

lemma open_start: "open_bar barr cp n N i x =
    (if i = 0 then chk (Pip (Pip_barrier_init (int n))) nz (Ret EXIT_FAIL) (\<lambda>_.
       chk (export_at ''barrier'' 0 barr) nz (Ret EXIT_FAIL) (\<lambda>_. sync cp n N i x))
     else chk (import_at 0 ''barrier'' 0) nz (Ret EXIT_FAIL) (\<lambda>_. sync cp n N i x))"
  by (simp add: open_bar_def nx_barrier_def finE_chk)

lemma pre_call:
  assumes I: "nx_pre n pl w" and i: "i < n" and n: "2 \<le> n" and h: "\<And>j. j < n \<Longrightarrow> PIPID_ROOT h \<noteq> int j" and s: "PIPID_SELF h < 0"
    and c: "xat h a n i (pl i) = Call c k" "\<not> is_bar c" and r: "nx_sem h n i c w = Some (r, w')"
  shows "\<exists>q. k r = xat h a n i q \<and> xrk (rounds a) q < xrk (rounds a) (pl i) \<and> nx_pre n (pl(i := q)) w'"
proof -
  have own: "starting (pl i)" "pl i = NX \<Longrightarrow> i = 0" "pl i \<in> {NF, NE, NG, NL} \<Longrightarrow> vars w (ad i) = NX_MAGIC"
    "pl i = NG \<Longrightarrow> exps w i ''must be found'' 0 = Some (ad i)" "exps w i ''must be failed'' 0 = None"
    "\<And>q. exps w i (nm q) (int (q div 2)) = None" using I i by (auto simp: nx_pre_def)
  note M = pre_move [OF I i] and simps = chk_def chkv_def Let_def
  show ?thesis
  proof (cases "pl i")
    case NI
    have "k r = xat h a n i NA" "w' = w"
      using c r NI i n h [OF i] by (auto simp: namexp_start [OF h] simps open_bar_def [abs_def] sync_def ring_def nrest_def)
    then show ?thesis using NI own by (intro exI [of _ NA]) (auto intro!: M)
  next
    case NA
    then show ?thesis using c r own by (intro exI [of _ NF]) (auto simp: finE_self_test intro!: M)
  next
    case NF
    then show ?thesis using c r own by (intro exI [of _ NE]) (auto simp: first_test_def simps intro!: M)
  next
    case NE
    then show ?thesis using c r own by (intro exI [of _ NG]) (auto simp: second_test_def simps intro!: M)
  next
    case NG
    then show ?thesis using c r own by (intro exI [of _ NL]) (auto simp: third_test_def simps stored_def split: if_splits intro!: M)
  next
    case NL
    then show ?thesis using c r own
      by (intro exI [of _ NB]) (auto simp: last_test_def simps NX_MAGIC_def to_int32_id intro!: M)
  next
    case NB
    have "k r = xat h a n i (if i = 0 then NX else NW)" "w' = w"
      using c r NB s by (auto simp: open_start simps split: if_splits)
    moreover have "nx_pre n (pl(i := if i = 0 then NX else NW)) w" by (rule M) (use own in \<open>simp_all split: if_splits\<close>)
    ultimately show ?thesis using NB by (intro exI [of _ "if i = 0 then NX else NW"]) simp
  next
    case NX
    have "k r = xat h a n i NW" "w' = put_exp i ''barrier'' 0 (xbarr a) w" using c r NX by (auto simp: simps)
    moreover have "nx_pre n (pl(i := NW)) (put_exp i ''barrier'' 0 (xbarr a) w)" by (rule M) (use own in simp_all)
    ultimately show ?thesis using NX by (intro exI [of _ NW]) simp
  next
    case NW
    then show ?thesis using c by (auto simp: sync_def bar_wait_def chk_def)
  qed (use own(1) in simp_all)
qed

section \<open>The ring\<close>

lemma nm_inj: "nm q = nm q' \<and> q div 2 = q' div 2 \<longleftrightarrow> q = q'"
proof
  assume a: "nm q = nm q' \<and> q div 2 = q' div 2"
  then have "odd q = odd q'" by (auto simp: nm_def split: if_splits)
  then show "q = q'" using a by (metis div_mult_mod_eq odd_iff_mod_2_eq_one even_iff_mod_2_eq_zero)
qed auto

lemma nm_eq [simp]: "nm q = nm q' \<and> int (q div 2) = int (q' div 2) \<longleftrightarrow> q = q'"
  using nm_inj [of q q'] by auto

lemma ord_simps:
  "ord n q i < n" if "i < n"
  using that by (auto simp: ord_def)

lemma ord_tsk [simp]: "k < n \<Longrightarrow> ord n q (tsk n q k) = k"
  by (auto simp: ord_def tsk_def)

lemma tsk_ord [simp]: "i < n \<Longrightarrow> tsk n q (ord n q i) = i"
  by (auto simp: ord_def tsk_def)

lemma tsk_less: "k < n \<Longrightarrow> tsk n q k < n"
  by (auto simp: tsk_def)

lemma ord_eq: "i < n \<Longrightarrow> j < n \<Longrightarrow> ord n q i = ord n q j \<longleftrightarrow> i = j"
  by (metis tsk_ord)

lemma ord_0 [simp]: "ord n q 0 = 0" "i < n \<Longrightarrow> ord n q i = 0 \<longleftrightarrow> i = 0"
  by (auto simp: ord_def)

text \<open>
  The token \<open>(q, k)\<close>: in half \<open>q\<close> the tasks of the orders below \<open>k\<close> have exported the address. The one of order
  \<open>k\<close> holds the token; task 0 holds it at both ends.
\<close>

definition exported :: "nat \<Rightarrow> nat \<Rightarrow> nat \<Rightarrow> nx_state \<Rightarrow> bool" where
  "exported n q k w \<longleftrightarrow> (\<forall>i<n. \<forall>q'. exps w i (nm q') (int (q' div 2)) =
     (if q' < q \<or> q' = q \<and> ord n q i < k then Some (ad 0) else None))"

definition at_half :: "nat \<Rightarrow> nat \<Rightarrow> xplace \<Rightarrow> bool" where
  "at_half q s pl \<longleftrightarrow> (\<exists>x v. pl = Tn q s x v)"

definition finished_half :: "nat \<Rightarrow> nat \<Rightarrow> xplace \<Rightarrow> bool" where
  "finished_half N q pl \<longleftrightarrow> (if Suc q < 2 * N then at_half (Suc q) 0 pl else pl = P1 \<or> pl = W2)"

definition carrying :: "nat \<Rightarrow> nat \<Rightarrow> xplace \<Rightarrow> int \<Rightarrow> bool" where
  "carrying q k pl m \<longleftrightarrow> (\<exists>s x v. pl = Tn q s x v \<and> s \<le> 3 \<and> (1 \<le> s \<longrightarrow> x = ad 0) \<and> (s = 2 \<longrightarrow> v = int k) \<and>
     m = int k + (if s = 3 then 1 else 0))"

definition starter :: "nat \<Rightarrow> nat \<Rightarrow> nat \<Rightarrow> xplace \<Rightarrow> int \<Rightarrow> bool" where
  "starter n q k pl m \<longleftrightarrow>
     (if k = 0 then at_half q 0 pl \<or> at_half q 1 pl \<and> m = 1
      else at_half q 2 pl \<or> k = n \<and> (\<exists>v. pl = Tn q 3 (ad 0) v)) \<and> (k = n \<longrightarrow> m = int n)"

definition token :: "nat \<Rightarrow> nat \<Rightarrow> nat \<Rightarrow> nat \<Rightarrow> (tid \<Rightarrow> xplace) \<Rightarrow> nx_state \<Rightarrow> bool" where
  "token n N q k pl w \<longleftrightarrow> q < 2 * N \<and> k \<le> n \<and> exported n q k w \<and> starter n q k (pl 0) (vars w (ad 0)) \<and>
     (\<forall>i. 0 < i \<longrightarrow> i < n \<longrightarrow>
        (if ord n q i < k then finished_half N q (pl i)
         else if ord n q i = k then carrying q k (pl i) (vars w (ad 0)) else at_half q 0 (pl i)))"

lemma exported_export:
  assumes "exported n q k w" "i < n" "ord n q i = k"
  shows "exported n q (Suc k) (put_exp i (nm q) (int (q div 2)) (ad 0) w)"
  unfolding exported_def
proof (intro allI impI)
  fix j q' assume j: "j < n"
  show "exps (put_exp i (nm q) (int (q div 2)) (ad 0) w) j (nm q') (int (q' div 2)) =
      (if q' < q \<or> q' = q \<and> ord n q j < Suc k then Some (ad 0) else None)"
  proof (cases "j = i \<and> q = q'")
    case True
    then show ?thesis using assms(3) by simp
  next
    case False
    then have "\<not> (i = j \<and> nm q = nm q' \<and> int (q div 2) = int (q' div 2))" by (metis nm_eq)
    moreover have "q' = q \<Longrightarrow> ord n q j < Suc k \<longleftrightarrow> ord n q j < k"
      using False j assms(2,3) ord_eq [of i n j q] by auto
    ultimately show ?thesis using assms(1) j by (auto simp: exported_def)
  qed
qed

lemma exported_next: "exported n q n w \<Longrightarrow> exported n (Suc q) 0 w"
  using ord_simps unfolding exported_def by (auto simp: less_Suc_eq)

lemma exported_vars: "exported n q k (w\<lparr>vars := f\<rparr>) = exported n q k w"
  by (simp add: exported_def)

text \<open>What a task finds that asks its neighbour.\<close>

lemma peer_less: "i < n \<Longrightarrow> peer n q i < n"
  using ord_simps [of i n q] by (auto simp: peer_def intro: tsk_less)

lemma peer_order: "i < n \<Longrightarrow> ord n q (peer n q i) = (if i = 0 then n - 1 else ord n q i - 1)"
  using ord_simps [of i n q] by (auto simp: peer_def)

lemma neighbour:
  assumes "exported n q k w" "i < n" "q \<le> q'"
  shows "exps w (peer n q' i) (nm q') (int (q' div 2)) =
    (if q' = q \<and> (if i = 0 then n - 1 else ord n q i - 1) < k then Some (ad 0) else None)"
  using assms peer_less [OF assms(2), of q'] peer_order [OF assms(2), of q] unfolding exported_def by auto

section \<open>Moves of the ring\<close>

abbreviation quit :: "int prog" where "quit \<equiv> Ret EXIT_FAIL"

lemma hf_first:
  "hf n 0 q 0 x v K = Call (store_at (ad 0) 1) (\<lambda>_. hf n 0 q 1 x v K)"
  "hf n 0 q 1 x v K = chk (export_at (nm q) (int (q div 2)) (ad 0)) nz quit (\<lambda>_. hf n 0 q 2 x v K)"
  "hf n 0 q 2 x v K = chk (import_at (int (peer n q 0)) (nm q) (int (q div 2))) nz quit (\<lambda>r.
     chkv (c_bool (stored (o1 r) x \<noteq> ad 0)) (\<lambda>v. v \<noteq> 0) quit (hf n 0 q 3 (stored (o1 r) x) v K))"
  "hf n 0 q 3 x v K = Call (load_at x) (\<lambda>r. chkv (c_bool (to_int32 (rv r) \<noteq> int n)) (\<lambda>v. v \<noteq> 0) quit (K x))"
  by (simp_all add: hf_def half0_def hand_on_def ask_def compare_def Let_def)

lemma hf_other:
  assumes "0 < i"
  shows "hf n i q 0 x v K = chk (import_at (int (peer n q i)) (nm q) (int (q div 2))) nz quit (\<lambda>r. hf n i q 1 (stored (o1 r) x) v K)"
    and "hf n i q 1 x v K = Call (load_at x) (\<lambda>r. hf n i q 2 x (rv r) K)"
    and "hf n i q 2 x v K = Call (store_at x (to_int32 (v + 1))) (\<lambda>_. hf n i q 3 x v K)"
    and "hf n i q 3 x v K = chk (export_at (nm q) (int (q div 2)) x) nz quit (\<lambda>_. K x)"
  using assms by (simp_all add: hf_def halfi_def hand_on_def write_on_def Let_def)

lemma token_task:
  assumes "token n N q k pl w" "0 < i" "i < n"
  shows "ord n q i < k \<Longrightarrow> finished_half N q (pl i)" "ord n q i = k \<Longrightarrow> carrying q k (pl i) (vars w (ad 0))"
    "k < ord n q i \<Longrightarrow> at_half q 0 (pl i)"
  using assms by (auto simp: token_def)

lemma half_carrying: "at_half q 0 pl \<Longrightarrow> carrying q k pl (int k)"
  by (auto simp: at_half_def carrying_def intro!: exI [of _ "0 :: nat"])

text \<open>The token stays with the task that has it.\<close>

lemma token_stay0:
  assumes "token n N q k pl w" "k = 0 \<or> k = n" "starter n q k p (vars w' (ad 0))" "exps w' = exps w"
  shows "token n N q k (pl(0 := p)) w'"
proof -
  have "ord n q i \<noteq> n" if "i < n" for i using ord_simps [OF that] by (simp add: less_imp_neq)
  then show ?thesis using assms unfolding token_def exported_def by (auto simp: fun_upd_apply)
qed

lemma token_stay:
  assumes "token n N q k pl w" "0 < i" "i < n" "ord n q i = k" "carrying q k p (vars w' (ad 0))" "exps w' = exps w"
  shows "token n N q k (pl(i := p)) w'"
proof -
  have k: "0 < k" "k < n" using assms(2-4) ord_simps [of i n q] by (auto simp: ord_def split: if_splits)
  then have "starter n q k (pl 0) (vars w' (ad 0))" using assms(1) by (simp add: token_def starter_def)
  then show ?thesis using assms ord_eq [of _ n i q] unfolding token_def exported_def by (auto simp: fun_upd_apply)
qed

lemma token_done:
  "token n N q k pl w \<Longrightarrow> 0 < i \<Longrightarrow> ord n q i < k \<Longrightarrow> finished_half N q p \<Longrightarrow> token n N q k (pl(i := p)) w"
  by (auto simp: token_def)

text \<open>It goes on to the next order.\<close>

lemma token_first:
  assumes "token n N q 0 pl w" "2 \<le> n" "pl 0 = Tn q 1 x v"
  shows "token n N q 1 (pl(0 := Tn q 2 x v)) (put_exp 0 (nm q) (int (q div 2)) (ad 0) w)"
proof -
  have m: "vars w (ad 0) = 1" using assms(1,3) by (auto simp: token_def starter_def at_half_def)
  have "carrying q 1 (pl i) 1" if "0 < i" "i < n" "ord n q i = 1" for i
    using token_task(3) [OF assms(1) that(1,2)] that(3) half_carrying [of q "pl i" 1] by simp
  moreover have "at_half q 0 (pl i)" if "0 < i" "i < n" "ord n q i \<noteq> 1" for i
    using token_task(3) [OF assms(1) that(1,2)] that ord_0(2) [of i n q] by (cases "ord n q i = 0") auto
  moreover have "ord n q i = 0 \<longleftrightarrow> i = 0" if "i < n" for i using that by simp
  ultimately show ?thesis
    using assms exported_export [of n q 0 w 0] m
    by (auto simp: token_def starter_def at_half_def less_Suc_eq)
qed

lemma token_pass:
  assumes "token n N q k pl w" "0 < i" "i < n" "ord n q i = k" "pl i = Tn q 3 x v" "finished_half N q p"
  shows "token n N q (Suc k) (pl(i := p)) (put_exp i (nm q) (int (q div 2)) (ad 0) w)"
proof -
  have k: "0 < k" "k < n" using assms(2-4) ord_simps [of i n q] by (auto simp: ord_def split: if_splits)
  have m: "vars w (ad 0) = int k + 1" using token_task(2) [OF assms(1-4)] assms(5) by (auto simp: carrying_def)
  have "starter n q (Suc k) (pl 0) (int k + 1)" using assms(1) k by (auto simp: token_def starter_def)
  moreover have "\<forall>j. 0 < j \<longrightarrow> j < n \<longrightarrow> (if ord n q j < Suc k then finished_half N q ((pl(i := p)) j)
      else if ord n q j = Suc k then carrying q (Suc k) ((pl(i := p)) j) (int k + 1) else at_half q 0 ((pl(i := p)) j))"
  proof (intro allI impI)
    fix j assume that: "0 < j" "j < n"
    show "if ord n q j < Suc k then finished_half N q ((pl(i := p)) j)
      else if ord n q j = Suc k then carrying q (Suc k) ((pl(i := p)) j) (int k + 1) else at_half q 0 ((pl(i := p)) j)"
  proof (cases "j = i")
    case False
    then have "ord n q j \<noteq> k" using ord_eq [of j n i q] that assms(3,4) by auto
    then show ?thesis using False token_task [OF assms(1) that] half_carrying [of q "pl j" "Suc k"] by (auto simp: add.commute)
  qed (use assms in simp)
  qed
  moreover have "q < 2 * N" "exported n q (Suc k) (put_exp i (nm q) (int (q div 2)) (ad 0) w)"
    using assms(1) exported_export [OF _ assms(3,4), of w] by (simp_all add: token_def)
  ultimately show ?thesis using k m assms(2) unfolding token_def by (simp only: put_exp_simps fun_upd_other)
    (simp add: add.commute)
qed

text \<open>The next half begins, or the end.\<close>

definition leaving :: "nat \<Rightarrow> (tid \<Rightarrow> xplace) \<Rightarrow> bool" where
  "leaving n pl \<longleftrightarrow> (\<forall>i<n. pl i = P1 \<or> pl i = W2)"

lemma token_half:
  assumes "token n N q n pl w" "2 \<le> n"
  shows "if Suc q < 2 * N then token n N (Suc q) 0 (pl(0 := Tn (Suc q) 0 x v)) w else leaving n (pl(0 := P1))"
proof -
  have f: "finished_half N q (pl i)" if "0 < i" "i < n" for i
    using token_task(1) [OF assms(1) that] ord_simps [OF that(2)] by simp
  show ?thesis
  proof (cases "Suc q < 2 * N")
    case True
    moreover have "ord n (Suc q) i \<noteq> 0" if "0 < i" "i < n" for i using that by simp
    ultimately show ?thesis using assms f exported_next [of n q w]
      by (auto simp: token_def starter_def at_half_def finished_half_def)
  next
    case False
    then show ?thesis using f by (auto simp: leaving_def finished_half_def)
  qed
qed

section \<open>The invariant\<close>

definition nx_inv :: "nx_args \<Rightarrow> nat \<Rightarrow> (tid \<Rightarrow> xplace) \<Rightarrow> nx_state \<Rightarrow> bool" where
  "nx_inv a n pl w \<longleftrightarrow> nx_pre n pl w \<or> (\<exists>q k. token n (rounds a) q k pl w) \<or> leaving n pl \<or>
     (\<forall>i<n. pl i = P2 \<or> pl i = NQ \<or> pl i = ND)"

text \<open>Task 0 makes a call.\<close>

lemma first_call:
  assumes T: "token n (rounds a) q k pl w" and n: "2 \<le> n" "int n < 2 ^ 31" and s: "PIPID_SELF h < 0"
    and c: "xat h a n 0 (pl 0) = Call c f" "\<not> is_bar c" and r: "nx_sem h n 0 c w = Some (r, w')"
  shows "\<exists>p. f r = xat h a n 0 p \<and> xrk (rounds a) p < xrk (rounds a) (pl 0) \<and> nx_inv a n (pl(0 := p)) w'"
proof -
  have q: "q < 2 * rounds a" and k: "k \<le> n" and e: "exported n q k w" and S: "starter n q k (pl 0) (vars w (ad 0))"
    using T by (auto simp: token_def)
  have near: "exps w (peer n q 0) (nm q) (int (q div 2)) = (if n - 1 < k then Some (ad 0) else None)"
    using neighbour [OF e, of 0 q] n(1) by simp
  note simps = chk_def chkv_def Let_def
  have go: "\<exists>p. f r = xat h a n 0 p \<and> xrk (rounds a) p < xrk (rounds a) (pl 0) \<and> nx_inv a n (pl(0 := p)) w'"
    if "f r = xat h a n 0 p" "xrk (rounds a) p < xrk (rounds a) (pl 0)" "token n (rounds a) q k' (pl(0 := p)) w'" for p k'
    using that unfolding nx_inv_def by blast
  consider x v where "k = 0" "pl 0 = Tn q 0 x v" | x v where "k = 0" "pl 0 = Tn q 1 x v"
    | x v where "k \<noteq> 0" "pl 0 = Tn q 2 x v" | v where "k = n" "pl 0 = Tn q 3 (ad 0) v"
    using S by (auto simp: starter_def at_half_def split: if_splits)
  then show ?thesis
  proof cases
    case (1 x v)
    have "w' = w\<lparr>vars := (vars w)(ad 0 := 1)\<rparr>" "f r = xat h a n 0 (Tn q 1 x v)"
      using c(1) r 1(2) by (auto simp: hf_first)
    moreover have "token n (rounds a) q k (pl(0 := Tn q 1 x v)) (w\<lparr>vars := (vars w)(ad 0 := 1)\<rparr>)"
      by (rule token_stay0 [OF T]) (use 1 n in \<open>auto simp: starter_def at_half_def\<close>)
    ultimately show ?thesis using 1 q by (intro go) auto
  next
    case (2 x v)
    have "w' = put_exp 0 (nm q) (int (q div 2)) (ad 0) w" "f r = xat h a n 0 (Tn q 2 x v)"
      using c(1) r 2(2) by (auto simp: hf_first simps simp del: One_nat_def)
    then show ?thesis using token_first [OF T [unfolded 2(1)] n(1) 2(2)] 2 q by (intro go) auto
  next
    case (3 x v)
    have "w' = w" "k = n" "f r = xat h a n 0 (Tn q 3 (ad 0) v)"
      using c(1) r 3(2) s k near by (auto simp: hf_first(3) simps stored_def split: if_splits)
    moreover have "token n (rounds a) q n (pl(0 := Tn q 3 (ad 0) v)) w"
      by (rule token_stay0 [of _ _ _ n _ w]) (use T S n calculation(2) in \<open>auto simp: starter_def at_half_def\<close>)
    ultimately show ?thesis using 3 q by (intro go) auto
  next
    case (4 v)
    have "vars w (ad 0) = int n" using S 4(1) by (simp add: starter_def)
    then have *: "w' = w" "f r = ring n (rounds a) 0 (Suc q) (ad 0)"
      using c(1) r 4(2) n(2) by (auto simp: hf_first simps to_int32_id)
    note H = token_half [OF T [unfolded 4(1)] n(1), of "ad 0" 0]
    have "nx_inv a n (pl(0 := half_done (rounds a) q (ad 0))) w"
      using H by (auto simp: nx_inv_def half_done_def split: if_splits)
    moreover have "xrk (rounds a) (half_done (rounds a) q (ad 0)) < xrk (rounds a) (pl 0)"
      using 4(2) q by (auto simp: half_done_def)
    ultimately show ?thesis using * half_done [OF q, of 0 n "ad 0" h] n(1)
      by (intro exI [of _ "half_done (rounds a) q (ad 0)"]) auto
  qed
qed

text \<open>Another task makes one: it holds the token, or it has a message to print.\<close>

lemma other_call:
  assumes T: "token n (rounds a) q k pl w" and n: "2 \<le> n" "int n < 2 ^ 31" and s: "PIPID_SELF h < 0"
    and i: "0 < i" "i < n"
    and c: "xat h a n i (pl i) = Call c f" "\<not> is_bar c" and r: "nx_sem h n i c w = Some (r, w')"
  shows "\<exists>p. f r = xat h a n i p \<and> xrk (rounds a) p < xrk (rounds a) (pl i) \<and> nx_inv a n (pl(i := p)) w'"
proof -
  have q: "q < 2 * rounds a" and k: "k \<le> n" and e: "exported n q k w" using T by (auto simp: token_def)
  note simps = chk_def chkv_def Let_def and own = token_task [OF T i]
  have o: "ord n q i \<noteq> 0" "ord n q i < n" using i ord_simps [of i n q] by simp_all
  have blocked: False if "at_half q' 0 (pl i)" "q' = q \<and> k < ord n q i \<or> q < q'" for q'
  proof -
    have "exps w (peer n q' i) (nm q') (int (q' div 2)) = None"
      using neighbour [OF e i(2), of q'] that(2) i(1) by (auto split: if_splits)
    then show False using that(1) c(1) r s i(1) by (auto simp: at_half_def hf_other simps)
  qed
  have go: "\<exists>p. f r = xat h a n i p \<and> xrk (rounds a) p < xrk (rounds a) (pl i) \<and> nx_inv a n (pl(i := p)) w'"
    if "f r = xat h a n i p" "xrk (rounds a) p < xrk (rounds a) (pl i)" "token n (rounds a) q k' (pl(i := p)) w'" for p k'
    using that unfolding nx_inv_def by blast
  consider "ord n q i < k" | "ord n q i = k" | "k < ord n q i" by linarith
  then show ?thesis
  proof cases
    case 1
    then have F: "finished_half (rounds a) q (pl i)" by (rule own)
    then have P: "pl i = P1" "\<not> Suc q < 2 * rounds a"
      using blocked [of "Suc q"] c by (auto simp: finished_half_def bar_wait_def chk_def split: if_splits)
    then have "f r = xat h a n i W2" "w' = w" using c(1) r by (auto simp: nx_leave_def)
    moreover have "token n (rounds a) q k (pl(i := W2)) w"
      by (rule token_done [OF T i(1) 1]) (use P(2) in \<open>simp add: finished_half_def\<close>)
    ultimately show ?thesis using P by (intro go) auto
  next
    case 2
    then obtain u x v where C: "pl i = Tn q u x v" "u \<le> 3" "1 \<le> u \<Longrightarrow> x = ad 0" "u = 2 \<Longrightarrow> v = int k"
      "vars w (ad 0) = int k + (if u = 3 then 1 else 0)"
      using own(2) by (auto simp: carrying_def)
    have near: "exps w (peer n q i) (nm q) (int (q div 2)) = Some (ad 0)"
      using neighbour [OF e i(2), of q] 2 i(1) o by auto
    have "u = 0 \<or> u = 1 \<or> u = 2 \<or> u = 3" using C(2) by auto
    then show ?thesis
    proof (elim disjE)
      assume u: "u = 0"
      have "w' = w" "f r = xat h a n i (Tn q 1 (ad 0) v)"
        using c(1) r C(1) u s near i by (auto simp: hf_other(1) simps stored_def)
      moreover have "token n (rounds a) q k (pl(i := Tn q 1 (ad 0) v)) w"
        by (rule token_stay [OF T i 2]) (use C u in \<open>auto simp: carrying_def\<close>)
      ultimately show ?thesis using C(1) u q by (intro go) auto
    next
      assume u: "u = 1"
      have "w' = w" "f r = xat h a n i (Tn q 2 (ad 0) (int k))" using c(1) r C u i by (auto simp: hf_other(2) simp del: One_nat_def)
      moreover have "token n (rounds a) q k (pl(i := Tn q 2 (ad 0) (int k))) w"
        by (rule token_stay [OF T i 2]) (use C u in \<open>auto simp: carrying_def\<close>)
      ultimately show ?thesis using C(1) u q by (intro go) auto
    next
      assume u: "u = 2"
      have "to_int32 (int k + 1) = int k + 1" using 2 o n(2) by (simp add: to_int32_id)
      then have "w' = w\<lparr>vars := (vars w)(ad 0 := int k + 1)\<rparr>" "f r = xat h a n i (Tn q 3 (ad 0) v)"
        using c(1) r C u i by (auto simp: hf_other(3))
      moreover have "token n (rounds a) q k (pl(i := Tn q 3 (ad 0) v)) (w\<lparr>vars := (vars w)(ad 0 := int k + 1)\<rparr>)"
        by (rule token_stay [OF T i 2]) (auto simp: carrying_def)
      ultimately show ?thesis using C(1) u q by (intro go) auto
    next
      assume u: "u = 3"
      have x: "w' = put_exp i (nm q) (int (q div 2)) (ad 0) w" "f r = ring n (rounds a) i (Suc q) (ad 0)"
        using c(1) r C u i by (auto simp: hf_other(4) simps)
      have "finished_half (rounds a) q (half_done (rounds a) q (ad 0))"
        by (auto simp: finished_half_def half_done_def at_half_def)
      from token_pass [OF T i 2 C(1) [unfolded u] this]
      show ?thesis using x half_done [OF q i(2) n(1), of "ad 0" h] C(1) u q
        by (intro go) (auto simp: half_done_def)
    qed
  next
    case 3
    then show ?thesis using blocked [of q] own(3) by blast
  qed
qed

lemma late_call:
  assumes "leaving n pl \<or> (\<forall>i<n. pl i = P2 \<or> pl i = NQ \<or> pl i = ND)" "i < n"
    "xat h a n i (pl i) = Call c f" "\<not> is_bar c" "nx_sem h n i c w = Some (r, w')"
  shows "\<exists>p. f r = xat h a n i p \<and> xrk (rounds a) p < xrk (rounds a) (pl i) \<and> nx_inv a n (pl(i := p)) w'"
proof -
  have "pl i = P1 \<or> pl i = W2 \<or> pl i = P2 \<or> pl i = NQ \<or> pl i = ND" using assms(1,2) by (auto simp: leaving_def)
  then show ?thesis
  proof (elim disjE)
    assume p: "pl i = P1"
    then have "nx_inv a n (pl(i := W2)) w'" using assms(1,2) by (auto simp: leaving_def nx_inv_def)
    then show ?thesis using p assms(3,5) by (intro exI [of _ W2]) (auto simp: nx_leave_def)
  next
    assume p: "pl i = P2"
    then have "nx_inv a n (pl(i := NQ)) w'" using assms(1,2) by (auto simp: leaving_def nx_inv_def)
    then show ?thesis using p assms(3,5) by (intro exI [of _ NQ]) auto
  next
    assume p: "pl i = NQ"
    then have "nx_inv a n (pl(i := ND)) w'" using assms(1,2) by (auto simp: leaving_def nx_inv_def)
    then show ?thesis using p assms(3,5) by (intro exI [of _ ND]) (auto simp: leave_def chk_def)
  qed (use assms(3,4) in \<open>auto simp: bar_wait_def chk_def\<close>)
qed

lemma nx_call:
  assumes I: "nx_inv a n pl w" and i: "i < n" and n: "2 \<le> n" "int n < 2 ^ 31"
    and h: "\<And>j. j < n \<Longrightarrow> PIPID_ROOT h \<noteq> int j" "PIPID_SELF h < 0"
    and c: "xat h a n i (pl i) = Call c f" "\<not> is_bar c" "nx_sem h n i c w = Some (r, w')"
  shows "\<exists>p. f r = xat h a n i p \<and> xrk (rounds a) p < xrk (rounds a) (pl i) \<and> nx_inv a n (pl(i := p)) w'"
  using I unfolding nx_inv_def [of a n pl]
proof (elim disjE exE)
  assume "nx_pre n pl w"
  from pre_call [OF this i n(1) h c] show ?thesis unfolding nx_inv_def by blast
next
  fix q k assume T: "token n (rounds a) q k pl w"
  show ?thesis
    by (cases "i = 0") (use first_call [OF T n h(2), of c f r w'] other_call [OF T n h(2) _ i c] c in auto)
qed (use late_call [where pl = pl and i = i, OF _ i c] in blast)+

section \<open>The barriers and the end\<close>

lemma bar_places:
  assumes "at_bar (xat h a n i pl)" "i < n" "2 \<le> n" "\<And>j. j < n \<Longrightarrow> PIPID_ROOT h \<noteq> int j"
    "\<And>q s x v. pl = Tn q s x v \<Longrightarrow> s \<le> 3"
  shows "pl = NW \<or> pl = W2"
proof (cases pl)
  case NI
  then show ?thesis using assms(1) by (simp add: namexp_start [OF assms(4,2,3)] chk_def)
next
  case (Tn q s x v)
  then have "s = 0 \<or> s = 1 \<or> s = 2 \<or> s = 3" using assms(5) by fastforce
  then show ?thesis using assms(1) Tn by (cases "i = 0") (auto simp: hf_first hf_other chk_def simp del: One_nat_def)
qed (use assms(1) in \<open>auto simp: finE_self_test first_test_def second_test_def third_test_def last_test_def
      open_start nx_leave_def leave_def chk_def split: if_splits\<close>)

lemma starts_at_bar: "starting pl \<Longrightarrow> at_bar (xat h a n i pl) \<Longrightarrow> i < n \<Longrightarrow> 2 \<le> n \<Longrightarrow>
    (\<And>j. j < n \<Longrightarrow> PIPID_ROOT h \<noteq> int j) \<Longrightarrow> pl = NW"
  using bar_places [of h a n i pl] by (cases pl) auto

lemma rounds_pos: "0 < rounds a"
  using niters_arg_pos [of NX_NITERS "xargv a" 1] by (simp add: NX_NITERS_def)

lemma first_ring:
  assumes "nx_pre n pl w" "2 \<le> n"
  shows "token n (rounds a) 0 0 (\<lambda>i. Tn 0 0 (x i) 0) w"
proof -
  have "exported n 0 0 w" using assms(1) by (simp add: nx_pre_def exported_def)
  moreover have "ord n 0 i \<noteq> 0" if "0 < i" "i < n" for i using that by simp
  ultimately show ?thesis using rounds_pos [of a] assms(2) by (auto simp: token_def starter_def at_half_def)
qed

lemma token_no_bar:
  assumes "token n N q k pl w"
  shows "\<not> at_bar (xat h a n 0 (pl 0))"
proof -
  have "(\<exists>x v. pl 0 = Tn q 0 x v) \<or> (\<exists>x v. pl 0 = Tn q 1 x v) \<or> (\<exists>x v. pl 0 = Tn q 2 x v) \<or> (\<exists>x v. pl 0 = Tn q 3 x v)"
    using assms by (auto simp: token_def starter_def at_half_def split: if_splits)
  then show ?thesis by (auto simp: hf_first chk_def simp del: One_nat_def)
qed

lemma nx_release:
  assumes I: "nx_inv a n pl w" and n: "2 \<le> n" and h: "\<And>j. j < n \<Longrightarrow> PIPID_ROOT h \<noteq> int j"
    and A: "\<forall>i<n. at_bar (xat h a n i (pl i)) \<and> rvs i = 0"
  shows "\<exists>q. (\<forall>i<n. resume (xat h a n i (pl i)) (rvs i) = xat h a n i (q i) \<and> xrk (rounds a) (q i) < xrk (rounds a) (pl i)) \<and>
    nx_inv a n q w"
  using I unfolding nx_inv_def [of a n pl]
proof (elim disjE exE)
  assume P: "nx_pre n pl w"
  then have bar: "pl i = NW" if "i < n" for i
    using starts_at_bar [of "pl i" h a n i] A n h that by (auto simp: nx_pre_def)
  let ?x = "\<lambda>i. if i = 0 then xcp a else ad i"
  have "nx_inv a n (\<lambda>i. Tn 0 0 (?x i) 0) w" using first_ring [OF P n, of a ?x] unfolding nx_inv_def by blast
  moreover have "resume (xat h a n i (pl i)) (rvs i) = xat h a n i (Tn 0 0 (?x i) 0) \<and>
      xrk (rounds a) (Tn 0 0 (?x i) 0) < xrk (rounds a) (pl i)" if "i < n" for i
    using ring_step [of 0 "rounds a" i n "?x i" 0] rounds_pos [of a] n that bar [OF that] A by (auto simp: sync_def bar_wait_def chk_def)
  ultimately show ?thesis by (intro exI [of _ "\<lambda>i. Tn 0 0 (?x i) 0"]) blast
next
  fix q k assume T: "token n (rounds a) q k pl w"
  then show ?thesis using token_no_bar [OF T, of h a] A n by auto
next
  assume L: "leaving n pl"
  have bar: "pl i = W2" if "i < n" for i using L A that by (auto simp: leaving_def nx_leave_def dest!: spec [of _ i])
  then show ?thesis using A by (intro exI [of _ "\<lambda>_. P2"]) (auto simp: nx_inv_def bar_wait_def chk_def)
next
  assume "\<forall>i<n. pl i = P2 \<or> pl i = NQ \<or> pl i = ND"
  then show ?thesis using A n by (auto simp: leave_def chk_def dest!: spec [of _ 0])
qed

text \<open>Who can move.\<close>

lemma start_can:
  assumes "starting (pl i)" "pl i \<noteq> NW" "i < n" "2 \<le> n" "\<And>j. j < n \<Longrightarrow> PIPID_ROOT h \<noteq> int j" "PIPID_SELF h < 0"
    "pl i = NB \<Longrightarrow> i \<noteq> 0 \<Longrightarrow> exps w 0 ''barrier'' 0 \<noteq> None"
  shows "\<exists>c f x. xat h a n i (pl i) = Call c f \<and> \<not> is_bar c \<and> nx_sem h n i c w = Some x"
proof (cases "pl i")
  case NI
  then show ?thesis by (simp add: namexp_start [OF assms(5,3,4)] chk_def)
next
  case NB
  then show ?thesis using assms(6,7) by (auto simp: open_start chk_def)
qed (use assms in \<open>auto simp: finE_self_test first_test_def second_test_def third_test_def last_test_def chk_def split: option.splits\<close>)

lemma token_can:
  assumes T: "token n N q k pl w" and n: "2 \<le> n" and s: "PIPID_SELF h < 0"
  shows "\<exists>i<n. \<exists>c f x. xat h a n i (pl i) = Call c f \<and> \<not> is_bar c \<and> nx_sem h n i c w = Some x"
proof (cases "0 < k \<and> k < n")
  case True
  let ?i = "tsk n q k"
  have i: "0 < ?i" "?i < n" "ord n q ?i = k" using True tsk_less [of k n q] ord_tsk [of k n q] by (simp_all add: tsk_def)
  obtain u x v where C: "pl ?i = Tn q u x v" "u \<le> 3" using token_task(2) [OF T i] by (auto simp: carrying_def)
  have near: "exps w (peer n q ?i) (nm q) (int (q div 2)) = Some (ad 0)"
    using neighbour [of n q k w ?i q] T i True by (auto simp: token_def)
  have "u = 0 \<or> u = 1 \<or> u = 2 \<or> u = 3" using C(2) by auto
  then show ?thesis using C(1) i near s by (intro exI [of _ ?i] conjI) (auto simp: hf_other chk_def simp del: One_nat_def)
next
  case False
  then have k: "k = 0 \<or> k = n" using T by (auto simp: token_def)
  have near: "k = n \<Longrightarrow> exps w (peer n q 0) (nm q) (int (q div 2)) = Some (ad 0)"
    using neighbour [of n q k w 0 q] T n by (auto simp: token_def)
  have "(\<exists>x v. pl 0 = Tn q 0 x v) \<or> (\<exists>x v. pl 0 = Tn q 1 x v) \<or> (\<exists>x v. k = n \<and> pl 0 = Tn q 2 x v) \<or> (\<exists>x v. pl 0 = Tn q 3 x v)"
    using T k by (auto simp: token_def starter_def at_half_def split: if_splits)
  then show ?thesis using n near s by (intro exI [of _ 0] conjI) (auto simp: hf_first chk_def simp del: One_nat_def)
qed

lemma nx_live:
  assumes I: "nx_inv a n pl w" and n: "2 \<le> n" and h: "\<And>j. j < n \<Longrightarrow> PIPID_ROOT h \<noteq> int j" "PIPID_SELF h < 0"
  shows "(\<forall>i<n. pl i = ND) \<or> (\<forall>i<n. at_bar (xat h a n i (pl i))) \<or>
    (\<exists>i<n. \<exists>c k x. xat h a n i (pl i) = Call c k \<and> \<not> is_bar c \<and> nx_sem h n i c w = Some x)"
  using I unfolding nx_inv_def [of a n pl]
proof (elim disjE exE)
  assume P: "nx_pre n pl w"
  note can = start_can [where pl = pl, OF _ _ _ n h]
  have st: "starting (pl i)" if "i < n" for i using P that by (simp add: nx_pre_def)
  show ?thesis
  proof (cases "pl 0 = NW")
    case False
    then show ?thesis using can [where i = 0 and w = w and a = a] st [of 0] n by fastforce
  next
    case True
    then have b: "exps w 0 ''barrier'' 0 \<noteq> None" using P by (simp add: nx_pre_def)
    show ?thesis
    proof (cases "\<forall>i<n. pl i = NW")
      case True
      then show ?thesis by (simp add: sync_def bar_wait_bars)
    next
      case False
      then obtain i where "i < n" "pl i \<noteq> NW" by blast
      then show ?thesis using can [where i = i and w = w and a = a] st [of i] b by blast
    qed
  qed
next
  fix q k assume T: "token n (rounds a) q k pl w"
  then show ?thesis using token_can [OF T n h(2), of a] by blast
next
  assume L: "leaving n pl"
  show ?thesis
  proof (cases "\<forall>i<n. pl i = W2")
    case True
    then show ?thesis by (simp add: bar_wait_bars)
  next
    case False
    then obtain i where "i < n" "pl i = P1" using L by (auto simp: leaving_def)
    then show ?thesis by (intro disjI2 exI [of _ i]) (simp add: nx_leave_def)
  qed
next
  assume L: "\<forall>i<n. pl i = P2 \<or> pl i = NQ \<or> pl i = ND"
  show ?thesis
  proof (cases "\<forall>i<n. pl i = ND")
    case False
    then obtain i where "i < n" "pl i = P2 \<or> pl i = NQ" using L by blast
    then show ?thesis by (intro disjI2 exI [of _ i]) (auto simp: leave_def chk_def)
  qed simp
qed

lemma nx_places:
  assumes "barrier n rel (\<lambda>v. v = 0)" "2 \<le> n" "int n < 2 ^ 31" "\<And>j. j < n \<Longrightarrow> PIPID_ROOT h \<noteq> int j" "PIPID_SELF h < 0"
  shows "place_system n rel (\<lambda>v. v = 0) (nx_sem h n) (xat h a n) (nx_inv a n) (\<lambda>_. xrk (rounds a)) (\<lambda>pl w. \<forall>i<n. pl i = ND)"
proof (intro place_system.intro assms(1), unfold_locales)
  fix pl w i c k r w'
  assume "nx_inv a n pl w" "i < n" "xat h a n i (pl i) = Call c k" "\<not> is_bar c" "nx_sem h n i c w = Some (r, w')"
  then show "\<exists>q. k r = xat h a n i q \<and> xrk (rounds a) q < xrk (rounds a) (pl i) \<and> nx_inv a n (pl(i := q)) w'"
    using nx_call [where pl = pl and i = i] assms(2-5) by blast
next
  fix pl w and rvs :: "tid \<Rightarrow> int"
  assume "nx_inv a n pl w" "\<forall>i<n. at_bar (xat h a n i (pl i)) \<and> rvs i = 0"
  then show "\<exists>q. (\<forall>i<n. resume (xat h a n i (pl i)) (rvs i) = xat h a n i (q i) \<and> xrk (rounds a) (q i) < xrk (rounds a) (pl i)) \<and>
      nx_inv a n q w"
    using nx_release [where pl = pl] assms(2,4) by blast
next
  fix pl w assume "nx_inv a n pl w"
  then show "(\<forall>i<n. pl i = ND) \<or> (\<forall>i<n. at_bar (xat h a n i (pl i))) \<or>
      (\<exists>i<n. \<exists>c k x. xat h a n i (pl i) = Call c k \<and> \<not> is_bar c \<and> nx_sem h n i c w = Some x)"
    using nx_live [where pl = pl] assms(2,4,5) by blast
qed

text \<open>The tasks and the empty table of exports they begin with.\<close>

definition nx_progs :: "pip_h \<Rightarrow> nx_args \<Rightarrow> tid \<Rightarrow> int prog" where
  "nx_progs h a i = namexp_main h (ad i) (xbarr a) (xcp a) (xnt a) (xargv a)"

definition nx_start :: "(int \<Rightarrow> int) \<Rightarrow> nx_state" where "nx_start m = \<lparr>vars = m, exps = \<lambda>_ _ _. None\<rparr>"

lemma nx_begins: "nx_inv a n (\<lambda>_. NI) (nx_start m)" "nx_progs h a i = xat h a n i NI"
  by (simp_all add: nx_inv_def nx_pre_def nx_start_def nx_progs_def)

text \<open>C4: the test of named exports: whatever the order in which the tasks run, no run goes on for ever, none stops
with a task waiting for a name, and at the end every task has returned EXIT\_PASS: the address goes round the ring once
forward and once backward in every round, and the count at it is the number of tasks each time it comes back.\<close>

theorem namexp_correct:
  assumes "barrier n rel (\<lambda>v. v = 0)" "2 \<le> n" "int n < 2 ^ 31" "\<And>j. j < n \<Longrightarrow> PIPID_ROOT h \<noteq> int j" "PIPID_SELF h < 0"
    and "steps n (nx_sem h n) rel (nx_progs h a, nx_start m) c" "\<not> (\<exists>c'. step n (nx_sem h n) rel c c')"
  shows "Wellfounded.accp (\<lambda>x y. step n (nx_sem h n) rel y x) (nx_progs h a, nx_start m) \<and> finished n (\<lambda>_. EXIT_PASS) c"
proof -
  note P = nx_places [where h = h, OF assms(1-5), of a]
  have T: "Wellfounded.accp (\<lambda>x y. step n (nx_sem h n) rel y x) (nx_progs h a, nx_start m)"
    by (rule place_system.places_terminate [OF P nx_begins(1) nx_begins(2)])
  obtain pl where "\<And>i. i < n \<Longrightarrow> fst c i = xat h a n i (pl i)" "\<forall>i<n. pl i = ND"
    by (rule place_system.places_end [OF P nx_begins(1) nx_begins(2) assms(6,7)]) (assumption, rule that)
  then show ?thesis using T by (simp add: finished_def)
qed

definition nx_sample :: nx_args where "nx_sample = \<lparr>xbarr = 16, xcp = 0, xnt = 0, xargv = [''x'', ''2'']\<rparr>"

lemma namexp_correct_witness:
  "\<exists>c. steps 3 (nx_sem h_sample 3) (all_release 3) (nx_progs h_sample nx_sample, nx_start (\<lambda>_. 7)) c \<and> finished 3 (\<lambda>_. EXIT_PASS) c"
proof -
  have bar: "barrier 3 (all_release 3) (\<lambda>v. v = 0)" by (rule all_release_barrier) simp
  have h: "PIPID_ROOT h_sample \<noteq> int j" "PIPID_SELF h_sample < 0" for j by (simp_all add: h_sample_def)
  note P = nx_places [where h = h_sample, OF bar _ _ h, of nx_sample]
  obtain c where c: "steps 3 (nx_sem h_sample 3) (all_release 3) (nx_progs h_sample nx_sample, nx_start (\<lambda>_. 7)) c"
    "\<not> (\<exists>c'. step 3 (nx_sem h_sample 3) (all_release 3) c c')"
    using ends_somewhere [OF place_system.places_terminate [OF P nx_begins(1) [of _ _ "\<lambda>_. 7"] nx_begins(2)]] by auto
  from namexp_correct [OF bar _ _ h c] c(1) show ?thesis by (intro exI [of _ c]) simp
qed

end
