(* ===== verification/ForkTests.thy ===== *)
theory ForkTests
  imports ApiLoops Places
begin

text \<open>
  \<open>compat/fork.c\<close>: every task forks, writes the IDs of its children into a table that all tasks share, and then
  waits until it has found as many children as it has forked. When tasks are threads of one process a task may be
  given the child of another; it crosses that one out in the table instead.
\<close>

section \<open>The program\<close>

definition NFORK :: int where "NFORK = 10"

definition IDX :: "int \<Rightarrow> int \<Rightarrow> int \<Rightarrow> int" where "IDX nfork p i = to_int32 (p * nfork + i)"

abbreviation entry :: "int \<Rightarrow> call" where "entry x \<equiv> lib ''forked'' [x]"
abbreviation set_entry :: "int \<Rightarrow> int \<Rightarrow> call" where "set_entry x v \<equiv> lib ''forked='' [x, v]"
abbreviation unfit :: "(int option + 'a) prog" where "unfit \<equiv> Ret (Inl (Some EXIT_FAIL))"

definition zero_entry :: "int \<Rightarrow> unit \<Rightarrow> (int option + unit) prog" where
  "zero_entry i u = Call (set_entry i 0) (\<lambda>_. Ret (Inr ()))"

definition fork_alloc :: "int \<Rightarrow> int \<Rightarrow> int \<Rightarrow> (int option + unit) prog" where
  "fork_alloc nfork ntasks pipid =
     (if pipid = 0 then
        let sz = to_int32 (nfork * ntasks) in
        chk (Sys (Malloc (4 * sz mod 2 ^ 64))) (\<lambda>r. rv r = 0) (Ret (Inl (Some EXIT_UNTESTED))) (\<lambda>_.
        seqE (for_range 0 (nat sz) zero_entry ()) (\<lambda>_.
        chk (Pip (Pip_named_export ''FORKED'')) nz unfit (\<lambda>_. Ret (Inr ()))))
      else chk (Pip (Pip_named_import 0 ''FORKED'')) nz unfit (\<lambda>_. Ret (Inr ())))"

text \<open>The child returns 0 from \<open>main\<close>.\<close>

definition fork_one :: "int \<Rightarrow> int \<Rightarrow> int \<Rightarrow> int \<Rightarrow> unit \<Rightarrow> (int option + unit) prog" where
  "fork_one nfork pipid ppid i u =
     chk (Sys Fork) (\<lambda>r. rv r < 0) (Ret (Inl (Some EXIT_UNTESTED))) (\<lambda>r. let pid = rv r in
       if pid = 0 then Ret (Inl (Some 0))
       else Call (lib ''fprintf'' [pipid, ppid, pid, i, nfork]) (\<lambda>_.
         Call (set_entry (IDX nfork pipid i) pid) (\<lambda>_. Ret (Inr ()))))"

definition import_each :: "string \<Rightarrow> int \<Rightarrow> unit \<Rightarrow> (int option + unit) prog" where
  "import_each name i u = chk (Pip (Pip_named_import i name)) nz unfit (\<lambda>_. Ret (Inr ()))"

definition fork_meet :: "int \<Rightarrow> int \<Rightarrow> (int option + unit) prog" where
  "fork_meet ntasks pipid =
     (if pipid = 0 then
        seqE (for_range 1 (nat (ntasks - 1)) (import_each ''forked'') ()) (\<lambda>_.
        chk (Pip (Pip_named_export ''CHECK'')) nz unfit (\<lambda>_. Ret (Inr ())))
      else chk (Pip (Pip_named_export ''forked'')) nz unfit (\<lambda>_.
        chk (Pip (Pip_named_import 0 ''CHECK'')) nz unfit (\<lambda>_. Ret (Inr ()))))"

text \<open>
  The condition of the check after the two tests of errno is errno itself; the macro has set it to 0 and \<open>pid<0\<close> does
  not change it, so the check never acts.
\<close>

definition wait_child_body :: "unit \<Rightarrow> (unit + (int option + int)) prog" where
  "wait_child_body u =
     Call (Sys Wait) (\<lambda>r. let pid = rv r in
       if pid < 0 \<and> errno r = EINTR then Ret (Inl ())
       else if pid < 0 \<and> errno r = ECHILD then Ret (Inr (Inl (Some EXIT_FAIL)))
       else chkv (c_bool (pid < 0)) (\<lambda>_. False) (Ret (Inr (Inl (Some EXIT_FAIL)))) (Ret (Inr (Inr pid))))"

text \<open>\<open>Inl\<close> is the \<open>break\<close>; the state is \<open>n\<close>.\<close>

definition find_entry :: "int \<Rightarrow> int \<Rightarrow> int \<Rightarrow> int \<Rightarrow> int \<Rightarrow> int \<Rightarrow> int \<Rightarrow> (int + int) prog" where
  "find_entry nfork pipid ppid pid j k n =
     Call (entry (IDX nfork j k)) (\<lambda>r.
       if rv r = pid then
         Call (lib ''fprintf'' (if j = pipid then [j, ppid, pid] else [j, ppid, pid, pipid])) (\<lambda>_.
         Call (set_entry (IDX nfork j k) 0) (\<lambda>_. Ret (Inl (n - 1))))
       else Ret (Inr n))"

definition find_row :: "int \<Rightarrow> int \<Rightarrow> int \<Rightarrow> int \<Rightarrow> int \<Rightarrow> int \<Rightarrow> int \<Rightarrow> (int option + int) prog" where
  "find_row thrd nfork pipid ppid pid j n =
     (if thrd = 0 \<and> j \<noteq> pipid then Ret (Inr n)
      else bind (for_range 0 (nat nfork) (find_entry nfork pipid ppid pid j) n) (\<lambda>x.
        Ret (Inr (case x of Inl n \<Rightarrow> n | Inr n \<Rightarrow> n))))"

definition collect_body :: "nat \<Rightarrow> int \<Rightarrow> int \<Rightarrow> int \<Rightarrow> int \<Rightarrow> int \<Rightarrow> int \<Rightarrow> (int + (int option + unit)) prog" where
  "collect_body fuel thrd nfork ntasks pipid ppid n =
     bind (loop fuel wait_child_body ()) (\<lambda>x. case x of
       None \<Rightarrow> Ret (Inr (Inl None))
     | Some (Inl v) \<Rightarrow> Ret (Inr (Inl v))
     | Some (Inr pid) \<Rightarrow> bind (for_range 0 (nat ntasks) (find_row thrd nfork pipid ppid pid) n) (\<lambda>y. case y of
           Inl v \<Rightarrow> Ret (Inr (Inl v)) | Inr n \<Rightarrow> Ret (if n > 0 then Inl n else Inr (Inr ()))))"

definition fork_collect :: "nat \<Rightarrow> int \<Rightarrow> int \<Rightarrow> int \<Rightarrow> int \<Rightarrow> int \<Rightarrow> (int option + unit) prog" where
  "fork_collect fuel thrd nfork ntasks pipid ppid =
     bind (loop fuel (collect_body fuel thrd nfork ntasks pipid ppid) nfork) (\<lambda>x. case x of
       None \<Rightarrow> Ret (Inl None) | Some y \<Rightarrow> Ret y)"

definition fork_done :: "int \<Rightarrow> int \<Rightarrow> (int option + unit) prog" where
  "fork_done ntasks pipid =
     (if pipid = 0 then for_range 1 (nat (ntasks - 1)) (import_each ''DONE'') ()
      else chk (Pip (Pip_named_export ''DONE'')) nz unfit (\<lambda>_. Ret (Inr ())))"

definition nfork_arg :: "string list \<Rightarrow> int" where
  "nfork_arg argv = (let nfork = arg_int argv 1 0 in if nfork = 0 then NFORK else nfork)"

definition fork_main :: "nat \<Rightarrow> string list \<Rightarrow> int option prog" where
  "fork_main fuel argv =
     (let nfork = nfork_arg argv; fail = Ret (Some EXIT_FAIL) in
      chk (Pip Pip_is_threaded) nz fail (\<lambda>r. let thrd = stored (o1 r) 0 in
      chk (Pip (Pip_get_pipid True)) nz fail (\<lambda>r. let pipid = stored (o1 r) 0 in
      chk (Pip Pip_get_ntasks) nz fail (\<lambda>r. let ntasks = stored (o1 r) 0 in
      finE (fork_alloc nfork ntasks pipid) (\<lambda>_. Call (lib ''getpid'' []) (\<lambda>r. let ppid = rv r in
      finE (for_range 0 (nat nfork) (fork_one nfork pipid ppid) ()) (\<lambda>_.
      finE (fork_meet ntasks pipid) (\<lambda>_.
      finE (fork_collect fuel thrd nfork ntasks pipid ppid) (\<lambda>_.
      finE (fork_done ntasks pipid) (\<lambda>_. Ret (Some 0)))))))))))"

section \<open>The system and the library\<close>

text \<open>
  \<open>kids f\<close> are the children of the processes that have not been waited for; the tasks that are threads of one
  process have them together, so \<open>f\<close> is a task or, for all of them, 0. Which child \<open>wait\<close> reports is not determined:
  \<open>pick\<close> is any choice.
\<close>

record fork_state =
  entries :: "int \<Rightarrow> int"
  kids :: "tid \<Rightarrow> int set"
  next_pid :: int
  known :: "tid \<Rightarrow> string set"

definition fam :: "bool \<Rightarrow> tid \<Rightarrow> tid" where "fam t i = (if t then 0 else i)"

definition chooses :: "bool \<Rightarrow> (tid \<Rightarrow> fork_state \<Rightarrow> int) \<Rightarrow> bool" where
  "chooses t pick \<longleftrightarrow> (\<forall>i w. kids w (fam t i) \<noteq> {} \<longrightarrow> finite (kids w (fam t i)) \<longrightarrow> pick i w \<in> kids w (fam t i))"

definition fk_sem :: "bool \<Rightarrow> nat \<Rightarrow> (tid \<Rightarrow> fork_state \<Rightarrow> int) \<Rightarrow> fork_state sem" where
  "fk_sem t n pick i c w = (case c of
       Pip Pip_is_threaded \<Rightarrow> Some (ok\<lparr>o1 := Some (c_bool t)\<rparr>, w)
     | Pip (Pip_get_pipid _) \<Rightarrow> Some (ok\<lparr>o1 := Some (int i)\<rparr>, w)
     | Pip Pip_get_ntasks \<Rightarrow> Some (ok\<lparr>o1 := Some (int n)\<rparr>, w)
     | Pip (Pip_named_export x) \<Rightarrow> Some (ok, w\<lparr>known := (known w)(i := insert x (known w i))\<rparr>)
     | Pip (Pip_named_import j x) \<Rightarrow> if x \<in> known w (nat j) then Some (ok, w) else None
     | Sys (Malloc _) \<Rightarrow> Some (ok\<lparr>rv := 16\<rparr>, w)
     | Sys Fork \<Rightarrow> Some (ok\<lparr>rv := next_pid w\<rparr>, w\<lparr>next_pid := next_pid w + 1,
         kids := (kids w)(fam t i := insert (next_pid w) (kids w (fam t i)))\<rparr>)
     | Sys Wait \<Rightarrow>
         if kids w (fam t i) = {} then Some (ok\<lparr>rv := - 1, errno := ECHILD\<rparr>, w)
         else Some (ok\<lparr>rv := pick i w\<rparr>, w\<lparr>kids := (kids w)(fam t i := kids w (fam t i) - {pick i w})\<rparr>)
     | Sys (Lib f a) \<Rightarrow>
         if f = ''forked'' then Some (ok\<lparr>rv := entries w (hd a)\<rparr>, w)
         else if f = ''forked='' then Some (ok, w\<lparr>entries := (entries w)(hd a := a ! 1)\<rparr>)
         else Some (ok, w)
     | _ \<Rightarrow> Some (ok, w))"

definition fk_idle :: "bool \<Rightarrow> nat \<Rightarrow> tid \<Rightarrow> call \<Rightarrow> resp option" where
  "fk_idle t n i c = (case c of
       Pip Pip_is_threaded \<Rightarrow> Some (ok\<lparr>o1 := Some (c_bool t)\<rparr>)
     | Pip (Pip_get_pipid _) \<Rightarrow> Some (ok\<lparr>o1 := Some (int i)\<rparr>)
     | Pip Pip_get_ntasks \<Rightarrow> Some (ok\<lparr>o1 := Some (int n)\<rparr>)
     | Sys (Malloc _) \<Rightarrow> Some (ok\<lparr>rv := 16\<rparr>)
     | _ \<Rightarrow> None)"

lemma fk_idle: "idle_calls (fk_sem t n pick) (fk_idle t n)"
  by (auto simp: idle_calls_def fk_idle_def fk_sem_def split: call.splits pip_call.splits sys_call.splits if_splits)

lemma fk_sem_simps [simp]:
  "fk_sem t n pick i (Pip (Pip_named_export x)) w = Some (ok, w\<lparr>known := (known w)(i := insert x (known w i))\<rparr>)"
  "fk_sem t n pick i (Pip (Pip_named_import j x)) w = (if x \<in> known w (nat j) then Some (ok, w) else None)"
  "fk_sem t n pick i (Sys Fork) w = Some (ok\<lparr>rv := next_pid w\<rparr>, w\<lparr>next_pid := next_pid w + 1,
     kids := (kids w)(fam t i := insert (next_pid w) (kids w (fam t i)))\<rparr>)"
  "fk_sem t n pick i (Sys Wait) w = (if kids w (fam t i) = {} then Some (ok\<lparr>rv := - 1, errno := ECHILD\<rparr>, w)
     else Some (ok\<lparr>rv := pick i w\<rparr>, w\<lparr>kids := (kids w)(fam t i := kids w (fam t i) - {pick i w})\<rparr>))"
  "fk_sem t n pick i (entry e) w = Some (ok\<lparr>rv := entries w e\<rparr>, w)"
  "fk_sem t n pick i (set_entry e v) w = Some (ok, w\<lparr>entries := (entries w)(e := v)\<rparr>)"
  "fk_sem t n pick i (lib ''fprintf'' a) w = Some (ok, w)"
  "fk_sem t n pick i (lib ''getpid'' a) w = Some (ok, w)"
  by (simp_all add: fk_sem_def)

section \<open>What is left\<close>

text \<open>\<open>N\<close> forks for each of \<open>n\<close> tasks. The rows task \<open>i\<close> looks through, and the scan of a list of rows.\<close>

definition rows :: "bool \<Rightarrow> nat \<Rightarrow> tid \<Rightarrow> nat list" where
  "rows t n i = filter (\<lambda>j. t \<or> j = i) [0..<n]"

definition out_of :: "int + int \<Rightarrow> int" where "out_of x = (case x of Inl n \<Rightarrow> n | Inr n \<Rightarrow> n)"

lemma out_of_simps [simp]: "out_of (Inl n) = n" "out_of (Inr n) = n"
  by (simp_all add: out_of_def)

primrec scan :: "nat \<Rightarrow> tid \<Rightarrow> int \<Rightarrow> nat list \<Rightarrow> (int \<Rightarrow> 'a prog) \<Rightarrow> int \<Rightarrow> 'a prog" where
  "scan N i p [] g v = g v"
| "scan N i p (j # js) g v =
     bind (for_range 0 N (find_entry (int N) (int i) 0 p (int j)) v) (\<lambda>x. scan N i p js g (out_of x))"

definition at_entry :: "nat \<Rightarrow> tid \<Rightarrow> int \<Rightarrow> nat list \<Rightarrow> nat \<Rightarrow> (int \<Rightarrow> 'a prog) \<Rightarrow> int \<Rightarrow> 'a prog" where
  "at_entry N i p js k g v =
     bind (for_range (int k) (N - k) (find_entry (int N) (int i) 0 p (int (hd js))) v) (\<lambda>x. scan N i p (tl js) g (out_of x))"

lemma bind_seqE: "bind (seqE p k) f = bind p (\<lambda>x. case x of Inl e \<Rightarrow> f (Inl e) | Inr s \<Rightarrow> bind (k s) f)"
  unfolding seqE_def bind_assoc by (rule arg_cong [where f = "bind p"], rule ext) (simp split: sum.splits)

lemma scan_start: "scan N i p (j # js) g v = at_entry N i p (j # js) 0 g v"
  by (simp add: at_entry_def)

lemma at_entry_step:
  assumes "k < N" "js = j # js'"
  shows "at_entry N i p js k g v = Call (entry (IDX (int N) (int j) (int k))) (\<lambda>r.
    if rv r = p then
      Call (lib ''fprintf'' (if int j = int i then [int j, 0, p] else [int j, 0, p, int i])) (\<lambda>_.
      Call (set_entry (IDX (int N) (int j) (int k)) 0) (\<lambda>_. scan N i p js' g (v - 1)))
    else if Suc k < N then at_entry N i p js (Suc k) g v else scan N i p js' g v)"
proof -
  have "N - k = Suc (N - Suc k)" using assms(1) by simp
  then show ?thesis
    by (simp add: assms(2) at_entry_def bind_seqE find_entry_def if_distrib [of "\<lambda>q. bind q f" for f] add.commute cong: if_cong)
qed

lemma find_row_bind:
  "bind (find_row (c_bool t) (int N) (int i) 0 p (int a) v) f =
     (if t \<or> a = i then bind (for_range 0 N (find_entry (int N) (int i) 0 p (int a)) v) (\<lambda>x. f (Inr (out_of x))) else f (Inr v))"
  by (simp add: find_row_def bind_assoc out_of_def)

lemma rows_scan:
  "bind (for_range (int a) b (find_row (c_bool t) (int N) (int i) 0 p) v) (\<lambda>y. case y of Inl e \<Rightarrow> f e | Inr v \<Rightarrow> g v) =
   scan N i p (filter (\<lambda>j. t \<or> j = i) [a..<a + b]) g v"
proof (induction b arbitrary: a v)
  case (Suc b)
  have "[a..<a + Suc b] = a # [Suc a..<Suc a + b]" by (simp add: upt_conv_Cons del: upt_Suc)
  moreover have "bind (for_range (int a + 1) b (find_row (c_bool t) (int N) (int i) 0 p) v) (\<lambda>y. case y of Inl e \<Rightarrow> f e | Inr v \<Rightarrow> g v) =
      scan N i p (filter (\<lambda>j. t \<or> j = i) [Suc a..<Suc a + b]) g v" for v
    using Suc.IH [of "Suc a" v] by (simp add: add.commute del: upt_Suc)
  ultimately show ?case by (cases t; cases "a = i") (simp_all add: bind_seqE find_row_bind del: upt_Suc c_bool_simps)
qed simp

section \<open>The places\<close>

text \<open>The rounds of waiting with \<open>m\<close> children left to find, and what comes after a scan.\<close>

definition finale :: "nat \<Rightarrow> tid \<Rightarrow> int option prog" where
  "finale n i = finE (fork_done (int n) (int i)) (\<lambda>_. Ret (Some 0))"

definition collecting :: "bool \<Rightarrow> nat \<Rightarrow> nat \<Rightarrow> nat \<Rightarrow> tid \<Rightarrow> nat \<Rightarrow> int option prog" where
  "collecting t fuel n N i m =
     bind (loop (fuel - (N - m)) (collect_body fuel (c_bool t) (int N) (int n) (int i) 0) (int m)) (\<lambda>x. case x of
       None \<Rightarrow> Ret None | Some (Inl v) \<Rightarrow> Ret v | Some (Inr _) \<Rightarrow> finale n i)"

definition after_scan :: "bool \<Rightarrow> nat \<Rightarrow> nat \<Rightarrow> nat \<Rightarrow> tid \<Rightarrow> nat \<Rightarrow> int \<Rightarrow> int option prog" where
  "after_scan t fuel n N i m v =
     (if v > 0 then bind (loop (fuel - (N - m) - 1) (collect_body fuel (c_bool t) (int N) (int n) (int i) 0) v) (\<lambda>x. case x of
       None \<Rightarrow> Ret None | Some (Inl v) \<Rightarrow> Ret v | Some (Inr _) \<Rightarrow> finale n i) else finale n i)"

lemma collecting_step:
  assumes "N \<le> fuel" "0 < m" "m \<le> N" "0 < n"
  shows "\<exists>k. collecting t fuel n N i m = Call (Sys Wait) k \<and>
    (\<forall>r. 0 \<le> rv r \<longrightarrow> k r = scan N i (rv r) (rows t n i) (after_scan t fuel n N i m) (int m))"
proof -
  obtain f where f: "fuel - (N - m) = Suc f" "fuel - Suc (N - m) = f" using assms(1-3) by (cases "fuel - (N - m)") auto
  obtain g where g: "fuel = Suc g" using assms(1-3) by (cases fuel) auto
  obtain k where k: "loop fuel wait_child_body () = Call (Sys Wait) k" "\<And>r. 0 \<le> rv r \<Longrightarrow> k r = Ret (Some (Inr (rv r)))"
    by (simp add: g wait_child_body_def chkv_def Let_def)
  let ?K = "\<lambda>x. case x of None \<Rightarrow> Ret None | Some (Inl v) \<Rightarrow> Ret v | Some (Inr _) \<Rightarrow> finale n i"
  let ?B = "collect_body fuel (c_bool t) (int N) (int n) (int i) 0"
  have "bind (bind (bind (for_range 0 n (find_row (c_bool t) (int N) (int i) 0 p) (int m)) (\<lambda>y. case y of
           Inl v \<Rightarrow> Ret (Inr (Inl v)) | Inr n \<Rightarrow> Ret (if n > 0 then Inl n else Inr (Inr ()))))
         (\<lambda>x. case x of Inl s \<Rightarrow> loop f ?B s | Inr a \<Rightarrow> Ret (Some a))) ?K =
      scan N i p (rows t n i) (after_scan t fuel n N i m) (int m)" for p
    unfolding bind_assoc rows_def
    using rows_scan [of 0 n t N i p "int m" "\<lambda>v. ?K (Some (Inl v))" "after_scan t fuel n N i m"]
    by (simp add: after_scan_def [abs_def] f sum.case_distrib [of "\<lambda>q. bind q h" for h] if_distrib [of "\<lambda>q. bind q h" for h] if_distrib [of "case_sum a b" for a b] cong: sum.case_cong if_cong)
  then show ?thesis
    by (simp add: collecting_def f collect_body_def k bind_assoc)
qed

lemma after_scan_next:
  assumes "N \<le> fuel" "0 < m" "m \<le> N"
  shows "after_scan t fuel n N i m (int m - 1) = (if 1 < m then collecting t fuel n N i (m - 1) else finale n i)"
proof -
  have "fuel - (N - m) - 1 = fuel - (N - (m - 1))" using assms by simp
  then show ?thesis using assms by (auto simp: after_scan_def collecting_def of_nat_diff)
qed

text \<open>
  \<open>Kw\<close>: on the way to a place by calls without an effect; \<open>Kz j\<close>: about to set entry \<open>j\<close> to 0; \<open>Kx\<close>, \<open>Kg\<close>: at the name
  FORKED, at \<open>getpid\<close>; \<open>Kf k\<close>, \<open>Kd k p\<close>, \<open>Ks k p\<close>: at the fork of child \<open>k\<close>, its message, its entry; \<open>Ki j\<close>, \<open>Ke\<close>, \<open>Kc\<close>: at
  the names by which the tasks meet; \<open>Ka m\<close>: waiting, \<open>m\<close> children left to find; \<open>Kl b m js k p\<close>: looking for \<open>p\<close> in the
  rows \<open>js\<close>, at entry \<open>k\<close> of the first, \<open>b\<close> if it has been found in an earlier row; \<open>Kp\<close>, \<open>Kt\<close>: found, at the message, at
  the crossing out; \<open>Kn j\<close>, \<open>Kq\<close>: at the name DONE; \<open>Ko\<close>: over.
\<close>

datatype kplace = Kw nat "int option prog" kplace | Kz nat | Kx | Kg | Kf nat | Kd nat int | Ks nat int
  | Ki nat | Ke | Kc | Ka nat | Kl bool nat "nat list" nat int | Kp nat "nat list" nat int | Kt nat "nat list" nat int
  | Kn nat | Kq | Ko

abbreviation lost :: "int option prog" where "lost \<equiv> Ret (Some EXIT_FAIL)"

definition meeting :: "bool \<Rightarrow> nat \<Rightarrow> nat \<Rightarrow> nat \<Rightarrow> tid \<Rightarrow> int option prog" where
  "meeting t fuel n N i = finE (fork_meet (int n) (int i)) (\<lambda>_. collecting t fuel n N i N)"

definition forking :: "bool \<Rightarrow> nat \<Rightarrow> nat \<Rightarrow> nat \<Rightarrow> tid \<Rightarrow> nat \<Rightarrow> int option prog" where
  "forking t fuel n N i k = finE (for_range (int k) (N - k) (fork_one (int N) (int i) 0) ()) (\<lambda>_. meeting t fuel n N i)"

definition getting :: "bool \<Rightarrow> nat \<Rightarrow> nat \<Rightarrow> nat \<Rightarrow> tid \<Rightarrow> int option prog" where
  "getting t fuel n N i =
     Call (lib ''getpid'' []) (\<lambda>r. finE (for_range 0 N (fork_one (int N) (int i) (rv r)) ()) (\<lambda>_.
       finE (fork_meet (int n) (int i)) (\<lambda>_.
       finE (fork_collect fuel (c_bool t) (int N) (int n) (int i) (rv r)) (\<lambda>_. finale n i))))"

definition named :: "tid \<Rightarrow> string \<Rightarrow> int option prog \<Rightarrow> int option prog" where
  "named i x p = chk (Pip (if i = 0 then Pip_named_export x else Pip_named_import 0 x)) nz lost (\<lambda>_. p)"

definition recording :: "bool \<Rightarrow> nat \<Rightarrow> nat \<Rightarrow> nat \<Rightarrow> tid \<Rightarrow> nat \<Rightarrow> int \<Rightarrow> int option prog" where
  "recording t fuel n N i k p =
     Call (set_entry (IDX (int N) (int i) (int k)) p) (\<lambda>_. forking t fuel n N i (Suc k))"

definition crossing :: "bool \<Rightarrow> nat \<Rightarrow> nat \<Rightarrow> nat \<Rightarrow> tid \<Rightarrow> nat \<Rightarrow> nat list \<Rightarrow> nat \<Rightarrow> int \<Rightarrow> int option prog" where
  "crossing t fuel n N i m js k p =
     Call (set_entry (IDX (int N) (int (hd js)) (int k)) 0) (\<lambda>_.
       scan N i p (tl js) (after_scan t fuel n N i m) (int m - 1))"

fun kat :: "bool \<Rightarrow> nat \<Rightarrow> nat \<Rightarrow> nat \<Rightarrow> tid \<Rightarrow> kplace \<Rightarrow> int option prog" where
  "kat t fuel n N i (Kw d p q) = p"
| "kat t fuel n N i (Kz j) =
     finE (for_range (int j) (n * N - j) zero_entry ()) (\<lambda>_. named 0 ''FORKED'' (getting t fuel n N i))"
| "kat t fuel n N i Kx = named i ''FORKED'' (getting t fuel n N i)"
| "kat t fuel n N i Kg = getting t fuel n N i"
| "kat t fuel n N i (Kf k) = forking t fuel n N i k"
| "kat t fuel n N i (Kd k p) = Call (lib ''fprintf'' [int i, 0, p, int k, int N]) (\<lambda>_. recording t fuel n N i k p)"
| "kat t fuel n N i (Ks k p) = recording t fuel n N i k p"
| "kat t fuel n N i (Ki j) =
     finE (for_range (int j) (n - j) (import_each ''forked'') ()) (\<lambda>_. named 0 ''CHECK'' (collecting t fuel n N i N))"
| "kat t fuel n N i Ke = meeting t fuel n N i"
| "kat t fuel n N i Kc = named i ''CHECK'' (collecting t fuel n N i N)"
| "kat t fuel n N i (Ka m) = collecting t fuel n N i m"
| "kat t fuel n N i (Kl b m js k p) = at_entry N i p js k (after_scan t fuel n N i m) (if b then int m - 1 else int m)"
| "kat t fuel n N i (Kp m js k p) =
     Call (lib ''fprintf'' (if int (hd js) = int i then [int (hd js), 0, p] else [int (hd js), 0, p, int i])) (\<lambda>_. crossing t fuel n N i m js k p)"
| "kat t fuel n N i (Kt m js k p) = crossing t fuel n N i m js k p"
| "kat t fuel n N i (Kn j) = finE (for_range (int j) (n - j) (import_each ''DONE'') ()) (\<lambda>_. Ret (Some 0))"
| "kat t fuel n N i Kq = finale n i"
| "kat t fuel n N i Ko = Ret (Some 0)"

text \<open>Where a task goes: after its fork \<open>k\<close>, after the import of \<open>j\<close>, after the scan of \<open>js\<close> with \<open>m\<close> to find before.\<close>

definition next_fork :: "nat \<Rightarrow> nat \<Rightarrow> tid \<Rightarrow> nat \<Rightarrow> kplace" where
  "next_fork n N i k = (if Suc k < N then Kf (Suc k) else if i \<noteq> 0 then Ke else if 1 < n then Ki 1 else Kc)"

definition next_meet :: "nat \<Rightarrow> nat \<Rightarrow> kplace" where
  "next_meet n j = (if Suc j < n then Ki (Suc j) else Kc)"

definition next_done :: "nat \<Rightarrow> nat \<Rightarrow> kplace" where
  "next_done n j = (if Suc j < n then Kn (Suc j) else Ko)"

definition next_round :: "nat \<Rightarrow> tid \<Rightarrow> nat \<Rightarrow> nat list \<Rightarrow> int \<Rightarrow> kplace" where
  "next_round n i m js p =
     (if js \<noteq> [] then Kl True m js 0 p else if 1 < m then Ka (m - 1) else if i \<noteq> 0 then Kq else next_done n 0)"

lemma fork_collect_at: "finE (fork_collect fuel (c_bool t) (int N) (int n) (int i) 0) (\<lambda>_. finale n i) = collecting t fuel n N i N"
  unfolding fork_collect_def collecting_def finE_def bind_assoc
  by (rule arg_cong2 [where f = bind]) (auto split: option.splits sum.splits)

lemma forking_step: "k < N \<Longrightarrow> forking t fuel n N i k =
    chk (Sys Fork) (\<lambda>r. rv r < 0) (Ret (Some EXIT_UNTESTED)) (\<lambda>r.
      if rv r = 0 then Ret (Some 0)
      else Call (lib ''fprintf'' [int i, 0, rv r, int k, int N]) (\<lambda>_. recording t fuel n N i k (rv r)))"
proof -
  assume "k < N"
  then have "N - k = Suc (N - Suc k)" by simp
  then show ?thesis
    by (simp add: forking_def recording_def fork_one_def finE_seqE finE_chk Let_def if_distrib [of "\<lambda>p. finE p f" for f] add.commute cong: if_cong)
qed

lemma meeting_start: "meeting t fuel n N i =
    (if i = 0 then finE (for_range 1 (n - 1) (import_each ''forked'') ()) (\<lambda>_. named 0 ''CHECK'' (collecting t fuel n N i N))
     else chk (Pip (Pip_named_export ''forked'')) nz lost (\<lambda>_. named i ''CHECK'' (collecting t fuel n N i N)))"
proof -
  have "nat (int n - 1) = n - 1" by simp
  then show ?thesis by (simp add: meeting_def fork_meet_def named_def finE_seqE finE_chk)
qed

lemma forking_end: "N \<le> k \<Longrightarrow> forking t fuel n N i k = meeting t fuel n N i"
  by (simp add: forking_def)

lemma next_fork: "0 < n \<Longrightarrow> forking t fuel n N i (Suc k) = kat t fuel n N i (next_fork n N i k)"
  by (cases "n = 1") (auto simp: next_fork_def forking_end meeting_start)

lemma imports_step: "j < n \<Longrightarrow> finE (for_range (int j) (n - j) (import_each x) ()) f =
    chk (Pip (Pip_named_import (int j) x)) nz lost (\<lambda>_. finE (for_range (int (Suc j)) (n - Suc j) (import_each x) ()) f)"
proof -
  assume "j < n"
  then have "n - j = Suc (n - Suc j)" by simp
  then show ?thesis by (simp add: import_each_def finE_seqE finE_chk add.commute)
qed

lemma next_meet: "finE (for_range (int (Suc j)) (n - Suc j) (import_each ''forked'') ()) (\<lambda>_. named 0 ''CHECK'' (collecting t fuel n N 0 N)) =
    kat t fuel n N 0 (next_meet n j)"
  by (auto simp: next_meet_def)

lemma next_done: "finE (for_range (int (Suc j)) (n - Suc j) (import_each ''DONE'') ()) (\<lambda>_. Ret (Some 0)) = kat t fuel n N 0 (next_done n j)"
  by (auto simp: next_done_def)

lemma finale_start: "finale n i =
    (if i = 0 then kat t fuel n N 0 (next_done n 0) else chk (Pip (Pip_named_export ''DONE'')) nz lost (\<lambda>_. Ret (Some 0)))"
proof -
  have "nat (int n - 1) = n - Suc 0" by simp
  then show ?thesis using next_done [of 0 n t fuel N] by (simp add: finale_def fork_done_def finE_chk)
qed

lemma next_round:
  assumes "N \<le> fuel" "0 < m" "m \<le> N"
  shows "scan N i p js (after_scan t fuel n N i m) (int m - 1) = kat t fuel n N i (next_round n i m js p)"
proof (cases js)
  case Nil
  then show ?thesis using after_scan_next [OF assms, of t n i] finale_start [of n i t fuel N] by (auto simp: next_round_def)
next
  case (Cons j js')
  then show ?thesis by (simp add: next_round_def at_entry_def)
qed

section \<open>The books\<close>

text \<open>
  What the table says, given for every task the number \<open>R\<close> of entries it has written, the child \<open>Fr\<close> it has forked and
  not yet written down, and the child \<open>H\<close> it looks for with the set of the entries it may still find it at.
\<close>

type_synonym hunt = "((nat \<times> nat) set \<times> int) option"

definition rows_ok :: "nat \<Rightarrow> nat \<Rightarrow> (tid \<Rightarrow> nat) \<Rightarrow> (nat \<Rightarrow> nat \<Rightarrow> int) \<Rightarrow> int \<Rightarrow> bool" where
  "rows_ok n N R T nx \<longleftrightarrow> 0 < nx \<and> (\<forall>i<n. R i \<le> N) \<and> (\<forall>i<n. \<forall>k<R i. 0 \<le> T i k \<and> T i k < nx) \<and>
     (\<forall>i<n. \<forall>k<R i. \<forall>j<n. \<forall>l<R j. T i k = T j l \<longrightarrow> T i k \<noteq> 0 \<longrightarrow> i = j \<and> k = l)"

definition forked_ok :: "nat \<Rightarrow> (tid \<Rightarrow> nat) \<Rightarrow> (tid \<Rightarrow> int option) \<Rightarrow> (nat \<Rightarrow> nat \<Rightarrow> int) \<Rightarrow> int \<Rightarrow> bool" where
  "forked_ok n R Fr T nx \<longleftrightarrow> (\<forall>i<n. \<forall>p. Fr i = Some p \<longrightarrow> 0 < p \<and> p < nx \<and>
     (\<forall>j<n. \<forall>k<R j. T j k \<noteq> p) \<and> (\<forall>j<n. Fr j = Some p \<longrightarrow> j = i))"

definition kids_ok :: "bool \<Rightarrow> nat \<Rightarrow> (tid \<Rightarrow> nat) \<Rightarrow> (tid \<Rightarrow> int option) \<Rightarrow> (nat \<Rightarrow> nat \<Rightarrow> int) \<Rightarrow> (tid \<Rightarrow> int set) \<Rightarrow> int \<Rightarrow> bool" where
  "kids_ok t n R Fr T K nx \<longleftrightarrow> (\<forall>f. \<forall>p\<in>K f. 0 < p \<and> p < nx \<and>
     (\<exists>i<n. fam t i = f \<and> (Fr i = Some p \<or> (\<exists>k<R i. T i k = p))))"

definition hunts_ok :: "bool \<Rightarrow> nat \<Rightarrow> (tid \<Rightarrow> nat) \<Rightarrow> (tid \<Rightarrow> hunt) \<Rightarrow> (nat \<Rightarrow> nat \<Rightarrow> int) \<Rightarrow> (tid \<Rightarrow> int set) \<Rightarrow> bool" where
  "hunts_ok t n R H T K \<longleftrightarrow> (\<forall>i<n. \<forall>S p. H i = Some (S, p) \<longrightarrow> 0 < p \<and> p \<notin> K (fam t i) \<and>
     (\<exists>j<n. \<exists>k<R j. (j, k) \<in> S \<and> T j k = p \<and> fam t j = fam t i) \<and> (\<forall>j<n. \<forall>S'. H j = Some (S', p) \<longrightarrow> j = i))"

definition books :: "bool \<Rightarrow> nat \<Rightarrow> nat \<Rightarrow> (tid \<Rightarrow> nat) \<Rightarrow> (tid \<Rightarrow> int option) \<Rightarrow> (tid \<Rightarrow> hunt) \<Rightarrow> (nat \<Rightarrow> nat \<Rightarrow> int) \<Rightarrow>
    (tid \<Rightarrow> int set) \<Rightarrow> int \<Rightarrow> bool" where
  "books t n N R Fr H T K nx \<longleftrightarrow> rows_ok n N R T nx \<and> forked_ok n R Fr T nx \<and> kids_ok t n R Fr T K nx \<and> hunts_ok t n R H T K"

lemma kids_okD: "kids_ok t n R Fr T K nx \<Longrightarrow> p \<in> K f \<Longrightarrow>
    0 < p \<and> p < nx \<and> (\<exists>i<n. fam t i = f \<and> (Fr i = Some p \<or> (\<exists>k<R i. T i k = p)))"
  unfolding kids_ok_def by (erule allE [where x = f], erule ballE [where x = p]) (assumption, erule (1) notE)

lemma hunts_okD: "hunts_ok t n R H T K \<Longrightarrow> i < n \<Longrightarrow> H i = Some (S, p) \<Longrightarrow> 0 < p \<and> p \<notin> K (fam t i) \<and>
    (\<exists>j<n. \<exists>k<R j. (j, k) \<in> S \<and> T j k = p \<and> fam t j = fam t i) \<and> (\<forall>j<n. \<forall>S'. H j = Some (S', p) \<longrightarrow> j = i)"
  unfolding hunts_ok_def by (elim allE impE) assumption+

lemma rows_okD: "rows_ok n N R T nx \<Longrightarrow> i < n \<Longrightarrow> k < R i \<Longrightarrow> j < n \<Longrightarrow> l < R j \<Longrightarrow> T i k = T j l \<Longrightarrow> T i k \<noteq> 0 \<Longrightarrow> i = j \<and> k = l"
  unfolding rows_ok_def by blast

lemma forked_okD: "forked_ok n R Fr T nx \<Longrightarrow> i < n \<Longrightarrow> Fr i = Some p \<Longrightarrow>
    0 < p \<and> p < nx \<and> (\<forall>j<n. \<forall>k<R j. T j k \<noteq> p) \<and> (\<forall>j<n. Fr j = Some p \<longrightarrow> j = i)"
  unfolding forked_ok_def by (elim allE impE) assumption+

lemma booksD: "books t n N R Fr H T K nx \<Longrightarrow> rows_ok n N R T nx" "books t n N R Fr H T K nx \<Longrightarrow> forked_ok n R Fr T nx"
  "books t n N R Fr H T K nx \<Longrightarrow> kids_ok t n R Fr T K nx" "books t n N R Fr H T K nx \<Longrightarrow> hunts_ok t n R H T K"
  by (simp_all add: books_def)

lemma books_fork:
  assumes B: "books t n N R Fr H T K nx" and i: "i < n" "Fr i = None"
  shows "books t n N R (Fr(i := Some nx)) H T (K(fam t i := insert nx (K (fam t i)))) (nx + 1)"
proof -
  note D = booksD [OF B]
  have nx: "0 < nx" and less: "T j k < nx" if "j < n" "k < R j" for j k using D(1) that by (auto simp: rows_ok_def)
  have pos: "0 < nx" using D(1) by (simp add: rows_ok_def)
  have old: "p < nx" if "j < n" "Fr j = Some p" for j p using forked_okD [OF D(2) that] by blast
  have "rows_ok n N R T (nx + 1)" using D(1) less_trans [OF less, of _ _ "nx + 1"] unfolding rows_ok_def by simp
  moreover have "forked_ok n R (Fr(i := Some nx)) T (nx + 1)"
    unfolding forked_ok_def
  proof (intro allI impI)
    fix j p assume j: "j < n" "(Fr(i := Some nx)) j = Some p"
    show "0 < p \<and> p < nx + 1 \<and> (\<forall>j<n. \<forall>k<R j. T j k \<noteq> p) \<and> (\<forall>l<n. (Fr(i := Some nx)) l = Some p \<longrightarrow> l = j)"
    proof (cases "j = i")
      case True
      then have "p = nx" using j by simp
      then show ?thesis using True pos less old by (auto simp: less_le)
    next
      case False
      then have "Fr j = Some p" using j by simp
      from forked_okD [OF D(2) j(1) this] show ?thesis by auto
    qed
  qed
  moreover have "kids_ok t n R (Fr(i := Some nx)) T (K(fam t i := insert nx (K (fam t i)))) (nx + 1)"
    unfolding kids_ok_def
  proof (intro allI ballI)
    fix f p assume p: "p \<in> (K(fam t i := insert nx (K (fam t i)))) f"
    show "0 < p \<and> p < nx + 1 \<and> (\<exists>j<n. fam t j = f \<and> ((Fr(i := Some nx)) j = Some p \<or> (\<exists>k<R j. T j k = p)))"
    proof (cases "p \<in> K f")
      case True
      from kids_okD [OF D(3) this] obtain j where j: "0 < p" "p < nx" "j < n" "fam t j = f" "Fr j = Some p \<or> (\<exists>k<R j. T j k = p)"
        by blast
      then have "(Fr(i := Some nx)) j = Some p \<or> (\<exists>k<R j. T j k = p)" using i(2) by auto
      then show ?thesis using j by auto
    next
      case False
      then have "p = nx" "f = fam t i" using p by (auto split: if_splits)
      then show ?thesis using pos i(1) by auto
    qed
  qed
  moreover have "hunts_ok t n R H T (K(fam t i := insert nx (K (fam t i))))"
    unfolding hunts_ok_def
  proof (intro allI impI)
    fix l S p assume l: "l < n" "H l = Some (S, p)"
    note h = hunts_okD [OF D(4) l]
    then obtain j k where "j < n" "k < R j" "T j k = p" by blast
    then have "p \<noteq> nx" using less by blast
    then show "0 < p \<and> p \<notin> (K(fam t i := insert nx (K (fam t i)))) (fam t l) \<and>
        (\<exists>j<n. \<exists>k<R j. (j, k) \<in> S \<and> T j k = p \<and> fam t j = fam t l) \<and> (\<forall>j<n. \<forall>S'. H j = Some (S', p) \<longrightarrow> j = l)" using h by auto
  qed
  ultimately show ?thesis by (simp add: books_def)
qed

lemma books_record:
  assumes B: "books t n N R Fr H T K nx" and i: "i < n" "Fr i = Some p" "R i < N"
  shows "books t n N (R(i := Suc (R i))) (Fr(i := None)) H (T(i := (T i)(R i := p))) K nx"
proof -
  note D = booksD [OF B]
  have p: "0 < p" "p < nx" "\<And>j k. j < n \<Longrightarrow> k < R j \<Longrightarrow> T j k \<noteq> p" "\<And>j. j < n \<Longrightarrow> Fr j = Some p \<Longrightarrow> j = i"
    using forked_okD [OF D(2) i(1,2)] by blast+
  have "rows_ok n N (R(i := Suc (R i))) (T(i := (T i)(R i := p))) nx"
    unfolding rows_ok_def
  proof (intro conjI allI impI)
    fix j k l m assume *: "j < n" "k < (R(i := Suc (R i))) j" "l < n" "m < (R(i := Suc (R i))) l"
      "(T(i := (T i)(R i := p))) j k = (T(i := (T i)(R i := p))) l m" "(T(i := (T i)(R i := p))) j k \<noteq> 0"
    have old: "k' < R j'" if "k' < (R(i := Suc (R i))) j'" "\<not> (j' = i \<and> k' = R i)" for j' k'
      using that by (auto simp: less_Suc_eq split: if_splits)
    consider "j = i \<and> k = R i" | "l = i \<and> m = R i" | "k < R j" "m < R l" "\<not> (j = i \<and> k = R i)" "\<not> (l = i \<and> m = R i)"
      using old *(2,4) by blast
    then have "j = l \<and> k = m"
    proof cases
      case 1
      then have "T l m = p" if "\<not> (l = i \<and> m = R i)" using *(5) that by (auto split: if_splits)
      then show ?thesis using 1 p(3) [OF *(3)] old [OF *(4)] by blast
    next
      case 2
      then have "T j k = p" if "\<not> (j = i \<and> k = R i)" using *(5) that by (auto split: if_splits)
      then show ?thesis using 2 p(3) [OF *(1)] old [OF *(2)] by blast
    next
      case 3
      then have "T j k = T l m" "T j k \<noteq> 0" using *(5,6) by (auto split: if_splits)
      then show ?thesis by (rule rows_okD [OF D(1) *(1) 3(1) *(3) 3(2)])
    qed
    then show "j = l" "k = m" by blast+
  next
    fix j assume "j < n"
    then show "(R(i := Suc (R i))) j \<le> N" using D(1) i(3) by (simp add: rows_ok_def)
  next
    fix j k assume *: "j < n" "k < (R(i := Suc (R i))) j"
    have "0 \<le> T j k \<and> T j k < nx" if "k < R j" using D(1) *(1) that by (simp add: rows_ok_def)
    then show "0 \<le> (T(i := (T i)(R i := p))) j k" "(T(i := (T i)(R i := p))) j k < nx"
      using * p(1,2) by (auto simp: less_Suc_eq split: if_splits)
  qed (use D(1) in \<open>simp add: rows_ok_def\<close>)
  moreover have "forked_ok n (R(i := Suc (R i))) (Fr(i := None)) (T(i := (T i)(R i := p))) nx"
    unfolding forked_ok_def
  proof (intro allI impI)
    fix j q assume j: "j < n" "(Fr(i := None)) j = Some q"
    then have f: "j \<noteq> i" "Fr j = Some q" by (auto split: if_splits)
    then have "q \<noteq> p" using p(4) j(1) by blast
    then show "0 < q \<and> q < nx \<and> (\<forall>l<n. \<forall>k<(R(i := Suc (R i))) l. (T(i := (T i)(R i := p))) l k \<noteq> q) \<and>
        (\<forall>l<n. (Fr(i := None)) l = Some q \<longrightarrow> l = j)"
      using forked_okD [OF D(2) j(1) f(2)] by (auto simp: less_Suc_eq)
  qed
  moreover have "kids_ok t n (R(i := Suc (R i))) (Fr(i := None)) (T(i := (T i)(R i := p))) K nx"
    unfolding kids_ok_def
  proof (intro allI ballI)
    fix f q assume "q \<in> K f"
    from kids_okD [OF D(3) this] obtain j where j: "0 < q" "q < nx" "j < n" "fam t j = f" "Fr j = Some q \<or> (\<exists>k<R j. T j k = q)"
      by blast
    have "(Fr(i := None)) j = Some q \<or> (\<exists>k<(R(i := Suc (R i))) j. (T(i := (T i)(R i := p))) j k = q)"
    proof (cases "j = i")
      case True
      show ?thesis using j(5)
      proof
        assume "Fr j = Some q"
        then have "q = p" using True i(2) by simp
        then show ?thesis using True by auto
      next
        assume "\<exists>k<R j. T j k = q"
        then obtain k where "k < R j" "T j k = q" by blast
        then have "k < (R(i := Suc (R i))) j \<and> (T(i := (T i)(R i := p))) j k = q" using True by simp
        then show ?thesis by blast
      qed
    qed (use j(5) in auto)
    then show "0 < q \<and> q < nx \<and> (\<exists>j<n. fam t j = f \<and> ((Fr(i := None)) j = Some q \<or>
        (\<exists>k<(R(i := Suc (R i))) j. (T(i := (T i)(R i := p))) j k = q)))" using j(1-4) by blast
  qed
  moreover have "hunts_ok t n (R(i := Suc (R i))) H (T(i := (T i)(R i := p))) K"
    unfolding hunts_ok_def
  proof (intro allI impI)
    fix l S q assume l: "l < n" "H l = Some (S, q)"
    from hunts_okD [OF D(4) this] obtain j k where j: "j < n" "k < R j" "(j, k) \<in> S" "T j k = q" "fam t j = fam t l" "0 < q"
      "q \<notin> K (fam t l)" "\<forall>j<n. \<forall>S'. H j = Some (S', q) \<longrightarrow> j = l" by blast
    then have "k < (R(i := Suc (R i))) j \<and> (T(i := (T i)(R i := p))) j k = q" by auto
    then show "0 < q \<and> q \<notin> K (fam t l) \<and> (\<exists>j<n. \<exists>k<(R(i := Suc (R i))) j. (j, k) \<in> S \<and> (T(i := (T i)(R i := p))) j k = q \<and>
        fam t j = fam t l) \<and> (\<forall>j<n. \<forall>S'. H j = Some (S', q) \<longrightarrow> j = l)" using j by blast
  qed
  ultimately show ?thesis by (simp add: books_def)
qed

lemma books_zero:
  assumes B: "books t n N R Fr H T K nx" and R: "\<And>i. i < n \<Longrightarrow> R i = 0"
  shows "books t n N R Fr H T' K nx"
proof -
  note D = booksD [OF B]
  have "rows_ok n N R T' nx" "forked_ok n R Fr T' nx" using D(1,2) R by (simp_all add: rows_ok_def forked_ok_def)
  moreover have "kids_ok t n R Fr T' K nx"
    unfolding kids_ok_def
  proof (intro allI ballI)
    fix f p assume "p \<in> K f"
    from kids_okD [OF D(3) this]
    show "0 < p \<and> p < nx \<and> (\<exists>i<n. fam t i = f \<and> (Fr i = Some p \<or> (\<exists>k<R i. T' i k = p)))" using R by fastforce
  qed
  moreover have "H i = None" if "i < n" for i
  proof (cases "H i")
    case (Some x)
    then show ?thesis using hunts_okD [OF D(4) that, of "fst x" "snd x"] R by fastforce
  qed
  then have "hunts_ok t n R H T' K" by (simp add: hunts_ok_def)
  ultimately show ?thesis by (simp add: books_def)
qed

lemma books_wait:
  assumes B: "books t n N R Fr H T K nx" and i: "i < n" and p: "p \<in> K (fam t i)" and fr: "\<And>j. j < n \<Longrightarrow> Fr j = None"
    and S: "\<And>j k. j < n \<Longrightarrow> k < R j \<Longrightarrow> fam t j = fam t i \<Longrightarrow> (j, k) \<in> S"
  shows "books t n N R Fr (H(i := Some (S, p))) T (K(fam t i := K (fam t i) - {p})) nx"
proof -
  note D = booksD [OF B]
  obtain j where "0 < p" "p < nx" "j < n" "fam t j = fam t i" "Fr j = Some p \<or> (\<exists>k<R j. T j k = p)"
    using kids_okD [OF D(3) p] by blast
  then obtain k where j: "0 < p" "p < nx" "j < n" "fam t j = fam t i" "k < R j" "T j k = p" using fr by auto
  have other: "q \<noteq> p" if l: "l < n" "H l = Some (S', q)" for l S' q
  proof
    assume "q = p"
    then obtain j' k' where *: "j' < n" "k' < R j'" "T j' k' = p" "fam t j' = fam t l" "p \<notin> K (fam t l)"
      using hunts_okD [OF D(4) l] by blast
    then have "j' = j" using rows_okD [OF D(1) *(1,2) j(3,5)] j by simp
    then show False using * j p by simp
  qed
  have "hunts_ok t n R (H(i := Some (S, p))) T (K(fam t i := K (fam t i) - {p}))"
    unfolding hunts_ok_def
  proof (intro allI impI)
    fix l S' q assume l: "l < n" "(H(i := Some (S, p))) l = Some (S', q)"
    show "0 < q \<and> q \<notin> (K(fam t i := K (fam t i) - {p})) (fam t l) \<and> (\<exists>j<n. \<exists>k<R j. (j, k) \<in> S' \<and> T j k = q \<and> fam t j = fam t l) \<and>
        (\<forall>j<n. \<forall>S'. (H(i := Some (S, p))) j = Some (S', q) \<longrightarrow> j = l)"
    proof (cases "l = i")
      case True
      then have "S' = S" "q = p" using l by auto
      then show ?thesis using True j S [OF j(3,5,4)] other by auto
    next
      case False
      then have l': "H l = Some (S', q)" using l by simp
      then have "0 < q \<and> q \<notin> K (fam t l) \<and> (\<exists>j<n. \<exists>k<R j. (j, k) \<in> S' \<and> T j k = q \<and> fam t j = fam t l) \<and> (\<forall>j<n. \<forall>S'. H j = Some (S', q) \<longrightarrow> j = l)"
        by (rule hunts_okD [OF D(4) l(1)])
      then show ?thesis using other [OF l(1) l'] by auto
    qed
  qed
  moreover have "kids_ok t n R Fr T (K(fam t i := K (fam t i) - {p})) nx"
    unfolding kids_ok_def
  proof (intro allI ballI)
    fix f q assume "q \<in> (K(fam t i := K (fam t i) - {p})) f"
    then have "q \<in> K f" by (auto split: if_splits)
    from kids_okD [OF D(3) this]
    show "0 < q \<and> q < nx \<and> (\<exists>i<n. fam t i = f \<and> (Fr i = Some q \<or> (\<exists>k<R i. T i k = q)))" .
  qed
  ultimately show ?thesis using D by (simp add: books_def)
qed

text \<open>The search goes on to a smaller set of entries.\<close>

lemma books_search:
  assumes B: "books t n N R Fr H T K nx" and H: "H i = Some (S, p)"
    and S: "\<And>j k. j < n \<Longrightarrow> k < R j \<Longrightarrow> (j, k) \<in> S \<Longrightarrow> T j k = p \<Longrightarrow> fam t j = fam t i \<Longrightarrow> (j, k) \<in> S'"
  shows "books t n N R Fr (H(i := Some (S', p))) T K nx"
proof -
  note D = booksD [OF B]
  have "hunts_ok t n R (H(i := Some (S', p))) T K"
    unfolding hunts_ok_def
  proof (intro allI impI)
    fix l Q q assume l: "l < n" "(H(i := Some (S', p))) l = Some (Q, q)"
    have "\<exists>Q'. H l = Some (Q', q)" using l H by (auto split: if_splits)
    then obtain Q' where Q: "H l = Some (Q', q)" by blast
    have only: "\<forall>j<n. \<forall>S. H j = Some (S, q) \<longrightarrow> j = l" using hunts_okD [OF D(4) l(1) Q] by blast
    have "\<forall>j<n. \<forall>S. (H(i := Some (S', p))) j = Some (S, q) \<longrightarrow> j = l" using only H by auto
    moreover have "\<exists>j<n. \<exists>k<R j. (j, k) \<in> Q \<and> T j k = q \<and> fam t j = fam t l"
    proof (cases "l = i")
      case True
      then have "Q = S'" "Q' = S" "q = p" using l Q H by auto
      then show ?thesis using hunts_okD [OF D(4) l(1) Q] S True by blast
    next
      case False
      then have "Q = Q'" using l Q by simp
      then show ?thesis using hunts_okD [OF D(4) l(1) Q] by blast
    qed
    ultimately show "0 < q \<and> q \<notin> K (fam t l) \<and> (\<exists>j<n. \<exists>k<R j. (j, k) \<in> Q \<and> T j k = q \<and> fam t j = fam t l) \<and>
        (\<forall>j<n. \<forall>S. (H(i := Some (S', p))) j = Some (S, q) \<longrightarrow> j = l)" using hunts_okD [OF D(4) l(1) Q] by blast
  qed
  then show ?thesis using D by (simp add: books_def)
qed

text \<open>It cannot come to its end, \<open>S = {}\<close>, without success.\<close>

lemma books_found: "books t n N R Fr H T K nx \<Longrightarrow> i < n \<Longrightarrow> H i = Some (S, p) \<Longrightarrow> \<exists>j<n. \<exists>k<R j. (j, k) \<in> S \<and> T j k = p"
  using hunts_okD [OF booksD(4)] by blast

lemma books_clear:
  assumes B: "books t n N R Fr H T K nx" and i: "i < n" "H i = Some ({(j, k)}, p)"
  shows "books t n N R Fr (H(i := None)) (T(j := (T j)(k := 0))) K nx"
proof -
  note D = booksD [OF B] and h = hunts_okD [OF booksD(4) [OF B] i]
  have e: "j < n" "k < R j" "T j k = p" "fam t j = fam t i" "p \<notin> K (fam t i)" "0 < p" using h by auto
  let ?T = "T(j := (T j)(k := 0))"
  have T: "?T a b = T a b" if "a < n" "b < R a" "T a b \<noteq> p" for a b using that e(3) by auto
  have same: "T a b = T c d \<and> T a b \<noteq> 0" if "?T a b = ?T c d" "?T a b \<noteq> 0" for a b c d
    using that by (auto split: if_splits)
  have "rows_ok n N R ?T nx"
    unfolding rows_ok_def
  proof (intro conjI allI impI)
    fix a b c d assume *: "a < n" "b < R a" "c < n" "d < R c" "?T a b = ?T c d" "?T a b \<noteq> 0"
    show "a = c" "b = d" using rows_okD [OF D(1) *(1-4)] same [OF *(5,6)] by simp_all
  qed (use D(1) in \<open>auto simp: rows_ok_def\<close>)
  moreover have "forked_ok n R Fr ?T nx"
    unfolding forked_ok_def
  proof (intro allI impI)
    fix l q assume l: "l < n" "Fr l = Some q"
    note f = forked_okD [OF D(2) l]
    then have "\<forall>a<n. \<forall>b<R a. ?T a b \<noteq> q" by (auto simp: fun_upd_apply)
    then show "0 < q \<and> q < nx \<and> (\<forall>a<n. \<forall>b<R a. ?T a b \<noteq> q) \<and> (\<forall>a<n. Fr a = Some q \<longrightarrow> a = l)" using f by blast
  qed
  moreover have "kids_ok t n R Fr ?T K nx"
    unfolding kids_ok_def
  proof (intro allI ballI)
    fix f q assume q: "q \<in> K f"
    from kids_okD [OF D(3) this] obtain l where l: "0 < q" "q < nx" "l < n" "fam t l = f" "Fr l = Some q \<or> (\<exists>b<R l. T l b = q)"
      by blast
    have "Fr l = Some q \<or> (\<exists>b<R l. ?T l b = q)"
    proof (rule ccontr)
      assume N: "\<not> ?thesis"
      then obtain b where b: "b < R l" "T l b = q" using l(5) by blast
      then have "q = p" using T [OF l(3) b(1)] N by auto
      then have "l = j" using rows_okD [OF D(1) l(3) b(1) e(1,2)] b e l(1) by simp
      then show False using e(4,5) l(4) q \<open>q = p\<close> by simp
    qed
    then show "0 < q \<and> q < nx \<and> (\<exists>l<n. fam t l = f \<and> (Fr l = Some q \<or> (\<exists>b<R l. ?T l b = q)))" using l by blast
  qed
  moreover have "hunts_ok t n R (H(i := None)) ?T K"
    unfolding hunts_ok_def
  proof (intro allI impI)
    fix l S q assume l: "l < n" "(H(i := None)) l = Some (S, q)"
    then have li: "l \<noteq> i" "H l = Some (S, q)" by (auto split: if_splits)
    note g = hunts_okD [OF D(4) l(1) li(2)]
    have "q \<noteq> p" using h li l(1) by blast
    from g obtain a b where ab: "a < n" "b < R a" "(a, b) \<in> S" "T a b = q" "fam t a = fam t l" by blast
    then have "?T a b = q" using T [OF ab(1,2)] \<open>q \<noteq> p\<close> by simp
    then have "\<exists>a<n. \<exists>b<R a. (a, b) \<in> S \<and> ?T a b = q \<and> fam t a = fam t l" using ab by blast
    moreover have "\<forall>a<n. \<forall>S'. (H(i := None)) a = Some (S', q) \<longrightarrow> a = l" using g by auto
    ultimately show "0 < q \<and> q \<notin> K (fam t l) \<and> (\<exists>a<n. \<exists>b<R a. (a, b) \<in> S \<and> ?T a b = q \<and> fam t a = fam t l) \<and>
        (\<forall>a<n. \<forall>S'. (H(i := None)) a = Some (S', q) \<longrightarrow> a = l)" using g by blast
  qed
  ultimately show ?thesis by (simp add: books_def)
qed

end
