(* ===== verification/ForkRuns.thy ===== *)
theory ForkRuns
  imports ForkTests
begin

text \<open>
  \<open>compat/fork.c\<close>, all runs: the invariant of the places, the table and the children, kept by every call, and that no
  run is ever stuck before all tasks have returned 0 and no child is left.
\<close>

section \<open>The invariant\<close>

text \<open>Stages: before the table is there (0), before the meeting (1), at its end (2), after it (3), over (4).\<close>

fun stg :: "kplace \<Rightarrow> nat" where
  "stg (Kw d p q) = 0" | "stg (Kz j) = 0" | "stg Kx = 0" | "stg Kc = 2" | "stg (Ka m) = 3" | "stg (Kl b m js k p) = 3"
| "stg (Kp m js k p) = 3" | "stg (Kt m js k p) = 3" | "stg (Kn j) = 3" | "stg Kq = 3" | "stg Ko = 4" | "stg _ = 1"

fun imported :: "kplace \<Rightarrow> nat" where
  "imported (Ki j) = j" | "imported _ = 1"

fun recd :: "nat \<Rightarrow> kplace \<Rightarrow> nat" where
  "recd N (Kf k) = k" | "recd N (Kd k p) = k" | "recd N (Ks k p) = k" | "recd N Kg = 0" | "recd N pl = (if stg pl = 0 then 0 else N)"

fun fresh :: "kplace \<Rightarrow> int option" where
  "fresh (Kd k p) = Some p" | "fresh (Ks k p) = Some p" | "fresh _ = None"

definition ahead :: "nat list \<Rightarrow> nat \<Rightarrow> (nat \<times> nat) set" where
  "ahead js k = {(a, b). a = hd js \<and> k \<le> b \<or> a \<in> set (tl js)}"

fun hunting :: "kplace \<Rightarrow> hunt" where
  "hunting (Kl b m js k p) = (if b then None else Some (ahead js k, p))"
| "hunting (Kp m js k p) = Some ({(hd js, k)}, p)"
| "hunting (Kt m js k p) = Some ({(hd js, k)}, p)"
| "hunting _ = None"

text \<open>The child it has found already, in an earlier row: no entry is left for it.\<close>

fun found :: "kplace \<Rightarrow> int option" where
  "found (Kl b m js k p) = (if b then Some p else None)"
| "found _ = None"

definition found_ok :: "nat \<Rightarrow> nat \<Rightarrow> (tid \<Rightarrow> int option) \<Rightarrow> (nat \<Rightarrow> nat \<Rightarrow> int) \<Rightarrow> bool" where
  "found_ok n N F T \<longleftrightarrow> (\<forall>i<n. \<forall>p. F i = Some p \<longrightarrow> 0 < p \<and> (\<forall>j<n. \<forall>k<N. T j k \<noteq> p))"

text \<open>The children a task has forked, less those it has waited for.\<close>

fun owes :: "nat \<Rightarrow> kplace \<Rightarrow> nat" where
  "owes N (Kf k) = k" | "owes N (Kd k p) = Suc k" | "owes N (Ks k p) = Suc k"
| "owes N (Ki j) = N" | "owes N Ke = N" | "owes N Kc = N" | "owes N (Ka m) = m"
| "owes N (Kl b m js k p) = m - 1" | "owes N (Kp m js k p) = m - 1" | "owes N (Kt m js k p) = m - 1" | "owes N _ = 0"

fun kok :: "bool \<Rightarrow> nat \<Rightarrow> nat \<Rightarrow> nat \<Rightarrow> tid \<Rightarrow> kplace \<Rightarrow> bool" where
  "kok t fuel n N i (Kw d p q) = (0 < d \<and> ways (fk_idle t n) i d p (kat t fuel n N i q) \<and> q = (if i = 0 then Kz 0 else Kx))"
| "kok t fuel n N i (Kz j) = (i = 0 \<and> j < n * N)"
| "kok t fuel n N i (Kf k) = (k < N)" | "kok t fuel n N i (Kd k p) = (k < N)" | "kok t fuel n N i (Ks k p) = (k < N)"
| "kok t fuel n N i (Ki j) = (i = 0 \<and> 0 < j \<and> j < n)" | "kok t fuel n N i (Kn j) = (i = 0 \<and> 0 < j \<and> j < n)"
| "kok t fuel n N i Ke = (i \<noteq> 0)" | "kok t fuel n N i Kq = (i \<noteq> 0)"
| "kok t fuel n N i (Ka m) = (0 < m \<and> m \<le> N)"
| "kok t fuel n N i (Kl b m js k p) = (0 < m \<and> m \<le> N \<and> k < N \<and> js \<noteq> [] \<and> set js \<subseteq> set (rows t n i))"
| "kok t fuel n N i (Kp m js k p) = (0 < m \<and> m \<le> N \<and> k < N \<and> js \<noteq> [] \<and> set js \<subseteq> set (rows t n i))"
| "kok t fuel n N i (Kt m js k p) = (0 < m \<and> m \<le> N \<and> k < N \<and> js \<noteq> [] \<and> set js \<subseteq> set (rows t n i))"
| "kok t fuel n N i _ = True"

definition names_ok :: "nat \<Rightarrow> (tid \<Rightarrow> nat) \<Rightarrow> nat \<Rightarrow> (tid \<Rightarrow> string set) \<Rightarrow> bool" where
  "names_ok n s c kn \<longleftrightarrow> (''FORKED'' \<in> kn 0 \<longleftrightarrow> 1 \<le> s 0) \<and> (''CHECK'' \<in> kn 0 \<longleftrightarrow> 3 \<le> s 0) \<and>
     (\<forall>i. 0 < i \<longrightarrow> i < n \<longrightarrow> (1 \<le> s i \<longrightarrow> ''FORKED'' \<in> kn 0) \<and> (''forked'' \<in> kn i \<longleftrightarrow> 2 \<le> s i) \<and>
        (3 \<le> s i \<longrightarrow> ''CHECK'' \<in> kn 0) \<and> (''DONE'' \<in> kn i \<longleftrightarrow> s i = 4) \<and> (i < c \<or> 2 \<le> s 0 \<longrightarrow> 2 \<le> s i))"

definition tally :: "bool \<Rightarrow> nat \<Rightarrow> nat \<Rightarrow> (tid \<Rightarrow> kplace) \<Rightarrow> (tid \<Rightarrow> int set) \<Rightarrow> bool" where
  "tally t n N pl K \<longleftrightarrow> (\<forall>f. finite (K f) \<and>
     int (card (K f)) = (\<Sum>i<n. if fam t i = f then int (owes N (pl i)) else 0))"

definition table :: "nat \<Rightarrow> (int \<Rightarrow> int) \<Rightarrow> nat \<Rightarrow> nat \<Rightarrow> int" where
  "table N e j k = (if k < N then e (int (j * N + k)) else 0)"

abbreviation the_books :: "bool \<Rightarrow> nat \<Rightarrow> nat \<Rightarrow> (tid \<Rightarrow> kplace) \<Rightarrow> fork_state \<Rightarrow> bool" where
  "the_books t n N pl w \<equiv> books t n N (\<lambda>i. recd N (pl i)) (\<lambda>i. fresh (pl i)) (\<lambda>i. hunting (pl i)) (table N (entries w)) (kids w) (next_pid w)"

definition fk_inv :: "bool \<Rightarrow> nat \<Rightarrow> nat \<Rightarrow> nat \<Rightarrow> (tid \<Rightarrow> kplace) \<Rightarrow> fork_state \<Rightarrow> bool" where
  "fk_inv t fuel n N pl w \<longleftrightarrow> (\<forall>i<n. kok t fuel n N i (pl i)) \<and> found_ok n N (\<lambda>i. found (pl i)) (table N (entries w)) \<and>
     names_ok n (\<lambda>i. stg (pl i)) (imported (pl 0)) (known w) \<and> the_books t n N pl w \<and> tally t n N pl (kids w)"

lemma view_upd: "(\<lambda>j. f ((pl(i := q)) j)) = (\<lambda>j. f (pl j))(i := f q)"
  by auto

lemma view_same: "f q = f (pl i) \<Longrightarrow> (\<lambda>j. f ((pl(i := q)) j)) = (\<lambda>j. f (pl j))"
  by (rule ext) simp

lemma found_okD: "found_ok n N F T \<Longrightarrow> i < n \<Longrightarrow> F i = Some p \<Longrightarrow> 0 < p \<and> (\<forall>j<n. \<forall>k<N. T j k \<noteq> p)"
  unfolding found_ok_def by (elim allE impE) assumption+

lemma found_less:
  assumes "found_ok n N F T" "\<And>j k. T' j k = T j k \<or> T' j k = 0"
  shows "found_ok n N F T'"
  unfolding found_ok_def
proof (intro allI impI)
  fix i p assume "i < n" "F i = Some p"
  from found_okD [OF assms(1) this] have p: "0 < p" "\<And>j k. j < n \<Longrightarrow> k < N \<Longrightarrow> T j k \<noteq> p" by blast+
  have "T' j k \<noteq> p" if "j < n" "k < N" for j k using assms(2) [of j k] p(2) [OF that] p(1) by auto
  then show "0 < p \<and> (\<forall>j<n. \<forall>k<N. T' j k \<noteq> p)" using p(1) by blast
qed

lemma found_move:
  assumes F: "found_ok n N (\<lambda>i. found (pl i)) T" and q: "found q = found (pl i) \<or> found q = None"
  shows "found_ok n N (\<lambda>j. found ((pl(i := q)) j)) T"
  unfolding found_ok_def
proof (intro allI impI)
  fix l p assume l: "l < n" "found ((pl(i := q)) l) = Some p"
  then have "found (pl l) = Some p" using q by (auto split: if_splits)
  from found_okD [OF F l(1) this] show "0 < p \<and> (\<forall>j<n. \<forall>k<N. T j k \<noteq> p)" .
qed

lemma table_zero: "table N (e(x := 0)) j k = table N e j k \<or> table N (e(x := 0)) j k = 0"
  by (simp add: table_def)

lemma table_upd: "k < N \<Longrightarrow> table N (e(int (i * N + k) := v)) = (table N e)(i := (table N e i)(k := v))"
proof (rule ext, rule ext)
  fix j l assume k: "k < N"
  have "i = j \<and> k = l" if "i * N + k = j * N + l" "l < N"
  proof -
    have "(k + i * N) div N = i" "(l + j * N) div N = j" using k that(2) by simp_all
    then have "i = j" using that(1) by (simp add: add.commute)
    then show ?thesis using that(1) by simp
  qed
  then show "table N (e(int (i * N + k) := v)) j l = ((table N e)(i := (table N e i)(k := v))) j l"
    using k by (auto simp: table_def simp flip: of_nat_mult of_nat_add)
qed

lemma IDX_id:
  assumes "j < n" "k < N" "int (n * N) < 2 ^ 31"
  shows "IDX (int N) (int j) (int k) = int (j * N + k)"
proof -
  have "j * N + k < n * N" using assms(1,2) mult_le_mono1 [of "Suc j" n N] by simp
  then have "int (j * N + k) < 2 ^ 31" using assms(3) by linarith
  then have "to_int32 (int (j * N + k)) = int (j * N + k)" by (intro to_int32_id order_trans [OF _ of_nat_0_le_iff]) simp_all
  then show ?thesis by (simp add: IDX_def)
qed

lemma tally_move:
  assumes "tally t n N pl K" "i < n" "owes N q = owes N (pl i)"
  shows "tally t n N (pl(i := q)) K"
proof -
  have "(\<lambda>j. owes N ((pl(i := q)) j)) = (\<lambda>j. owes N (pl j))" by (rule view_same) (rule assms(3))
  from fun_cong [OF this] show ?thesis using assms(1) unfolding tally_def by (simp only: simp_thms)
qed

lemma tally_fork:
  assumes T: "tally t n N pl K" and i: "i < n" "owes N q = Suc (owes N (pl i))" "p \<notin> K (fam t i)"
  shows "tally t n N (pl(i := q)) (K(fam t i := insert p (K (fam t i))))"
  unfolding tally_def
proof
  fix f
  have "finite (K f)" "int (card (K f)) = (\<Sum>i<n. if fam t i = f then int (owes N (pl i)) else 0)"
    using T by (auto simp: tally_def)
  then show "finite ((K(fam t i := insert p (K (fam t i)))) f) \<and> int (card ((K(fam t i := insert p (K (fam t i)))) f)) =
      (\<Sum>j<n. if fam t j = f then int (owes N ((pl(i := q)) j)) else 0)"
    using i sum_upd [OF i(1), of "\<lambda>j p. if fam t j = f then int (owes N p) else 0" pl q] by auto
qed

lemma tally_wait:
  assumes T: "tally t n N pl K" and i: "i < n" "owes N (pl i) = Suc (owes N q)" "p \<in> K (fam t i)"
  shows "tally t n N (pl(i := q)) (K(fam t i := K (fam t i) - {p}))"
  unfolding tally_def
proof
  fix f
  have *: "finite (K f)" "int (card (K f)) = (\<Sum>i<n. if fam t i = f then int (owes N (pl i)) else 0)"
    using T by (auto simp: tally_def)
  have "int (card (K f - {p})) = int (card (K f)) - 1" if "f = fam t i"
    using *(1) i(3) that card_Suc_Diff1 [of "K f" p] by simp
  then show "finite ((K(fam t i := K (fam t i) - {p})) f) \<and> int (card ((K(fam t i := K (fam t i) - {p})) f)) =
      (\<Sum>j<n. if fam t j = f then int (owes N ((pl(i := q)) j)) else 0)"
    using * i sum_upd [OF i(1), of "\<lambda>j p. if fam t j = f then int (owes N p) else 0" pl q] by auto
qed

lemma tally_kids:
  assumes "tally t n N pl K" "i < n" "0 < owes N (pl i)"
  shows "K (fam t i) \<noteq> {}" "finite (K (fam t i))"
proof -
  let ?f = "\<lambda>j. if fam t j = fam t i then int (owes N (pl j)) else 0"
  have "?f i \<le> (\<Sum>j<n. ?f j)" by (rule member_le_sum) (use assms(2) in auto)
  moreover have "int (card (K (fam t i))) = (\<Sum>j<n. ?f j)" "finite (K (fam t i))" using assms(1) by (simp_all add: tally_def)
  ultimately show "K (fam t i) \<noteq> {}" "finite (K (fam t i))" using assms(3) by auto
qed

section \<open>Calls\<close>

text \<open>A move that leaves the books alone.\<close>

lemma fk_move:
  assumes I: "fk_inv t fuel n N pl w" and i: "i < n" "kok t fuel n N i q"
    and views: "recd N q = recd N (pl i)" "fresh q = fresh (pl i)" "hunting q = hunting (pl i)" "owes N q = owes N (pl i)"
      "found q = found (pl i) \<or> found q = None"
    and w': "entries w' = entries w" "kids w' = kids w" "next_pid w' = next_pid w"
    and names: "names_ok n ((\<lambda>j. stg (pl j))(i := stg q)) (imported ((pl(i := q)) 0)) (known w')"
  shows "fk_inv t fuel n N (pl(i := q)) w'"
proof -
  have "kok t fuel n N j ((pl(i := q)) j)" if "j < n" for j using I i(2) that by (simp add: fk_inv_def)
  moreover have "tally t n N (pl(i := q)) (kids w)" using I tally_move [where pl = pl and i = i and q = q, OF _ i(1) views(4)] by (simp add: fk_inv_def)
  moreover have "the_books t n N (pl(i := q)) w'"
    using I unfolding view_same [of "recd N" q pl i, OF views(1)] view_same [of fresh q pl i, OF views(2)]
      view_same [of hunting q pl i, OF views(3)] w' by (simp add: fk_inv_def)
  moreover have "found_ok n N (\<lambda>j. found ((pl(i := q)) j)) (table N (entries w'))"
    by (rule found_move [where pl = pl and i = i and q = q, OF _ views(5)]) (use I w' in \<open>simp add: fk_inv_def\<close>)
  ultimately show ?thesis using names w' unfolding fk_inv_def view_upd [of stg] by simp
qed

lemma names_stay:
  assumes "names_ok n (\<lambda>j. stg (pl j)) (imported (pl 0)) kn" "i < n" "stg q = stg (pl i)" "imported q = imported (pl i)"
  shows "names_ok n ((\<lambda>j. stg (pl j))(i := stg q)) (imported ((pl(i := q)) 0)) kn"
proof -
  have "(\<lambda>j. stg (pl j))(i := stg q) = (\<lambda>j. stg (pl j))" "imported ((pl(i := q)) 0) = imported (pl 0)" using assms(3,4) by auto
  then show ?thesis using assms(1) by simp
qed

lemma names_okD:
  assumes "names_ok n s c kn" "0 < i" "i < n"
  shows "1 \<le> s i \<Longrightarrow> ''FORKED'' \<in> kn 0" "''forked'' \<in> kn i \<longleftrightarrow> 2 \<le> s i" "3 \<le> s i \<Longrightarrow> ''CHECK'' \<in> kn 0"
    "''DONE'' \<in> kn i \<longleftrightarrow> s i = 4" "i < c \<or> 2 \<le> s 0 \<Longrightarrow> 2 \<le> s i"
  using assms unfolding names_ok_def by blast+

lemma names_ok0: "names_ok n s c kn \<Longrightarrow> (''FORKED'' \<in> kn 0 \<longleftrightarrow> 1 \<le> s 0) \<and> (''CHECK'' \<in> kn 0 \<longleftrightarrow> 3 \<le> s 0)"
  unfolding names_ok_def by blast

lemma names_first:
  assumes N: "names_ok n s c kn" and v: "s 0 \<le> v" "''FORKED'' \<in> k \<longleftrightarrow> 1 \<le> v" "''CHECK'' \<in> k \<longleftrightarrow> 3 \<le> v"
    and c: "\<And>j. 0 < j \<Longrightarrow> j < n \<Longrightarrow> j < c' \<or> 2 \<le> v \<Longrightarrow> 2 \<le> s j"
  shows "names_ok n (s(0 := v)) c' (kn(0 := k))"
proof -
  note N0 = names_ok0 [OF N] and D = names_okD [OF N]
  have "''FORKED'' \<in> k" if "1 \<le> s i" "0 < i" "i < n" for i using D(1) [OF that(2,3,1)] N0 v(1,2) by simp
  moreover have "''CHECK'' \<in> k" if "3 \<le> s i" "0 < i" "i < n" for i using D(3) [OF that(2,3,1)] N0 v(1,3) by simp
  ultimately show ?thesis unfolding names_ok_def
  proof (intro conjI allI impI)
    fix j assume j: "0 < j" "j < n"
    show "''forked'' \<in> (kn(0 := k)) j \<longleftrightarrow> 2 \<le> (s(0 := v)) j" "''DONE'' \<in> (kn(0 := k)) j \<longleftrightarrow> (s(0 := v)) j = 4"
      using D(2,4) [OF j] j by simp_all
    show "j < c' \<or> 2 \<le> (s(0 := v)) 0 \<Longrightarrow> 2 \<le> (s(0 := v)) j" using c [OF j] j by simp
  qed (use v(2,3) in simp_all)
qed

lemma names_other:
  assumes N: "names_ok n s c kn" and i: "0 < i" "i < n" and v: "s i \<le> v" "1 \<le> v \<Longrightarrow> ''FORKED'' \<in> kn 0"
    "3 \<le> v \<Longrightarrow> ''CHECK'' \<in> kn 0" "''forked'' \<in> k \<longleftrightarrow> 2 \<le> v" "''DONE'' \<in> k \<longleftrightarrow> v = 4"
  shows "names_ok n (s(i := v)) c (kn(i := k))"
proof -
  note N0 = names_ok0 [OF N] and D = names_okD [OF N]
  have "2 \<le> v" if "i < c \<or> 2 \<le> s 0" using D(5) [OF i that] v(1) by simp
  then show ?thesis unfolding names_ok_def
  proof (intro conjI allI impI)
    fix j assume j: "0 < j" "j < n"
    show "1 \<le> (s(i := v)) j \<Longrightarrow> ''FORKED'' \<in> (kn(i := k)) 0" "3 \<le> (s(i := v)) j \<Longrightarrow> ''CHECK'' \<in> (kn(i := k)) 0"
      "''forked'' \<in> (kn(i := k)) j \<longleftrightarrow> 2 \<le> (s(i := v)) j" "''DONE'' \<in> (kn(i := k)) j \<longleftrightarrow> (s(i := v)) j = 4"
      using D [OF j] v i by (cases "j = i"; simp)+
    show "j < c \<or> 2 \<le> (s(i := v)) 0 \<Longrightarrow> 2 \<le> (s(i := v)) j"
      using D(5) [OF j] \<open>i < c \<or> 2 \<le> s 0 \<Longrightarrow> 2 \<le> v\<close> i by (cases "j = i") simp_all
  qed (use N0 i in simp_all)
qed

lemma fk_step:
  assumes "fk_inv t fuel n N pl w" "i < n" "kok t fuel n N i q"
    "recd N q = recd N (pl i)" "fresh q = fresh (pl i)" "hunting q = hunting (pl i)" "owes N q = owes N (pl i)"
    "found q = found (pl i) \<or> found q = None" "stg q = stg (pl i)" "imported q = imported (pl i)"
  shows "fk_inv t fuel n N (pl(i := q)) w"
  by (rule fk_move [OF assms(1-8)])
    (use names_stay [where pl = pl and i = i and q = q, OF _ assms(2,9,10)] assms(1) in \<open>auto simp: fk_inv_def\<close>)

text \<open>The rank.\<close>

fun krk :: "nat \<Rightarrow> nat \<Rightarrow> kplace \<Rightarrow> nat" where
  "krk n N Ko = 0" | "krk n N Kq = 1" | "krk n N (Kn j) = 1 + (n - j)"
| "krk n N (Ka m) = n + 2 + m * (3 * n * (N + 1) + 5)"
| "krk n N (Kl b m js k p) = n + 2 + (m - 1) * (3 * n * (N + 1) + 5) + 3 * (length js * (N + 1) - k)"
| "krk n N (Kp m js k p) = n + 1 + (m - 1) * (3 * n * (N + 1) + 5) + 3 * (length js * (N + 1) - k)"
| "krk n N (Kt m js k p) = n + (m - 1) * (3 * n * (N + 1) + 5) + 3 * (length js * (N + 1) - k)"
| "krk n N Kc = n + 3 + N * (3 * n * (N + 1) + 5)"
| "krk n N Ke = n + 4 + N * (3 * n * (N + 1) + 5)"
| "krk n N (Ki j) = n + 3 + N * (3 * n * (N + 1) + 5) + (n - j)"
| "krk n N (Kf k) = 2 * n + 5 + N * (3 * n * (N + 1) + 5) + 3 * (N - k)"
| "krk n N (Kd k p) = 2 * n + 4 + N * (3 * n * (N + 1) + 5) + 3 * (N - k)"
| "krk n N (Ks k p) = 2 * n + 3 + N * (3 * n * (N + 1) + 5) + 3 * (N - k)"
| "krk n N Kg = 2 * n + 6 + N * (3 * n * (N + 1) + 5) + 3 * N"
| "krk n N Kx = 2 * n + 7 + N * (3 * n * (N + 1) + 5) + 3 * N"
| "krk n N (Kz j) = 2 * n + 7 + N * (3 * n * (N + 1) + 5) + 3 * N + (n * N - j)"
| "krk n N (Kw d p q) = d + krk n N q"

text \<open>The children a task has forked, and those a call adds.\<close>

definition forks :: "nat \<Rightarrow> kplace \<Rightarrow> int" where
  "forks N pl = int (recd N pl) + (case fresh pl of None \<Rightarrow> 0 | Some p \<Rightarrow> 1)"

definition grown :: "nat \<Rightarrow> kplace \<Rightarrow> fork_state \<Rightarrow> kplace \<Rightarrow> fork_state \<Rightarrow> bool" where
  "grown N p w q w' \<longleftrightarrow> next_pid w' - next_pid w = forks N q - forks N p"

lemma grown_move [simp]: "recd N q = recd N p \<Longrightarrow> fresh q = fresh p \<Longrightarrow> next_pid w' = next_pid w \<Longrightarrow> grown N p w q w'"
  by (simp add: grown_def forks_def)

text \<open>The setting: \<open>n\<close> tasks, \<open>N\<close> forks each, enough fuel for them.\<close>

definition setting :: "nat \<Rightarrow> nat \<Rightarrow> nat \<Rightarrow> bool" where
  "setting fuel n N \<longleftrightarrow> 0 < n \<and> 0 < N \<and> N \<le> fuel \<and> int (n * N) < 2 ^ 31"

text \<open>Once a task waits, all have written down their children.\<close>

lemma all_met:
  assumes N: "names_ok n s c kn" and i: "i < n" "3 \<le> s i" and j: "j < n"
  shows "2 \<le> s j"
proof -
  have "3 \<le> s 0"
  proof (cases "i = 0")
    case False
    then show ?thesis using names_okD(3) [OF N _ i] names_ok0 [OF N] by simp
  qed (use i in simp)
  then show ?thesis using names_okD(5) [OF N _ j] by (cases "j = 0") simp_all
qed

lemma met_views: "2 \<le> stg q \<Longrightarrow> recd N q = N" "2 \<le> stg q \<Longrightarrow> fresh q = None"
  by (cases q; simp)+

lemma found_stg: "stg q \<noteq> 3 \<Longrightarrow> found q = None"
  by (cases q) simp_all

lemma found_none: "(\<And>i. i < n \<Longrightarrow> F i = None) \<Longrightarrow> found_ok n N F T"
  by (simp add: found_ok_def)

lemma found_early:
  assumes "names_ok n (\<lambda>j. stg (pl j)) c kn" "i < n" "stg (pl i) < 2" "l < n"
  shows "found (pl l) = None"
proof (rule found_stg)
  show "stg (pl l) \<noteq> 3" using all_met [OF assms(1,4) _ assms(2)] assms(3) by auto
qed

text \<open>Up to the table.\<close>

lemma table_call:
  assumes I: "fk_inv t fuel n N pl w" and s: "setting fuel n N" and i: "i < n" and st: "stg (pl i) = 0 \<or> pl i = Kg"
    and c: "kat t fuel n N i (pl i) = Call c f" and r: "fk_sem t n pick i c w = Some (r, w')"
  shows "\<exists>q. f r = kat t fuel n N i q \<and> krk n N q < krk n N (pl i) \<and> grown N (pl i) w q w' \<and> fk_inv t fuel n N (pl(i := q)) w'"
proof -
  have ok: "kok t fuel n N i (pl i)" and N: "names_ok n (\<lambda>j. stg (pl j)) (imported (pl 0)) (known w)"
    using I i by (auto simp: fk_inv_def)
  show ?thesis
  proof (cases "pl i")
    case (Kw d p q)
    then obtain e where d: "d = Suc e" using ok by (cases d) auto
    have wy: "w' = w \<and> ways (fk_idle t n) i e (f r) (kat t fuel n N i q)"
      using ways_step [OF fk_idle, of t n i e c f "kat t fuel n N i q" pick w r w'] ok c Kw d r by auto
    let ?q = "if e = 0 then q else Kw e (f r) q"
    have q: "q = (if i = 0 then Kz 0 else Kx)" using ok Kw by simp
    have "fk_inv t fuel n N (pl(i := ?q)) w"
      by (rule fk_step [OF I i]) (use Kw q wy s in \<open>auto simp: setting_def simp del: ways.simps(2)\<close>)
    then show ?thesis using wy Kw d q by (intro exI [of _ ?q]) auto
  next
    case (Kz j)
    then have j: "i = 0" "j < n * N" using ok by auto
    then have "n * N - j = Suc (n * N - Suc j)" by simp
    then have *: "w' = w\<lparr>entries := (entries w)(int j := 0)\<rparr>"
      "f r = kat t fuel n N i (if Suc j < n * N then Kz (Suc j) else Kx)"
      using c r Kz j by (auto simp: zero_entry_def finE_seqE add.commute named_def)
    have z: "recd N (pl l) = 0" if "l < n" for l
    proof -
      have "stg (pl 0) = 0" using Kz j by simp
      then have "l \<noteq> 0 \<Longrightarrow> \<not> 1 \<le> stg (pl l)" using N that by (auto simp: names_ok_def)
      then have "stg (pl l) = 0" using \<open>stg (pl 0) = 0\<close> by (cases "l = 0") auto
      then show ?thesis by (cases "pl l") auto
    qed
    let ?q = "if Suc j < n * N then Kz (Suc j) else Kx"
    have Q: "fk_inv t fuel n N (pl(i := ?q)) w"
      by (rule fk_step [OF I i]) (use Kz j in auto)
    then have B: "the_books t n N (pl(i := ?q)) w" by (simp only: fk_inv_def)
    have R: "recd N ((pl(i := ?q)) l) = 0" if "l < n" for l using z [OF that] by auto
    have "the_books t n N (pl(i := ?q)) (w\<lparr>entries := (entries w)(int j := 0)\<rparr>)"
      using books_zero [OF B, of "table N ((entries w)(int j := 0))"] R by simp
    moreover have "found_ok n N (\<lambda>l. found ((pl(i := ?q)) l)) (table N ((entries w)(int j := 0)))"
      by (rule found_less [OF _ table_zero]) (use Q in \<open>simp only: fk_inv_def\<close>)
    ultimately have "fk_inv t fuel n N (pl(i := ?q)) w'"
      using Q unfolding *(1) by (simp add: fk_inv_def del: fun_upd_apply)
    then show ?thesis using * Kz j by (intro exI [of _ ?q]) auto
  next
    case Kx
    have *: "f r = kat t fuel n N i Kg" "w' = (if i = 0 then w\<lparr>known := (known w)(0 := insert ''FORKED'' (known w 0))\<rparr> else w)"
      "i \<noteq> 0 \<Longrightarrow> ''FORKED'' \<in> known w 0"
      using c r Kx by (auto simp: named_def chk_def split: if_splits)
    have "names_ok n ((\<lambda>j. stg (pl j))(i := 1)) (imported ((pl(i := Kg)) 0)) (known w')"
    proof (cases "i = 0")
      case True
      show ?thesis using names_first [OF N, of 1 "insert ''FORKED'' (known w 0)" 1] N Kx True *(2) by (auto simp: names_ok_def)
    next
      case False
      then show ?thesis using names_other [OF N, of i 1 "known w i"] N i Kx *(2,3) by (simp add: names_ok_def)
    qed
    then have "fk_inv t fuel n N (pl(i := Kg)) w'" by (intro fk_move [OF I i]) (use Kx * in auto)
    then show ?thesis using * Kx by (intro exI [of _ Kg]) auto
  next
    case Kg
    have *: "f r = kat t fuel n N i (Kf 0)" "w' = w"
      using c r Kg fork_collect_at [of fuel t N n i] by (auto simp: getting_def forking_def meeting_def)
    have "fk_inv t fuel n N (pl(i := Kf 0)) w"
      by (rule fk_step [OF I i]) (use Kg s in \<open>auto simp: setting_def\<close>)
    then show ?thesis using * Kg by (intro exI [of _ "Kf 0"]) auto
  qed (use st in auto)
qed

text \<open>Forking.\<close>

lemma fresh_new:
  assumes "the_books t n N pl w"
  shows "next_pid w \<notin> kids w f" "0 < next_pid w"
proof -
  show "next_pid w \<notin> kids w f"
  proof
    assume "next_pid w \<in> kids w f"
    from kids_okD [OF booksD(3) [OF assms] this] show False by simp
  qed
  show "0 < next_pid w" using booksD(1) [OF assms] by (simp add: rows_ok_def)
qed

lemma next_fork_views:
  assumes "k < N" "0 < n"
  shows "recd N (next_fork n N i k) = Suc k" "fresh (next_fork n N i k) = None" "hunting (next_fork n N i k) = None"
    "owes N (next_fork n N i k) = Suc k" "stg (next_fork n N i k) = (if Suc k < N \<or> i \<noteq> 0 \<or> 1 < n then 1 else 2)"
    "imported (next_fork n N i k) = 1" "kok t fuel n N i (next_fork n N i k)" "krk n N (next_fork n N i k) < krk n N (Ks k p)"
  using assms by (auto simp: next_fork_def Suc_lessI)

lemma fork_call:
  assumes I: "fk_inv t fuel n N pl w" and s: "setting fuel n N" and i: "i < n"
    and st: "pl i = Kf k \<or> pl i = Kd k p \<or> pl i = Ks k p"
    and c: "kat t fuel n N i (pl i) = Call c f" and r: "fk_sem t n pick i c w = Some (r, w')"
  shows "\<exists>q. f r = kat t fuel n N i q \<and> krk n N q < krk n N (pl i) \<and> grown N (pl i) w q w' \<and> fk_inv t fuel n N (pl(i := q)) w'"
proof -
  have ok: "kok t fuel n N i (pl i)" and N: "names_ok n (\<lambda>i. stg (pl i)) (imported (pl 0)) (known w)" and B: "the_books t n N pl w"
    and T: "tally t n N pl (kids w)" using I i by (auto simp: fk_inv_def)
  have n: "0 < n" using i by simp
  from st show ?thesis
  proof (elim disjE)
    assume P: "pl i = Kf k"
    then have k: "k < N" using ok by simp
    let ?p = "next_pid w"
    have w': "w' = w\<lparr>next_pid := ?p + 1, kids := (kids w)(fam t i := insert ?p (kids w (fam t i)))\<rparr>" "f r = kat t fuel n N i (Kd k ?p)"
      using c r P fresh_new(2) [OF B] by (auto simp: forking_step [OF k] chk_def)
    have v: "recd N (Kd k ?p) = recd N (pl i)" "hunting (Kd k ?p) = hunting (pl i)" using P by simp_all
    have "the_books t n N (pl(i := Kd k ?p)) w'"
      using books_fork [OF B i] P unfolding w' view_upd [of fresh] view_same [of "recd N" "Kd k ?p" pl i, OF v(1)]
        view_same [of hunting "Kd k ?p" pl i, OF v(2)] by simp
    moreover have "tally t n N (pl(i := Kd k ?p)) (kids w')"
      using tally_fork [OF T i, of "Kd k ?p" ?p] P fresh_new(1) [OF B] unfolding w' by simp
    moreover have "names_ok n (\<lambda>j. stg ((pl(i := Kd k ?p)) j)) (imported ((pl(i := Kd k ?p)) 0)) (known w')"
      using names_stay [where pl = pl and i = i and q = "Kd k ?p", OF N i] P unfolding w' view_upd by simp
    moreover have "found_ok n N (\<lambda>j. found ((pl(i := Kd k ?p)) j)) (table N (entries w'))"
      by (rule found_move [where pl = pl and i = i and q = "Kd k ?p"]) (use I w'(1) in \<open>simp_all add: fk_inv_def\<close>)
    ultimately have "fk_inv t fuel n N (pl(i := Kd k ?p)) w'" using I k by (simp add: fk_inv_def)
    then show ?thesis using w' P by (intro exI [of _ "Kd k ?p"]) (simp add: grown_def forks_def)
  next
    assume P: "pl i = Kd k p"
    have w': "w' = w" "f r = kat t fuel n N i (Ks k p)" using c r P by auto
    have "fk_inv t fuel n N (pl(i := Ks k p)) w" by (rule fk_step [OF I i]) (use P ok in auto)
    then show ?thesis using w' P by (intro exI [of _ "Ks k p"]) auto
  next
    assume P: "pl i = Ks k p"
    then have k: "k < N" using ok by simp
    let ?q = "next_fork n N i k"
    note V = next_fork_views [OF k n, where i = i]
    have idx: "IDX (int N) (int i) (int k) = int (i * N + k)" using IDX_id [OF i k] s by (simp add: setting_def)
    have w': "w' = w\<lparr>entries := (entries w)(int (i * N + k) := p)\<rparr>" "f r = kat t fuel n N i ?q"
      using c r P next_fork [OF n, of t fuel N i k] by (auto simp: recording_def idx simp del: of_nat_add of_nat_mult)
    have v: "hunting ?q = hunting (pl i)" using P V(3) by simp
    have "the_books t n N (pl(i := ?q)) w'"
      using books_record [OF B i, of p] P k V(1-3) unfolding w' view_upd [of fresh] view_upd [of "recd N"]
        view_same [of hunting ?q pl i, OF v] by (simp add: table_upd del: of_nat_add of_nat_mult)
    moreover have "tally t n N (pl(i := ?q)) (kids w')"
      using tally_move [where pl = pl and i = i and q = ?q, OF T i] P V(4) unfolding w' by simp
    moreover have "names_ok n ((\<lambda>j. stg (pl j))(i := stg ?q)) (imported ((pl(i := ?q)) 0)) (known w)"
    proof (cases "stg ?q = 1")
      case True
      then show ?thesis using names_stay [where pl = pl and i = i and q = ?q, OF N i] P V(6) by simp
    next
      case False
      then have e: "i = 0" "n = 1" "stg ?q = 2" using V(5) n by (auto split: if_splits)
      then show ?thesis using N P by (simp add: names_ok_def)
    qed
    moreover have "found_ok n N (\<lambda>j. found ((pl(i := ?q)) j)) (table N (entries w'))"
    proof (rule found_none)
      fix l assume l: "l < n"
      have "found (pl l) = None" by (rule found_early [OF N i _ l]) (simp add: P)
      then show "found ((pl(i := ?q)) l) = None" using found_stg [of ?q] V(5) by (simp split: if_splits)
    qed
    ultimately have "fk_inv t fuel n N (pl(i := ?q)) w'" using I V(7) unfolding w' fk_inv_def view_upd [of stg] by simp
    then show ?thesis using w' P V(1,2) V(8) [where p = p] by (intro exI [of _ ?q]) (simp add: grown_def forks_def)
  qed
qed

text \<open>The meeting.\<close>

lemma meet_call:
  assumes I: "fk_inv t fuel n N pl w" and s: "setting fuel n N" and i: "i < n" and st: "pl i = Ki j \<or> pl i = Ke \<or> pl i = Kc"
    and c: "kat t fuel n N i (pl i) = Call c f" and r: "fk_sem t n pick i c w = Some (r, w')"
  shows "\<exists>q. f r = kat t fuel n N i q \<and> krk n N q < krk n N (pl i) \<and> grown N (pl i) w q w' \<and> fk_inv t fuel n N (pl(i := q)) w'"
proof -
  have ok: "kok t fuel n N i (pl i)" and N: "names_ok n (\<lambda>i. stg (pl i)) (imported (pl 0)) (known w)"
    using I i by (auto simp: fk_inv_def)
  note D = names_okD [OF N]
  from st show ?thesis
  proof (elim disjE)
    assume P: "pl i = Ki j"
    then have j: "i = 0" "0 < j" "j < n" using ok by auto
    let ?q = "next_meet n j"
    have w': "w' = w" "f r = kat t fuel n N 0 ?q" "''forked'' \<in> known w j"
      using c r P j(1) next_meet [of j n t fuel N] by (auto simp: imports_step [OF j(3)] chk_def simp del: of_nat_Suc split: if_splits)
    have two: "2 \<le> stg (pl j)" using D(2) [OF j(2,3)] w'(3) by simp
    have old: "2 \<le> stg (pl l)" if "0 < l" "l < j" "l < n" for l using D(5) [OF that(1,3)] that P j(1) by simp
    have "names_ok n ((\<lambda>j. stg (pl j))(0 := stg ?q)) (imported ?q) ((known w)(0 := known w 0))"
    proof (rule names_first [OF N])
      show "2 \<le> stg (pl l)" if "0 < l" "l < n" "l < imported ?q \<or> 2 \<le> stg ?q" for l
        using that two old [of l] j by (cases "l = j") (auto simp: next_meet_def split: if_splits)
    qed (use names_ok0 [OF N] P j(1) in \<open>auto simp: next_meet_def\<close>)
    then have "fk_inv t fuel n N (pl(i := ?q)) w" by (intro fk_move [OF I i]) (use P j s in \<open>auto simp: next_meet_def setting_def\<close>)
    then show ?thesis using w' j P by (intro exI [of _ ?q]) (auto simp: next_meet_def)
  next
    assume P: "pl i = Ke"
    then have i0: "0 < i" using ok by simp
    have w': "w' = w\<lparr>known := (known w)(i := insert ''forked'' (known w i))\<rparr>" "f r = kat t fuel n N i Kc"
      using c r P i0 by (auto simp: meeting_start chk_def)
    have "names_ok n ((\<lambda>j. stg (pl j))(i := 2)) (imported (pl 0)) ((known w)(i := insert ''forked'' (known w i)))"
      by (rule names_other [OF N i0 i]) (use D [OF i0 i] P in auto)
    then have "fk_inv t fuel n N (pl(i := Kc)) w'" by (intro fk_move [OF I i]) (use P i0 w'(1) in auto)
    then show ?thesis using w' P by (intro exI [of _ Kc]) auto
  next
    assume P: "pl i = Kc"
    have w': "w' = (if i = 0 then w\<lparr>known := (known w)(0 := insert ''CHECK'' (known w 0))\<rparr> else w)" "f r = kat t fuel n N i (Ka N)"
      "i \<noteq> 0 \<Longrightarrow> ''CHECK'' \<in> known w 0"
      using c r P by (auto simp: named_def chk_def split: if_splits)
    have "names_ok n ((\<lambda>j. stg (pl j))(i := 3)) (imported ((pl(i := Ka N)) 0)) (known w')"
    proof (cases "i = 0")
      case True
      have "names_ok n ((\<lambda>j. stg (pl j))(0 := 3)) 1 ((known w)(0 := insert ''CHECK'' (known w 0)))"
        by (rule names_first [OF N]) (use P True names_ok0 [OF N] D(5) in auto)
      then show ?thesis using True w'(1) by simp
    next
      case False
      have "names_ok n ((\<lambda>j. stg (pl j))(i := 3)) (imported (pl 0)) ((known w)(i := known w i))"
        by (rule names_other [OF N]) (use P False i names_ok0 [OF N] D [of i] w'(3) in auto)
      then show ?thesis using False w'(1) by simp
    qed
    then have "fk_inv t fuel n N (pl(i := Ka N)) w'" by (intro fk_move [OF I i]) (use P w'(1) s in \<open>auto simp: setting_def\<close>)
    then show ?thesis using w'(1,2) P by (intro exI [of _ "Ka N"]) auto
  qed
qed

text \<open>Waiting: the choice is a child of this family, and it is written down somewhere in the rows.\<close>

lemma rows_mem: "j \<in> set (rows t n i) \<longleftrightarrow> j < n \<and> (t \<or> j = i)"
  by (auto simp: rows_def)

lemma fam_rows: "j < n \<Longrightarrow> fam t j = fam t i \<longleftrightarrow> j \<in> set (rows t n i)"
  by (auto simp: rows_mem fam_def)

lemma rows_length: "length (rows t n i) \<le> n"
  using length_filter_le [of "\<lambda>j. t \<or> j = i" "[0..<n]"] by (simp add: rows_def)

lemma ahead_all: "js \<noteq> [] \<Longrightarrow> (j, k) \<in> ahead js 0 \<longleftrightarrow> j \<in> set js"
  by (cases js) (auto simp: ahead_def)

lemma wait_call:
  assumes I: "fk_inv t fuel n N pl w" and s: "setting fuel n N" and i: "i < n" and P: "pl i = Ka m" and ch: "chooses t pick"
    and c: "kat t fuel n N i (pl i) = Call c f" and r: "fk_sem t n pick i c w = Some (r, w')"
  shows "\<exists>q. f r = kat t fuel n N i q \<and> krk n N q < krk n N (pl i) \<and> grown N (pl i) w q w' \<and> fk_inv t fuel n N (pl(i := q)) w'"
proof -
  have m: "0 < m" "m \<le> N" and N: "names_ok n (\<lambda>i. stg (pl i)) (imported (pl 0)) (known w)" and B: "the_books t n N pl w"
    and T: "tally t n N pl (kids w)" and F: "found_ok n N (\<lambda>i. found (pl i)) (table N (entries w))" using I i P by (auto simp: fk_inv_def)
  have ok: "kok t fuel n N j (pl j)" if "j < n" for j using I that by (simp add: fk_inv_def)
  let ?p = "pick i w" and ?rs = "rows t n i"
  let ?q = "Kl False m ?rs 0 ?p"
  have p: "?p \<in> kids w (fam t i)" using ch tally_kids [OF T i] P m by (simp add: chooses_def)
  then have pos: "0 < ?p" using kids_okD [OF booksD(3) [OF B]] by blast
  have rs: "?rs \<noteq> []" using i rows_mem [of i t n i] by (metis empty_iff empty_set)
  have "N \<le> fuel" "0 < n" using s by (simp_all add: setting_def)
  from collecting_step [OF this(1) m this(2), of t i]
  have w': "w' = w\<lparr>kids := (kids w)(fam t i := kids w (fam t i) - {?p})\<rparr>"
    "f r = scan N i ?p ?rs (after_scan t fuel n N i m) (int m)"
    using c r P p pos by (auto split: if_splits)
  have at: "f r = kat t fuel n N i ?q" using rs unfolding w'(2) by (cases ?rs) (simp_all add: scan_start del: scan.simps(2))
  have met: "fresh (pl j) = None" if "j < n" for j
    by (rule met_views(2) [OF all_met [OF N i _ that]]) (simp add: P)
  have v: "recd N ?q = recd N (pl i)" "fresh ?q = fresh (pl i)" using P by simp_all
  have "the_books t n N (pl(i := ?q)) w'"
    using books_wait [OF B i p met, of "ahead ?rs 0"] fam_rows [of _ n t i] rs
    unfolding w'(1) view_upd [of hunting] view_same [of "recd N" ?q pl i, OF v(1)] view_same [of fresh ?q pl i, OF v(2)]
    by (simp add: ahead_all)
  moreover have "tally t n N (pl(i := ?q)) (kids w')"
    using tally_wait [OF T i, of ?q ?p] P p m unfolding w'(1) by simp
  moreover have "names_ok n (\<lambda>j. stg ((pl(i := ?q)) j)) (imported ((pl(i := ?q)) 0)) (known w')"
    using names_stay [where pl = pl and i = i and q = ?q, OF N i] P unfolding w'(1) view_upd by simp
  moreover have "found_ok n N (\<lambda>j. found ((pl(i := ?q)) j)) (table N (entries w'))"
    by (rule found_move [where pl = pl and i = i and q = ?q]) (use F w'(1) in simp_all)
  moreover have "kok t fuel n N j ((pl(i := ?q)) j)" if "j < n" for j
    using ok [OF that] m rs s by (simp add: setting_def)
  ultimately have J: "fk_inv t fuel n N (pl(i := ?q)) w'" by (simp only: fk_inv_def) simp
  have "length ?rs * (N + 1) \<le> n * (N + 1)" by (rule mult_le_mono1 [OF rows_length])
  then have "krk n N ?q < krk n N (pl i)" using P m by (cases m) (simp_all add: algebra_simps)
  moreover have "grown N (pl i) w ?q w'" by (rule grown_move) (use P w'(1) in simp_all)
  ultimately show ?thesis using at J by blast
qed

text \<open>After the last import of DONE, and at the export.\<close>

lemma next_done_views: "stg (next_done n j) = (if Suc j < n then 3 else 4)" "imported (next_done n j) = 1"
    "recd N (next_done n j) = N" "fresh (next_done n j) = None" "hunting (next_done n j) = None" "owes N (next_done n j) = 0"
    "found (next_done n j) = None"
  by (simp_all add: next_done_def)

lemma done_call:
  assumes I: "fk_inv t fuel n N pl w" and i: "i < n" and st: "pl i = Kn j \<or> pl i = Kq"
    and c: "kat t fuel n N i (pl i) = Call c f" and r: "fk_sem t n pick i c w = Some (r, w')"
  shows "\<exists>q. f r = kat t fuel n N i q \<and> krk n N q < krk n N (pl i) \<and> grown N (pl i) w q w' \<and> fk_inv t fuel n N (pl(i := q)) w'"
proof -
  have ok: "kok t fuel n N i (pl i)" and N: "names_ok n (\<lambda>i. stg (pl i)) (imported (pl 0)) (known w)"
    using I i by (auto simp: fk_inv_def)
  note D = names_okD [OF N]
  from st show ?thesis
  proof (elim disjE)
    assume P: "pl i = Kn j"
    then have j: "i = 0" "0 < j" "j < n" using ok by auto
    let ?q = "next_done n j"
    have w': "w' = w" "f r = kat t fuel n N 0 ?q"
      using c r P j(1) next_done [of j n t fuel N] by (auto simp: imports_step [OF j(3)] chk_def simp del: of_nat_Suc split: if_splits)
    have "names_ok n ((\<lambda>j. stg (pl j))(0 := stg ?q)) (imported ?q) ((known w)(0 := known w 0))"
      by (rule names_first [OF N]) (use names_ok0 [OF N] D(5) P j(1) in \<open>auto simp: next_done_views\<close>)
    then have "fk_inv t fuel n N (pl(i := ?q)) w"
      by (intro fk_move [OF I i]) (use P j in \<open>auto simp: next_done_views next_done_def\<close>)
    then show ?thesis using w' j P by (intro exI [of _ ?q]) (auto simp: next_done_def)
  next
    assume P: "pl i = Kq"
    then have i0: "0 < i" using ok by simp
    have w': "w' = w\<lparr>known := (known w)(i := insert ''DONE'' (known w i))\<rparr>" "f r = kat t fuel n N i Ko"
      using c r P i0 by (auto simp: finale_start [of n i t fuel N] chk_def)
    have "names_ok n ((\<lambda>j. stg (pl j))(i := 4)) (imported (pl 0)) ((known w)(i := insert ''DONE'' (known w i)))"
      by (rule names_other [OF N i0 i]) (use D [OF i0 i] P in auto)
    then have "fk_inv t fuel n N (pl(i := Ko)) w'" by (intro fk_move [OF I i]) (use P i0 w'(1) in auto)
    then show ?thesis using w' P by (intro exI [of _ Ko]) auto
  qed
qed

text \<open>After the end of a row.\<close>

lemma next_round_views:
  "recd N (next_round n i m js p) = N" "fresh (next_round n i m js p) = None" "hunting (next_round n i m js p) = None"
  "owes N (next_round n i m js p) = m - 1" "imported (next_round n i m js p) = 1"
  "found (next_round n i m js p) = (if js = [] then None else Some p)"
  "stg (next_round n i m js p) = (if js = [] \<and> m \<le> 1 \<and> i = 0 \<and> n \<le> 1 then 4 else 3)"
  by (simp_all add: next_round_def next_done_views)

lemma next_round_ok:
  "0 < N \<Longrightarrow> 0 < m \<Longrightarrow> m \<le> N \<Longrightarrow> set js \<subseteq> set (rows t n i) \<Longrightarrow> kok t fuel n N i (next_round n i m js p)"
  by (simp add: next_round_def next_done_def le_diff_conv)

lemma next_round_rank:
  "k < N \<Longrightarrow> 0 < n \<Longrightarrow> krk n N (next_round n i m js p) < krk n N (Kt m (j # js) k p)"
  "k < N \<Longrightarrow> 0 < n \<Longrightarrow> krk n N (next_round n i m js p) < krk n N (Kl b m (j # js) k p)"
  by (auto simp: next_round_def next_done_def algebra_simps)

lemma round_names:
  assumes N: "names_ok n (\<lambda>j. stg (pl j)) (imported (pl 0)) kn" and i: "i < n" "stg (pl i) = 3" "imported (pl i) = 1"
  shows "names_ok n ((\<lambda>j. stg (pl j))(i := stg (next_round n i m js p))) (imported ((pl(i := next_round n i m js p)) 0)) kn"
proof (cases "js = [] \<and> m \<le> 1 \<and> i = 0 \<and> n \<le> 1")
  case True
  then have "names_ok n ((\<lambda>j. stg (pl j))(0 := 4)) 1 (kn(0 := kn 0))"
    by (intro names_first [OF N]) (use i names_ok0 [OF N] in auto)
  then show ?thesis using True by (simp add: next_round_views)
next
  case False
  then have "stg (next_round n i m js p) = stg (pl i)" unfolding next_round_views(7) i(2) by (simp only: if_False)
  then show ?thesis
    by (intro names_stay [where pl = pl and i = i, OF N i(1)]) (simp_all add: next_round_views i(3))
qed

text \<open>The search goes on.\<close>

lemma fk_hunt:
  assumes I: "fk_inv t fuel n N pl w" and i: "i < n" "kok t fuel n N i q"
    and views: "recd N q = recd N (pl i)" "fresh q = fresh (pl i)" "owes N q = owes N (pl i)" "stg q = stg (pl i)"
      "imported q = imported (pl i)" "found q = None"
    and H: "hunting (pl i) = Some (S, p)" "hunting q = Some (S', p)"
    and S: "\<And>j k. j < n \<Longrightarrow> k < N \<Longrightarrow> (j, k) \<in> S \<Longrightarrow> table N (entries w) j k = p \<Longrightarrow> (j, k) \<in> S'"
  shows "fk_inv t fuel n N (pl(i := q)) w"
proof -
  have N: "names_ok n (\<lambda>i. stg (pl i)) (imported (pl 0)) (known w)" and B: "the_books t n N pl w"
    and T: "tally t n N pl (kids w)" and F: "found_ok n N (\<lambda>i. found (pl i)) (table N (entries w))" using I by (simp_all add: fk_inv_def)
  have le: "recd N (pl j) \<le> N" if "j < n" for j using booksD(1) [OF B] that by (simp add: rows_ok_def)
  have "books t n N (\<lambda>i. recd N (pl i)) (\<lambda>i. fresh (pl i)) ((\<lambda>i. hunting (pl i))(i := Some (S', p))) (table N (entries w)) (kids w) (next_pid w)"
    by (rule books_search [OF B H(1)]) (rule S, assumption, rule less_le_trans [OF _ le])
  then have "the_books t n N (pl(i := q)) w"
    unfolding view_upd [of hunting] view_same [of "recd N" q pl i, OF views(1)] view_same [of fresh q pl i, OF views(2)] H(2) .
  moreover have "tally t n N (pl(i := q)) (kids w)" by (rule tally_move [where pl = pl and i = i and q = q, OF T i(1) views(3)])
  moreover have "names_ok n (\<lambda>j. stg ((pl(i := q)) j)) (imported ((pl(i := q)) 0)) (known w)"
    unfolding view_upd [of stg] by (rule names_stay [where pl = pl and i = i and q = q, OF N i(1) views(4,5)])
  moreover have "found_ok n N (\<lambda>j. found ((pl(i := q)) j)) (table N (entries w))"
    by (rule found_move [where pl = pl and i = i and q = q, OF F]) (simp add: views(6))
  moreover have "kok t fuel n N j ((pl(i := q)) j)" if "j < n" for j
    using I i(2) that by (simp add: fk_inv_def)
  ultimately show ?thesis by (simp only: fk_inv_def) simp
qed

lemma scan_call:
  assumes I: "fk_inv t fuel n N pl w" and s: "setting fuel n N" and i: "i < n" and P: "pl i = Kl b m js k p"
    and c: "kat t fuel n N i (pl i) = Call c f" and r: "fk_sem t n pick i c w = Some (r, w')"
  shows "\<exists>q. f r = kat t fuel n N i q \<and> krk n N q < krk n N (pl i) \<and> grown N (pl i) w q w' \<and> fk_inv t fuel n N (pl(i := q)) w'"
proof -
  have ok: "kok t fuel n N i (pl i)" and N: "names_ok n (\<lambda>i. stg (pl i)) (imported (pl 0)) (known w)" and B: "the_books t n N pl w"
    and F: "found_ok n N (\<lambda>i. found (pl i)) (table N (entries w))" using I i by (auto simp: fk_inv_def)
  have st: "0 < n" "0 < N" "N \<le> fuel" using s by (simp_all add: setting_def)
  obtain j js' where js: "js = j # js'" using ok P by (cases js) auto
  have m: "0 < m" "m \<le> N" "k < N" and rs: "j \<in> set (rows t n i)" "set js' \<subseteq> set (rows t n i)" using ok P js by auto
  then have j: "j < n" by (simp add: rows_mem)
  have idx: "IDX (int N) (int j) (int k) = int (j * N + k)" using IDX_id [OF j m(3)] s by (simp add: setting_def)
  let ?T = "table N (entries w)" and ?v = "if b then int m - 1 else int m" and ?g = "after_scan t fuel n N i m"
  have T: "?T j k = entries w (int (j * N + k))" using m(3) by (simp add: table_def)
  have w': "w' = w"
    "f r = (if ?T j k = p then
        Call (lib ''fprintf'' (if int j = int i then [int j, 0, p] else [int j, 0, p, int i])) (\<lambda>_.
        Call (set_entry (IDX (int N) (int j) (int k)) 0) (\<lambda>_. scan N i p js' ?g (?v - 1)))
      else if Suc k < N then at_entry N i p js (Suc k) ?g ?v else scan N i p js' ?g ?v)"
    using c r unfolding P kat.simps at_entry_step [OF m(3) js] idx T by auto
  show ?thesis
  proof (cases "?T j k = p")
    case True
    have b: "\<not> b"
    proof
      assume b
      then have "\<forall>j<n. \<forall>k<N. ?T j k \<noteq> p" using found_okD [OF F i, of p] P by simp
      then show False using j m(3) True by blast
    qed
    have p0: "0 < p" using hunts_okD [OF booksD(4) [OF B] i] P b by simp
    have only: "a = j \<and> l = k" if "a < n" "l < N" "?T a l = p" for a l
      using rows_okD [OF booksD(1) [OF B] that(1) _ j, of l k] all_met [OF N i _ that(1)] all_met [OF N i _ j] that True P p0 m(3)
      by (simp add: met_views)
    have "fk_inv t fuel n N (pl(i := Kp m js k p)) w"
      by (rule fk_hunt [OF I i, of _ "ahead js k" p "{(j, k)}"]) (use P b ok js only in auto)
    then show ?thesis using w' P True b js by (intro exI [of _ "Kp m js k p"]) (auto simp: crossing_def)
  next
    case miss: False
    show ?thesis
    proof (cases "Suc k < N \<or> (js' \<noteq> [] \<and> \<not> Suc k < N)")
      case True
      let ?q = "if Suc k < N then Kl b m js (Suc k) p else Kl b m js' 0 p"
      have q: "kok t fuel n N i ?q" using ok P m js True by auto
      have "fk_inv t fuel n N (pl(i := ?q)) w"
      proof (cases b)
        case True
        then show ?thesis by (intro fk_step [OF I i q]) (use P in auto)
      next
        case False
        have "(a, l) \<in> (if Suc k < N then ahead js (Suc k) else ahead js' 0)" if "l < N" "(a, l) \<in> ahead js k" "?T a l = p" for a l
          using that miss js True ahead_all [of js' a l] by (auto simp: ahead_def Suc_le_eq le_less)
        from this [of _ _] show ?thesis
          by (intro fk_hunt [OF I i q, of "ahead js k" p "if Suc k < N then ahead js (Suc k) else ahead js' 0"])
            (assumption | use P False in simp)+
      qed
      moreover have "scan N i p js' ?g ?v = at_entry N i p js' 0 ?g ?v" if "js' \<noteq> []"
        using that by (cases js') (simp_all add: scan_start del: scan.simps(2))
      then have "f r = kat t fuel n N i ?q" using w'(2) miss True by auto
      moreover have "krk n N ?q < krk n N (pl i)" using P js m(3) by (auto simp: algebra_simps)
      moreover have "grown N (pl i) w ?q w" by (rule grown_move) (simp_all add: P)
      ultimately show ?thesis using w'(1) by blast
    next
      case last: False
      then have e: "js' = []" "Suc k = N" using m(3) by auto
      have b: b
      proof (rule ccontr)
        assume "\<not> b"
        then obtain a l where "a < n" "l < recd N (pl a)" "(a, l) \<in> ahead js k" "?T a l = p" using books_found [OF B i] P by auto
        moreover have "recd N (pl a) \<le> N" if "a < n" for a using booksD(1) [OF B] that by (simp add: rows_ok_def)
        ultimately have "a = j" "k \<le> l" "l < N" using js e(1) by (auto simp: ahead_def intro: less_le_trans)
        then have "l = k" using e(2) by simp
        then show False using miss \<open>?T a l = p\<close> \<open>a = j\<close> by simp
      qed
      let ?q = "next_round n i m [] p"
      have "fk_inv t fuel n N (pl(i := ?q)) w"
        by (rule fk_move [OF I i next_round_ok [OF st(2) m(1,2)]])
          (use round_names [where pl = pl and i = i and m = m and js = "[]" and p = p, OF N i] P b in \<open>auto simp: next_round_views\<close>)
      moreover have "f r = kat t fuel n N i ?q"
        using w'(2) miss e b next_round [OF st(3) m(1,2), of i p "[]" t n] by simp
      moreover have "grown N (pl i) w ?q w" by (rule grown_move) (simp_all add: P next_round_views)
      ultimately show ?thesis using w'(1) next_round_rank(2) [OF m(3) st(1), of i m "[]" p b j] P js e(1) by auto
    qed
  qed
qed

text \<open>Found: the message, and the entry is cleared.\<close>

lemma cross_call:
  assumes I: "fk_inv t fuel n N pl w" and s: "setting fuel n N" and i: "i < n" and st: "pl i = Kp m js k p \<or> pl i = Kt m js k p"
    and c: "kat t fuel n N i (pl i) = Call c f" and r: "fk_sem t n pick i c w = Some (r, w')"
  shows "\<exists>q. f r = kat t fuel n N i q \<and> krk n N q < krk n N (pl i) \<and> grown N (pl i) w q w' \<and> fk_inv t fuel n N (pl(i := q)) w'"
proof -
  have ok: "kok t fuel n N i (pl i)" and N: "names_ok n (\<lambda>i. stg (pl i)) (imported (pl 0)) (known w)" and B: "the_books t n N pl w"
    and T: "tally t n N pl (kids w)" and F: "found_ok n N (\<lambda>i. found (pl i)) (table N (entries w))" using I i by (auto simp: fk_inv_def)
  have pos: "0 < n" "0 < N" "N \<le> fuel" using s by (simp_all add: setting_def)
  from st show ?thesis
  proof
    assume P: "pl i = Kp m js k p"
    have w': "w' = w" "f r = kat t fuel n N i (Kt m js k p)" using c r P by (auto split: if_splits)
    have "fk_inv t fuel n N (pl(i := Kt m js k p)) w" by (rule fk_step [OF I i]) (use P ok in auto)
    then show ?thesis using w' P by (intro exI [of _ "Kt m js k p"]) auto
  next
    assume P: "pl i = Kt m js k p"
    obtain j js' where js: "js = j # js'" using ok P by (cases js) auto
    have m: "0 < m" "m \<le> N" "k < N" and rs: "j \<in> set (rows t n i)" "set js' \<subseteq> set (rows t n i)" using ok P js by auto
    then have j: "j < n" by (simp add: rows_mem)
    have idx: "IDX (int N) (int j) (int k) = int (j * N + k)" using IDX_id [OF j m(3)] s by (simp add: setting_def)
    let ?q = "next_round n i m js' p" and ?T = "table N (entries w)"
    have H: "hunting (pl i) = Some ({(j, k)}, p)" using P js by simp
    have w': "w' = w\<lparr>entries := (entries w)(int (j * N + k) := 0)\<rparr>" "f r = kat t fuel n N i ?q"
      using c r P js next_round [OF pos(3) m(1,2), of i p js' t n] by (auto simp: crossing_def idx simp del: of_nat_add of_nat_mult)
    have T': "table N (entries w') = ?T(j := (?T j)(k := 0))" using table_upd [OF m(3), of "entries w" j 0] unfolding w'(1)
      by (simp del: of_nat_add of_nat_mult)
    have hunt: "0 < p" "?T j k = p" using hunts_okD [OF booksD(4) [OF B] i H] by auto
    have rec: "recd N (pl a) = N" if "a < n" for a using all_met [OF N i _ that] P by (simp add: met_views)
    have only: "a = j \<and> l = k" if "a < n" "l < N" "?T a l = p" for a l
      using rows_okD [OF booksD(1) [OF B] that(1) _ j, of l k] rec that j hunt m(3) by simp
    have v: "recd N ?q = recd N (pl i)" "fresh ?q = fresh (pl i)" using P by (simp_all add: next_round_views)
    have "the_books t n N (pl(i := ?q)) w'"
      using books_clear [OF B i H] unfolding T' view_upd [of hunting] view_same [of "recd N" ?q pl i, OF v(1)] view_same [of fresh ?q pl i, OF v(2)]
      by (simp add: next_round_views w'(1))
    moreover have "tally t n N (pl(i := ?q)) (kids w')"
      using tally_move [where pl = pl and i = i and q = ?q, OF T i] P by (simp add: next_round_views w'(1))
    moreover have "names_ok n (\<lambda>j. stg ((pl(i := ?q)) j)) (imported ((pl(i := ?q)) 0)) (known w')"
      using round_names [where pl = pl and i = i and m = m and js = js' and p = p, OF N i] P unfolding view_upd [of stg] w'(1) by simp
    moreover have "found_ok n N (\<lambda>l. found ((pl(i := ?q)) l)) (table N (entries w'))"
      unfolding found_ok_def
    proof (intro allI impI)
      fix l x assume l: "l < n" "found ((pl(i := ?q)) l) = Some x"
      show "0 < x \<and> (\<forall>a<n. \<forall>b<N. table N (entries w') a b \<noteq> x)"
      proof (cases "l = i")
        case True
        then have "x = p" using l(2) by (simp add: next_round_views split: if_splits)
        then show ?thesis using hunt(1) only unfolding T' by auto
      next
        case False
        then have "found (pl l) = Some x" using l(2) by simp
        then show ?thesis
          using found_okD [OF found_less [OF F table_zero [where x = "int (j * N + k)"]] l(1)] unfolding w'(1) by simp
      qed
    qed
    moreover have "kok t fuel n N a ((pl(i := ?q)) a)" if "a < n" for a
      using I that next_round_ok [OF pos(2) m(1,2) rs(2), of fuel p] by (simp add: fk_inv_def)
    ultimately have "fk_inv t fuel n N (pl(i := ?q)) w'" by (simp only: fk_inv_def) simp
    moreover have "grown N (pl i) w ?q w'" by (rule grown_move) (use v w'(1) in simp_all)
    ultimately show ?thesis using w'(2) next_round_rank(1) [OF m(3) pos(1), of i m js' p j] P js by auto
  qed
qed

lemma fk_call:
  assumes "fk_inv t fuel n N pl w" "setting fuel n N" "chooses t pick" "i < n"
    "kat t fuel n N i (pl i) = Call c f" "fk_sem t n pick i c w = Some (r, w')"
  shows "\<exists>q. f r = kat t fuel n N i q \<and> krk n N q < krk n N (pl i) \<and> grown N (pl i) w q w' \<and> fk_inv t fuel n N (pl(i := q)) w'"
proof (cases "pl i")
  case (Ka m)
  from wait_call [where pl = pl and i = i, OF assms(1,2,4) this assms(3,5,6)] show ?thesis .
next
  case (Kl b m js k p)
  from scan_call [where pl = pl and i = i, OF assms(1,2,4) this assms(5,6)] show ?thesis .
next
  case Ko
  then show ?thesis using assms(5) by simp
qed (use table_call [OF assms(1,2,4) _ assms(5,6)] fork_call [OF assms(1,2,4) _ assms(5,6)] meet_call [OF assms(1,2,4) _ assms(5,6)]
  cross_call [OF assms(1,2,4) _ assms(5,6)] done_call [OF assms(1,4) _ assms(5,6)] in \<open>simp_all del: kat.simps\<close>)

section \<open>All runs\<close>

text \<open>The only calls that wait are the imports, each for a name of another task.\<close>

fun needs :: "tid \<Rightarrow> kplace \<Rightarrow> (tid \<times> string) option" where
  "needs i Kx = (if i = 0 then None else Some (0, ''FORKED''))"
| "needs i Kc = (if i = 0 then None else Some (0, ''CHECK''))"
| "needs i (Ki j) = Some (j, ''forked'')" | "needs i (Kn j) = Some (j, ''DONE'')" | "needs i _ = None"

lemma fk_can:
  assumes ok: "kok t fuel n N i q" "q \<noteq> Ko" and s: "setting fuel n N" and i: "i < n"
    and x: "\<And>j x. needs i q = Some (j, x) \<Longrightarrow> x \<in> known w j"
  shows "\<exists>c k x. kat t fuel n N i q = Call c k \<and> \<not> is_bar c \<and> fk_sem t n pick i c w = Some x"
proof -
  have st: "0 < n" "0 < N" "N \<le> fuel" using s by (simp_all add: setting_def)
  show ?thesis
  proof (cases q)
    case (Kw d p q')
    then obtain e where "d = Suc e" using ok by (cases d) auto
    then show ?thesis using ways_can [OF fk_idle, of t n i e p "kat t fuel n N i q'" pick w] ok Kw by auto
  next
    case (Kz j)
    then have "n * N - j = Suc (n * N - Suc j)" using ok by auto
    then show ?thesis using Kz by (simp add: zero_entry_def finE_seqE)
  next
    case (Kf k)
    then show ?thesis using ok by (simp add: forking_step chk_def)
  next
    case (Ki j)
    then show ?thesis using ok x [of j "''forked''"] by (simp add: imports_step chk_def)
  next
    case (Kn j)
    then show ?thesis using ok x [of j "''DONE''"] by (simp add: imports_step chk_def)
  next
    case (Ka m)
    then show ?thesis using collecting_step [OF st(3) _ _ st(1), of m t i] ok by auto
  next
    case (Kl b m js k p)
    then obtain j js' where "js = j # js'" using ok by (cases js) auto
    then show ?thesis using Kl ok by (simp add: at_entry_step)
  qed (use ok x st in \<open>auto simp: named_def getting_def recording_def meeting_start crossing_def finale_start [of n i t fuel N] chk_def\<close>)
qed

lemma fk_live:
  assumes I: "fk_inv t fuel n N pl w" and s: "setting fuel n N"
  shows "(\<forall>i<n. pl i = Ko) \<or> (\<exists>i<n. \<exists>c k x. kat t fuel n N i (pl i) = Call c k \<and> \<not> is_bar c \<and> fk_sem t n pick i c w = Some x)"
proof (rule ccontr)
  assume contr: "\<not> ?thesis"
  have ok: "kok t fuel n N i (pl i)" if "i < n" for i using I that by (simp add: fk_inv_def)
  have N: "names_ok n (\<lambda>i. stg (pl i)) (imported (pl 0)) (known w)" using I by (simp add: fk_inv_def)
  note D = names_okD [OF N] and N0 = names_ok0 [OF N]
  have stuck: "pl i = Ko \<or> (\<exists>j x. needs i (pl i) = Some (j, x) \<and> x \<notin> known w j)" if "i < n" for i
    using fk_can [OF ok [OF that] _ s that] contr that by blast
  have others: "pl i = Ko \<or> (pl i = Kx \<and> stg (pl 0) = 0) \<or> (pl i = Kc \<and> stg (pl 0) < 3)" if "0 < i" "i < n" for i
    using stuck [OF that(2)] ok [OF that(2)] that N0 by (cases "pl i") auto
  have n: "0 < n" using s by (simp add: setting_def)
  show False
  proof (cases "pl 0 = Ko")
    case True
    then have "pl i = Ko" if "i < n" for i using others [of i] that by (cases "i = 0") auto
    then show False using contr by blast
  next
    case False
    then obtain j x where x: "needs 0 (pl 0) = Some (j, x)" "x \<notin> known w j" using stuck [OF n] by blast
    show False
    proof (cases "pl 0")
      case (Ki l)
      then have "0 < l" "l < n" "j = l" "x = ''forked''" using ok [OF n] x(1) by auto
      then show False using others [of l] D(2) [of l] x(2) Ki by auto
    next
      case (Kn l)
      then have "0 < l" "l < n" "j = l" "x = ''DONE''" using ok [OF n] x(1) by auto
      then show False using others [of l] D(4) [of l] x(2) Kn by auto
    qed (use x in auto)
  qed
qed

lemma kat_no_bar:
  assumes "kok t fuel n N i q" "setting fuel n N" "i < n"
  shows "\<not> at_bar (kat t fuel n N i q)"
proof (cases "q = Ko")
  case False
  have "\<exists>w :: fork_state. \<forall>j x. needs i q = Some (j, x) \<longrightarrow> x \<in> known w j" by (rule exI [of _ "undefined\<lparr>known := \<lambda>_. UNIV\<rparr>"]) simp
  then obtain w :: fork_state where "\<And>j x. needs i q = Some (j, x) \<Longrightarrow> x \<in> known w j" by blast
  from fk_can [where pick = "\<lambda>_ _. 0", OF assms(1) False assms(2,3) this]
  obtain c k where "kat t fuel n N i q = Call c k" "\<not> is_bar c" by blast
  then show ?thesis by simp
qed simp

text \<open>The children counted from the first, whose ID is \<open>p0\<close>.\<close>

definition fk_all :: "bool \<Rightarrow> nat \<Rightarrow> nat \<Rightarrow> nat \<Rightarrow> int \<Rightarrow> (tid \<Rightarrow> kplace) \<Rightarrow> fork_state \<Rightarrow> bool" where
  "fk_all t fuel n N p0 pl w \<longleftrightarrow> fk_inv t fuel n N pl w \<and> next_pid w = p0 + (\<Sum>i<n. forks N (pl i))"

lemma fk_places:
  assumes s: "setting fuel n N" and ch: "chooses t pick"
  shows "place_system n (all_release n) (\<lambda>v. v = 0) (fk_sem t n pick) (kat t fuel n N) (fk_all t fuel n N p0) (\<lambda>_. krk n N)
    (\<lambda>pl w. \<forall>i<n. pl i = Ko)"
proof (intro place_system.intro all_release_barrier, unfold_locales)
  show n: "0 < n" using s by (simp add: setting_def)
  fix pl w i c k r w'
  assume *: "fk_all t fuel n N p0 pl w" "i < n" "kat t fuel n N i (pl i) = Call c k" "\<not> is_bar c"
    "fk_sem t n pick i c w = Some (r, w')"
  then obtain q where q: "k r = kat t fuel n N i q" "krk n N q < krk n N (pl i)" "grown N (pl i) w q w'" "fk_inv t fuel n N (pl(i := q)) w'"
    using fk_call [where pl = pl and i = i, OF _ s ch *(2,3,5)] by (auto simp: fk_all_def)
  then have "fk_all t fuel n N p0 (pl(i := q)) w'"
    using *(1) sum_upd [OF *(2), of "\<lambda>_. forks N" pl q] by (simp add: fk_all_def grown_def)
  then show "\<exists>q. k r = kat t fuel n N i q \<and> krk n N q < krk n N (pl i) \<and> fk_all t fuel n N p0 (pl(i := q)) w'" using q by blast
next
  fix pl w and rvs :: "tid \<Rightarrow> int"
  assume "fk_all t fuel n N p0 pl w" "\<forall>i<n. at_bar (kat t fuel n N i (pl i)) \<and> rvs i = 0"
  then show "\<exists>q. (\<forall>i<n. resume (kat t fuel n N i (pl i)) (rvs i) = kat t fuel n N i (q i) \<and> krk n N (q i) < krk n N (pl i)) \<and>
      fk_all t fuel n N p0 q w"
    using kat_no_bar [OF _ s, of t 0 "pl 0"] s by (auto simp: fk_all_def fk_inv_def setting_def)
next
  fix pl w assume "fk_all t fuel n N p0 pl w"
  then show "(\<forall>i<n. pl i = Ko) \<or> (\<forall>i<n. at_bar (kat t fuel n N i (pl i))) \<or>
      (\<exists>i<n. \<exists>c k x. kat t fuel n N i (pl i) = Call c k \<and> \<not> is_bar c \<and> fk_sem t n pick i c w = Some x)"
    using fk_live [where pl = pl, OF _ s] by (auto simp: fk_all_def)
qed

definition fork_start :: "(int \<Rightarrow> int) \<Rightarrow> int \<Rightarrow> fork_state" where
  "fork_start e p = \<lparr>entries = e, kids = \<lambda>_. {}, next_pid = p, known = \<lambda>_. {}\<rparr>"

text \<open>How the tasks begin.\<close>

definition first_way :: "nat \<Rightarrow> string list \<Rightarrow> tid \<Rightarrow> kplace" where
  "first_way fuel argv i = (if i = 0 then Kw 4 (fork_main fuel argv) (Kz 0) else Kw 3 (fork_main fuel argv) Kx)"

lemma fork_alloc_first:
  assumes "int (n * N) < 2 ^ 31"
  shows "finE (fork_alloc (int N) (int n) 0) f = chk (Sys (Malloc (4 * int (n * N) mod 2 ^ 64))) (\<lambda>r. rv r = 0) (Ret (Some EXIT_UNTESTED)) (\<lambda>_.
    finE (for_range 0 (n * N) zero_entry ()) (\<lambda>_. chk (Pip (Pip_named_export ''FORKED'')) nz lost (\<lambda>_. f ())))"
proof -
  have "to_int32 (int (n * N)) = int (n * N)" using assms by (intro to_int32_id order_trans [OF _ of_nat_0_le_iff]) simp_all
  then have "to_int32 (int N * int n) = int (n * N)" by (simp add: mult.commute)
  then show ?thesis by (simp add: fork_alloc_def finE_chk finE_seqE Let_def del: of_nat_mult)
qed

lemma fork_alloc_other: "i \<noteq> 0 \<Longrightarrow> finE (fork_alloc (int N) (int n) (int i)) f = chk (Pip (Pip_named_import 0 ''FORKED'')) nz lost (\<lambda>_. f ())"
  by (simp add: fork_alloc_def finE_chk)

lemma fork_begins:
  assumes "nfork_arg argv = int N" "int (n * N) < 2 ^ 31"
  shows "ways (fk_idle t n) 0 4 (fork_main fuel argv) (kat t fuel n N 0 (Kz 0))"
    "i \<noteq> 0 \<Longrightarrow> ways (fk_idle t n) i 3 (fork_main fuel argv) (kat t fuel n N i Kx)"
proof -
  have m: "fk_idle t n i (Sys (Malloc s)) = Some (ok\<lparr>rv := 16\<rparr>)" "fk_idle t n i (Pip Pip_is_threaded) = Some (ok\<lparr>o1 := Some (c_bool t)\<rparr>)"
    "fk_idle t n i (Pip (Pip_get_pipid b)) = Some (ok\<lparr>o1 := Some (int i)\<rparr>)" "fk_idle t n i (Pip Pip_get_ntasks) = Some (ok\<lparr>o1 := Some (int n)\<rparr>)"
    for i s b by (simp_all add: fk_idle_def)
  have n: "(3 :: nat) = Suc (Suc (Suc 0))" "(4 :: nat) = Suc (Suc (Suc (Suc 0)))" by simp_all
  show "ways (fk_idle t n) 0 4 (fork_main fuel argv) (kat t fuel n N 0 (Kz 0))"
    unfolding n fork_main_def Let_def assms(1)
    by (simp add: fork_alloc_first [OF assms(2)] chk_def m named_def getting_def finale_def del: of_nat_mult)
  show "i \<noteq> 0 \<Longrightarrow> ways (fk_idle t n) i 3 (fork_main fuel argv) (kat t fuel n N i Kx)"
    unfolding n fork_main_def Let_def assms(1)
    by (simp add: fork_alloc_other chk_def m named_def getting_def finale_def del: of_nat_mult)
qed

lemma fork_first:
  assumes "nfork_arg argv = int N" "setting fuel n N" "0 < p"
  shows "fk_all t fuel n N p (first_way fuel argv) (fork_start e p)"
    "fork_main fuel argv = kat t fuel n N i (first_way fuel argv i)"
proof -
  have b: "ways (fk_idle t n) 0 4 (fork_main fuel argv) (kat t fuel n N 0 (Kz 0))"
    "\<And>i. i \<noteq> 0 \<Longrightarrow> ways (fk_idle t n) i 3 (fork_main fuel argv) (kat t fuel n N i Kx)"
    using fork_begins [OF assms(1), of n] assms(2) by (simp_all add: setting_def del: ways.simps)
  have v: "recd N (first_way fuel argv i) = 0" "fresh (first_way fuel argv i) = None" "hunting (first_way fuel argv i) = None"
    "found (first_way fuel argv i) = None" "owes N (first_way fuel argv i) = 0" "stg (first_way fuel argv i) = 0" "forks N (first_way fuel argv i) = 0" for i
    by (simp_all add: first_way_def forks_def)
  have "books t n N (\<lambda>_. 0) (\<lambda>_. None) (\<lambda>_. None) T (\<lambda>_. {}) p" for T
    using assms(3) by (simp add: books_def rows_ok_def forked_ok_def kids_ok_def hunts_ok_def)
  moreover have "kok t fuel n N i (first_way fuel argv i)" for i using b by (simp add: first_way_def del: ways.simps)
  ultimately show "fk_all t fuel n N p (first_way fuel argv) (fork_start e p)"
    by (simp add: fk_all_def fk_inv_def v found_ok_def names_ok_def tally_def fork_start_def cong: if_cong)
      (simp add: first_way_def)
  show "fork_main fuel argv = kat t fuel n N i (first_way fuel argv i)" by (simp add: first_way_def)
qed

lemma fork_terminates:
  assumes "nfork_arg argv = int N" "setting fuel n N" "chooses t pick" "0 < p"
  shows "Wellfounded.accp (\<lambda>x y. step n (fk_sem t n pick) (all_release n) y x) (\<lambda>_. fork_main fuel argv, fork_start e p)"
proof -
  have B: "(\<lambda>_. fork_main fuel argv) i = kat t fuel n N i (first_way fuel argv i)" for i
    using fork_first(2) [OF assms(1,2,4)] by simp
  show ?thesis
    by (rule place_system.places_terminate [where pl = "first_way fuel argv",
          OF fk_places [OF assms(2,3)] fork_first(1) [OF assms(1,2,4)] B])
qed

text \<open>C5: the test of \<open>fork\<close>: with \<open>N\<close> forks for each of \<open>n\<close> tasks, processes or threads of one process, whichever child
\<open>wait\<close> reports and in whatever order the tasks run, no run goes on for ever and none stops before every task has
returned 0; then exactly \<open>n * N\<close> children have been forked and every one of them has been waited for.\<close>

theorem fork_correct:
  assumes "nfork_arg argv = int N" "0 < n" "0 < N" "N \<le> fuel" "int (n * N) < 2 ^ 31" "chooses t pick" "0 < p"
    and "steps n (fk_sem t n pick) (all_release n) (\<lambda>_. fork_main fuel argv, fork_start e p) c"
    and "\<not> (\<exists>c'. step n (fk_sem t n pick) (all_release n) c c')"
  shows "Wellfounded.accp (\<lambda>x y. step n (fk_sem t n pick) (all_release n) y x) (\<lambda>_. fork_main fuel argv, fork_start e p) \<and>
    finished n (\<lambda>_. Some 0) c \<and> (\<forall>f. kids (snd c) f = {}) \<and> next_pid (snd c) = p + int (n * N)"
proof -
  have s: "setting fuel n N" using assms(2-5) by (simp add: setting_def)
  note P = fk_places [OF s assms(6), of p] and J = fork_first(1) [OF assms(1) s assms(7), of t e]
  have B: "(\<lambda>_. fork_main fuel argv) i = kat t fuel n N i (first_way fuel argv i)" for i
    using fork_first(2) [OF assms(1) s assms(7)] by simp
  have T: "Wellfounded.accp (\<lambda>x y. step n (fk_sem t n pick) (all_release n) y x) (\<lambda>_. fork_main fuel argv, fork_start e p)"
    by (rule fork_terminates [OF assms(1) s assms(6,7)])
  obtain pl where pl: "\<And>i. i < n \<Longrightarrow> fst c i = kat t fuel n N i (pl i)" "fk_all t fuel n N p pl (snd c)" "\<forall>i<n. pl i = Ko"
    by (rule place_system.places_end [where pl = "first_way fuel argv", OF P J B assms(8,9)]) (rule that)
  then have "finite (kids (snd c) f)" "int (card (kids (snd c) f)) = 0" for f
    by (simp_all add: fk_all_def fk_inv_def tally_def cong: if_cong)
  moreover have "next_pid (snd c) = p + int (n * N)" using pl(2,3) by (simp add: fk_all_def forks_def)
  ultimately show ?thesis using T pl(1,3) by (simp add: finished_def)
qed

lemma fork_correct_witness:
  "\<exists>c. steps 2 (fk_sem True 2 (\<lambda>i w. Min (kids w (fam True i)))) (all_release 2) (\<lambda>_. fork_main 3 [''fork'', ''3''], fork_start (\<lambda>_. 7) 100) c \<and>
     finished 2 (\<lambda>_. Some 0) c \<and> (\<forall>f. kids (snd c) f = {}) \<and> next_pid (snd c) = 106"
proof -
  let ?pick = "\<lambda>i w. Min (kids w (fam True i))"
  have a: "nfork_arg [''fork'', ''3''] = int 3" by (simp add: nfork_arg_def arg_int_def strtol_eval)
  have ch: "chooses True ?pick" by (simp add: chooses_def)
  have s: "setting 3 2 3" by (simp add: setting_def)
  obtain c where c: "steps 2 (fk_sem True 2 ?pick) (all_release 2) (\<lambda>_. fork_main 3 [''fork'', ''3''], fork_start (\<lambda>_. 7) 100) c"
    "\<not> (\<exists>c'. step 2 (fk_sem True 2 ?pick) (all_release 2) c c')"
    using ends_somewhere [OF fork_terminates [OF a s ch, of 100 "\<lambda>_. 7"]] by auto
  from fork_correct [OF a _ _ _ _ ch _ c] c(1) show ?thesis by (intro exI [of _ c]) simp
qed

end
