(* ===== verification/TlsTests.thy ===== *)
theory TlsTests
  imports ApiLoops PthreadTests Places
begin

text \<open>
  \<open>porting/tls.c\<close>: threads that read and set the register by which they reach their thread-local variables, ten
  million times each, and then look whether their variable still has the value they gave it; what they found they print,
  one thread after the other.
\<close>

section \<open>The program\<close>

definition TLS_NTHREADS :: int where "TLS_NTHREADS = 100"
definition TLS_WARMUP :: nat where "TLS_WARMUP = 100"
definition TLS_NITERS :: nat where "TLS_NITERS = 10 * 1000 * 1000"

definition tls_gettime :: "'a prog \<Rightarrow> 'a prog" where
  "tls_gettime k = Call (lib ''gettimeofday'' []) (\<lambda>_. k)"

text \<open>The state of a loop of saves is the variable \<open>tls\<close>, that of the last loop is \<open>thr\<close>.\<close>

definition tls_save :: "int \<Rightarrow> int \<Rightarrow> (int + int) prog" where
  "tls_save i tls = chk (lib ''pip_save_tls'' []) nz exit_fail (\<lambda>r. Ret (Inr (stored (o1 r) tls)))"

definition tls_load :: "int \<Rightarrow> int \<Rightarrow> unit \<Rightarrow> (int + unit) prog" where
  "tls_load tls i u = chk (lib ''pip_load_tls'' [tls]) nz exit_fail (\<lambda>_. Ret (Inr ()))"

definition tls_self :: "int \<Rightarrow> int \<Rightarrow> (int + int) prog" where
  "tls_self i thr = Call (lib ''pthread_self'' []) (\<lambda>r. Ret (Inr (rv r)))"

definition tls_head :: "int \<Rightarrow> int \<Rightarrow> (int + unit) prog" where
  "tls_head me i = (if i = 0 \<and> me = 0 then Call (lib ''printf'' []) (\<lambda>_. Ret (Inr ())) else Ret (Inr ()))"

definition tls_print :: "int \<Rightarrow> int \<Rightarrow> int \<Rightarrow> int \<Rightarrow> (int + unit) prog" where
  "tls_print me tls thr i =
     (if i = me then Call (lib ''printf'' [me, c_bool (tls = thr)]) (\<lambda>_. Call (lib ''fflush'' []) (\<lambda>_. Ret (Inr ()))) else Ret (Inr ()))"

definition tls_round :: "int \<Rightarrow> int \<Rightarrow> int \<Rightarrow> int \<Rightarrow> unit \<Rightarrow> (int + unit) prog" where
  "tls_round me tls thr i u =
     seqE (tls_head me i) (\<lambda>_. seqE (tls_print me tls thr i) (\<lambda>_. pbar exit_fail (Ret (Inr ()))))"

text \<open>\<open>j0\<close> and \<open>j1\<close> are what \<open>tls\<close> and \<open>thr\<close> hold before they are set.\<close>

definition tls_thread :: "int \<Rightarrow> int \<Rightarrow> int \<Rightarrow> int \<Rightarrow> int prog" where
  "tls_thread nthreads j0 j1 me =
     chkv (c_bool (me < 0 \<or> me > nthreads)) (\<lambda>v. v \<noteq> 0) exit_fail (
     Call (Mem (Store ''tlsvar'' me)) (\<lambda>_.
     finE (for_range 0 TLS_WARMUP tls_save j0) (\<lambda>tls. tls_gettime (
     finE (for_range 0 TLS_NITERS tls_save tls) (\<lambda>tls. tls_gettime (
     finE (for_range 0 TLS_WARMUP (tls_load tls) ()) (\<lambda>_. tls_gettime (
     finE (for_range 0 TLS_NITERS (tls_load tls) ()) (\<lambda>_. tls_gettime (
     Call (Mem (Load ''tlsvar'')) (\<lambda>r. chkv (c_bool (rv r \<noteq> me)) (\<lambda>v. v \<noteq> 0) exit_fail (
     finE (for_range 0 TLS_NITERS tls_self j1) (\<lambda>thr.
     finE (for_range 0 (nat nthreads) (tls_round me tls thr) ()) (\<lambda>_. Ret 0))))))))))))))"

definition tls_nthreads :: "string list \<Rightarrow> int" where
  "tls_nthreads argv =
     (let nthreads = arg_int argv 1 10;
          nthreads = (if nthreads = 0 then TLS_NTHREADS else nthreads) in
      if nthreads > TLS_NTHREADS then TLS_NTHREADS else nthreads)"

definition tls_main :: "string list \<Rightarrow> int prog" where
  "tls_main argv =
     (let nthreads = tls_nthreads argv in
      chk (Mem (Barrier_init nthreads)) nz (Ret EXIT_FAIL) (\<lambda>_.
      finE (create_threads EXIT_FAIL nthreads) (\<lambda>_. finE (join_threads EXIT_FAIL nthreads) (\<lambda>_. Ret 0))))"

section \<open>Registers, variables, output\<close>

text \<open>
  \<open>base i\<close> is the register of thread \<open>i\<close>; its variable is the memory at that address. A line of output is the list of
  what is printed: nothing for the heading, otherwise the thread and whether its register is what \<open>pthread\_self\<close> answers.
\<close>

record tls_state =
  base :: "tid \<Rightarrow> int"
  tmem :: "int \<Rightarrow> int"
  out :: "int list list"

definition tls_sem :: "(tid \<Rightarrow> int) \<Rightarrow> tls_state sem" where
  "tls_sem self i c w = (case c of
       Mem (Store x v) \<Rightarrow> Some (ok, w\<lparr>tmem := (tmem w)(base w i := v)\<rparr>)
     | Mem (Load x) \<Rightarrow> Some (ok\<lparr>rv := tmem w (base w i)\<rparr>, w)
     | Sys (Lib f a) \<Rightarrow>
         if f = ''pip_save_tls'' then Some (ok\<lparr>o1 := Some (base w i)\<rparr>, w)
         else if f = ''pip_load_tls'' then Some (ok, w\<lparr>base := (base w)(i := hd a)\<rparr>)
         else if f = ''pthread_self'' then Some (ok\<lparr>rv := self i\<rparr>, w)
         else if f = ''printf'' then Some (ok, w\<lparr>out := out w @ [a]\<rparr>)
         else Some (ok, w)
     | _ \<Rightarrow> Some (ok, w))"

text \<open>The same for one thread, whose register is \<open>b\<close> and whose variable is \<open>v\<close>, as long as it sets the register to what it is.\<close>

definition own :: "int \<Rightarrow> int \<Rightarrow> call \<Rightarrow> int \<Rightarrow> (resp \<times> int) option" where
  "own b s c v = (case c of
       Mem (Store x u) \<Rightarrow> Some (ok, u)
     | Mem (Load x) \<Rightarrow> Some (ok\<lparr>rv := v\<rparr>, v)
     | Sys (Lib f a) \<Rightarrow>
         if f = ''pip_save_tls'' then Some (ok\<lparr>o1 := Some b\<rparr>, v)
         else if f = ''pip_load_tls'' then (if hd a = b then Some (ok, v) else None)
         else if f = ''pthread_self'' then Some (ok\<lparr>rv := s\<rparr>, v)
         else if f = ''printf'' then None
         else Some (ok, v)
     | _ \<Rightarrow> None)"

lemma own_sem:
  assumes "own (base w i) (self i) c (tmem w (base w i)) = Some (r, v)"
  shows "tls_sem self i c w = Some (r, w\<lparr>tmem := (tmem w)(base w i := v)\<rparr>)"
  using assms by (auto simp: own_def tls_sem_def split: call.splits mem_call.splits sys_call.splits if_splits)

lemma own_simps:
  "own b s (Mem (Store x u)) v = Some (ok, u)" "own b s (Mem (Load x)) v = Some (ok\<lparr>rv := v\<rparr>, v)"
  "own b s (lib ''pip_save_tls'' []) v = Some (ok\<lparr>o1 := Some b\<rparr>, v)" "own b s (lib ''pip_load_tls'' [b]) v = Some (ok, v)"
  "own b s (lib ''pthread_self'' []) v = Some (ok\<lparr>rv := s\<rparr>, v)" "own b s (lib ''gettimeofday'' []) v = Some (ok, v)"
  by (simp_all add: own_def)

section \<open>Walks of one thread\<close>

text \<open>\<open>walk b s d v p u q\<close>: after \<open>d\<close> calls that concern nobody else, \<open>p\<close> has become \<open>q\<close> and the variable \<open>u\<close>.\<close>

primrec walk :: "int \<Rightarrow> int \<Rightarrow> nat \<Rightarrow> int \<Rightarrow> 'a prog \<Rightarrow> int \<Rightarrow> 'a prog \<Rightarrow> bool" where
  "walk b s 0 v p u q \<longleftrightarrow> p = q \<and> v = u"
| "walk b s (Suc d) v p u q \<longleftrightarrow>
     (\<exists>c k r v'. p = Call c k \<and> \<not> is_bar c \<and> own b s c v = Some (r, v') \<and> walk b s d v' (k r) u q)"

lemma walk_append: "walk b s d v p v' p' \<Longrightarrow> walk b s e v' p' u q \<Longrightarrow> walk b s (d + e) v p u q"
  by (induction d arbitrary: v p) auto

lemma walk_Call: "\<not> is_bar c \<Longrightarrow> own b s c v = Some (r, v') \<Longrightarrow> walk b s d v' (k r) u q \<Longrightarrow> walk b s (Suc d) v (Call c k) u q"
  by simp

lemma walk_saves: "walk b s n v (finE (for_range j n tls_save x) f) v (f (if n = 0 then x else b))"
proof (induction n arbitrary: j x)
  case (Suc n)
  show ?case
    using Suc.IH [of "j + 1" b] by (simp add: tls_save_def finE_seqE chk_def own_simps)
qed simp

lemma walk_loads: "walk b s n v (finE (for_range j n (tls_load b) ()) f) v (f ())"
proof (induction n arbitrary: j)
  case (Suc n)
  show ?case using Suc.IH [of "j + 1"] by (simp add: tls_load_def finE_seqE chk_def own_simps)
qed simp

lemma walk_self: "walk b s n v (finE (for_range j n tls_self x) f) v (f (if n = 0 then x else s))"
proof (induction n arbitrary: j x)
  case (Suc n)
  show ?case using Suc.IH [of "j + 1" s] by (simp add: tls_self_def finE_seqE own_simps)
qed simp

lemma walk_gettime: "walk b s d v p u q \<Longrightarrow> walk b s (Suc d) v (tls_gettime p) u q"
  by (simp add: tls_gettime_def own_simps)

text \<open>The rounds from \<open>r\<close> on, and the way to the first of them.\<close>

definition tls_rounds :: "nat \<Rightarrow> int \<Rightarrow> int \<Rightarrow> tid \<Rightarrow> nat \<Rightarrow> int prog" where
  "tls_rounds n b s i r = finE (for_range (int r) (n - r) (tls_round (int i) b s) ()) (\<lambda>_. Ret 0)"

definition tls_way :: nat where
  "tls_way = Suc (TLS_WARMUP + Suc (TLS_NITERS + Suc (TLS_WARMUP + Suc (TLS_NITERS + Suc (Suc TLS_NITERS)))))"

lemma iters_pos: "0 < TLS_WARMUP" "0 < TLS_NITERS"
  by (simp_all add: TLS_WARMUP_def TLS_NITERS_def)

lemma thread_walk:
  assumes "i \<le> n"
  shows "walk b s tls_way v (tls_thread (int n) j0 j1 (int i)) (int i) (tls_rounds n b s i 0)"
proof -
  have l: "walk b s (Suc TLS_NITERS) (int i) (Call (Mem (Load ''tlsvar'')) (\<lambda>r. chkv (c_bool (rv r \<noteq> int i)) (\<lambda>v. v \<noteq> 0) exit_fail (
      finE (for_range 0 TLS_NITERS tls_self j1) (\<lambda>thr. finE (for_range 0 n (tls_round (int i) b thr) ()) (\<lambda>_. Ret 0))))) (int i) (tls_rounds n b s i 0)"
    using walk_self [of b s TLS_NITERS "int i" 0 j1] iters_pos by (simp add: own_simps chkv_def tls_rounds_def)
  have c: "chkv (c_bool (int i < 0 \<or> int i > int n)) (\<lambda>v. v \<noteq> 0) x y = y" for x y :: "int prog" using assms by (simp add: chkv_def)
  have saves: "walk b s m v (finE (for_range j m tls_save x) f) v (f b)" if "0 < m" for m v j x and f :: "int \<Rightarrow> int prog"
    using walk_saves [of b s m v j x f] that by simp
  show ?thesis
    unfolding tls_way_def tls_thread_def c nat_int
    by (rule walk_Call, simp, rule own_simps(1), rule walk_append [OF saves [OF iters_pos(1)]], rule walk_gettime,
        rule walk_append [OF saves [OF iters_pos(2)]], rule walk_gettime, rule walk_append [OF walk_loads], rule walk_gettime,
        rule walk_append [OF walk_loads], rule walk_gettime, rule l)
qed

section \<open>The places\<close>

text \<open>
  \<open>Wk d v p\<close>: on the way to the rounds, \<open>d\<close> calls before them, with \<open>v\<close> in the variable; \<open>PH\<close>, \<open>PL\<close>, \<open>PF\<close>: about to print
  the heading, the line, to flush; \<open>PB r\<close>: at the barrier of round \<open>r\<close>; \<open>PD\<close>: over.
\<close>

datatype tplace = Wk nat int "int prog" | PH | PL | PF | PB nat | PD

definition tls_line :: "int \<Rightarrow> int \<Rightarrow> tid \<Rightarrow> int list" where
  "tls_line b s i = [int i, c_bool (b = s)]"

definition tls_meet :: "nat \<Rightarrow> (tid \<Rightarrow> int) \<Rightarrow> (tid \<Rightarrow> int) \<Rightarrow> tid \<Rightarrow> nat \<Rightarrow> int prog" where
  "tls_meet n b s i r = pbar exit_fail (tls_rounds n (b i) (s i) i (Suc r))"

fun tat :: "nat \<Rightarrow> (tid \<Rightarrow> int) \<Rightarrow> (tid \<Rightarrow> int) \<Rightarrow> tid \<Rightarrow> tplace \<Rightarrow> int prog" where
  "tat n b s i (Wk d v p) = p"
| "tat n b s i (PB r) = tls_meet n b s i r"
| "tat n b s i PF = Call (lib ''fflush'' []) (\<lambda>_. tls_meet n b s i i)"
| "tat n b s i PL = Call (lib ''printf'' (tls_line (b i) (s i) i)) (\<lambda>_. Call (lib ''fflush'' []) (\<lambda>_. tls_meet n b s i i))"
| "tat n b s i PH = Call (lib ''printf'' []) (\<lambda>_. Call (lib ''printf'' (tls_line (b i) (s i) i)) (\<lambda>_. Call (lib ''fflush'' []) (\<lambda>_. tls_meet n b s i i)))"
| "tat n b s i PD = Ret 0"

definition entry_at :: "nat \<Rightarrow> tid \<Rightarrow> nat \<Rightarrow> tplace" where
  "entry_at n i r = (if n \<le> r then PD else if r \<noteq> i then PB r else if i = 0 then PH else PL)"

lemma rounds_at: "tls_rounds n (b i) (s i) i r = tat n b s i (entry_at n i r)"
proof (cases "n \<le> r")
  case False
  then have "n - r = Suc (n - Suc r)" by simp
  then have "tls_rounds n (b i) (s i) i r = finE (tls_round (int i) (b i) (s i) (int r) ()) (\<lambda>_. tls_rounds n (b i) (s i) i (Suc r))"
    by (simp add: tls_rounds_def finE_seqE add.commute)
  then show ?thesis
    using False by (auto simp: entry_at_def tls_meet_def tls_round_def tls_head_def tls_print_def tls_line_def finE_seqE seq_pbar)
qed (simp add: tls_rounds_def entry_at_def)

text \<open>The round a thread is in, and what it has printed in it.\<close>

fun rnd_of :: "nat \<Rightarrow> tid \<Rightarrow> tplace \<Rightarrow> nat" where
  "rnd_of n i (Wk d v p) = 0" | "rnd_of n i (PB r) = r" | "rnd_of n i PD = n" | "rnd_of n i _ = i"

definition tls_text :: "(tid \<Rightarrow> int) \<Rightarrow> (tid \<Rightarrow> int) \<Rightarrow> tid \<Rightarrow> int list list" where
  "tls_text b s i = (if i = 0 then [[]] else []) @ [tls_line (b i) (s i) i]"

fun printed :: "(tid \<Rightarrow> int) \<Rightarrow> (tid \<Rightarrow> int) \<Rightarrow> tid \<Rightarrow> tplace \<Rightarrow> int list list" where
  "printed b s i PL = (if i = 0 then [[]] else [])" | "printed b s i PF = tls_text b s i" | "printed b s i (PB r) = tls_text b s i"
| "printed b s i _ = []"

fun tok :: "nat \<Rightarrow> (tid \<Rightarrow> int) \<Rightarrow> (tid \<Rightarrow> int) \<Rightarrow> tid \<Rightarrow> tplace \<Rightarrow> int \<Rightarrow> bool" where
  "tok n b s i (Wk d v p) u = (0 < d \<and> u = v \<and> walk (b i) (s i) d v p (int i) (tls_rounds n (b i) (s i) i 0))"
| "tok n b s i PH u = (i = 0)" | "tok n b s i (PB r) u = (r < n)" | "tok n b s i _ u = True"

definition tls_inv :: "nat \<Rightarrow> (tid \<Rightarrow> int) \<Rightarrow> (tid \<Rightarrow> int) \<Rightarrow> (tid \<Rightarrow> tplace) \<Rightarrow> tls_state \<Rightarrow> bool" where
  "tls_inv n b s pl w \<longleftrightarrow> base w = b \<and> (\<forall>i<n. tok n b s i (pl i) (tmem w (b i))) \<and>
     (\<exists>r\<le>n. (\<forall>i<n. rnd_of n i (pl i) = r) \<and> out w = concat (map (tls_text b s) [0..<r]) @ (if r < n then printed b s r (pl r) else []))"

fun trk :: "nat \<Rightarrow> tid \<Rightarrow> tplace \<Rightarrow> nat" where
  "trk n i (Wk d v p) = 4 * n + 4 + d" | "trk n i PH = 4 * (n - i) + 3" | "trk n i PL = 4 * (n - i) + 2" | "trk n i PF = 4 * (n - i) + 1"
| "trk n i (PB r) = 4 * (n - r)" | "trk n i PD = 0"

lemma entry_views:
  "r \<le> n \<Longrightarrow> rnd_of n i (entry_at n i r) = r" "i = r \<Longrightarrow> printed b s i (entry_at n i r) = []" "tok n b s i (entry_at n i r) u"
  "trk n i (entry_at n i r) \<le> 4 * (n - r) + 3"
  by (auto simp: entry_at_def)

lemma tls_call:
  assumes I: "tls_inv n b s pl w" and b: "inj_on b {..<n}" and i: "i < n"
    and c: "tat n b s i (pl i) = Call c k" "\<not> is_bar c" and r: "tls_sem s i c w = Some (a, w')"
  shows "\<exists>q. k a = tat n b s i q \<and> trk n i q < trk n i (pl i) \<and> tls_inv n b s (pl(i := q)) w'"
proof -
  obtain r where R: "r \<le> n" "\<And>j. j < n \<Longrightarrow> rnd_of n j (pl j) = r"
    "out w = concat (map (tls_text b s) [0..<r]) @ (if r < n then printed b s r (pl r) else [])"
    and w: "base w = b" "\<And>j. j < n \<Longrightarrow> tok n b s j (pl j) (tmem w (b j))" using I unfolding tls_inv_def by blast
  have turn: "tls_inv n b s (pl(i := q)) w'" if "rnd_of n i q = r" "tok n b s i q (tmem w' (b i))" "base w' = b"
      "\<And>j. j < n \<Longrightarrow> j \<noteq> i \<Longrightarrow> tmem w' (b j) = tmem w (b j)"
      "out w' = (if r = i then concat (map (tls_text b s) [0..<r]) @ printed b s i q else out w)" for q
    unfolding tls_inv_def
  proof (intro conjI exI [of _ r] allI impI)
    show "out w' = concat (map (tls_text b s) [0..<r]) @ (if r < n then printed b s r ((pl(i := q)) r) else [])"
      using that(5) R(3) i by auto
    show "tok n b s j ((pl(i := q)) j) (tmem w' (b j))" if "j < n" for j
      using w(2) [OF that] \<open>tok n b s i q (tmem w' (b i))\<close> \<open>\<And>j. j < n \<Longrightarrow> j \<noteq> i \<Longrightarrow> tmem w' (b j) = tmem w (b j)\<close> that by simp
    show "rnd_of n j ((pl(i := q)) j) = r" if "j < n" for j using R(2) [OF that] \<open>rnd_of n i q = r\<close> by simp
  qed (use that(3) R(1) in simp_all)
  show ?thesis
  proof (cases "pl i")
    case (Wk d v p)
    then obtain e where d: "d = Suc e" "tmem w (b i) = v" "walk (b i) (s i) (Suc e) v p (int i) (tls_rounds n (b i) (s i) i 0)"
      using w(2) [OF i] by (cases d) auto
    have r0: "r = 0" using R(2) [OF i] Wk by simp
    have "p = Call c k" using c(1) Wk by simp
    then obtain a' v' where a: "own (b i) (s i) c v = Some (a', v')" "walk (b i) (s i) e v' (k a') (int i) (tls_rounds n (b i) (s i) i 0)"
      using d(3) by auto
    have "tls_sem s i c w = Some (a', w\<lparr>tmem := (tmem w)(b i := v')\<rparr>)" using own_sem [of w i s c a' v'] a(1) w(1) d(2) by simp
    then have w': "w' = w\<lparr>tmem := (tmem w)(b i := v')\<rparr>" and v': "walk (b i) (s i) e v' (k a) (int i) (tls_rounds n (b i) (s i) i 0)"
      using r a(2) by simp_all
    have other: "tmem w' (b j) = tmem w (b j)" if "j < n" "j \<noteq> i" for j using inj_onD [OF b] that i unfolding w' by auto
    let ?q = "if e = 0 then entry_at n i 0 else Wk e v' (k a)"
    have "tls_inv n b s (pl(i := ?q)) w'"
    proof (rule turn)
      show "rnd_of n i ?q = r" using r0 by (simp add: entry_views)
      show "tok n b s i ?q (tmem w' (b i))" using v' by (simp add: entry_views w')
      show "base w' = b" "out w' = (if r = i then concat (map (tls_text b s) [0..<r]) @ printed b s i ?q else out w)"
        using w(1) R(3) Wk i r0 by (cases "i = 0"; simp add: w' entry_views)+
    qed (rule other)
    moreover have "k a = tat n b s i ?q" using v' by (cases e) (simp_all add: rounds_at)
    moreover have "trk n i ?q < trk n i (pl i)" using entry_views(4) [of n i 0] Wk d(1) by simp
    ultimately show ?thesis by blast
  next
    case PH
    then have i0: "i = 0" "r = 0" using w(2) [OF i] R(2) [OF i] by auto
    have w': "w' = w\<lparr>out := out w @ [[]]\<rparr>" "k a = tat n b s i PL" using c r PH by (auto simp: tls_sem_def)
    have "tls_inv n b s (pl(i := PL)) w'" by (rule turn) (use w' w(1) R(3) PH i i0 in auto)
    then show ?thesis using w'(2) PH by (intro exI [of _ PL]) simp
  next
    case PL
    then have i0: "r = i" using R(2) [OF i] by simp
    have w': "w' = w\<lparr>out := out w @ [tls_line (b i) (s i) i]\<rparr>" "k a = tat n b s i PF" using c r PL by (auto simp: tls_sem_def)
    have "tls_inv n b s (pl(i := PF)) w'" by (rule turn) (use w' w(1) R(3) PL i i0 in \<open>auto simp: tls_text_def\<close>)
    then show ?thesis using w'(2) PL by (intro exI [of _ PF]) simp
  next
    case PF
    then have i0: "r = i" using R(2) [OF i] by simp
    have w': "w' = w" "k a = tat n b s i (PB i)" using c r PF by (auto simp: tls_sem_def)
    have "tls_inv n b s (pl(i := PB i)) w'" by (rule turn) (use w' w(1) R(3) PF i i0 in auto)
    then show ?thesis using w'(2) PF i by (intro exI [of _ "PB i"]) simp
  next
    case (PB l)
    then show ?thesis using c by (auto simp: tls_meet_def pbar_def chk_def)
  next
    case PD
    then show ?thesis using c(1) by simp
  qed
qed

text \<open>At a barrier all threads are in the same round, and the one whose turn it is has printed.\<close>

lemma tls_release:
  assumes I: "tls_inv n b s pl w" and n: "0 < n" and bar: "\<And>i. i < n \<Longrightarrow> at_bar (tat n b s i (pl i)) \<and> pthread_good (rvs i)"
  shows "\<exists>q. (\<forall>i<n. resume (tat n b s i (pl i)) (rvs i) = tat n b s i (q i) \<and> trk n i (q i) < trk n i (pl i)) \<and> tls_inv n b s q w"
proof -
  obtain r where R: "r \<le> n" "\<And>j. j < n \<Longrightarrow> rnd_of n j (pl j) = r"
    "out w = concat (map (tls_text b s) [0..<r]) @ (if r < n then printed b s r (pl r) else [])"
    and w: "base w = b" "\<And>j. j < n \<Longrightarrow> tok n b s j (pl j) (tmem w (b j))" using I unfolding tls_inv_def by blast
  have PB: "pl i = PB r" if i: "i < n" for i
  proof (cases "pl i")
    case (Wk d v p)
    then obtain e where "d = Suc e" "walk (b i) (s i) (Suc e) v p (int i) (tls_rounds n (b i) (s i) i 0)"
      using w(2) [OF i] by (cases d) auto
    then show ?thesis using bar [OF i] Wk by auto
  qed (use bar [OF i] R(2) [OF i] in auto)
  have r: "r < n" using w(2) [OF n] PB [OF n] by simp
  let ?q = "\<lambda>i. entry_at n i (Suc r)"
  have "tls_inv n b s ?q w"
    unfolding tls_inv_def
  proof (intro conjI exI [of _ "Suc r"] allI impI)
    show "out w = concat (map (tls_text b s) [0..<Suc r]) @ (if Suc r < n then printed b s (Suc r) (?q (Suc r)) else [])"
      using R(3) r PB [OF r] by (simp add: entry_views)
  qed (use r w(1) in \<open>simp_all add: entry_views\<close>)
  moreover have "trk n i (?q i) < trk n i (pl i)" if "i < n" for i
  proof -
    have "4 * (n - Suc r) + 3 < 4 * (n - r)" using r by simp
    then show ?thesis using entry_views(4) [of n i "Suc r"] PB [OF that] by simp
  qed
  moreover have "resume (tat n b s i (pl i)) (rvs i) = tat n b s i (?q i)" if "i < n" for i
    using bar [OF that] PB [OF that] by (simp add: tls_meet_def pbar_simps rounds_at)
  ultimately show ?thesis by (intro exI [of _ ?q]) blast
qed

lemma tls_live:
  assumes I: "tls_inv n b s pl w"
  shows "(\<forall>i<n. pl i = PD) \<or> (\<forall>i<n. at_bar (tat n b s i (pl i))) \<or>
    (\<exists>i<n. \<exists>c k x. tat n b s i (pl i) = Call c k \<and> \<not> is_bar c \<and> tls_sem s i c w = Some x)"
proof -
  obtain r where R: "\<And>j. j < n \<Longrightarrow> rnd_of n j (pl j) = r"
    and w: "base w = b" "\<And>j. j < n \<Longrightarrow> tok n b s j (pl j) (tmem w (b j))" using I unfolding tls_inv_def by blast
  have moves: "\<exists>c k x. tat n b s i (pl i) = Call c k \<and> \<not> is_bar c \<and> tls_sem s i c w = Some x"
    if i: "i < n" "pl i \<noteq> PD" "\<And>l. pl i \<noteq> PB l" for i
  proof (cases "pl i")
    case (Wk d v p)
    then obtain e where "d = Suc e" "tmem w (b i) = v" "walk (b i) (s i) (Suc e) v p (int i) (tls_rounds n (b i) (s i) i 0)"
      using w(2) [OF i(1)] by (cases d) auto
    then show ?thesis using own_sem [of w i s] w(1) Wk by fastforce
  qed (use i in \<open>auto simp: tls_sem_def\<close>)
  show ?thesis
  proof (cases "\<forall>i<n. pl i = PD \<or> (\<exists>l. pl i = PB l)")
    case True
    have "pl i = PB r \<and> r < n \<or> pl i = PD \<and> r = n" if "i < n" for i
      using True R [OF that] w(2) [OF that] that by auto
    then have "(\<forall>i<n. pl i = PD) \<or> (\<forall>i<n. pl i = PB r)" by blast
    then show ?thesis by (auto simp: tls_meet_def pbar_simps)
  next
    case False
    then show ?thesis using moves by blast
  qed
qed

lemma tls_places:
  assumes "barrier n rel pthread_good" "inj_on b {..<n}"
  shows "place_system n rel pthread_good (tls_sem s) (tat n b s) (tls_inv n b s) (trk n) (\<lambda>pl w. \<forall>i<n. pl i = PD)"
proof (intro place_system.intro assms(1), unfold_locales)
  fix pl w i c k r w'
  assume "tls_inv n b s pl w" "i < n" "tat n b s i (pl i) = Call c k" "\<not> is_bar c" "tls_sem s i c w = Some (r, w')"
  then show "\<exists>q. k r = tat n b s i q \<and> trk n i q < trk n i (pl i) \<and> tls_inv n b s (pl(i := q)) w'"
    using tls_call [where pl = pl and i = i] assms(2) by blast
next
  fix pl w and rvs :: "tid \<Rightarrow> int"
  assume "tls_inv n b s pl w" "\<forall>i<n. at_bar (tat n b s i (pl i)) \<and> pthread_good (rvs i)"
  then show "\<exists>q. (\<forall>i<n. resume (tat n b s i (pl i)) (rvs i) = tat n b s i (q i) \<and> trk n i (q i) < trk n i (pl i)) \<and> tls_inv n b s q w"
    using tls_release [where pl = pl] barrier.participants [OF assms(1)] by blast
next
  fix pl w assume "tls_inv n b s pl w"
  then show "(\<forall>i<n. pl i = PD) \<or> (\<forall>i<n. at_bar (tat n b s i (pl i))) \<or>
      (\<exists>i<n. \<exists>c k x. tat n b s i (pl i) = Call c k \<and> \<not> is_bar c \<and> tls_sem s i c w = Some x)"
    by (rule tls_live)
qed

section \<open>All runs\<close>

definition tls_start :: "(tid \<Rightarrow> int) \<Rightarrow> (int \<Rightarrow> int) \<Rightarrow> tls_state" where
  "tls_start b m = \<lparr>base = b, tmem = m, out = []\<rparr>"

definition tls_first :: "nat \<Rightarrow> (tid \<Rightarrow> int) \<Rightarrow> (int \<Rightarrow> int) \<Rightarrow> int \<Rightarrow> int \<Rightarrow> tid \<Rightarrow> tplace" where
  "tls_first n b m j0 j1 i = Wk tls_way (m (b i)) (tls_thread (int n) j0 j1 (int i))"

lemma tls_begins:
  assumes "0 < n"
  shows "tls_inv n b s (tls_first n b m j0 j1) (tls_start b m)" "(\<lambda>i. tls_thread (int n) j0 j1 (int i)) i = tat n b s i (tls_first n b m j0 j1 i)"
proof -
  have "0 < tls_way" by (simp add: tls_way_def)
  then show "tls_inv n b s (tls_first n b m j0 j1) (tls_start b m)"
    using assms thread_walk [of _ n "b _" "s _" "m (b _)" j0 j1] by (auto simp: tls_inv_def tls_first_def tls_start_def)
qed (simp add: tls_first_def)

lemma tls_terminates:
  assumes "barrier n rel pthread_good" "inj_on b {..<n}"
  shows "Wellfounded.accp (\<lambda>x y. step n (tls_sem s) rel y x) (\<lambda>i. tls_thread (int n) j0 j1 (int i), tls_start b m)"
  by (rule place_system.places_terminate [where pl = "tls_first n b m j0 j1", OF tls_places [OF assms] tls_begins [OF barrier.participants [OF assms(1)]]])

lemma create_quiet: "quiet_run atomic_sem (finE (create_threads EXIT_FAIL q) (f :: unit \<Rightarrow> int prog)) i w = quiet_run atomic_sem (f ()) i w"
  unfolding create_threads_def by (rule quiet_for) (simp add: chk_def)

lemma join_quiet_any: "quiet_run atomic_sem (finE (join_threads EXIT_FAIL q) (f :: unit \<Rightarrow> int prog)) i w = quiet_run atomic_sem (f ()) i w"
  unfolding join_threads_def by (rule quiet_for) (simp add: chk_def)

lemma main_creates: "quiet_run atomic_sem (tls_main argv) i w = Some (Ret 0)"
  by (simp add: tls_main_def Let_def chk_def create_quiet join_quiet_any)

text \<open>C12: the threads of the test of the TLS register, each with a register of its own, all return NULL, whatever the
interleaving: each finds in its variable what it has stored there, after ten million loads of the register; and they print one after the
other in the order of their numbers, the heading first. The main function, which creates and joins them, returns 0.\<close>

theorem tls_correct:
  assumes "barrier n rel pthread_good" "inj_on b {..<n}"
    and "steps n (tls_sem s) rel (\<lambda>i. tls_thread (int n) j0 j1 (int i), tls_start b m) c" "\<not> (\<exists>c'. step n (tls_sem s) rel c c')"
  shows "Wellfounded.accp (\<lambda>x y. step n (tls_sem s) rel y x) (\<lambda>i. tls_thread (int n) j0 j1 (int i), tls_start b m) \<and>
    finished n (\<lambda>_. 0) c \<and> out (snd c) = [] # map (\<lambda>i. tls_line (b i) (s i) i) [0..<n] \<and>
    quiet_run atomic_sem (tls_main argv) i w = Some (Ret 0)"
proof -
  note n = barrier.participants [OF assms(1)]
  obtain pl where pl: "\<And>i. i < n \<Longrightarrow> fst c i = tat n b s i (pl i)" "tls_inv n b s pl (snd c)" "\<forall>i<n. pl i = PD"
    by (rule place_system.places_end [where pl = "tls_first n b m j0 j1", OF tls_places [OF assms(1,2)] tls_begins [OF n] assms(3,4)])
      (rule that)
  then have "out (snd c) = concat (map (tls_text b s) [0..<n])" using n by (auto simp: tls_inv_def)
  moreover have "concat (map (tls_text b s) [0..<Suc k]) = [] # map (\<lambda>i. tls_line (b i) (s i) i) [0..<Suc k]" for k
    by (induction k) (simp_all add: tls_text_def)
  then have "concat (map (tls_text b s) [0..<n]) = [] # map (\<lambda>i. tls_line (b i) (s i) i) [0..<n]" using n by (cases n) simp_all
  ultimately show ?thesis
    using tls_terminates [OF assms(1,2)] main_creates pl(1,3) by (simp add: finished_def)
qed

lemma tls_correct_witness:
  "\<exists>c. steps 3 (tls_sem int) (pthread_release 3) (\<lambda>i. tls_thread (int 3) 7 7 (int i), tls_start int (\<lambda>_. 5)) c \<and> finished 3 (\<lambda>_. 0) c \<and>
     out (snd c) = [[], [0, 1], [1, 1], [2, 1]]"
proof -
  have bar: "barrier 3 (pthread_release 3) pthread_good" by (rule pthread_barrier) simp
  have inj: "inj_on int {..<3}" by simp
  obtain c where c: "steps 3 (tls_sem int) (pthread_release 3) (\<lambda>i. tls_thread (int 3) 7 7 (int i), tls_start int (\<lambda>_. 5)) c"
    "\<not> (\<exists>c'. step 3 (tls_sem int) (pthread_release 3) c c')"
    using ends_somewhere [OF tls_terminates [OF bar inj, of int 7 7 "\<lambda>_. 5"]] by blast
  from tls_correct [OF bar inj c] c(1) show ?thesis by (intro exI [of _ c]) (simp add: tls_line_def upt_rec)
qed

end
