(* ===== verification/CxxTests.thy ===== *)
theory CxxTests
  imports Programs
begin

text \<open>
  \<open>cxx/cxx.cc\<close>: root and tasks each make an array of objects, and a task looks whether its own still hold what it has
  stored in them, and deletes them. Arrays and objects are kept by the environment, so that an access to what is not there
  has no answer.
\<close>

section \<open>The program\<close>

definition CXX_MAGIC :: int where "CXX_MAGIC = 13579"

text \<open>\<open>objs[i] = new PIP( i ); objs[i]->bar( i * 100 );\<close>\<close>

definition cxx_make :: "int \<Rightarrow> unit \<Rightarrow> (int + unit) prog" where
  "cxx_make i u =
     Call (lib ''new'' [i]) (\<lambda>r. Call (lib ''objs='' [i, rv r]) (\<lambda>_.
     Call (lib ''objs'' [i]) (\<lambda>r. Call (lib ''var='' [rv r, to_int32 (i * 100)]) (\<lambda>_. Ret (Inr ())))))"

definition cxx_spawn :: "pip_h \<Rightarrow> string \<Rightarrow> int \<Rightarrow> unit \<Rightarrow> (int + unit) prog" where
  "cxx_spawn h prog i u = chk (Pip (Pip_spawn (Some prog) (CPUCORE_ASIS h) (Some i) None)) nz (Ret (Inl EXIT_FAIL)) (\<lambda>_. Ret (Inr ()))"

definition cxx_wait :: "int \<Rightarrow> unit \<Rightarrow> (int + unit) prog" where
  "cxx_wait i u = chk (Pip (Pip_wait i False)) nz (Ret (Inl EXIT_FAIL)) (\<lambda>_. Ret (Inr ()))"

definition cxx_check :: "int \<Rightarrow> unit \<Rightarrow> (int + unit) prog" where
  "cxx_check i u =
     Call (lib ''objs'' [i]) (\<lambda>r. chk (lib ''var'' [rv r]) (\<lambda>r. rv r \<noteq> to_int32 (i * 100)) (Ret (Inl EXIT_FAIL)) (\<lambda>_.
     Call (lib ''objs'' [i]) (\<lambda>r. Call (lib ''delete'' [rv r]) (\<lambda>_. Call (lib ''objs='' [i, 0]) (\<lambda>_. Ret (Inr ()))))))"

definition cxx_fin :: "int prog" where
  "cxx_fin = chk (Pip Pip_fin) nz (Ret EXIT_FAIL) (\<lambda>_. Ret 0)"

definition cxx_root :: "pip_h \<Rightarrow> string \<Rightarrow> int \<Rightarrow> int prog" where
  "cxx_root h prog ntasks =
     finE (for_range 0 (nat ntasks) (cxx_spawn h prog) ()) (\<lambda>_.
     finE (for_range 0 (nat ntasks) cxx_wait ()) (\<lambda>_. cxx_fin))"

definition cxx_task :: "int \<Rightarrow> int prog" where
  "cxx_task ntasks =
     chk (Mem (Load ''PIP::xxx'')) (\<lambda>r. rv r \<noteq> CXX_MAGIC) (Ret EXIT_FAIL) (\<lambda>_.
     finE (for_range 0 (nat ntasks) cxx_check ()) (\<lambda>_.
     chk (lib ''pip_get_system_id'' []) nz (Ret EXIT_FAIL) (\<lambda>_. cxx_fin)))"

definition cxx_ntasks :: "pip_h \<Rightarrow> string list \<Rightarrow> int" where
  "cxx_ntasks h argv = (let ntasks = arg_int argv 1 0 in if ntasks = 0 then NTASKS h else ntasks)"

text \<open>\<open>junk\<close> is what \<open>pipid\<close> holds before it is set.\<close>

definition cxx_main :: "pip_h \<Rightarrow> int \<Rightarrow> string list \<Rightarrow> int prog" where
  "cxx_main h junk argv =
     (let ntasks = cxx_ntasks h argv in
      chk (Sys (Malloc (size64 (8 * ntasks)))) (\<lambda>r. rv r = 0) (Ret EXIT_UNTESTED) (\<lambda>_.
      finE (for_range 0 (nat ntasks) cxx_make ()) (\<lambda>_.
      chk (Pip (Pip_init True (Some ntasks) True 0)) nz (Ret EXIT_FAIL) (\<lambda>r.
        let ntasks = stored (o2 r) ntasks in
        if stored (o1 r) junk = PIPID_ROOT h then cxx_root h (argv ! 0) ntasks else cxx_task ntasks))))"

section \<open>Objects\<close>

text \<open>
  The array, of \<open>room\<close> entries, and the objects by address with the value of \<open>var\<close>. \<open>new\<close> returns an address at which there
  is no object; \<open>pip_init\<close> answers PiP ID and number of tasks.
\<close>

record objects =
  slots :: "int \<Rightarrow> int"
  room :: int
  vars :: "int \<Rightarrow> int option"

definition obj_env :: "((int \<Rightarrow> int option) \<Rightarrow> int) \<Rightarrow> int \<Rightarrow> int \<Rightarrow> objects env" where
  "obj_env alloc pipid nt w c = (case c of
       Sys (Malloc b) \<Rightarrow> (Some (ok\<lparr>rv := 16\<rparr>), w\<lparr>room := b div 8\<rparr>)
     | Pip (Pip_init _ _ _ _) \<Rightarrow> (Some (ok\<lparr>o1 := Some pipid, o2 := Some nt\<rparr>), w)
     | Mem (Load x) \<Rightarrow> (Some (ok\<lparr>rv := CXX_MAGIC\<rparr>), w)
     | Sys (Lib f a) \<Rightarrow>
         if f = ''new'' then (Some (ok\<lparr>rv := alloc (vars w)\<rparr>), w\<lparr>vars := (vars w)(alloc (vars w) \<mapsto> 0)\<rparr>)
         else if f = ''objs='' then
           (if 0 \<le> hd a \<and> hd a < room w then (Some ok, w\<lparr>slots := (slots w)(hd a := a ! 1)\<rparr>) else (None, w))
         else if f = ''objs'' then (if 0 \<le> hd a \<and> hd a < room w then Some (ok\<lparr>rv := slots w (hd a)\<rparr>) else None, w)
         else if f = ''var='' then
           (if vars w (hd a) = None then (None, w) else (Some ok, w\<lparr>vars := (vars w)(hd a \<mapsto> a ! 1)\<rparr>))
         else if f = ''var'' then (map_option (\<lambda>v. ok\<lparr>rv := v\<rparr>) (vars w (hd a)), w)
         else if f = ''delete'' then
           (if hd a = 0 then (Some ok, w) else if vars w (hd a) = None then (None, w)
            else (Some ok, w\<lparr>vars := (vars w)(hd a := None)\<rparr>))
         else (Some ok, w)
     | _ \<Rightarrow> (Some ok, w))"

definition fresh_alloc :: "((int \<Rightarrow> int option) \<Rightarrow> int) \<Rightarrow> bool" where
  "fresh_alloc alloc \<longleftrightarrow> (\<forall>v. finite (dom v) \<longrightarrow> alloc v \<noteq> 0 \<and> v (alloc v) = None)"

lemma obj_env_simps:
  "obj_env al p nt w (lib ''new'' a) = (Some (ok\<lparr>rv := al (vars w)\<rparr>), w\<lparr>vars := (vars w)(al (vars w) \<mapsto> 0)\<rparr>)"
  "obj_env al p nt w (lib ''objs='' [i, v]) = (if 0 \<le> i \<and> i < room w then (Some ok, w\<lparr>slots := (slots w)(i := v)\<rparr>) else (None, w))"
  "obj_env al p nt w (lib ''objs'' [i]) = (if 0 \<le> i \<and> i < room w then Some (ok\<lparr>rv := slots w i\<rparr>) else None, w)"
  "obj_env al p nt w (lib ''var='' [x, v]) = (if vars w x = None then (None, w) else (Some ok, w\<lparr>vars := (vars w)(x \<mapsto> v)\<rparr>))"
  "obj_env al p nt w (lib ''var'' [x]) = (map_option (\<lambda>v. ok\<lparr>rv := v\<rparr>) (vars w x), w)"
  "obj_env al p nt w (lib ''delete'' [x]) = (if x = 0 then (Some ok, w) else if vars w x = None then (None, w)
     else (Some ok, w\<lparr>vars := (vars w)(x := None)\<rparr>))"
  "obj_env al p nt w (lib ''pip_get_system_id'' a) = (Some ok, w)"
  "obj_env al p nt w (Sys (Malloc b)) = (Some (ok\<lparr>rv := 16\<rparr>), w\<lparr>room := b div 8\<rparr>)"
  "obj_env al p nt w (Pip (Pip_init g y z u)) = (Some (ok\<lparr>o1 := Some p, o2 := Some nt\<rparr>), w)"
  "obj_env al p nt w (Mem (Load s)) = (Some (ok\<lparr>rv := CXX_MAGIC\<rparr>), w)"
  "obj_env al p nt w (Pip (Pip_spawn q c m k)) = (Some ok, w)" "obj_env al p nt w (Pip (Pip_wait i d)) = (Some ok, w)"
  "obj_env al p nt w (Pip Pip_fin) = (Some ok, w)"
  by (simp_all add: obj_env_def)

text \<open>The objects are those of the entries from \<open>a\<close> to \<open>b\<close>, one for each, and hold what the program stores in them.\<close>

definition objs_ok :: "int \<Rightarrow> int \<Rightarrow> int \<Rightarrow> objects \<Rightarrow> bool" where
  "objs_ok n a b w \<longleftrightarrow> room w = n \<and> inj_on (slots w) {a..<b} \<and> dom (vars w) = slots w ` {a..<b} \<and> 0 \<notin> dom (vars w) \<and>
     (\<forall>k\<in>{a..<b}. vars w (slots w k) = Some (to_int32 (k * 100)))"

lemma range_step: "a \<le> j \<Longrightarrow> {a..<j + 1} = insert j {a..<(j :: int)}" "a < b \<Longrightarrow> {a..<b} = insert a {a + 1..<(b :: int)}"
  by auto

lemma make_step:
  assumes "fresh_alloc al" "objs_ok n 0 j w" "0 \<le> j" "j < n"
  shows "outcome (cxx_make j ()) (obj_env al p nt) w = Returned (Inr ())" "objs_ok n 0 (j + 1) (final_env (cxx_make j ()) (obj_env al p nt) w)"
proof -
  let ?x = "al (vars w)" and ?v = "to_int32 (j * 100)"
  have "finite (dom (vars w))" using assms(2) by (simp add: objs_ok_def)
  then have x: "?x \<noteq> 0" "vars w ?x = None" using assms(1) by (simp_all add: fresh_alloc_def)
  then have new: "?x \<noteq> slots w k" "slots w k \<noteq> ?x" if "k \<in> {0..<j}" for k
  proof -
    have "vars w (slots w k) \<noteq> None" using assms(2) that by (simp add: objs_ok_def)
    then show "?x \<noteq> slots w k" "slots w k \<noteq> ?x" using x(2) by metis+
  qed
  have room: "room w = n" using assms(2) by (simp add: objs_ok_def)
  let ?w = "w\<lparr>vars := (vars w)(?x \<mapsto> 0, ?x \<mapsto> ?v), slots := (slots w)(j := ?x)\<rparr>"
  show "outcome (cxx_make j ()) (obj_env al p nt) w = Returned (Inr ())"
    using assms(3,4) room by (simp add: cxx_make_def obj_env_simps)
  have f: "final_env (cxx_make j ()) (obj_env al p nt) w = ?w" using assms(3,4) room by (simp add: cxx_make_def obj_env_simps)
  have upd: "((slots w)(j := ?x)) ` {0..<j} = slots w ` {0..<j}" by auto
  have "inj_on ((slots w)(j := ?x)) {0..<j + 1}"
    using assms(2) new unfolding range_step(1) [OF assms(3)] by (auto simp: objs_ok_def inj_on_def)
  moreover have "dom (vars ?w) = slots ?w ` {0..<j + 1}" using assms(2) upd new(1)
    unfolding range_step(1) [OF assms(3)] objs_ok_def by auto
  moreover have "\<forall>k\<in>{0..<j + 1}. vars ?w (slots ?w k) = Some (to_int32 (k * 100))"
    using assms(2) new unfolding range_step(1) [OF assms(3)] by (auto simp: objs_ok_def)
  ultimately show "objs_ok n 0 (j + 1) (final_env (cxx_make j ()) (obj_env al p nt) w)"
    using room x assms(2) unfolding f by (auto simp: objs_ok_def)
qed

lemma check_step:
  assumes "objs_ok n j n w" "0 \<le> j" "j < n"
  shows "outcome (cxx_check j ()) (obj_env al p nt) w = Returned (Inr ())" "objs_ok n (j + 1) n (final_env (cxx_check j ()) (obj_env al p nt) w)"
proof -
  have I: "room w = n" "inj_on (slots w) {j..<n}" "dom (vars w) = slots w ` {j..<n}" "0 \<notin> dom (vars w)"
    "\<And>k. k \<in> {j..<n} \<Longrightarrow> vars w (slots w k) = Some (to_int32 (k * 100))" using assms(1) unfolding objs_ok_def by blast+
  have j: "vars w (slots w j) = Some (to_int32 (j * 100))" "slots w j \<noteq> 0" using I(4) I(5) [of j] assms(3) by auto
  let ?w = "w\<lparr>vars := (vars w)(slots w j := None), slots := (slots w)(j := 0)\<rparr>"
  show "outcome (cxx_check j ()) (obj_env al p nt) w = Returned (Inr ())"
    using assms(2,3) I(1) j by (simp add: cxx_check_def obj_env_simps chk_def)
  have f: "final_env (cxx_check j ()) (obj_env al p nt) w = ?w"
    using assms(2,3) I(1) j by (simp add: cxx_check_def obj_env_simps chk_def)
  have other: "slots w k \<noteq> slots w j" if "k \<in> {j + 1..<n}" for k using inj_onD [OF I(2), of k j] that assms(3) by auto
  have upd: "((slots w)(j := 0)) ` {j + 1..<n} = slots w ` {j + 1..<n}" by auto
  have "inj_on ((slots w)(j := 0)) {j + 1..<n}" using I(2) by (auto simp: inj_on_def)
  moreover have "dom (vars ?w) = slots ?w ` {j + 1..<n}" using I(3) upd other unfolding range_step(2) [OF assms(3)] by auto
  moreover have "\<forall>k\<in>{j + 1..<n}. vars ?w (slots ?w k) = Some (to_int32 (k * 100))" using I(5) other by auto
  ultimately show "objs_ok n (j + 1) n (final_env (cxx_check j ()) (obj_env al p nt) w)"
    using I(1,4) unfolding f by (auto simp: objs_ok_def)
qed

section \<open>The verdict\<close>

lemma for_range_split: "for_range i (m + k) body s = seqE (for_range i m body s) (for_range (i + int m) k body)"
proof (induction m arbitrary: i s)
  case (Suc m)
  have "for_range (i + 1) (m + k) body = (\<lambda>s. seqE (for_range (i + 1) m body s) (for_range (i + 1 + int m) k body))"
    by (rule ext) (rule Suc.IH)
  then show ?case by (simp add: seqE_assoc add.assoc)
qed simp

lemma loops_keep:
  "outcome (for_range 0 k (cxx_spawn h prog) ()) (obj_env al p nt) w = Returned (Inr ()) \<and>
     final_env (for_range 0 k (cxx_spawn h prog) ()) (obj_env al p nt) w = w"
  "outcome (for_range 0 k cxx_wait ()) (obj_env al p nt) w = Returned (Inr ()) \<and>
     final_env (for_range 0 k cxx_wait ()) (obj_env al p nt) w = w"
proof -
  have s: "outcome (cxx_spawn h prog j ()) (obj_env al p nt) v = Returned (Inr ()) \<and> final_env (cxx_spawn h prog j ()) (obj_env al p nt) v = v"
    and t: "outcome (cxx_wait j ()) (obj_env al p nt) v = Returned (Inr ()) \<and> final_env (cxx_wait j ()) (obj_env al p nt) v = v" for j v
    by (simp_all add: cxx_spawn_def cxx_wait_def chk_def obj_env_simps)
  show "outcome (for_range 0 k (cxx_spawn h prog) ()) (obj_env al p nt) w = Returned (Inr ()) \<and>
     final_env (for_range 0 k (cxx_spawn h prog) ()) (obj_env al p nt) w = w"
    using for_range_runs_inv [of 0 k "\<lambda>_ v. v = w" "cxx_spawn h prog" "\<lambda>_. ()" "obj_env al p nt" w] s by simp
  show "outcome (for_range 0 k cxx_wait ()) (obj_env al p nt) w = Returned (Inr ()) \<and>
     final_env (for_range 0 k cxx_wait ()) (obj_env al p nt) w = w"
    using for_range_runs_inv [of 0 k "\<lambda>_ v. v = w" cxx_wait "\<lambda>_. ()" "obj_env al p nt" w] t by simp
qed

lemma check_loop:
  assumes "objs_ok n 0 n w" "0 \<le> nt" "nt \<le> n"
  shows "outcome (for_range 0 (nat nt) cxx_check ()) (obj_env al p q) w = Returned (Inr ())"
    "objs_ok n nt n (final_env (for_range 0 (nat nt) cxx_check ()) (obj_env al p q) w)"
proof -
  have "outcome (cxx_check j ()) (obj_env al p q) v = Returned (Inr ()) \<and> objs_ok n (j + 1) n (final_env (cxx_check j ()) (obj_env al p q) v)"
    if "0 \<le> j" "j < 0 + int (nat nt)" "objs_ok n j n v" for j v
    using check_step [OF that(3,1)] that(2) assms(2,3) by simp
  note R = for_range_runs_inv [where i = 0 and n = "nat nt" and W = "\<lambda>j. objs_ok n j n" and st = "\<lambda>_. ()" and body = cxx_check
      and e = "obj_env al p q", OF this assms(1)]
  show "outcome (for_range 0 (nat nt) cxx_check ()) (obj_env al p q) w = Returned (Inr ())"
    "objs_ok n nt n (final_env (for_range 0 (nat nt) cxx_check ()) (obj_env al p q) w)" using R assms(2) by simp_all
qed

lemma check_over:
  assumes "objs_ok n 0 n w" "0 \<le> n" "n < nt"
  shows "outcome (for_range 0 (nat nt) cxx_check ()) (obj_env al p q) w = NoReturn (lib ''objs'' [n]) \<and>
    final_env (for_range 0 (nat nt) cxx_check ()) (obj_env al p q) w = final_env (for_range 0 (nat n) cxx_check ()) (obj_env al p q) w"
proof -
  have "nat n < nat nt" using assms(2,3) by simp
  then obtain k where k: "nat nt = nat n + Suc k" using less_imp_Suc_add by fastforce
  note C = check_loop [OF assms(1,2) order.refl, of al p q]
  have "room (final_env (for_range 0 (nat n) cxx_check ()) (obj_env al p q) w) = n" using C(2) by (simp add: objs_ok_def)
  then show ?thesis using C(1) assms(2) unfolding k for_range_split
    by (simp add: seqE_def run_parts cxx_check_def obj_env_simps)
qed

text \<open>C29: whatever addresses \<open>new\<close> returns, a task of the C++ test finds in each of its objects what it has stored there, deletes
each of them once, so that none is left, and returns 0, and so does the root. It reads as many entries as the library says there are tasks: if
that is more than the program made, it reads behind the end of its array.\<close>

theorem cxx_verdict:
  assumes "fresh_alloc al" "cxx_ntasks h argv = n" "0 < n" "8 * n < 2 ^ 64" "vars w = Map.empty" "0 \<le> nt"
  shows "outcome (cxx_main h junk argv) (obj_env al p nt) w =
      (if p \<noteq> PIPID_ROOT h \<and> n < nt then NoReturn (lib ''objs'' [n]) else Returned 0) \<and>
    card (dom (vars (final_env (cxx_main h junk argv) (obj_env al p nt) w))) = nat (if p = PIPID_ROOT h then n else n - nt)"
proof -
  let ?E = "obj_env al p nt" and ?w0 = "w\<lparr>room := n\<rparr>"
  let ?w1 = "final_env (for_range 0 (nat n) cxx_make ()) ?E ?w0"
  have room: "size64 (8 * n) div 8 = n" using assms(3,4) by (simp add: size64_def)
  have "outcome (cxx_make j ()) ?E v = Returned (Inr ()) \<and> objs_ok n 0 (j + 1) (final_env (cxx_make j ()) ?E v)"
    if "0 \<le> j" "j < 0 + int (nat n)" "objs_ok n 0 j v" for j v
    using make_step [OF assms(1) that(3,1)] that(2) assms(3) by simp
  note R = for_range_runs_inv [where i = 0 and n = "nat n" and W = "objs_ok n 0" and st = "\<lambda>_. ()" and body = cxx_make and e = ?E, OF this]
  have "objs_ok n 0 0 ?w0" using assms(5) by (simp add: objs_ok_def)
  then have make: "outcome (for_range 0 (nat n) cxx_make ()) ?E ?w0 = Returned (Inr ())" "objs_ok n 0 n ?w1"
    using R [of ?w0] assms(3) by simp_all
  have main: "outcome (cxx_main h junk argv) ?E w = outcome (if p = PIPID_ROOT h then cxx_root h (argv ! 0) nt else cxx_task nt) ?E ?w1"
    "final_env (cxx_main h junk argv) ?E w = final_env (if p = PIPID_ROOT h then cxx_root h (argv ! 0) nt else cxx_task nt) ?E ?w1"
    using make(1) assms(2) room by (simp_all add: cxx_main_def Let_def chk_def obj_env_simps finE_def run_parts)
  have left: "card (dom (vars v)) = nat (n - a)" if "objs_ok n a n v" "0 \<le> a" "a \<le> n" for a v
    using that by (simp add: objs_ok_def card_image)
  show ?thesis
  proof (cases "p = PIPID_ROOT h")
    case True
    then have "outcome (cxx_main h junk argv) ?E w = Returned 0 \<and> final_env (cxx_main h junk argv) ?E w = ?w1"
      unfolding main by (simp add: loops_keep cxx_root_def cxx_fin_def finE_def run_parts chk_def obj_env_simps)
    then show ?thesis using True left [OF make(2)] assms(3) by simp
  next
    case task: False
    show ?thesis
    proof (cases "n < nt")
      case False
      then have "nt \<le> n" by simp
      note C = check_loop [OF make(2) assms(6) this, of al p nt]
      have "outcome (cxx_main h junk argv) ?E w = Returned 0 \<and>
          final_env (cxx_main h junk argv) ?E w = final_env (for_range 0 (nat nt) cxx_check ()) ?E ?w1"
        using C(1) task unfolding main by (simp add: cxx_task_def cxx_fin_def finE_def run_parts chk_def obj_env_simps)
      then show ?thesis using task False left [OF C(2) assms(6)] by simp
    next
      case True
      have "0 \<le> n" using assms(3) by simp
      note C = check_loop [OF make(2) this order.refl, of al p nt]
      have "outcome (cxx_main h junk argv) ?E w = NoReturn (lib ''objs'' [n]) \<and>
          final_env (cxx_main h junk argv) ?E w = final_env (for_range 0 (nat n) cxx_check ()) ?E ?w1"
        using check_over [OF make(2) _ True, of al p nt] task assms(3) unfolding main
        by (simp add: cxx_task_def finE_def run_parts chk_def obj_env_simps)
      then show ?thesis using task True left [OF C(2)] assms(3) by simp
    qed
  qed
qed

definition first_free :: "(int \<Rightarrow> int option) \<Rightarrow> int" where
  "first_free v = Max (insert 0 (dom v)) + 1"

lemma first_free: "fresh_alloc first_free"
proof -
  have "0 < first_free v" "v (first_free v) = None" if "finite (dom v)" for v
  proof -
    have m: "\<And>x. x \<in> insert 0 (dom v) \<Longrightarrow> x < first_free v" 
      using Max_ge [of "insert 0 (dom v)"] that unfolding first_free_def by (simp add: less_le_trans zless_add1_eq order_le_less)
    show "0 < first_free v" by (rule m) simp
    show "v (first_free v) = None"
    proof (rule ccontr)
      assume "v (first_free v) \<noteq> None"
      then have "first_free v < first_free v" by (intro m) auto
      then show False by simp
    qed
  qed
  then show ?thesis by (fastforce simp: fresh_alloc_def)
qed

lemma cxx_verdict_witness:
  "outcome (cxx_main h_sample 0 [''cxx'', ''3'']) (obj_env first_free 1 3) \<lparr>slots = \<lambda>_. 0, room = 0, vars = Map.empty\<rparr> = Returned 0 \<and>
   outcome (cxx_main h_sample 0 [''cxx'', ''3'']) (obj_env first_free 1 4) \<lparr>slots = \<lambda>_. 0, room = 0, vars = Map.empty\<rparr> = NoReturn (lib ''objs'' [3])"
proof -
  have n: "cxx_ntasks h_sample [''cxx'', ''3''] = 3" by (simp add: cxx_ntasks_def arg_int_def strtol_eval)
  have p: "1 \<noteq> PIPID_ROOT h_sample" by (simp add: h_sample_def)
  note V = cxx_verdict [OF first_free n, where w = "\<lparr>slots = \<lambda>_. 0, room = 0, vars = Map.empty\<rparr>" and p = 1 and junk = 0]
  show ?thesis using V [of 3] V [of 4] p by simp
qed

end
