(* ===== verification/Spec2Isabelle.thy ===== *)
theory Spec2Isabelle
  imports Timer TaskDriver WaitTests SeekTurns ApiTests EndTests CoreBind HeapTests ChainTests MutexTests KillRing PthreadTests EnvironTests AuxTests LifeTests
    SpinTests PthreadMutex PageFault Programs NameRing ForkRuns TlsTests CxxTests
begin

text \<open>
  The PiP test suite, verified. The suite (\<open>src/\<close>) is a collection of C programs that test Process-in-Process, a
  library that runs several programs as \<^emph>\<open>tasks\<close> in one address space, and of the small tools they run under.
  Each program includes \<open>include/test.h\<close>, reads its arguments, calls \<open>pip\_init\<close> and then plays one of two parts:
  the \<^emph>\<open>root\<close> spawns tasks (usually of the program itself), waits for them and judges what they report; a \<^emph>\<open>task\<close>
  does the thing tested and answers with an exit code. \<open>test.sh\<close> starts every test under \<open>timer\<close> and, where it needs
  tasks, through \<open>pip-task\<close> or \<open>pip-blt\<close>; the exit codes of \<open>test.h\<close> travel back along that chain. The library, the
  operating system and the C library's stateful part are not in the repository. So the development asks two things of
  a test program: what has happened when it says \<^emph>\<open>passed\<close>, whatever the library answers, and does it say \<^emph>\<open>passed\<close>
  when the library does what it promises, whatever the order in which its tasks run.

  \<^bold>\<open>How a program is modelled.\<close> \<open>CProg\<close>: a program is a tree of the calls it makes into foreign code
  (\<open>pip\_call\<close>, \<open>sys\_call\<close>, \<open>mem\_call\<close>), each node continuing with a function of the answer (\<open>resp\<close>: value, errno, what was
  stored through output pointers, a string). A return is a leaf \<open>Ret\<close>; \<open>exit\<close>, \<open>\_exit\<close>, a signal are \<open>Halt\<close>. The macro
  CHECK is \<open>chk\<close> (on a call) and \<open>chkv\<close> (on a value), with its condition and its action; loops are \<open>for\_range\<close> and \<open>loop\<close>,
  early returns the left side of a sum (\<open>seqE\<close>, \<open>finE\<close>). Pure computation is HOL computation: a C \<open>int\<close> is an \<open>int\<close> kept
  in 32 bits by \<open>to\_int32\<close> wherever the program computes one that can leave the range, \<open>size\_t\<close> is \<open>size64\<close>, \<open>/\<close> and \<open>%\<close> truncate;
  \<open>CLib\<close> defines \<open>strtol\<close>, \<open>%d\<close>, the status word of \<open>wait\<close> and the numbers of errors and signals as glibc has them.
  Every program takes the constants of the library's header as \<open>pip\_h\<close>, and what an uninitialised variable holds as a
  parameter. All of it is executable; \<open>prog\_simps\<close> and \<open>strtol\_eval\<close> run a program in the simplifier.

  \<^bold>\<open>Four ways to state a property.\<close>
  \<^item> \<open>run\<close>, \<open>outcome\<close>, \<open>trace\<close> and \<open>calls\<close> run a program in an \<^emph>\<open>environment\<close>, any state machine that answers calls
    (a total one answers all of them). The calculi \<open>wlp\<close> and \<open>wpt\<close> prove facts that hold in every environment, of the
    result and of the calls made.
  \<^item> \<open>Plans\<close>: a plan is what a test is to call, with its arguments and in its order, and what each call has to answer. A test
    decides its plan (\<open>decides\<close>) when it passes if and only if its trace follows the plan (\<open>follows\<close>), so that a call left out,
    repeated, moved or made with other arguments, or an answer that is not checked, refutes the theorem. \<open>WaitTests\<close>,
    \<open>ApiTests\<close> and \<open>ApiLoops\<close> state plans; \<open>LifeTests\<close> and \<open>ChainTests\<close> list their calls in the same way.
  \<^item> Locales state what a program needs of its environment (\<open>environment\<close>, \<open>aux\_tasks\<close>, \<open>heap\_swap\<close>, \<open>collector\<close>);
    each is interpreted in the theory of the program, on a concrete environment or on the program's own loops.
  \<^item> \<open>Spmd\<close>: several tasks interleave. A step (\<open>step\<close>) is one call of one task on the shared state (\<open>sem\<close>; None is a blocked
    call) or the release of a barrier (\<open>release\<close>); which one is not determined. The locale \<open>barrier\<close> is the contract of a
    barrier. A theorem about all interleavings says what holds where no step is left, so that no run gets stuck before; where
    it says besides that every run ends (\<open>accp\<close> of the step relation), that rests on programs being well-founded trees. \<open>Spmd\<close>, \<open>Segments\<close>, \<open>Counting\<close>, \<open>Relay\<close> and \<open>Places\<close> are the ways to prove that,
    from special to general: between two barriers nothing is shared or one task works alone; a chain of such segments;
    the counting loop of the barrier tests; a turn that is handed around; an invariant over the places the tasks are at
    with a rank that every step lowers.

  \<^bold>\<open>The theories, and the programs they model.\<close>
  \<^item> \<open>Prelude\<close> collections of rules, generic lemmas; \<open>CLib\<close>, \<open>CProg\<close>, \<open>Spmd\<close>, \<open>Segments\<close>, \<open>Counting\<close>, \<open>Relay\<close>, \<open>Places\<close> as above.
  \<^item> \<open>TestH\<close>: \<open>include/test.h\<close>. Exit codes, the names of signals and back (a round trip; no read outside the array of
    the names), handlers, helpers that print files. \<open>Args\<close>: the opening most tests share word for word.
  \<^item> \<open>Timer\<close>: \<open>utils/timer.c\<close>. It reports the exit code of its child, expires once its time is over and never signals
    a process group that is not its own. \<open>TaskDriver\<close>: \<open>utils/pip\_task.c\<close> and \<open>utils/pip\_blt.c\<close>, the calls they make in order, the code
    they report, the queue every task gets. \<open>verdict\_travels\<close>, below, puts timer, both halves of \<open>pip-task\<close> and the tasks together.
  \<^item> \<open>WaitTests\<close>: \<open>basics/pip\_wait.c\<close>, \<open>pip\_trywait.c\<close>, \<open>pip\_wait\_any.c\<close>, \<open>pip\_trywait\_any.c\<close>: the first decides
    its plan (each task is collected once and then found gone) and accepts a library that keeps its table of tasks; soundness of
    the other verdicts. \<open>InitTests\<close>, \<open>ApiTests\<close>: \<open>basics/pip\_init.c\<close> (its table of tests against a
    look-up), \<open>pip\_spawn.c\<close>, \<open>pip\_task\_spawn.c\<close>, \<open>pip\_misc.c\<close>. \<open>EndTests\<close>: \<open>basics/end.c\<close>, eight ways to end and the hooks called.
    \<open>LifeTests\<close>: \<open>basics/pip\_fin.c\<close>, \<open>spawn\_pie.c\<close>, \<open>pip\_abort.c\<close>, \<open>pip\_exit.c\<close>, \<open>exit.c\<close>, \<open>return.c\<close>.
    \<open>AuxTests\<close>: \<open>basics/pip\_aux.c\<close>. \<open>CoreBind\<close>: \<open>basics/corebind.c\<close>. \<open>ChainTests\<close>: \<open>basics/hook\_and\_coe.c\<close>.
    \<open>EnvironTests\<close>: \<open>compat/environ.c\<close>. \<open>HeapTests\<close>: \<open>compat/malloc-x.c\<close>, \<open>memalign-x.c\<close>, \<open>realloc-x.c\<close>, their locks as a typestate.
  \<^item> All interleavings: \<open>BarrierTests\<close> (\<open>basics/pip\_barrier.c\<close>, \<open>pip\_barrier2.c\<close>, \<open>blt/pip\_barrier.c\<close>), \<open>Seek\<close>,
    \<open>SeekFile\<close>, \<open>SeekTurns\<close> (\<open>basics/seek.c\<close>: the file holds the lines of all turns in order), \<open>KillTests\<close>, \<open>KillRing\<close>
    (\<open>basics/pip\_kill.c\<close>: signals round a ring), \<open>NameRing\<close> (\<open>basics/pip\_namexp.c\<close>: an address round a ring, by names exported
    and imported), \<open>ForkTests\<close>, \<open>ForkRuns\<close> (\<open>compat/fork.c\<close>: a table of children that tasks share), \<open>MutexTests\<close> (\<open>blt/pip\_mutex.c\<close>), \<open>PthreadMutex\<close>, \<open>PthreadTests\<close> (\<open>pthread/pthread\_mutex.c\<close>,
    \<open>pthread\_barrier.c\<close>), \<open>AtomicTests\<close>, \<open>SpinTests\<close> (\<open>porting/atomic.c\<close>, \<open>spinlock.c\<close>), \<open>TlsTests\<close>
    (\<open>porting/tls.c\<close>: registers and variables of threads, and the order of what they print), \<open>PageFault\<close> (\<open>compat/pagefault.c\<close>).
    \<open>PthreadTests\<close> runs main together with the threads it creates: the barrier's count is the one main sets up.
    In each, the record of the shared state stands for what the library or the system keeps (the count, the owner of a
    mutex, pending signals, the exports, the pages mapped), and the function named \<open>\_sem\<close> is its documented behaviour; the
    programs themselves are taken as they are, not abstracted: the places or phases only cut them into pieces.
  \<^item> \<open>ApiLoops\<close>: tests that repeat calls (\<open>blt/pip\_yield.c\<close>, \<open>migrate.c\<close>, \<open>pip\_couple.c\<close>, \<open>pthread/pthread.c\<close>,
    \<open>pthread\_exit.c\<close>, \<open>compat/sigchld.c\<close>, \<open>sid.c\<close>, \<open>getaddrinfo.c\<close> and five shorter ones): thirteen programs with
    their plans, every round of their loops included.
    \<open>Programs\<close>: \<open>bin/abc.c\<close>, of which \<open>prog/abc.c\<close> is a copy, \<open>pipcc\<close>, \<open>utils/dlmopen\_count.c\<close>, \<open>clone\_check.c\<close>, \<open>compat/const\_destruct.c\<close>,
    \<open>getpwnam.c\<close>, \<open>malloc.c\<close>; the theorem on \<open>abc\<close> shows it read past the end of its arguments, that on \<open>malloc\<close> that the
    free memory it looks up has no influence. \<open>CxxTests\<close>: \<open>cxx/cxx.cc\<close>, its objects and the array that holds them.
  The names of definitions are those of the source where there is one; a loop body or a block is named after its function.

  \<^bold>\<open>Fuel and bounds.\<close> A loop that may run for ever (\<open>while( wait(..) != pid )\<close>, polling, spinning) takes \<open>fuel\<close>, and running
  out of it is the value None, which no C run has. \<open>timer\_reports\_child\<close>, \<open>pip\_task\_reports\_child\<close>, \<open>dlmopen\_count\_bounded\<close>
  \<open>fork\_correct\<close> and \<open>malloc\_passes\<close> say how much is enough; theorems on passed tests speak of runs that return a value; \<open>spin\_correct\<close>
  names the end by lack of fuel as one of its cases, since a spinning thread depends on the scheduler. The theorems on
  interleavings are for any number of tasks and iterations; where the program keeps counts in an \<open>int\<close>, the number of
  tasks is bounded by \<open>2 ^ 31\<close>, or the result is stated up to wrap-around.

  \<^bold>\<open>Not modelled.\<close> What the programs print on the way (a call without a result stands for it where its order matters);
  the insides of the library, the system and the pthread library; floating-point arithmetic (load averages in hundredths,
  the sizes of \<open>malloc.c\<close> a parameter); signals that arrive at arbitrary points, except where a program waits for them;
  programs that print one line, register a hook that compares two calls of \<open>getpid\<close>, compare floating-point times, spin for
  ever or reproduce crashes (\<open>issues\<close>, \<open>debug\<close>); Fortran and OpenMP sources; the shell
  scripts and the build system.
\<close>

section \<open>The way of a verdict\<close>

text \<open>The status by which the system reports the end of a program; None for one that does not end.\<close>

definition wait_status :: "int option outcome \<Rightarrow> status option" where
  "wait_status x = (case x of
       Returned v \<Rightarrow> map_option exited v
     | Halted (Exit v) \<Rightarrow> Some (exited v) | Halted (Uexit v) \<Rightarrow> Some (exited v) | Halted (Fault sig) \<Rightarrow> Some (signaled sig)
     | NoReturn c \<Rightarrow> None)"

text \<open>The answers to the forked half of \<open>pip-task\<close>: the calls succeed, task \<open>i\<close> ends with status \<open>sts i\<close>.\<close>

definition forked_answers :: "int \<Rightarrow> (int \<Rightarrow> status) \<Rightarrow> call \<Rightarrow> resp \<Rightarrow> bool" where
  "forked_answers ncpus sts c r \<longleftrightarrow> driver_answers ncpus sts c r \<and> (c = Sys Fork \<longrightarrow> rv r = 0) \<and>
     (c = Sys (Getenv ''NTASKS'') \<longrightarrow> strv r = None) \<and> (c = Sys (Sigaction SIGINT ''sigint_watcher'') \<longrightarrow> rv r = 0)"

lemma forked_half:
  assumes "coop (forked_answers ncpus sts) e" "3 \<le> length argv" "0 < atoi32 (argv ! 1)" "atoi32 (argv ! 1) \<le> NTASKS h"
  shows "outcome (pip_task_main h fuel argv) e w = Returned (Some (valid_code (kept (task_extval \<circ> sts) (atoi32 (argv ! 1)))))"
proof -
  let ?w1 = "after e w (Sys Setpgid)"
  let ?w2 = "after e ?w1 (Sys (Sigaction SIGINT ''sigint_watcher''))"
  let ?w3 = "after e ?w2 (Sys (Getenv ''NTASKS''))"
  have A: "rv (answer e ?w1 (Sys (Sigaction SIGINT ''sigint_watcher''))) = 0"
    "strv (answer e ?w2 (Sys (Getenv ''NTASKS''))) = None" "rv (answer e ?w3 (Sys Fork)) = 0"
    using coop_answer [OF assms(1), of "Sys (Sigaction SIGINT ''sigint_watcher'')" ?w1]
      coop_answer [OF assms(1), of "Sys (Getenv ''NTASKS'')" ?w2] coop_answer [OF assms(1), of "Sys Fork" ?w3]
    by (simp_all add: forked_answers_def)
  have "coop (driver_answers ncpus sts) e" using assms(1) by (auto simp: coop_def answers_def forked_answers_def)
  note S = spawn_tasks_result [OF this, of "atoi32 (argv ! 1)" h "argv ! 2" "after e ?w3 (Sys Fork)"]
  show ?thesis
    using A S assms(2-4)
    by (simp add: pip_task_main_def set_sigint_watcher_def chk_def chkv_def Let_def coop_simps [OF assms(1)] outcome_bind
        del: outcome_simps(3))
qed

lemma valid_code_0: "valid_code v = 0 \<longleftrightarrow> v = 0"
  by (auto simp: valid_code_def exit_defs)

text \<open>C6: the verdict of a test that runs as tasks of \<open>pip-task\<close> under \<open>timer\<close>. The forked half of \<open>pip-task\<close> spawns the tasks and
collects their exit values, the other half waits for it, the timer waits for that one; whatever else is waited for, and however often the
waits are interrupted, the timer exits with the first exit value that is not zero, if it is one of the eight codes of the suite (EXIT\_FAIL
otherwise): with EXIT\_PASS exactly when every task has exited with code 0.\<close>

theorem verdict_travels:
  assumes "3 \<le> length argv" "0 < atoi32 (argv ! 1)" "atoi32 (argv ! 1) \<le> NTASKS h" "3 \<le> length targv"
    and "coop (forked_answers ncpus sts) ea" "wait_status (outcome (pip_task_main h fa argv) ea wa) = Some s1"
    and "coop (parent_answers p s1) eb" "other_children p mb eb" "mb wb < fb" "0 < p"
    and "wait_status (outcome (pip_task_main h fb argv) eb wb) = Some s2"
    and "coop (timer_answers s2) ec" "uses_up mc ec" "mc wc < fc"
  shows "outcome (timer_main h pips piplib fc targv) ec wc =
      Halted (Exit (valid_code (kept (task_extval \<circ> sts) (atoi32 (argv ! 1))))) \<and>
    (outcome (timer_main h pips piplib fc targv) ec wc = Halted (Exit EXIT_PASS) \<longleftrightarrow>
      (\<forall>i. 0 \<le> i \<and> i < atoi32 (argv ! 1) \<longrightarrow> WIFEXITED (sts i) \<and> WEXITSTATUS (sts i) = 0))"
proof -
  let ?n = "atoi32 (argv ! 1)" and ?v = "valid_code (kept (task_extval \<circ> sts) (atoi32 (argv ! 1)))"
  have v: "?v mod 256 = ?v" using valid_code_range [of "kept (task_extval \<circ> sts) ?n"] by simp
  have s1: "s1 = exited ?v" using assms(6) forked_half [OF assms(5,1-3), of fa wa] by (simp add: wait_status_def)
  have "outcome (pip_task_main h fb argv) eb wb = Returned (Some ?v)"
    using pip_task_code [where m = mb, OF assms(7-10) assms(1-3)] s1 v by simp
  then have s2: "s2 = exited ?v" using assms(11) by (simp add: wait_status_def)
  have "total ec" "answers (timer_answers s2) ec" using assms(12) by (simp_all add: coop_def)
  from timer_exit_code [where m = mc, OF this assms(13,14,4)] s2 v
  have "outcome (timer_main h pips piplib fc targv) ec wc = Halted (Exit ?v)" by simp
  moreover have "?v = EXIT_PASS \<longleftrightarrow> (\<forall>i. 0 \<le> i \<and> i < ?n \<longrightarrow> WIFEXITED (sts i) \<and> WEXITSTATUS (sts i) = 0)"
    by (simp add: EXIT_PASS_def valid_code_0 kept_0_iff task.ext_0)
  ultimately show ?thesis by simp
qed

text \<open>Four tasks, the second of which exits with code 3.\<close>

definition waits_for_child :: "int \<Rightarrow> int \<Rightarrow> call \<Rightarrow> resp" where
  "waits_for_child p code c = (if c = Sys Fork then ok\<lparr>rv := p\<rparr>
     else if c = Sys Wait then ok\<lparr>rv := p, o1 := Some (exited code)\<rparr> else ok)"

lemma waits_for_child_ok: "0 < p \<Longrightarrow> coop (parent_answers p (exited code)) (reply (waits_for_child p code))"
    "0 < p \<Longrightarrow> coop (timer_answers (exited code)) (reply (waits_for_child p code))"
    "other_children p (\<lambda>_. 0) (reply (waits_for_child p code))" "0 < p \<Longrightarrow> uses_up (\<lambda>_. 0) (reply (waits_for_child p code))"
proof -
  show "coop (parent_answers p (exited code)) (reply (waits_for_child p code))"
  proof (rule coop_reply)
    fix c show "parent_answers p (exited code) c (waits_for_child p code c)"
      by (cases "(p, exited code, c, ok)" rule: parent_answers.cases) (simp_all add: waits_for_child_def)
  qed
  show "coop (timer_answers (exited code)) (reply (waits_for_child p code))" if "0 < p"
  proof (rule coop_reply)
    fix c show "timer_answers (exited code) c (waits_for_child p code c)"
      using that by (cases "(exited code, c, ok)" rule: timer_answers.cases) (simp_all add: waits_for_child_def)
  qed
qed (auto simp: other_children_def uses_up_def nonincreasing_def waits_for_child_def)

lemma verdict_travels_witness:
  "outcome (timer_main h_sample ''pips'' ''piplib'' 1 [''timer'', ''9'', ''pip-task'']) (reply (waits_for_child 8 3)) () = Halted (Exit 3)"
proof -
  let ?a = "[''pip-task'', ''4'', ''prog'']"
  have n: "3 \<le> length ?a" "0 < atoi32 (?a ! 1)" "atoi32 (?a ! 1) \<le> NTASKS h_sample" "atoi32 (?a ! 1) = 4"
    by (simp_all add: strtol_eval NTASKS_def h_sample_def)
  have f: "coop (forked_answers 3 sts_sample) (reply (driver_reply 3 sts_sample))"
  proof (rule coop_reply)
    fix c
    have "driver_answers 3 sts_sample c (driver_reply 3 sts_sample c)"
      by (cases "(3 :: int, sts_sample, c, ok)" rule: driver_answers.cases) (simp_all add: driver_reply_def)
    then show "forked_answers 3 sts_sample c (driver_reply 3 sts_sample c)" by (simp add: forked_answers_def driver_reply_def)
  qed
  have k: "kept (task_extval \<circ> sts_sample) 4 = 3" by (simp add: kept_def upto.simps sts_sample_def task_extval_def)
  have s1: "wait_status (outcome (pip_task_main h_sample 0 ?a) (reply (driver_reply 3 sts_sample)) ()) = Some (exited 3)"
    using forked_half [OF f n(1-3), of 0 "()"] n(4) k by (simp add: wait_status_def valid_code_id)
  have s2: "wait_status (outcome (pip_task_main h_sample 1 ?a) (reply (waits_for_child 7 3)) ()) = Some (exited 3)"
    using pip_task_code [where p = 7 and fuel = 1 and w = "()", OF waits_for_child_ok(1) [where code = 3] waits_for_child_ok(3) _ _ n(1-3)] by (simp add: wait_status_def)
  show ?thesis
    using verdict_travels [where p = 7 and targv = "[''timer'', ''9'', ''pip-task'']" and h = h_sample and wc = "()" and fc = 1 and wb = "()",
        OF n(1-3) _ f s1 waits_for_child_ok(1) waits_for_child_ok(3) _ _ s2 waits_for_child_ok(2) [of 8] waits_for_child_ok(4) [of 8]]
      n(4) k by (simp add: valid_code_id)
qed

end
